(* ===== verification/Prelude.thy ===== *)
theory Prelude
  imports Main "HOL-Library.Word" "HOL-Library.Char_ord" "HOL-Library.List_Lexorder"
    "HOL-Library.Product_Lexorder" "HOL-Library.Sublist" "HOL-Library.Multiset"
begin

text \<open>
  Shared vocabulary of the development: machine integers, fallible results, sorted association
  lists (the source's \<open>BTreeMap\<close>), decimal and ASCII text, and the simplification rules the
  component proofs use.  Nothing here is specific to one component of the program.

  A Rust \<open>Result<T>\<close> is \<open>'a res\<close>: \<open>Inl\<close> carries the error message, \<open>Inr\<close> the value.
  A Rust \<open>String\<close> is \<open>string\<close>; texts are ASCII, as every text the program compares is.
\<close>

section \<open>Types\<close>

type_synonym byte = "8 word"
type_synonym u32 = "32 word"
type_synonym u64 = "64 word"
type_synonym bytes = "byte list"
type_synonym 'a res = "string + 'a"

named_theorems res_simps \<open>inversion of fallible computations that returned a value\<close>
named_theorems bt_simps \<open>look-ups in sorted association lists\<close>

section \<open>Fallible computations\<close>

definition bnd :: "'a res \<Rightarrow> ('a \<Rightarrow> 'b res) \<Rightarrow> 'b res" where
  "bnd m f = (case m of Inl e \<Rightarrow> Inl e | Inr x \<Rightarrow> f x)"

definition ensure :: "bool \<Rightarrow> string \<Rightarrow> 'a res \<Rightarrow> 'a res" where
  "ensure c msg r = (if c then r else Inl msg)"

definition context_res :: "'a option \<Rightarrow> string \<Rightarrow> 'a res" where
  "context_res x msg = (case x of None \<Rightarrow> Inl msg | Some v \<Rightarrow> Inr v)"

definition map_err :: "(string \<Rightarrow> string) \<Rightarrow> 'a res \<Rightarrow> 'a res" where
  "map_err f r = (case r of Inl e \<Rightarrow> Inl (f e) | Inr x \<Rightarrow> Inr x)"

definition is_ok :: "'a res \<Rightarrow> bool" where
  "is_ok r = (case r of Inl _ \<Rightarrow> False | Inr _ \<Rightarrow> True)"

fun fold_res :: "('a \<Rightarrow> 's \<Rightarrow> 's res) \<Rightarrow> 'a list \<Rightarrow> 's \<Rightarrow> 's res" where
  "fold_res f [] s = Inr s"
| "fold_res f (x # xs) s = bnd (f x s) (fold_res f xs)"

fun map_res :: "('a \<Rightarrow> 'b res) \<Rightarrow> 'a list \<Rightarrow> 'b list res" where
  "map_res f [] = Inr []"
| "map_res f (x # xs) = bnd (f x) (\<lambda>y. bnd (map_res f xs) (\<lambda>ys. Inr (y # ys)))"

lemma bnd_simps [simp]:
  "bnd (Inl e) f = Inl e"
  "bnd (Inr x) f = f x"
  by (simp_all add: bnd_def)

lemma bnd_Inr_iff [res_simps]: "bnd m f = Inr y \<longleftrightarrow> (\<exists>x. m = Inr x \<and> f x = Inr y)"
  by (cases m) auto

lemma ensure_simps [simp]:
  "ensure True msg r = r"
  "ensure False msg r = Inl msg"
  by (simp_all add: ensure_def)

lemma ensure_Inr_iff [res_simps]: "ensure c msg r = Inr y \<longleftrightarrow> c \<and> r = Inr y"
  by (simp add: ensure_def)

lemma context_res_simps [simp]:
  "context_res None msg = Inl msg"
  "context_res (Some v) msg = Inr v"
  by (simp_all add: context_res_def)

lemma context_res_Inr_iff [res_simps]: "context_res x msg = Inr v \<longleftrightarrow> x = Some v"
  by (cases x) auto

lemma map_err_Inr_iff [res_simps]: "map_err f r = Inr v \<longleftrightarrow> r = Inr v"
  by (cases r) (auto simp: map_err_def)

lemma map_err_simps [simp]: "map_err f (Inr v) = Inr v" "map_err f (Inl e) = Inl (f e)"
  by (simp_all add: map_err_def)

lemma is_ok_simps [simp]: "is_ok (Inl e) = False" "is_ok (Inr v) = True"
  by (simp_all add: is_ok_def)

lemma is_ok_iff: "is_ok r \<longleftrightarrow> (\<exists>v. r = Inr v)"
  by (cases r) auto

lemma fold_res_append:
  "fold_res f (xs @ ys) s = bnd (fold_res f xs s) (fold_res f ys)"
proof (induction xs arbitrary: s)
  case Nil
  show ?case by simp
next
  case (Cons x xs)
  then show ?case by (cases "f x s") simp_all
qed

lemma fold_res_pure:
  assumes "\<And>x s. x \<in> set xs \<Longrightarrow> f x s = Inr (g x s)"
  shows "fold_res f xs s = Inr (fold g xs s)"
  using assms by (induction xs arbitrary: s) simp_all

lemma fold_res_invariant:
  assumes "fold_res f xs s = Inr t" and "P s"
    and "\<And>x s t. x \<in> set xs \<Longrightarrow> P s \<Longrightarrow> f x s = Inr t \<Longrightarrow> P t"
  shows "P t"
  using assms
proof (induction xs arbitrary: s)
  case Nil
  then show ?case by simp
next
  case (Cons x xs)
  from Cons.prems(1) obtain u where u: "f x s = Inr u" "fold_res f xs u = Inr t"
    by (auto simp: res_simps)
  have "P u" using Cons.prems(2,3) u(1) by (meson list.set_intros(1))
  with u(2) show ?case using Cons.IH Cons.prems(3) by (meson list.set_intros(2))
qed

lemma map_res_Inr_iff:
  "map_res f xs = Inr ys \<longleftrightarrow> list_all2 (\<lambda>x y. f x = Inr y) xs ys"
  by (induction xs arbitrary: ys) (auto simp: res_simps list_all2_Cons1)

lemma map_res_length: "map_res f xs = Inr ys \<Longrightarrow> length ys = length xs"
  by (auto simp: map_res_Inr_iff dest: list_all2_lengthD)

lemma map_res_set: "map_res f xs = Inr ys \<Longrightarrow> y \<in> set ys \<longleftrightarrow> (\<exists>x \<in> set xs. f x = Inr y)"
proof (induction xs arbitrary: ys)
  case Nil
  then show ?case by simp
next
  case (Cons x xs)
  then show ?case by (fastforce simp: res_simps)
qed

section \<open>Sorted association lists\<close>

text \<open>
  A \<open>BTreeMap\<close> is kept as the list of its entries in key order: iteration order is then the
  list itself, and \<open>insert\<close> replaces the value of an existing key.
\<close>

type_synonym ('k, 'v) btree = "('k \<times> 'v) list"

fun bt_insert :: "'k::linorder \<Rightarrow> 'v \<Rightarrow> ('k, 'v) btree \<Rightarrow> ('k, 'v) btree" where
  "bt_insert k v [] = [(k, v)]"
| "bt_insert k v ((a, b) # m) =
     (if k < a then (k, v) # (a, b) # m
      else if k = a then (k, v) # m
      else (a, b) # bt_insert k v m)"

definition bt_values :: "('k, 'v) btree \<Rightarrow> 'v list" where
  "bt_values m = map snd m"

definition bt_retain :: "('k \<Rightarrow> 'v \<Rightarrow> bool) \<Rightarrow> ('k, 'v) btree \<Rightarrow> ('k, 'v) btree" where
  "bt_retain p m = filter (\<lambda>(k, v). p k v) m"

definition bt_of_list :: "('k::linorder \<times> 'v) list \<Rightarrow> ('k, 'v) btree" where
  "bt_of_list kvs = fold (\<lambda>(k, v). bt_insert k v) kvs []"

abbreviation bt_ok :: "('k::linorder, 'v) btree \<Rightarrow> bool" where
  "bt_ok m \<equiv> sorted_wrt (<) (map fst m)"

lemma map_of_bt_insert [simp, bt_simps]: "map_of (bt_insert k v m) = (map_of m)(k \<mapsto> v)"
  by (induction m) auto

lemma keys_bt_insert [simp]: "fst ` set (bt_insert k v m) = insert k (fst ` set m)"
  by (simp flip: dom_map_of_conv_image_fst)

lemma bt_ok_insert [simp, intro]: "bt_ok m \<Longrightarrow> bt_ok (bt_insert k v m)"
proof (induction m)
  case Nil
  show ?case by simp
next
  case (Cons e m)
  obtain a b where e: "e = (a, b)" by (cases e)
  have keys: "set (map fst (bt_insert k v m)) = insert k (set (map fst m))"
    using keys_bt_insert [of k v m] by simp
  show ?case using Cons keys by (auto simp: e)
qed

lemma bt_ok_retain [simp, intro]: "bt_ok m \<Longrightarrow> bt_ok (bt_retain p m)"
  by (induction m) (auto simp: bt_retain_def)

lemma bt_ok_distinct: "bt_ok m \<Longrightarrow> distinct (map fst m)"
  by (simp add: strict_sorted_iff)

lemma map_of_bt_retain [bt_simps]:
  "bt_ok m \<Longrightarrow> map_of (bt_retain p m) k =
     (case map_of m k of None \<Rightarrow> None | Some v \<Rightarrow> if p k v then Some v else None)"
proof (induction m)
  case Nil
  show ?case by (simp add: bt_retain_def)
next
  case (Cons e m)
  obtain a b where e: "e = (a, b)" by (cases e)
  have "a \<notin> fst ` set m" using Cons.prems by (auto simp: e)
  then have "map_of m a = None" by (simp add: map_of_eq_None_iff)
  then show ?case using Cons by (auto simp: e bt_retain_def split: option.splits)
qed

lemma set_bt_values:
  "bt_ok m \<Longrightarrow> v \<in> set (bt_values m) \<longleftrightarrow> (\<exists>k. map_of m k = Some v)"
  by (drule bt_ok_distinct) (force simp: bt_values_def map_of_eq_Some_iff image_iff)

lemma bt_ok_fold_insert:
  "bt_ok m \<Longrightarrow> bt_ok (fold (\<lambda>x. bt_insert (k x) (v x)) xs m)"
  by (induction xs arbitrary: m) auto

text \<open>The last insertion under a key wins.\<close>

fun last_val :: "('a \<Rightarrow> 'k) \<Rightarrow> ('a \<Rightarrow> 'v) \<Rightarrow> 'a list \<Rightarrow> 'k \<Rightarrow> 'v option" where
  "last_val k v [] q = None"
| "last_val k v (x # xs) q =
     (case last_val k v xs q of Some r \<Rightarrow> Some r | None \<Rightarrow> if k x = q then Some (v x) else None)"

lemma last_val_append:
  "last_val k v (xs @ ys) q =
     (case last_val k v ys q of Some r \<Rightarrow> Some r | None \<Rightarrow> last_val k v xs q)"
  by (induction xs) (auto split: option.splits)

lemma last_val_None_iff: "last_val k v xs q = None \<longleftrightarrow> (\<forall>x \<in> set xs. k x \<noteq> q)"
  by (induction xs) (auto split: option.splits)

lemma last_val_SomeD:
  "last_val k v xs q = Some r \<Longrightarrow>
     \<exists>ys x zs. xs = ys @ x # zs \<and> k x = q \<and> r = v x \<and> (\<forall>z \<in> set zs. k z \<noteq> q)"
proof (induction xs)
  case Nil
  then show ?case by simp
next
  case (Cons a xs)
  show ?case
  proof (cases "last_val k v xs q")
    case None
    with Cons.prems have "k a = q" "r = v a" by (auto split: if_splits)
    with None show ?thesis by (auto simp: last_val_None_iff intro!: exI [of _ "[]"])
  next
    case (Some r')
    with Cons obtain ys x zs where "xs = ys @ x # zs" "k x = q" "r = v x" "\<forall>z \<in> set zs. k z \<noteq> q"
      by auto
    then show ?thesis by (intro exI [of _ "a # ys"] exI [of _ x] exI [of _ zs]) simp
  qed
qed

lemma last_val_Some_iff:
  "last_val k v xs q = Some r \<longleftrightarrow>
     (\<exists>ys x zs. xs = ys @ x # zs \<and> k x = q \<and> r = v x \<and> (\<forall>z \<in> set zs. k z \<noteq> q))"
proof
  assume "\<exists>ys x zs. xs = ys @ x # zs \<and> k x = q \<and> r = v x \<and> (\<forall>z \<in> set zs. k z \<noteq> q)"
  then obtain ys x zs where x: "xs = ys @ x # zs" "k x = q" "r = v x" "\<forall>z \<in> set zs. k z \<noteq> q"
    by blast
  then have "last_val k v zs q = None" by (simp add: last_val_None_iff)
  with x show "last_val k v xs q = Some r" by (simp add: last_val_append)
qed (rule last_val_SomeD)

lemma last_val_ex:
  "(\<exists>q. last_val k v xs q = Some r \<and> P q r) \<longleftrightarrow>
     (\<exists>ys x zs. xs = ys @ x # zs \<and> r = v x \<and> (\<forall>z \<in> set zs. k z \<noteq> k x) \<and> P (k x) (v x))"
  unfolding last_val_Some_iff by blast

lemma map_of_fold_bt_insert:
  "map_of (fold (\<lambda>x. bt_insert (k x) (v x)) xs m) q =
     (case last_val k v xs q of Some r \<Rightarrow> Some r | None \<Rightarrow> map_of m q)"
  by (induction xs arbitrary: m) (auto split: option.splits)

section \<open>Sorting by a key\<close>

lemma sort_map: "sort (map g xs) = map g (sort_key g xs)"
  by (rule properties_for_sort) (simp_all add: sorted_sort_key)

lemma set_fold_insert: "set (fold List.insert xs ys) = set ys \<union> set xs"
  by (induction xs arbitrary: ys) auto

lemma distinct_fold_insert: "distinct ys \<Longrightarrow> distinct (fold List.insert xs ys)"
  by (induction xs arbitrary: ys) auto

section \<open>Unsigned 64-bit arithmetic\<close>

definition u64_max :: u64 where
  "u64_max = - 1"

definition checked_add :: "u64 \<Rightarrow> u64 \<Rightarrow> u64 option" where
  "checked_add a b = (if unat a + unat b < 2 ^ 64 then Some (a + b) else None)"

definition saturating_add :: "u64 \<Rightarrow> u64 \<Rightarrow> u64" where
  "saturating_add a b = (if unat a + unat b < 2 ^ 64 then a + b else u64_max)"

definition saturating_sub :: "u64 \<Rightarrow> u64 \<Rightarrow> u64" where
  "saturating_sub a b = (if b \<le> a then a - b else 0)"

lemma checked_add_Some_iff:
  "checked_add a b = Some c \<longleftrightarrow> unat a + unat b < 2 ^ 64 \<and> unat c = unat a + unat b"
proof -
  have "unat (a + b) = unat a + unat b" if "unat a + unat b < 2 ^ 64"
    using that by (simp add: unat_word_ariths)
  then show ?thesis by (auto simp: checked_add_def word_unat_eq_iff)
qed

lemma unat_saturating_add: "unat (saturating_add a b) = min (unat a + unat b) (2 ^ 64 - 1)"
proof -
  have "unat u64_max = 2 ^ 64 - 1" by (simp add: u64_max_def unsigned_minus_1_eq_mask mask_eq_exp_minus_1)
  then show ?thesis by (auto simp: saturating_add_def unat_word_ariths)
qed

lemma unat_saturating_sub: "unat (saturating_sub a b) = unat a - unat b"
  by (auto simp: saturating_sub_def unat_sub word_le_nat_alt)

lemma u64_bound: "unat (a :: u64) < 2 ^ 64"
  using unsigned_less [of a] by simp

section \<open>ASCII and decimal text\<close>

definition is_digit :: "char \<Rightarrow> bool" where
  "is_digit c \<longleftrightarrow> CHR ''0'' \<le> c \<and> c \<le> CHR ''9''"

definition is_lower_hex :: "char \<Rightarrow> bool" where
  "is_lower_hex c \<longleftrightarrow> is_digit c \<or> CHR ''a'' \<le> c \<and> c \<le> CHR ''f''"

definition is_hexdigit :: "char \<Rightarrow> bool" where
  "is_hexdigit c \<longleftrightarrow> is_lower_hex c \<or> CHR ''A'' \<le> c \<and> c \<le> CHR ''F''"

definition is_ascii_lowercase :: "char \<Rightarrow> bool" where
  "is_ascii_lowercase c \<longleftrightarrow> CHR ''a'' \<le> c \<and> c \<le> CHR ''z''"

definition is_ascii_alphabetic :: "char \<Rightarrow> bool" where
  "is_ascii_alphabetic c \<longleftrightarrow> is_ascii_lowercase c \<or> CHR ''A'' \<le> c \<and> c \<le> CHR ''Z''"

definition is_ascii_alphanumeric :: "char \<Rightarrow> bool" where
  "is_ascii_alphanumeric c \<longleftrightarrow> is_ascii_alphabetic c \<or> is_digit c"

definition is_whitespace :: "char \<Rightarrow> bool" where
  "is_whitespace c \<longleftrightarrow> of_char c = (32 :: nat) \<or> 9 \<le> (of_char c :: nat) \<and> of_char c \<le> (13 :: nat)"

definition to_ascii_lowercase :: "char \<Rightarrow> char" where
  "to_ascii_lowercase c =
     (if CHR ''A'' \<le> c \<and> c \<le> CHR ''Z'' then char_of (of_char c + 32 :: nat) else c)"

definition trim :: "string \<Rightarrow> string" where
  "trim s = rev (dropWhile is_whitespace (rev (dropWhile is_whitespace s)))"

definition strip_prefix :: "string \<Rightarrow> string \<Rightarrow> string option" where
  "strip_prefix p s = (if take (length p) s = p then Some (drop (length p) s) else None)"

fun split_on :: "(char \<Rightarrow> bool) \<Rightarrow> string \<Rightarrow> string list" where
  "split_on p [] = [[]]"
| "split_on p (c # cs) =
     (if p c then [] # split_on p cs
      else (case split_on p cs of [] \<Rightarrow> [[c]] | w # ws \<Rightarrow> (c # w) # ws))"

fun join :: "string \<Rightarrow> string list \<Rightarrow> string" where
  "join sep [] = []"
| "join sep [w] = w"
| "join sep (w # v # ws) = w @ sep @ join sep (v # ws)"

definition digit_val :: "char \<Rightarrow> nat" where
  "digit_val c = of_char c - 48"

definition dec_val :: "string \<Rightarrow> nat" where
  "dec_val s = foldl (\<lambda>n c. 10 * n + digit_val c) 0 s"

definition parse_u64 :: "string \<Rightarrow> u64 option" where
  "parse_u64 s =
     (let d = (if s \<noteq> [] \<and> hd s = CHR ''+'' then tl s else s) in
      if d \<noteq> [] \<and> list_all is_digit d \<and> dec_val d < 2 ^ 64 then Some (of_nat (dec_val d))
      else None)"

definition digit_char :: "nat \<Rightarrow> char" where
  "digit_char n = char_of (48 + n)"

fun show_nat :: "nat \<Rightarrow> string" where
  "show_nat n = (if n < 10 then [digit_char n] else show_nat (n div 10) @ [digit_char (n mod 10)])"

declare show_nat.simps [simp del]

definition show_u64 :: "u64 \<Rightarrow> string" where
  "show_u64 n = show_nat (unat n)"

lemma split_on_nonempty [simp]: "split_on p s \<noteq> []"
  by (induction s) (auto split: list.splits)

lemma split_on_word: "list_all (\<lambda>c. \<not> p c) w \<Longrightarrow> split_on p w = [w]"
  by (induction w) auto

lemma split_on_sep:
  "list_all (\<lambda>c. \<not> p c) w \<Longrightarrow> p c \<Longrightarrow> split_on p (w @ c # s) = w # split_on p s"
  by (induction w) auto

lemma split_join:
  "ws \<noteq> [] \<Longrightarrow> \<forall>w \<in> set ws. list_all (\<lambda>c. \<not> p c) w \<Longrightarrow> p c \<Longrightarrow> split_on p (join [c] ws) = ws"
  by (induction "[c]" ws rule: join.induct) (auto simp: split_on_word split_on_sep)

lemma of_char_digit_char: "n < 10 \<Longrightarrow> of_char (digit_char n) = (48 + n :: nat)"
  by (simp add: digit_char_def)

lemma digit_val_digit_char [simp]: "n < 10 \<Longrightarrow> digit_val (digit_char n) = n"
  by (simp add: digit_val_def of_char_digit_char)

lemma is_digit_iff: "is_digit c \<longleftrightarrow> 48 \<le> (of_char c :: nat) \<and> (of_char c :: nat) \<le> 57"
  by (simp add: is_digit_def less_eq_char_def)

lemma is_digit_digit_char [simp]: "n < 10 \<Longrightarrow> is_digit (digit_char n)"
  by (simp add: is_digit_iff of_char_digit_char)

lemma dec_val_snoc: "dec_val (s @ [c]) = 10 * dec_val s + digit_val c"
  by (simp add: dec_val_def)

lemma dec_val_show_nat [simp]: "dec_val (show_nat n) = n"
proof (induction n rule: show_nat.induct)
  case (1 n)
  show ?case
  proof (cases "n < 10")
    case True
    then show ?thesis by (simp add: show_nat.simps [of n] dec_val_def)
  next
    case False
    with 1 have "dec_val (show_nat (n div 10)) = n div 10" by simp
    with False show ?thesis by (simp add: show_nat.simps [of n] dec_val_snoc)
  qed
qed

lemma show_nat_digits: "list_all is_digit (show_nat n)"
proof (induction n rule: show_nat.induct)
  case (1 n)
  then show ?case by (cases "n < 10") (simp_all add: show_nat.simps [of n])
qed

lemma show_nat_nonempty [simp]: "show_nat n \<noteq> []"
  by (subst show_nat.simps) simp

lemma hd_digits_not_plus: "list_all is_digit s \<Longrightarrow> s \<noteq> [] \<Longrightarrow> hd s \<noteq> CHR ''+''"
  by (cases s) (auto simp: is_digit_def less_eq_char_def)

lemma parse_u64_digits:
  "list_all is_digit s \<Longrightarrow> s \<noteq> [] \<Longrightarrow>
     parse_u64 s = (if dec_val s < 2 ^ 64 then Some (of_nat (dec_val s)) else None)"
  using hd_digits_not_plus [of s] by (simp add: parse_u64_def)

lemma parse_show_u64 [simp]: "parse_u64 (show_u64 n) = Some n"
proof -
  have "unat n < 18446744073709551616" using u64_bound [of n] by simp
  then show ?thesis by (simp add: parse_u64_digits show_u64_def show_nat_digits)
qed

lemma show_u64_inject [simp]: "show_u64 a = show_u64 b \<longleftrightarrow> a = b"
  by (metis option.inject parse_show_u64)

text \<open>A decimal text without superfluous zeros is the text of its value.\<close>

definition canonical_dec :: "string \<Rightarrow> bool" where
  "canonical_dec s \<longleftrightarrow> s \<noteq> [] \<and> list_all is_digit s \<and> (s = ''0'' \<or> hd s \<noteq> CHR ''0'')"

lemma digit_val_lt: "is_digit c \<Longrightarrow> digit_val c < 10"
  by (auto simp: is_digit_iff digit_val_def)

lemma digit_char_digit_val: "is_digit c \<Longrightarrow> digit_char (digit_val c) = c"
  by (auto simp: is_digit_iff digit_val_def digit_char_def)

lemma digit_val_0: "is_digit c \<Longrightarrow> digit_val c = 0 \<longleftrightarrow> c = CHR ''0''"
proof
  assume "is_digit c" "digit_val c = 0"
  with digit_char_digit_val [of c] show "c = CHR ''0''"
    by (simp add: digit_char_def char_of_def bit_Suc_0_iff)
qed (simp add: digit_val_def)

lemma dec_val_pos: "list_all is_digit s \<Longrightarrow> s \<noteq> [] \<Longrightarrow> hd s \<noteq> CHR ''0'' \<Longrightarrow> 0 < dec_val s"
proof (induction s rule: rev_induct)
  case (snoc c s)
  then show ?case
    using digit_val_0 [of c] by (cases "s = []") (auto simp: dec_val_snoc dec_val_def)
qed simp

lemma show_dec_val:
  assumes "canonical_dec s"
  shows "show_nat (dec_val s) = s"
proof (cases "s = ''0''")
  case True
  then show ?thesis
    by (simp add: show_nat.simps dec_val_def digit_val_def digit_char_def char_of_def bit_Suc_0_iff)
next
  case False
  with assms have "list_all is_digit s" "s \<noteq> []" "hd s \<noteq> CHR ''0''" by (auto simp: canonical_dec_def)
  then show ?thesis
  proof (induction s rule: rev_induct)
    case (snoc c s)
    then have c: "is_digit c" "digit_val c < 10" by (simp_all add: digit_val_lt)
    show ?case
    proof (cases "s = []")
      case True
      with c show ?thesis by (simp add: show_nat.simps dec_val_def digit_char_digit_val)
    next
      case False
      with snoc have "0 < dec_val s" "show_nat (dec_val s) = s" by (simp_all add: dec_val_pos)
      with c show ?thesis
        by (subst show_nat.simps) (simp add: dec_val_snoc digit_char_digit_val)
    qed
  qed simp
qed

lemma canonical_show_nat: "canonical_dec (show_nat n)"
proof -
  have "show_nat n = ''0'' \<or> hd (show_nat n) \<noteq> CHR ''0''"
  proof (induction n rule: show_nat.induct)
    case (1 n)
    show ?case
    proof (cases "n < 10")
      case True
      then have "digit_char n = CHR ''0'' \<longrightarrow> n = 0"
        using digit_val_digit_char [OF True] by (auto simp: digit_val_def)
      with True show ?thesis
        by (auto simp: show_nat.simps [of n] digit_char_def char_of_def bit_Suc_0_iff)
    next
      case False
      have "show_nat (n div 10) \<noteq> ''0''"
      proof
        assume "show_nat (n div 10) = ''0''"
        then have "dec_val (show_nat (n div 10)) = dec_val ''0''" by simp
        also have "dec_val ''0'' = 0" by (simp add: dec_val_def digit_val_def)
        finally show False using False by simp
      qed
      with 1 False show ?thesis by (simp add: show_nat.simps [of n])
    qed
  qed
  then show ?thesis by (simp add: canonical_dec_def show_nat_digits)
qed

lemma canonical_dec_iff: "canonical_dec s \<longleftrightarrow> (\<exists>n. s = show_nat n)"
  by (metis canonical_show_nat show_dec_val)

end
