(* ===== verification/Hex_Codec.thy ===== *)
theory Hex_Codec
  imports Prelude
begin

text \<open>
  Hexadecimal text.  Encoding and decoding come from the \<open>hex\<close> crate, which is not part of the
  repository: the two functions are the fields of a record that the definitions of the
  development take as an argument.  The locale \<open>hex_codec\<close> states the documented behaviour
  (two lower-case digits per byte; decoding accepts either case and fails on everything else),
  the reference functions show that it can be met.
\<close>

record hexlib =
  hex_encode :: "bytes \<Rightarrow> string"
  hex_decode :: "string \<Rightarrow> bytes res"

definition hex_digit :: "nat \<Rightarrow> char" where
  "hex_digit n = (if n < 10 then char_of (48 + n) else char_of (87 + n))"

definition hex2 :: "byte \<Rightarrow> string" where
  "hex2 b = [hex_digit (unat b div 16), hex_digit (unat b mod 16)]"

lemma of_char_hex_digit:
  "n < 16 \<Longrightarrow> of_char (hex_digit n) = (if n < 10 then 48 + n else 87 + n :: nat)"
  by (simp add: hex_digit_def)

lemma hex_digit_inject:
  assumes mn: "m < 16" "n < 16"
  shows "hex_digit m = hex_digit n \<longleftrightarrow> m = n"
proof
  assume "hex_digit m = hex_digit n"
  then have "(of_char (hex_digit m) :: nat) = of_char (hex_digit n)" by simp
  with mn show "m = n" by (simp only: of_char_hex_digit) (simp split: if_splits)
qed simp

lemma is_lower_hex_hex_digit: "n < 16 \<Longrightarrow> is_lower_hex (hex_digit n)"
  by (auto simp: is_lower_hex_def is_digit_def less_eq_char_def of_char_hex_digit)

lemma to_lower_id: "is_lower_hex c \<Longrightarrow> to_ascii_lowercase c = c"
  by (auto simp: is_lower_hex_def to_ascii_lowercase_def is_digit_def less_eq_char_def)

lemma nibbles_lt: "unat (b :: byte) div 16 < 16" "unat (b :: byte) mod 16 < 16"
  using unsigned_less [of b, where ?'a = nat] by (simp_all add: less_mult_imp_div_less)

lemma hex2_inject [simp]: "hex2 a = hex2 b \<longleftrightarrow> a = b"
proof
  assume "hex2 a = hex2 b"
  then have "unat a div 16 = unat b div 16" "unat a mod 16 = unat b mod 16"
    by (simp_all add: hex2_def hex_digit_inject nibbles_lt)
  then have "unat a = unat b" by (metis div_mult_mod_eq)
  then show "a = b" by (simp add: word_unat_eq_iff)
qed simp

lemma set_hex2: "c \<in> set (hex2 b) \<Longrightarrow> is_lower_hex c"
  by (auto simp: hex2_def is_lower_hex_hex_digit nibbles_lt)

lemma length_hex2 [simp]: "length (hex2 b) = 2"
  by (simp add: hex2_def)

lemma concat_hex2_inject: "concat (map hex2 a) = concat (map hex2 b) \<longleftrightarrow> a = b"
proof (induction a arbitrary: b)
  case Nil
  show ?case by (cases b) (simp_all add: hex2_def)
next
  case (Cons x a)
  note IH = Cons
  show ?case
  proof (cases b)
    case Nil
    then show ?thesis by (simp add: hex2_def)
  next
    case (Cons y b')
    have "hex2 x @ concat (map hex2 a) = hex2 y @ concat (map hex2 b') \<longleftrightarrow>
        hex2 x = hex2 y \<and> concat (map hex2 a) = concat (map hex2 b')"
      by (rule append_eq_append_conv) simp
    with Cons IH show ?thesis by simp
  qed
qed

section \<open>The contract of the codec\<close>

locale hex_codec =
  fixes enc :: "bytes \<Rightarrow> string" and dec :: "string \<Rightarrow> bytes res"
  assumes enc_eq: "enc bs = concat (map hex2 bs)"
    and dec_iff: "dec s = Inr bs \<longleftrightarrow> map to_ascii_lowercase s = enc bs"
begin

lemma length_enc: "length (enc bs) = 2 * length bs"
  by (induction bs) (simp_all add: enc_eq)

lemma enc_inject: "enc a = enc b \<longleftrightarrow> a = b"
  by (simp add: enc_eq concat_hex2_inject)

lemma set_enc: "c \<in> set (enc bs) \<Longrightarrow> is_lower_hex c"
  by (auto simp: enc_eq dest: set_hex2)

lemma lower_enc: "map to_ascii_lowercase (enc bs) = enc bs"
  by (rule map_idI) (rule to_lower_id [OF set_enc])

lemma dec_enc: "dec (enc bs) = Inr bs"
  by (simp add: dec_iff lower_enc)

lemma dec_lower: "dec (map to_ascii_lowercase s) = Inr bs \<longleftrightarrow> dec s = Inr bs"
proof -
  have "to_ascii_lowercase (to_ascii_lowercase c) = to_ascii_lowercase c" for c
    by (auto simp: to_ascii_lowercase_def less_eq_char_def)
  then show ?thesis by (simp add: dec_iff o_def)
qed

lemma dec_inj: "dec s = Inr a \<Longrightarrow> dec s = Inr b \<Longrightarrow> a = b"
  by simp

lemma enc_append: "enc (a @ b) = enc a @ enc b"
  by (simp add: enc_eq)

end

abbreviation hex_ok :: "'x hexlib_scheme \<Rightarrow> bool" where
  "hex_ok X \<equiv> hex_codec (hex_encode X) (hex_decode X)"

section \<open>Reference functions\<close>

definition byte_of :: "nat \<Rightarrow> nat \<Rightarrow> byte" where
  "byte_of a b = of_nat (16 * a + b)"

definition ref_nibble :: "char \<Rightarrow> nat option" where
  "ref_nibble c = find (\<lambda>n. hex_digit n = to_ascii_lowercase c) [0..<16]"

fun ref_decode :: "string \<Rightarrow> bytes res" where
  "ref_decode [] = Inr []"
| "ref_decode [c] = Inl ''Odd number of digits''"
| "ref_decode (c # d # s) =
     (case (ref_nibble c, ref_nibble d) of
        (Some a, Some b) \<Rightarrow> bnd (ref_decode s) (\<lambda>bs. Inr (byte_of a b # bs))
      | _ \<Rightarrow> Inl ''Invalid character'')"

definition ref_encode :: "bytes \<Rightarrow> string" where
  "ref_encode bs = concat (map hex2 bs)"

definition ref_hex :: hexlib where
  "ref_hex = \<lparr>hex_encode = ref_encode, hex_decode = ref_decode\<rparr>"

lemma ref_nibble_iff:
  "ref_nibble c = Some n \<longleftrightarrow> n < 16 \<and> to_ascii_lowercase c = hex_digit n"
proof
  assume "ref_nibble c = Some n"
  then show "n < 16 \<and> to_ascii_lowercase c = hex_digit n"
    by (auto simp: ref_nibble_def find_Some_iff)
next
  assume n: "n < 16 \<and> to_ascii_lowercase c = hex_digit n"
  then obtain m where m: "ref_nibble c = Some m"
    by (cases "ref_nibble c") (auto simp: ref_nibble_def find_None_iff)
  then have "m < 16" "hex_digit m = to_ascii_lowercase c"
    by (auto simp: ref_nibble_def find_Some_iff)
  with n m show "ref_nibble c = Some n" by (simp add: hex_digit_inject)
qed

lemma hex2_of_nibbles:
  assumes "a < 16" and "b < 16"
  shows "hex2 (byte_of a b) = [hex_digit a, hex_digit b]"
proof -
  have "16 * a + b < 256" using assms by simp
  then have "unat (byte_of a b) = 16 * a + b"
    by (simp add: byte_of_def unat_of_nat del: of_nat_add of_nat_mult)
  then show ?thesis using assms by (simp add: hex2_def)
qed

lemma ref_decode_iff: "ref_decode s = Inr bs \<longleftrightarrow> map to_ascii_lowercase s = ref_encode bs"
proof (induction s arbitrary: bs rule: ref_decode.induct)
  case 1
  show ?case by (cases bs) (auto simp: ref_encode_def hex2_def)
next
  case (2 c)
  show ?case by (cases bs) (auto simp: ref_encode_def hex2_def)
next
  case (3 c d s)
  show ?case
  proof
    assume "ref_decode (c # d # s) = Inr bs"
    then obtain a b cs where h: "ref_nibble c = Some a" "ref_nibble d = Some b"
        "ref_decode s = Inr cs" "bs = byte_of a b # cs"
      by (auto simp: res_simps split: option.splits)
    then have "map to_ascii_lowercase s = ref_encode cs" using 3 by simp
    with h show "map to_ascii_lowercase (c # d # s) = ref_encode bs"
      by (auto simp: ref_encode_def ref_nibble_iff hex2_of_nibbles)
  next
    assume h: "map to_ascii_lowercase (c # d # s) = ref_encode bs"
    then obtain b cs where bs: "bs = b # cs" by (cases bs) (auto simp: ref_encode_def)
    with h have n: "ref_nibble c = Some (unat b div 16)" "ref_nibble d = Some (unat b mod 16)"
      and r: "map to_ascii_lowercase s = ref_encode cs"
      by (auto simp: ref_encode_def hex2_def ref_nibble_iff nibbles_lt)
    from r n have "ref_decode s = Inr cs" using 3 by simp
    moreover have "byte_of (unat b div 16) (unat b mod 16) = b"
      by (simp add: byte_of_def del: of_nat_add of_nat_mult)
    ultimately show "ref_decode (c # d # s) = Inr bs" using n bs by simp
  qed
qed

interpretation ref_codec: hex_codec ref_encode ref_decode
  by unfold_locales (simp_all add: ref_encode_def ref_decode_iff [unfolded ref_encode_def])

lemma ref_hex_codec: "hex_codec (hex_encode ref_hex) (hex_decode ref_hex)"
  by (simp add: ref_hex_def ref_codec.hex_codec_axioms)

end
