(* ===== verification/Big_Endian.thy ===== *)
theory Big_Endian
  imports Hex_Codec
begin

text \<open>
  Unsigned integers as big-endian bytes: the value of a byte string, the trimmed byte strings on
  which it is injective, and the shortest encoding of a number.
\<close>

definition be_val :: "bytes \<Rightarrow> nat" where
  "be_val bs = foldl (\<lambda>n b. 256 * n + unat b) 0 bs"

lemma be_val_simps [simp]: "be_val [] = 0" "be_val (bs @ [b]) = 256 * be_val bs + unat b"
  by (simp_all add: be_val_def)

lemma be_val_Cons_0 [simp]: "be_val (0 # bs) = be_val bs"
  by (simp add: be_val_def)

definition trimmed :: "bytes \<Rightarrow> bool" where
  "trimmed bs \<longleftrightarrow> bs = [] \<or> hd bs \<noteq> 0"

lemma trimmed_snoc: "trimmed (bs @ [b]) \<Longrightarrow> trimmed bs"
  by (cases bs) (auto simp: trimmed_def)

lemma be_val_pos: "trimmed bs \<Longrightarrow> bs \<noteq> [] \<Longrightarrow> 0 < be_val bs"
proof (induction bs rule: rev_induct)
  case Nil
  then show ?case by simp
next
  case (snoc b bs)
  show ?case
  proof (cases "bs = []")
    case True
    with snoc.prems show ?thesis by (simp add: trimmed_def unat_gt_0 be_val_def)
  next
    case False
    with snoc show ?thesis using trimmed_snoc by auto
  qed
qed

lemma base256_inject:
  fixes m n a b :: nat
  assumes "256 * m + a = 256 * n + b" and "a < 256" and "b < 256"
  shows "m = n \<and> a = b"
proof -
  have "(256 * m + a) mod 256 = a" "(256 * n + b) mod 256 = b"
    using assms(2,3) by simp_all
  then have "a = b" using assms(1) by simp
  with assms(1) show ?thesis by simp
qed

lemma trimmed_be_val_inject:
  "trimmed xs \<Longrightarrow> trimmed ys \<Longrightarrow> be_val xs = be_val ys \<Longrightarrow> xs = ys"
proof (induction xs arbitrary: ys rule: rev_induct)
  case Nil
  then show ?case using be_val_pos [of ys] by fastforce
next
  case (snoc b xs)
  have pos: "0 < be_val (xs @ [b])" using snoc.prems(1) be_val_pos by blast
  obtain c zs where ys: "ys = zs @ [c]"
    using pos snoc.prems(3) by (cases ys rule: rev_cases) auto
  have lt: "unat b < 256" "unat c < 256"
    using nibbles_lt(1) [of b] nibbles_lt(1) [of c] by simp_all
  have eq: "256 * be_val xs + unat b = 256 * be_val zs + unat c"
    using snoc.prems(3) by (simp add: ys)
  have v: "be_val xs = be_val zs" and u: "unat b = unat c" 
    using base256_inject [OF eq lt] by simp_all
  have "xs = zs"
    using snoc.IH [OF trimmed_snoc [OF snoc.prems(1)] _ v] snoc.prems(2) ys trimmed_snoc by blast
  with u show ?case by (simp add: ys word_unat_eq_iff)
qed

fun be_bytes :: "nat \<Rightarrow> bytes" where
  "be_bytes n = (if n = 0 then [] else be_bytes (n div 256) @ [of_nat n])"

declare be_bytes.simps [simp del]

lemma be_bytes_0 [simp]: "be_bytes 0 = []"
  by (simp add: be_bytes.simps)

lemma be_val_be_bytes [simp]: "be_val (be_bytes n) = n"
proof (induction n rule: be_bytes.induct)
  case (1 n)
  show ?case
  proof (cases "n = 0")
    case False
    with 1 have "be_val (be_bytes (n div 256)) = n div 256" by simp
    moreover have "unat (of_nat n :: byte) = n mod 256" by (simp add: unat_of_nat)
    ultimately show ?thesis using False by (subst be_bytes.simps) simp
  qed simp
qed

lemma trimmed_be_bytes: "trimmed (be_bytes n)"
proof (induction n rule: be_bytes.induct)
  case (1 n)
  show ?case
  proof (cases "n < 256")
    case True
    then have "n div 256 = 0" by simp
    moreover have "n \<noteq> 0 \<Longrightarrow> (of_nat n :: byte) \<noteq> 0"
      using True by (simp add: word_of_nat_eq_0_iff nat_dvd_not_less)
    ultimately show ?thesis by (subst be_bytes.simps) (simp add: trimmed_def)
  next
    case False
    with 1 have "trimmed (be_bytes (n div 256))" by simp
    moreover have "be_bytes (n div 256) \<noteq> []"
      using False be_val_be_bytes [of "n div 256"] by force
    ultimately show ?thesis using False by (subst be_bytes.simps) (simp add: trimmed_def)
  qed
qed

lemma be_bytes_be_val: "trimmed bs \<Longrightarrow> be_bytes (be_val bs) = bs"
  by (rule trimmed_be_val_inject) (simp_all add: trimmed_be_bytes)

lemma be_bytes_inject [simp]: "be_bytes m = be_bytes n \<longleftrightarrow> m = n"
  by (metis be_val_be_bytes)

lemma be_val_lt: "be_val bs < 256 ^ length bs"
proof (induction bs rule: rev_induct)
  case (snoc b bs)
  have "unat b < 256" using nibbles_lt(1) [of b] by simp
  with snoc show ?case by simp
qed simp

lemma be_val_ge: "trimmed bs \<Longrightarrow> bs \<noteq> [] \<Longrightarrow> 256 ^ (length bs - 1) \<le> be_val bs"
proof (induction bs rule: rev_induct)
  case (snoc b bs)
  show ?case
  proof (cases "bs = []")
    case True
    with be_val_pos [OF snoc.prems] show ?thesis by simp
  next
    case False
    then have l: "length bs = Suc (length bs - 1)" by simp
    from False snoc trimmed_snoc have "256 ^ (length bs - 1) \<le> be_val bs" by blast
    then have "256 ^ Suc (length bs - 1) \<le> 256 * be_val bs" by simp
    with l show ?thesis by simp
  qed
qed simp

lemma length_be_bytes_le: "n < 256 ^ k \<Longrightarrow> length (be_bytes n) \<le> k"
proof (rule ccontr)
  assume n: "n < 256 ^ k" and "\<not> length (be_bytes n) \<le> k"
  then have k: "k \<le> length (be_bytes n) - 1" "be_bytes n \<noteq> []" by auto
  then have "(256 :: nat) ^ k \<le> 256 ^ (length (be_bytes n) - 1)" by (intro power_increasing) simp_all
  also have "\<dots> \<le> n" using be_val_ge [OF trimmed_be_bytes k(2)] by simp
  finally show False using n by simp
qed

end
