(* ===== verification/Eth_Model.thy ===== *)
theory Eth_Model
  imports Big_Endian
begin

text \<open>
  The messages the Substreams package reads and writes.  The first group are the fields of
  \<open>sf.ethereum.type.v2\<close> (the \<open>substreams_ethereum\<close> crate) that the package reads; the second
  group are the package's own messages, \<open>src/pb/evm.state.v1.rs\<close>.  A protobuf enumeration is
  kept as its number where the code tests the number, with the accessor that maps an unknown
  number to the default variant.
\<close>

section \<open>Blocks as the Firehose delivers them\<close>

datatype tx_status = StatusUnknown | Succeeded | Failed | Reverted

definition tx_status_of :: "int \<Rightarrow> tx_status" where
  "tx_status_of i = (if i = 1 then Succeeded else if i = 2 then Failed
                     else if i = 3 then Reverted else StatusUnknown)"

definition tx_status_code :: "tx_status \<Rightarrow> int" where
  "tx_status_code s = (case s of StatusUnknown \<Rightarrow> 0 | Succeeded \<Rightarrow> 1 | Failed \<Rightarrow> 2 | Reverted \<Rightarrow> 3)"

datatype call_type = CallUnspecified | Call | Callcode | Delegate | Static | Create

datatype reason = GasBuy | GasRefund | RewardTransactionFee | OtherReason int

datatype tx_type = TrxTypeSetCode | TrxTypeOther

datatype detail_level = DetaillevelExtended | DetaillevelOther int

record eth_storage_change =
  sc_address :: bytes
  sc_key :: bytes
  sc_old_value :: bytes
  sc_new_value :: bytes
  sc_ordinal :: u64

record eth_balance_change =
  bc_address :: bytes
  bc_old_value :: "bytes option"
  bc_new_value :: "bytes option"
  bc_reason :: reason
  bc_ordinal :: u64

record eth_nonce_change =
  nc_address :: bytes
  nc_old_value :: u64
  nc_new_value :: u64
  nc_ordinal :: u64

record eth_code_change =
  cc_address :: bytes
  cc_old_hash :: bytes
  cc_new_hash :: bytes
  cc_new_code :: bytes
  cc_ordinal :: u64

record eth_call =
  call_index :: u32
  call_parent_index :: u32
  call_call_type :: call_type
  call_address :: bytes
  call_suicide :: bool
  call_state_reverted :: bool
  call_begin_ordinal :: u64
  call_end_ordinal :: u64
  call_storage_changes :: "eth_storage_change list"
  call_balance_changes :: "eth_balance_change list"
  call_nonce_changes :: "eth_nonce_change list"
  call_code_changes :: "eth_code_change list"

record eth_authorization =
  sa_authority :: "bytes option"
  sa_address :: bytes
  sa_nonce :: u64
  sa_discarded :: bool

record eth_transaction =
  trx_hash :: bytes
  trx_index :: u32
  trx_status :: int
  trx_from :: bytes
  trx_nonce :: u64
  trx_type :: tx_type
  trx_end_ordinal :: u64
  trx_set_code_authorizations :: "eth_authorization list"
  trx_calls :: "eth_call list"

record eth_timestamp =
  ts_seconds :: int
  ts_nanos :: int

record eth_header =
  hdr_number :: u64
  hdr_parent_hash :: bytes
  hdr_state_root :: bytes
  hdr_coinbase :: bytes
  hdr_timestamp :: "eth_timestamp option"

record eth_block =
  blk_ver :: int
  blk_hash :: bytes
  blk_number :: u64
  blk_detail_level :: detail_level
  blk_header :: "eth_header option"
  blk_system_calls :: "eth_call list"
  blk_balance_changes :: "eth_balance_change list"
  blk_code_changes :: "eth_code_change list"
  blk_transaction_traces :: "eth_transaction list"

section \<open>Messages of the package\<close>

datatype Scope = Unspecified | Tx | TxFailedPersistent | Tx7702 | SystemCall | ScopeBlock

record Origin =
  or_ordinal :: u64
  or_scope :: Scope
  or_tx_hash :: bytes
  or_tx_index :: u32
  or_tx_status :: int
  or_call_index :: u32

record StorageChange =
  st_address :: bytes
  st_key :: bytes
  st_old_value :: bytes
  st_new_value :: bytes
  st_origin :: "Origin option"

record BalanceChange =
  ba_address :: bytes
  ba_old_value :: string
  ba_new_value :: string
  ba_reason :: reason
  ba_origin :: "Origin option"

record NonceChange =
  no_address :: bytes
  no_old_value :: u64
  no_new_value :: u64
  no_origin :: "Origin option"

record CodeChange =
  co_address :: bytes
  co_old_hash :: bytes
  co_new_hash :: bytes
  co_new_code :: bytes
  co_origin :: "Origin option"

record SetCodeAuthorization =
  au_tx_hash :: bytes
  au_tx_index :: u32
  au_index :: u32
  au_authority :: bytes
  au_delegate :: bytes
  au_nonce :: u64
  au_discarded :: bool
  au_tx_status :: int

record BlockInfo =
  bi_number :: u64
  bi_hash :: bytes
  bi_parent_hash :: bytes
  bi_timestamp :: u64
  bi_state_root :: bytes
  bi_coinbase :: bytes
  bi_transaction_count :: u32

record StateChanges =
  sch_block :: "BlockInfo option"
  sch_storage_changes :: "StorageChange list"
  sch_balance_changes :: "BalanceChange list"
  sch_nonce_changes :: "NonceChange list"
  sch_code_changes :: "CodeChange list"
  sch_set_code_authorizations :: "SetCodeAuthorization list"

record StorageValue =
  sv_address :: string
  sv_slot :: string
  sv_value :: string
  sv_ordinal :: u64

record BalanceValue =
  bv_address :: string
  bv_value :: string
  bv_ordinal :: u64

record NonceValue =
  nv_address :: string
  nv_value :: u64
  nv_ordinal :: u64

record CodeValue =
  cv_address :: string
  cv_hash :: string
  cv_code :: string
  cv_ordinal :: u64

record LifecycleEffect =
  le_address :: string
  le_kind :: string
  le_ordinal :: u64

record BlockState =
  bs_number :: u64
  bs_hash :: string
  bs_parent_hash :: string
  bs_timestamp :: u64
  bs_state_root :: string
  bs_producer_version :: int
  bs_accounts :: string
  bs_schema_version :: u32
  bs_storage :: "StorageValue list"
  bs_balances :: "BalanceValue list"
  bs_nonces :: "NonceValue list"
  bs_codes :: "CodeValue list"
  bs_lifecycle :: "LifecycleEffect list"

text \<open>
  The libraries the package calls: the codec, and the decimal text of an unsigned big-endian
  integer (\<open>substreams::scalar::BigInt\<close>).
\<close>

record mapperlib = hexlib +
  bigint_to_string :: "bytes \<Rightarrow> string"

lemma tx_status_of_Succeeded [simp]: "tx_status_of i = Succeeded \<longleftrightarrow> i = 1"
  by (simp add: tx_status_of_def)

lemma tx_status_code_Succeeded [simp]: "tx_status_of 1 = Succeeded" "tx_status_code Succeeded = 1"
  by (simp_all add: tx_status_code_def)

section \<open>Values for closed examples\<close>

definition ex_call :: eth_call where
  "ex_call = \<lparr>call_index = 0, call_parent_index = 0, call_call_type = CallUnspecified,
     call_address = [], call_suicide = False, call_state_reverted = False,
     call_begin_ordinal = 0, call_end_ordinal = 0, call_storage_changes = [],
     call_balance_changes = [], call_nonce_changes = [], call_code_changes = []\<rparr>"

definition ex_tx :: eth_transaction where
  "ex_tx = \<lparr>trx_hash = [], trx_index = 0, trx_status = 1, trx_from = [], trx_nonce = 0,
     trx_type = TrxTypeOther, trx_end_ordinal = 0, trx_set_code_authorizations = [],
     trx_calls = []\<rparr>"

definition ex_block :: eth_block where
  "ex_block = \<lparr>blk_ver = 5, blk_hash = replicate 32 2, blk_number = 100,
     blk_detail_level = DetaillevelExtended,
     blk_header = Some \<lparr>hdr_number = 100, hdr_parent_hash = replicate 32 1,
       hdr_state_root = replicate 32 3, hdr_coinbase = [],
       hdr_timestamp = Some \<lparr>ts_seconds = 1000, ts_nanos = 0\<rparr>\<rparr>,
     blk_system_calls = [], blk_balance_changes = [], blk_code_changes = [],
     blk_transaction_traces = []\<rparr>"

end
