(* ===== verification/Params.thy ===== *)
theory Params
  imports Eth_Model
begin

text \<open>
  The account filter of the package, \<open>src/params.rs\<close>.  The hash set of accounts is a list of
  distinct addresses; its order is never observable, since \<open>canonical\<close> sorts the encodings.
\<close>

record Filter =
  accounts :: "bytes list"

definition quoted :: "string \<Rightarrow> string" where
  "quoted s = [CHR 0x27] @ s @ [CHR 0x27]"

definition strip_0x :: "string \<Rightarrow> string" where
  "strip_0x raw = (case strip_prefix ''0x'' raw of Some h \<Rightarrow> h
     | None \<Rightarrow> (case strip_prefix ''0X'' raw of Some h \<Rightarrow> h | None \<Rightarrow> raw))"

definition parse_account :: "'x hexlib_scheme \<Rightarrow> string \<Rightarrow> bytes list \<Rightarrow> bytes list res" where
  "parse_account X part accts =
     (let raw = trim part in
      if raw = [] then Inr accts
      else bnd (map_err (\<lambda>e. ''invalid address '' @ quoted raw @ '': '' @ e)
                 (hex_decode X (strip_0x raw)))
        (\<lambda>bs. ensure (length bs = 20)
                (''invalid address '' @ quoted raw @ '': expected 20 bytes'')
                (Inr (List.insert bs accts))))"

definition is_separator :: "char \<Rightarrow> bool" where
  "is_separator c \<longleftrightarrow> c = CHR '','' \<or> is_whitespace c"

definition parse :: "'x hexlib_scheme \<Rightarrow> string \<Rightarrow> Filter res" where
  "parse X params =
     bnd (fold_res (parse_account X) (split_on is_separator params) [])
       (\<lambda>accts. Inr \<lparr>accounts = accts\<rparr>)"

definition is_empty :: "Filter \<Rightarrow> bool" where
  "is_empty f \<longleftrightarrow> accounts f = []"

definition filter_len :: "Filter \<Rightarrow> nat" where
  "filter_len f = length (accounts f)"

definition canonical :: "'x hexlib_scheme \<Rightarrow> Filter \<Rightarrow> string" where
  "canonical X f = join '','' (sort (map (\<lambda>a. ''0x'' @ hex_encode X a) (accounts f)))"

definition matches :: "Filter \<Rightarrow> bytes \<Rightarrow> bool" where
  "matches f address =
     (if accounts f = [] then True
      else if length address = 20 then address \<in> set (accounts f)
      else False)"

section \<open>Well-formed filters\<close>

definition filter_ok :: "Filter \<Rightarrow> bool" where
  "filter_ok f \<longleftrightarrow> distinct (accounts f) \<and> list_all (\<lambda>a. length a = 20) (accounts f)"

lemma parse_filter_ok: "parse X params = Inr f \<Longrightarrow> filter_ok f"
proof -
  assume "parse X params = Inr f"
  then obtain as where as: "fold_res (parse_account X) (split_on is_separator params) [] = Inr as"
    and f: "f = \<lparr>accounts = as\<rparr>"
    by (auto simp: parse_def res_simps)
  let ?P = "\<lambda>as. distinct as \<and> list_all (\<lambda>a. length a = 20) as"
  have "?P as"
    by (rule fold_res_invariant [OF as])
      (auto simp: parse_account_def Let_def res_simps List.insert_def split: if_splits)
  then show ?thesis by (simp add: filter_ok_def f)
qed

lemma matches_nonempty:
  "filter_ok f \<Longrightarrow> \<not> is_empty f \<Longrightarrow> matches f a \<longleftrightarrow> a \<in> set (accounts f)"
  by (auto simp: matches_def is_empty_def filter_ok_def list_all_iff)

section \<open>Splitting and joining\<close>

lemma trim_id:
  assumes "list_all (\<lambda>c. \<not> is_whitespace c) s"
  shows "trim s = s"
proof -
  have "dropWhile is_whitespace t = t" if "list_all (\<lambda>c. \<not> is_whitespace c) t" for t
    using that by (cases t) auto
  with assms show ?thesis by (simp add: trim_def list_all_rev)
qed

lemma lower_hex_not_sep: "is_lower_hex c \<Longrightarrow> \<not> is_separator c"
  by (auto simp: is_separator_def is_whitespace_def is_lower_hex_def is_digit_def less_eq_char_def)

lemma x_not_sep: "\<not> is_separator CHR ''0''" "\<not> is_separator CHR ''x''"
  by (simp_all add: is_separator_def is_whitespace_def)

lemma sep_trim: "list_all (\<lambda>c. \<not> is_separator c) s \<Longrightarrow> trim s = s"
  by (rule trim_id) (auto simp: list_all_iff is_separator_def)

text \<open>One canonical address parses to its bytes.\<close>

lemma parse_account_canonical:
  assumes "hex_ok X" and "length a = 20"
  shows "parse_account X (''0x'' @ hex_encode X a) as = Inr (List.insert a as)"
proof -
  have nosep: "list_all (\<lambda>c. \<not> is_separator c) (''0x'' @ hex_encode X a)"
    using hex_codec.set_enc [OF assms(1)] lower_hex_not_sep x_not_sep
    by (auto simp: list_all_iff)
  have "trim (''0x'' @ hex_encode X a) = ''0x'' @ hex_encode X a"
    by (rule sep_trim [OF nosep])
  then show ?thesis
    using assms hex_codec.dec_enc [OF assms(1)]
    by (simp add: parse_account_def strip_0x_def strip_prefix_def)
qed

lemma fold_parse_canonical:
  assumes "hex_ok X" and "\<forall>a \<in> set xs. length a = 20"
  shows "fold_res (parse_account X) (map (\<lambda>a. ''0x'' @ hex_encode X a) xs) as =
     Inr (fold List.insert xs as)"
  using assms(2) by (induction xs arbitrary: as)
    (simp_all add: parse_account_canonical [OF assms(1), simplified])

text \<open>
  The canonical text of a non-empty filter parses back to a well-formed filter of the same
  accounts, whose canonical text is the same.
\<close>

lemma parse_canonical:
  assumes "hex_ok X" and "filter_ok f" and "\<not> is_empty f"
  shows "\<exists>g. parse X (canonical X f) = Inr g \<and> filter_ok g \<and>
     set (accounts g) = set (accounts f) \<and> canonical X g = canonical X f"
proof -
  let ?enc = "\<lambda>a. ''0x'' @ hex_encode X a"
  define ys where "ys = sort_key ?enc (accounts f)"
  have ys: "ys \<noteq> []" "set ys = set (accounts f)"
    using assms(3) by (simp_all add: ys_def is_empty_def flip: set_empty)
  have nosep: "\<forall>w \<in> set (map ?enc ys). list_all (\<lambda>c. \<not> is_separator c) w"
    using hex_codec.set_enc [OF assms(1)] lower_hex_not_sep x_not_sep
    by (auto simp: list_all_iff)
  have "split_on is_separator (join '','' (map ?enc ys)) = map ?enc ys"
    using ys(1) nosep by (intro split_join) (simp_all add: is_separator_def)
  moreover have "\<forall>a \<in> set ys. length a = 20"
    using assms(2) ys(2) by (simp add: filter_ok_def list_all_iff)
  ultimately have p: "parse X (canonical X f) = Inr \<lparr>accounts = fold List.insert ys []\<rparr>"
    using fold_parse_canonical [OF assms(1), of ys "[]"]
    by (simp add: parse_def canonical_def sort_map ys_def)
  define as where "as = fold List.insert ys []"
  have as: "set as = set (accounts f)" "distinct as"
    using ys(2) by (simp_all add: as_def set_fold_insert distinct_fold_insert)
  have "mset as = mset (accounts f)"
    using as assms(2) by (simp add: set_eq_iff_mset_eq_distinct filter_ok_def)
  then have "mset (map ?enc as) = mset (map ?enc (accounts f))"
    by (metis mset_map)
  then have "sort (map ?enc as) = sort (map ?enc (accounts f))"
    by (intro properties_for_sort) simp_all
  then have "canonical X \<lparr>accounts = as\<rparr> = canonical X f"
    by (simp add: canonical_def)
  with p as parse_filter_ok [OF p] show ?thesis by (auto simp: as_def)
qed

end
