(* ===== verification/Persist.thy ===== *)
theory Persist
  imports Params
begin

text \<open>
  The persistence rules, \<open>src/persist.rs\<close>: which recorded state changes of a block survived its
  execution.  The trait \<open>Sink\<close> is a record of four operations; the collecting functions take
  such a record and the sink's state.  The locale \<open>change_sink\<close> is what the rules rely on: each
  operation appends the change to its own list when its account passes the filter.  Inside it,
  collecting a block is shown to append exactly the changes of the declarative specification
  (\<open>persisted_storage\<close> and its siblings).
\<close>

record Ctx =
  cx_scope :: Scope
  cx_tx_hash :: bytes
  cx_tx_index :: u32
  cx_tx_status :: int
  cx_call_index :: u32

definition Ctx_block :: "Scope \<Rightarrow> Ctx" where
  "Ctx_block scope = \<lparr>cx_scope = scope, cx_tx_hash = [], cx_tx_index = 0, cx_tx_status = 0,
     cx_call_index = 0\<rparr>"

record 's Sink =
  snk_storage :: "eth_storage_change \<Rightarrow> Ctx \<Rightarrow> 's \<Rightarrow> 's"
  snk_balance :: "eth_balance_change \<Rightarrow> Ctx \<Rightarrow> 's \<Rightarrow> 's"
  snk_nonce :: "eth_nonce_change \<Rightarrow> Ctx \<Rightarrow> 's \<Rightarrow> 's"
  snk_code :: "eth_code_change \<Rightarrow> Ctx \<Rightarrow> 's \<Rightarrow> 's"

section \<open>Tests on records\<close>

definition is_failed :: "eth_transaction \<Rightarrow> bool" where
  "is_failed trx \<longleftrightarrow> tx_status_of (trx_status trx) \<noteq> Succeeded"

definition is_gas_reason :: "eth_balance_change \<Rightarrow> bool" where
  "is_gas_reason bc \<longleftrightarrow> bc_reason bc \<in> {GasBuy, GasRefund, RewardTransactionFee}"

fun strip_zeros :: "bytes \<Rightarrow> bytes" where
  "strip_zeros [] = []"
| "strip_zeros (b # bs) = (if b = 0 then strip_zeros bs else b # bs)"

definition bytes_or_empty :: "bytes option \<Rightarrow> bytes" where
  "bytes_or_empty v = (case v of Some b \<Rightarrow> b | None \<Rightarrow> [])"

definition balance_is_noop :: "eth_balance_change \<Rightarrow> bool" where
  "balance_is_noop bc \<longleftrightarrow>
     strip_zeros (bytes_or_empty (bc_old_value bc)) = strip_zeros (bytes_or_empty (bc_new_value bc))"

definition storage_is_noop :: "eth_storage_change \<Rightarrow> bool" where
  "storage_is_noop sc \<longleftrightarrow> strip_zeros (sc_old_value sc) = strip_zeros (sc_new_value sc)"

definition authorities :: "eth_transaction \<Rightarrow> bytes set" where
  "authorities trx =
     (if trx_type trx \<noteq> TrxTypeSetCode then {}
      else set (filter (\<lambda>a. a \<noteq> [])
             (List.map_filter sa_authority
               (filter (\<lambda>a. \<not> sa_discarded a) (trx_set_code_authorizations trx)))))"

section \<open>Collecting\<close>

definition emit_call_all :: "'s Sink \<Rightarrow> eth_call \<Rightarrow> Ctx \<Rightarrow> 's \<Rightarrow> 's" where
  "emit_call_all S call ctx out =
     (let out = fold (\<lambda>c out. if \<not> storage_is_noop c then snk_storage S c ctx out else out)
                  (call_storage_changes call) out;
          out = fold (\<lambda>c out. if \<not> balance_is_noop c then snk_balance S c ctx out else out)
                  (call_balance_changes call) out;
          out = fold (\<lambda>c out. if nc_old_value c \<noteq> nc_new_value c then snk_nonce S c ctx out else out)
                  (call_nonce_changes call) out
      in fold (\<lambda>c out. if cc_old_hash c \<noteq> cc_new_hash c then snk_code S c ctx out else out)
           (call_code_changes call) out)"

definition tx_ctx :: "eth_transaction \<Rightarrow> Scope \<Rightarrow> u32 \<Rightarrow> Ctx" where
  "tx_ctx trx scope index =
     \<lparr>cx_scope = scope, cx_tx_hash = trx_hash trx, cx_tx_index = trx_index trx,
      cx_tx_status = tx_status_code (tx_status_of (trx_status trx)), cx_call_index = index\<rparr>"

text \<open>\<open>Iterator::min_by_key\<close>: the first of the elements with the least key.\<close>

fun min_by_key :: "('a \<Rightarrow> 'k::linorder) \<Rightarrow> 'a list \<Rightarrow> 'a option" where
  "min_by_key f [] = None"
| "min_by_key f (x # xs) =
     (case min_by_key f xs of None \<Rightarrow> Some x | Some y \<Rightarrow> if f x \<le> f y then Some x else Some y)"

definition is_sender_nonce :: "eth_transaction \<Rightarrow> eth_nonce_change \<Rightarrow> bool" where
  "is_sender_nonce trx n \<longleftrightarrow>
     0 < nc_ordinal n \<and> nc_address n = trx_from trx \<and> nc_old_value n = trx_nonce trx \<and>
     Some (nc_new_value n) = checked_add (trx_nonce trx) 1"

text \<open>
  The record chosen as the sender's, with its position: the source compares record addresses
  (\<open>ptr::eq\<close>) to skip it later.
\<close>

definition sender_nonce :: "eth_transaction \<Rightarrow> eth_call \<Rightarrow> (nat \<times> eth_nonce_change) option" where
  "sender_nonce trx root =
     min_by_key (\<lambda>(i, n). nc_ordinal n)
       (filter (\<lambda>(i, n). is_sender_nonce trx n) (enumerate 0 (call_nonce_changes root)))"

definition before_execution :: "eth_call \<Rightarrow> u64 \<Rightarrow> bool" where
  "before_execution root ordinal \<longleftrightarrow> 0 < ordinal \<and> ordinal < call_begin_ordinal root"

definition collect_transaction :: "'s Sink \<Rightarrow> eth_transaction \<Rightarrow> 's \<Rightarrow> 's res" where
  "collect_transaction S trx out =
     (if \<not> is_failed trx then
        Inr (fold (\<lambda>call out. if call_state_reverted call then out
                    else emit_call_all S call (tx_ctx trx Tx (call_index call)) out)
               (trx_calls trx) out)
      else (case trx_calls trx of
        [] \<Rightarrow> Inr out
      | root # _ \<Rightarrow>
          let ctx = tx_ctx trx TxFailedPersistent (call_index root);
              out = fold (\<lambda>bc out. if is_gas_reason bc \<and> \<not> balance_is_noop bc
                           then snk_balance S bc ctx out else out)
                      (call_balance_changes root) out;
              sender = sender_nonce trx root;
              out = (case sender of Some (_, change) \<Rightarrow> snk_nonce S change ctx out | None \<Rightarrow> out);
              auths = authorities trx
          in if auths = {} then Inr out
             else if call_begin_ordinal root = 0 then
               Inl ''failed SetCode transaction has no authorization/execution ordinal boundary''
             else
               let ctx7702 = tx_ctx trx Tx7702 (call_index root);
                   out = fold (\<lambda>(i, nc) out.
                            if map_option fst sender = Some i then out
                            else if before_execution root (nc_ordinal nc) \<and> nc_address nc \<in> auths
                                    \<and> nc_old_value nc \<noteq> nc_new_value nc
                            then snk_nonce S nc ctx7702 out else out)
                           (enumerate 0 (call_nonce_changes root)) out
               in Inr (fold (\<lambda>cc out.
                         if before_execution root (cc_ordinal cc) \<and> cc_address cc \<in> auths
                            \<and> cc_old_hash cc \<noteq> cc_new_hash cc
                         then snk_code S cc ctx7702 out else out)
                       (call_code_changes root) out)))"

definition collect_block :: "'s Sink \<Rightarrow> eth_block \<Rightarrow> 's \<Rightarrow> 's res" where
  "collect_block S block out =
     (let out = fold (\<lambda>call out. if call_state_reverted call then out
                  else emit_call_all S call ((Ctx_block SystemCall)\<lparr>cx_call_index := call_index call\<rparr>) out)
                  (blk_system_calls block) out;
          ctx = Ctx_block ScopeBlock;
          out = fold (\<lambda>bc out. if \<not> balance_is_noop bc then snk_balance S bc ctx out else out)
                  (blk_balance_changes block) out;
          out = fold (\<lambda>cc out. if cc_old_hash cc \<noteq> cc_new_hash cc then snk_code S cc ctx out else out)
                  (blk_code_changes block) out
      in fold_res (collect_transaction S) (blk_transaction_traces block) out)"

section \<open>Specification: the changes that persist\<close>

text \<open>
  Written from the rules in the header of the source file, without a sink: the changes of the
  calls that were not reverted, and what a failed transaction keeps of its root call.
\<close>

definition live_changes :: "(eth_call \<Rightarrow> 'c list) \<Rightarrow> ('c \<Rightarrow> bool) \<Rightarrow> (eth_call \<Rightarrow> Ctx) \<Rightarrow>
    eth_call list \<Rightarrow> ('c \<times> Ctx) list" where
  "live_changes changes real ctx calls =
     concat (map (\<lambda>call. map (\<lambda>c. (c, ctx call)) (filter real (changes call)))
       (filter (\<lambda>call. \<not> call_state_reverted call) calls))"

definition real_nonce :: "eth_nonce_change \<Rightarrow> bool" where
  "real_nonce c \<longleftrightarrow> nc_old_value c \<noteq> nc_new_value c"

definition real_code :: "eth_code_change \<Rightarrow> bool" where
  "real_code c \<longleftrightarrow> cc_old_hash c \<noteq> cc_new_hash c"

definition real_storage :: "eth_storage_change \<Rightarrow> bool" where
  "real_storage c \<longleftrightarrow> \<not> storage_is_noop c"

definition real_balance :: "eth_balance_change \<Rightarrow> bool" where
  "real_balance c \<longleftrightarrow> \<not> balance_is_noop c"

abbreviation call_ctx :: "eth_transaction \<Rightarrow> eth_call \<Rightarrow> Ctx" where
  "call_ctx trx call \<equiv> tx_ctx trx Tx (call_index call)"

abbreviation system_ctx :: "eth_call \<Rightarrow> Ctx" where
  "system_ctx call \<equiv> (Ctx_block SystemCall)\<lparr>cx_call_index := call_index call\<rparr>"

definition failed_balances :: "eth_transaction \<Rightarrow> eth_call \<Rightarrow> (eth_balance_change \<times> Ctx) list" where
  "failed_balances trx root =
     map (\<lambda>c. (c, tx_ctx trx TxFailedPersistent (call_index root)))
       (filter (\<lambda>c. is_gas_reason c \<and> real_balance c) (call_balance_changes root))"

definition authority_nonces :: "eth_transaction \<Rightarrow> eth_call \<Rightarrow> (eth_nonce_change \<times> Ctx) list" where
  "authority_nonces trx root =
     map (\<lambda>(i, c). (c, tx_ctx trx Tx7702 (call_index root)))
       (filter (\<lambda>(i, c). map_option fst (sender_nonce trx root) \<noteq> Some i \<and>
                  before_execution root (nc_ordinal c) \<and> nc_address c \<in> authorities trx \<and> real_nonce c)
         (enumerate 0 (call_nonce_changes root)))"

definition failed_nonces :: "eth_transaction \<Rightarrow> eth_call \<Rightarrow> (eth_nonce_change \<times> Ctx) list" where
  "failed_nonces trx root =
     (case sender_nonce trx root of
        Some (_, c) \<Rightarrow> [(c, tx_ctx trx TxFailedPersistent (call_index root))] | None \<Rightarrow> []) @
     authority_nonces trx root"

definition failed_codes :: "eth_transaction \<Rightarrow> eth_call \<Rightarrow> (eth_code_change \<times> Ctx) list" where
  "failed_codes trx root =
     map (\<lambda>c. (c, tx_ctx trx Tx7702 (call_index root)))
       (filter (\<lambda>c. before_execution root (cc_ordinal c) \<and> cc_address c \<in> authorities trx \<and> real_code c)
         (call_code_changes root))"

definition tx_storage :: "eth_transaction \<Rightarrow> (eth_storage_change \<times> Ctx) list" where
  "tx_storage trx = (if is_failed trx then []
     else live_changes call_storage_changes real_storage (call_ctx trx) (trx_calls trx))"

definition tx_balances :: "eth_transaction \<Rightarrow> (eth_balance_change \<times> Ctx) list" where
  "tx_balances trx =
     (if \<not> is_failed trx then live_changes call_balance_changes real_balance (call_ctx trx) (trx_calls trx)
      else (case trx_calls trx of [] \<Rightarrow> [] | root # _ \<Rightarrow> failed_balances trx root))"

definition tx_nonces :: "eth_transaction \<Rightarrow> (eth_nonce_change \<times> Ctx) list" where
  "tx_nonces trx =
     (if \<not> is_failed trx then live_changes call_nonce_changes real_nonce (call_ctx trx) (trx_calls trx)
      else (case trx_calls trx of [] \<Rightarrow> [] | root # _ \<Rightarrow> failed_nonces trx root))"

definition tx_codes :: "eth_transaction \<Rightarrow> (eth_code_change \<times> Ctx) list" where
  "tx_codes trx =
     (if \<not> is_failed trx then live_changes call_code_changes real_code (call_ctx trx) (trx_calls trx)
      else (case trx_calls trx of [] \<Rightarrow> [] | root # _ \<Rightarrow> failed_codes trx root))"

definition boundary_missing :: "eth_transaction \<Rightarrow> bool" where
  "boundary_missing trx \<longleftrightarrow> is_failed trx \<and> authorities trx \<noteq> {} \<and>
     (case trx_calls trx of [] \<Rightarrow> False | root # _ \<Rightarrow> call_begin_ordinal root = 0)"

definition persisted_storage :: "eth_block \<Rightarrow> (eth_storage_change \<times> Ctx) list" where
  "persisted_storage block =
     live_changes call_storage_changes real_storage system_ctx (blk_system_calls block) @
     concat (map tx_storage (blk_transaction_traces block))"

definition persisted_balances :: "eth_block \<Rightarrow> (eth_balance_change \<times> Ctx) list" where
  "persisted_balances block =
     live_changes call_balance_changes real_balance system_ctx (blk_system_calls block) @
     map (\<lambda>c. (c, Ctx_block ScopeBlock)) (filter real_balance (blk_balance_changes block)) @
     concat (map tx_balances (blk_transaction_traces block))"

definition persisted_nonces :: "eth_block \<Rightarrow> (eth_nonce_change \<times> Ctx) list" where
  "persisted_nonces block =
     live_changes call_nonce_changes real_nonce system_ctx (blk_system_calls block) @
     concat (map tx_nonces (blk_transaction_traces block))"

definition persisted_codes :: "eth_block \<Rightarrow> (eth_code_change \<times> Ctx) list" where
  "persisted_codes block =
     live_changes call_code_changes real_code system_ctx (blk_system_calls block) @
     map (\<lambda>c. (c, Ctx_block ScopeBlock)) (filter real_code (blk_code_changes block)) @
     concat (map tx_codes (blk_transaction_traces block))"

lemmas real_defs = real_storage_def real_balance_def real_nonce_def real_code_def

text \<open>What a filtered sink keeps of a list of changes.\<close>

definition kept :: "(bytes \<Rightarrow> bool) \<Rightarrow> ('c \<Rightarrow> bytes) \<Rightarrow> ('c \<Rightarrow> Ctx \<Rightarrow> 'a) \<Rightarrow> ('c \<times> Ctx) list \<Rightarrow> 'a list" where
  "kept keep addr mk l = map (\<lambda>(c, x). mk c x) (filter (\<lambda>(c, x). keep (addr c)) l)"

lemma kept_simps [simp]:
  "kept keep addr mk [] = []"
  "kept keep addr mk (l @ m) = kept keep addr mk l @ kept keep addr mk m"
  "kept keep addr mk ((c, x) # l) = (if keep (addr c) then [mk c x] else []) @ kept keep addr mk l"
  by (simp_all add: kept_def)

text \<open>A loop that pushes the elements with a property, seen through one list of the sink.\<close>

lemma fold_push:
  assumes "\<And>c s. proj (push c s) = proj s @ kept keep addr mk [(c, x)]"
  shows "proj (fold (\<lambda>c s. if P c then push c s else s) cs s) =
     proj s @ kept keep addr mk (map (\<lambda>c. (c, x)) (filter P cs))"
  using assms by (induction cs arbitrary: s) simp_all

lemma fold_frame:
  assumes "\<And>c s. proj (push c s) = proj s"
  shows "proj (fold (\<lambda>c s. if P c then push c s else s) cs s) = proj s"
  using assms by (induction cs arbitrary: s) simp_all

section \<open>The contract of a sink\<close>

locale change_sink =
  fixes S :: "'s Sink" and keep :: "bytes \<Rightarrow> bool"
    and sto :: "'s \<Rightarrow> 'a list" and bal :: "'s \<Rightarrow> 'b list"
    and non :: "'s \<Rightarrow> 'c list" and cod :: "'s \<Rightarrow> 'd list"
    and mks :: "eth_storage_change \<Rightarrow> Ctx \<Rightarrow> 'a" and mkb :: "eth_balance_change \<Rightarrow> Ctx \<Rightarrow> 'b"
    and mkn :: "eth_nonce_change \<Rightarrow> Ctx \<Rightarrow> 'c" and mkc :: "eth_code_change \<Rightarrow> Ctx \<Rightarrow> 'd"
  assumes push_storage: "sto (snk_storage S c x s) = sto s @ kept keep sc_address mks [(c, x)]"
      "bal (snk_storage S c x s) = bal s" "non (snk_storage S c x s) = non s"
      "cod (snk_storage S c x s) = cod s"
    and push_balance: "bal (snk_balance S b x s) = bal s @ kept keep bc_address mkb [(b, x)]"
      "sto (snk_balance S b x s) = sto s" "non (snk_balance S b x s) = non s"
      "cod (snk_balance S b x s) = cod s"
    and push_nonce: "non (snk_nonce S n x s) = non s @ kept keep nc_address mkn [(n, x)]"
      "sto (snk_nonce S n x s) = sto s" "bal (snk_nonce S n x s) = bal s"
      "cod (snk_nonce S n x s) = cod s"
    and push_code: "cod (snk_code S d x s) = cod s @ kept keep cc_address mkc [(d, x)]"
      "sto (snk_code S d x s) = sto s" "bal (snk_code S d x s) = bal s"
      "non (snk_code S d x s) = non s"
begin

lemma push_frames:
  "sto (fold (\<lambda>c s. if Pb c then snk_balance S c x s else s) bs s) = sto s"
  "sto (fold (\<lambda>c s. if Pn c then snk_nonce S c x s else s) ns s) = sto s"
  "sto (fold (\<lambda>c s. if Pc c then snk_code S c x s else s) ds s) = sto s"
  "bal (fold (\<lambda>c s. if Ps c then snk_storage S c x s else s) ss s) = bal s"
  "bal (fold (\<lambda>c s. if Pn c then snk_nonce S c x s else s) ns s) = bal s"
  "bal (fold (\<lambda>c s. if Pc c then snk_code S c x s else s) ds s) = bal s"
  "non (fold (\<lambda>c s. if Ps c then snk_storage S c x s else s) ss s) = non s"
  "non (fold (\<lambda>c s. if Pb c then snk_balance S c x s else s) bs s) = non s"
  "non (fold (\<lambda>c s. if Pc c then snk_code S c x s else s) ds s) = non s"
  "cod (fold (\<lambda>c s. if Ps c then snk_storage S c x s else s) ss s) = cod s"
  "cod (fold (\<lambda>c s. if Pb c then snk_balance S c x s else s) bs s) = cod s"
  "cod (fold (\<lambda>c s. if Pn c then snk_nonce S c x s else s) ns s) = cod s"
  by (rule fold_frame, simp add: push_storage push_balance push_nonce push_code)+

lemma pushes:
  "sto (fold (\<lambda>c s. if Ps c then snk_storage S c x s else s) ss s) =
     sto s @ kept keep sc_address mks (map (\<lambda>c. (c, x)) (filter Ps ss))"
  "bal (fold (\<lambda>c s. if Pb c then snk_balance S c x s else s) bs s) =
     bal s @ kept keep bc_address mkb (map (\<lambda>c. (c, x)) (filter Pb bs))"
  "non (fold (\<lambda>c s. if Pn c then snk_nonce S c x s else s) ns s) =
     non s @ kept keep nc_address mkn (map (\<lambda>c. (c, x)) (filter Pn ns))"
  "cod (fold (\<lambda>c s. if Pc c then snk_code S c x s else s) ds s) =
     cod s @ kept keep cc_address mkc (map (\<lambda>c. (c, x)) (filter Pc ds))"
  by (rule fold_push, simp add: push_storage push_balance push_nonce push_code)+

lemma emit_call:
  "sto (emit_call_all S call x s) =
     sto s @ kept keep sc_address mks (map (\<lambda>c. (c, x)) (filter real_storage (call_storage_changes call)))"
  "bal (emit_call_all S call x s) =
     bal s @ kept keep bc_address mkb (map (\<lambda>c. (c, x)) (filter real_balance (call_balance_changes call)))"
  "non (emit_call_all S call x s) =
     non s @ kept keep nc_address mkn (map (\<lambda>c. (c, x)) (filter real_nonce (call_nonce_changes call)))"
  "cod (emit_call_all S call x s) =
     cod s @ kept keep cc_address mkc (map (\<lambda>c. (c, x)) (filter real_code (call_code_changes call)))"
  unfolding emit_call_all_def Let_def push_frames pushes real_defs by (rule refl)+

lemma emit_calls:
  defines "step \<equiv> \<lambda>mk call s. if call_state_reverted call then s else emit_call_all S call (mk call) s"
  shows "sto (fold (step mk) calls s) =
     sto s @ kept keep sc_address mks (live_changes call_storage_changes real_storage mk calls)"
  "bal (fold (step mk) calls s) =
     bal s @ kept keep bc_address mkb (live_changes call_balance_changes real_balance mk calls)"
  "non (fold (step mk) calls s) =
     non s @ kept keep nc_address mkn (live_changes call_nonce_changes real_nonce mk calls)"
  "cod (fold (step mk) calls s) =
     cod s @ kept keep cc_address mkc (live_changes call_code_changes real_code mk calls)"
  by (induction calls arbitrary: s)
    (simp_all add: step_def live_changes_def emit_call)

lemma push_enumerated:
  "non (fold (\<lambda>(i, c) s. if P i then s else if Q c then snk_nonce S c x s else s) es s) =
     non s @ kept keep nc_address mkn
       (map (\<lambda>(i, c). (c, x)) (filter (\<lambda>(i, c). \<not> P i \<and> Q c) es))"
  "sto (fold (\<lambda>(i, c) s. if P i then s else if Q c then snk_nonce S c x s else s) es s) = sto s"
  "bal (fold (\<lambda>(i, c) s. if P i then s else if Q c then snk_nonce S c x s else s) es s) = bal s"
  "cod (fold (\<lambda>(i, c) s. if P i then s else if Q c then snk_nonce S c x s else s) es s) = cod s"
  by (induction es arbitrary: s) (auto simp: push_nonce split: if_splits)

lemma push_sender:
  "non (case sender of Some (_, c) \<Rightarrow> snk_nonce S c x s | None \<Rightarrow> s) =
     non s @ kept keep nc_address mkn (case sender of Some (_, c) \<Rightarrow> [(c, x)] | None \<Rightarrow> [])"
  "sto (case sender of Some (_, c) \<Rightarrow> snk_nonce S c x s | None \<Rightarrow> s) = sto s"
  "bal (case sender of Some (_, c) \<Rightarrow> snk_nonce S c x s | None \<Rightarrow> s) = bal s"
  "cod (case sender of Some (_, c) \<Rightarrow> snk_nonce S c x s | None \<Rightarrow> s) = cod s"
  by (auto simp: push_nonce split: option.split)

abbreviation tx_effect :: "eth_transaction \<Rightarrow> 's \<Rightarrow> 's \<Rightarrow> bool" where
  "tx_effect trx s t \<equiv>
     sto t = sto s @ kept keep sc_address mks (tx_storage trx) \<and>
     bal t = bal s @ kept keep bc_address mkb (tx_balances trx) \<and>
     non t = non s @ kept keep nc_address mkn (tx_nonces trx) \<and>
     cod t = cod s @ kept keep cc_address mkc (tx_codes trx)"

lemma collect_tx_succeeded:
  assumes "\<not> is_failed trx"
  shows "\<exists>t. collect_transaction S trx s = Inr t \<and> tx_effect trx s t"
  using assms by (simp add: collect_transaction_def emit_calls tx_storage_def
      tx_balances_def tx_nonces_def tx_codes_def)

lemma collect_tx_failed:
  assumes failed: "is_failed trx" and calls: "trx_calls trx = root # rest"
    and bound: "authorities trx = {} \<or> call_begin_ordinal root \<noteq> 0"
  shows "\<exists>t. collect_transaction S trx s = Inr t \<and> tx_effect trx s t"
proof (cases "authorities trx = {}")
  case True
  then have "authority_nonces trx root = []" "failed_codes trx root = []"
    by (simp_all add: authority_nonces_def failed_codes_def)
  with True failed calls show ?thesis
    by (simp add: collect_transaction_def tx_storage_def tx_balances_def
        tx_nonces_def tx_codes_def failed_balances_def failed_nonces_def real_balance_def
        pushes push_frames push_sender Let_def)
next
  case False
  with bound have "call_begin_ordinal root \<noteq> 0" by simp
  with False failed calls show ?thesis
    by (simp add: collect_transaction_def tx_storage_def tx_balances_def
        tx_nonces_def tx_codes_def failed_balances_def failed_nonces_def failed_codes_def
        authority_nonces_def real_defs pushes push_frames push_sender push_enumerated Let_def)
qed

lemma collect_tx:
  assumes "\<not> boundary_missing trx"
  shows "\<exists>t. collect_transaction S trx s = Inr t \<and> tx_effect trx s t"
proof (cases "is_failed trx")
  case False
  then show ?thesis by (rule collect_tx_succeeded)
next
  case True
  show ?thesis
  proof (cases "trx_calls trx")
    case Nil
    with True show ?thesis
      by (simp add: collect_transaction_def tx_storage_def tx_balances_def
          tx_nonces_def tx_codes_def)
  next
    case (Cons root rest)
    with True assms show ?thesis
      by (intro collect_tx_failed) (auto simp: boundary_missing_def)
  qed
qed

lemma collect_tx_error:
  assumes "boundary_missing trx"
  shows "collect_transaction S trx s =
     Inl ''failed SetCode transaction has no authorization/execution ordinal boundary''"
  using assms by (auto simp: boundary_missing_def collect_transaction_def Let_def split: list.splits)

lemma collect_txs:
  assumes "list_all (\<lambda>trx. \<not> boundary_missing trx) txs"
  shows "\<exists>t. fold_res (collect_transaction S) txs s = Inr t \<and>
     sto t = sto s @ kept keep sc_address mks (concat (map tx_storage txs)) \<and>
     bal t = bal s @ kept keep bc_address mkb (concat (map tx_balances txs)) \<and>
     non t = non s @ kept keep nc_address mkn (concat (map tx_nonces txs)) \<and>
     cod t = cod s @ kept keep cc_address mkc (concat (map tx_codes txs))"
  using assms
proof (induction txs arbitrary: s)
  case Nil
  show ?case by simp
next
  case (Cons trx txs)
  obtain u where u: "collect_transaction S trx s = Inr u" "tx_effect trx s u"
    using collect_tx [of trx s] Cons.prems by auto
  obtain t where t: "fold_res (collect_transaction S) txs u = Inr t"
     "sto t = sto u @ kept keep sc_address mks (concat (map tx_storage txs))"
     "bal t = bal u @ kept keep bc_address mkb (concat (map tx_balances txs))"
     "non t = non u @ kept keep nc_address mkn (concat (map tx_nonces txs))"
     "cod t = cod u @ kept keep cc_address mkc (concat (map tx_codes txs))"
    using Cons.IH [of u] Cons.prems by auto
  with u show ?case by (intro exI [of _ t]) simp
qed

lemma collect_txs_error:
  assumes "\<not> list_all (\<lambda>trx. \<not> boundary_missing trx) txs"
  shows "fold_res (collect_transaction S) txs s =
     Inl ''failed SetCode transaction has no authorization/execution ordinal boundary''"
  using assms
proof (induction txs arbitrary: s)
  case Nil
  then show ?case by simp
next
  case (Cons trx txs)
  show ?case
  proof (cases "boundary_missing trx")
    case True
    then show ?thesis by (simp add: collect_tx_error)
  next
    case False
    then obtain u where "collect_transaction S trx s = Inr u" using collect_tx by blast
    with Cons False show ?thesis by simp
  qed
qed

theorem collect_block_ok:
  assumes "list_all (\<lambda>trx. \<not> boundary_missing trx) (blk_transaction_traces block)"
  shows "\<exists>t. collect_block S block s = Inr t \<and>
     sto t = sto s @ kept keep sc_address mks (persisted_storage block) \<and>
     bal t = bal s @ kept keep bc_address mkb (persisted_balances block) \<and>
     non t = non s @ kept keep nc_address mkn (persisted_nonces block) \<and>
     cod t = cod s @ kept keep cc_address mkc (persisted_codes block)"
proof -
  let ?out = "fold (\<lambda>cc out. if cc_old_hash cc \<noteq> cc_new_hash cc
       then snk_code S cc (Ctx_block ScopeBlock) out else out) (blk_code_changes block)
     (fold (\<lambda>bc out. if \<not> balance_is_noop bc then snk_balance S bc (Ctx_block ScopeBlock) out else out)
       (blk_balance_changes block)
     (fold (\<lambda>call out. if call_state_reverted call then out
        else emit_call_all S call (system_ctx call) out) (blk_system_calls block) s))"
  obtain t where "fold_res (collect_transaction S) (blk_transaction_traces block) ?out = Inr t"
     "sto t = sto ?out @ kept keep sc_address mks (concat (map tx_storage (blk_transaction_traces block)))"
     "bal t = bal ?out @ kept keep bc_address mkb (concat (map tx_balances (blk_transaction_traces block)))"
     "non t = non ?out @ kept keep nc_address mkn (concat (map tx_nonces (blk_transaction_traces block)))"
     "cod t = cod ?out @ kept keep cc_address mkc (concat (map tx_codes (blk_transaction_traces block)))"
    using collect_txs [OF assms] by blast
  then show ?thesis
    by (intro exI [of _ t]) (simp add: collect_block_def Let_def pushes push_frames emit_calls
        persisted_storage_def persisted_balances_def persisted_nonces_def persisted_codes_def real_defs [abs_def])
qed

lemma collect_block_error:
  assumes "\<not> list_all (\<lambda>trx. \<not> boundary_missing trx) (blk_transaction_traces block)"
  shows "collect_block S block s =
     Inl ''failed SetCode transaction has no authorization/execution ordinal boundary''"
  unfolding collect_block_def Let_def by (rule collect_txs_error [OF assms])

end

section \<open>No-op records\<close>

text \<open>
  Storage words and balances arrive as big-endian bytes, possibly trimmed.  Two byte strings
  denote the same number exactly when they agree after dropping leading zeros.
\<close>

lemma trimmed_strip_zeros: "trimmed (strip_zeros bs)"
  by (induction bs) (simp_all add: trimmed_def)

lemma be_val_strip_zeros [simp]: "be_val (strip_zeros bs) = be_val bs"
  by (induction bs) auto

text \<open>
  A storage record is dropped as a no-op exactly when its old and new words are the same
  number, and a balance record exactly when its amounts are (an absent amount is zero).
\<close>

lemma noop_iff_same_number:
  "(storage_is_noop sc \<longleftrightarrow> be_val (sc_old_value sc) = be_val (sc_new_value sc)) \<and>
   (balance_is_noop bc \<longleftrightarrow>
      be_val (bytes_or_empty (bc_old_value bc)) = be_val (bytes_or_empty (bc_new_value bc)))"
proof -
  have "strip_zeros a = strip_zeros b \<longleftrightarrow> be_val a = be_val b" for a b
    using trimmed_be_val_inject [OF trimmed_strip_zeros trimmed_strip_zeros, of a b]
    by (metis be_val_strip_zeros)
  then show ?thesis by (simp add: storage_is_noop_def balance_is_noop_def)
qed

section \<open>What a failed transaction keeps\<close>

lemma min_by_key_mem: "min_by_key f xs = Some x \<Longrightarrow> x \<in> set xs"
  by (induction xs arbitrary: x) (auto split: option.splits if_splits)

lemma min_by_key_least: "min_by_key f xs = Some x \<Longrightarrow> y \<in> set xs \<Longrightarrow> f x \<le> f y"
proof (induction xs arbitrary: x)
  case Nil
  then show ?case by simp
next
  case (Cons a xs)
  show ?case
  proof (cases "min_by_key f xs")
    case None
    then have "xs = []" by (cases xs) (auto split: option.splits if_splits)
    with Cons.prems None show ?thesis by auto
  next
    case (Some z)
    with Cons show ?thesis by (fastforce split: if_splits)
  qed
qed

lemma min_by_key_None [simp]: "min_by_key f xs = None \<longleftrightarrow> xs = []"
  by (cases xs) (auto split: option.splits if_splits)

lemma sender_nonce_mem:
  "sender_nonce trx root = Some (i, c) \<Longrightarrow> c \<in> set (call_nonce_changes root) \<and> is_sender_nonce trx c"
  by (auto simp: sender_nonce_def in_set_enumerate_eq dest!: min_by_key_mem)

lemma authorities_iff:
  "a \<in> authorities trx \<longleftrightarrow> trx_type trx = TrxTypeSetCode \<and> a \<noteq> [] \<and>
     (\<exists>sa \<in> set (trx_set_code_authorizations trx). \<not> sa_discarded sa \<and> sa_authority sa = Some a)"
  by (force simp: authorities_def List.map_filter_def)

end
