(* ===== verification/Collect.thy ===== *)
theory Collect
  imports Persist
begin

text \<open>
  The shared core of the package, \<open>src/lib.rs\<close>: the collector (the package's sink), which keeps
  the changes of the selected accounts, and \<open>collect\<close>, the persisted, filtered and
  ordinal-sorted changes of a block.
\<close>

definition origin :: "u64 \<Rightarrow> Ctx \<Rightarrow> Origin option" where
  "origin ord ctx = Some \<lparr>or_ordinal = ord, or_scope = cx_scope ctx, or_tx_hash = cx_tx_hash ctx,
     or_tx_index = cx_tx_index ctx, or_tx_status = cx_tx_status ctx, or_call_index = cx_call_index ctx\<rparr>"

definition bigint_dec :: "'x mapperlib_scheme \<Rightarrow> bytes option \<Rightarrow> string" where
  "bigint_dec X v = (case v of
      Some b \<Rightarrow> if b \<noteq> [] then bigint_to_string X b else ''0''
    | None \<Rightarrow> ''0'')"

definition mk_storage :: "eth_storage_change \<Rightarrow> Ctx \<Rightarrow> StorageChange" where
  "mk_storage c ctx = \<lparr>st_address = sc_address c, st_key = sc_key c, st_old_value = sc_old_value c,
     st_new_value = sc_new_value c, st_origin = origin (sc_ordinal c) ctx\<rparr>"

definition mk_balance :: "'x mapperlib_scheme \<Rightarrow> eth_balance_change \<Rightarrow> Ctx \<Rightarrow> BalanceChange" where
  "mk_balance X c ctx = \<lparr>ba_address = bc_address c, ba_old_value = bigint_dec X (bc_old_value c),
     ba_new_value = bigint_dec X (bc_new_value c), ba_reason = bc_reason c,
     ba_origin = origin (bc_ordinal c) ctx\<rparr>"

definition mk_nonce :: "eth_nonce_change \<Rightarrow> Ctx \<Rightarrow> NonceChange" where
  "mk_nonce c ctx = \<lparr>no_address = nc_address c, no_old_value = nc_old_value c,
     no_new_value = nc_new_value c, no_origin = origin (nc_ordinal c) ctx\<rparr>"

definition mk_code :: "eth_code_change \<Rightarrow> Ctx \<Rightarrow> CodeChange" where
  "mk_code c ctx = \<lparr>co_address = cc_address c, co_old_hash = cc_old_hash c,
     co_new_hash = cc_new_hash c, co_new_code = cc_new_code c, co_origin = origin (cc_ordinal c) ctx\<rparr>"

definition Collector :: "'x mapperlib_scheme \<Rightarrow> Filter \<Rightarrow> StateChanges Sink" where
  "Collector X f =
     \<lparr>snk_storage = (\<lambda>c ctx out. if \<not> matches f (sc_address c) then out
        else out\<lparr>sch_storage_changes := sch_storage_changes out @ [mk_storage c ctx]\<rparr>),
      snk_balance = (\<lambda>c ctx out. if \<not> matches f (bc_address c) then out
        else out\<lparr>sch_balance_changes := sch_balance_changes out @ [mk_balance X c ctx]\<rparr>),
      snk_nonce = (\<lambda>c ctx out. if \<not> matches f (nc_address c) then out
        else out\<lparr>sch_nonce_changes := sch_nonce_changes out @ [mk_nonce c ctx]\<rparr>),
      snk_code = (\<lambda>c ctx out. if \<not> matches f (cc_address c) then out
        else out\<lparr>sch_code_changes := sch_code_changes out @ [mk_code c ctx]\<rparr>)\<rparr>"

definition block_info :: "eth_block \<Rightarrow> BlockInfo" where
  "block_info block = (let header = blk_header block in
     \<lparr>bi_number = blk_number block, bi_hash = blk_hash block,
      bi_parent_hash = (case header of Some h \<Rightarrow> hdr_parent_hash h | None \<Rightarrow> []),
      bi_timestamp = (case Option.bind header hdr_timestamp of
         Some t \<Rightarrow> word_of_int (ts_seconds t) | None \<Rightarrow> 0),
      bi_state_root = (case header of Some h \<Rightarrow> hdr_state_root h | None \<Rightarrow> []),
      bi_coinbase = (case header of Some h \<Rightarrow> hdr_coinbase h | None \<Rightarrow> []),
      bi_transaction_count = of_nat (length (blk_transaction_traces block))\<rparr>)"

definition empty_changes :: "BlockInfo option \<Rightarrow> StateChanges" where
  "empty_changes info = \<lparr>sch_block = info, sch_storage_changes = [], sch_balance_changes = [],
     sch_nonce_changes = [], sch_code_changes = [], sch_set_code_authorizations = []\<rparr>"

definition push_authorizations :: "Filter \<Rightarrow> eth_transaction \<Rightarrow> StateChanges \<Rightarrow> StateChanges" where
  "push_authorizations f trx out =
     (if trx_type trx \<noteq> TrxTypeSetCode then out
      else fold (\<lambda>(i, a) out.
        let authority = (case sa_authority a of Some b \<Rightarrow> b | None \<Rightarrow> []) in
        if \<not> (matches f authority \<or> matches f (sa_address a)) then out
        else out\<lparr>sch_set_code_authorizations := sch_set_code_authorizations out @
          [\<lparr>au_tx_hash = trx_hash trx, au_tx_index = trx_index trx, au_index = of_nat i,
            au_authority = authority, au_delegate = sa_address a, au_nonce = sa_nonce a,
            au_discarded = sa_discarded a, au_tx_status = trx_status trx\<rparr>]\<rparr>)
        (enumerate 0 (trx_set_code_authorizations trx)) out)"

definition ord :: "Origin option \<Rightarrow> u64" where
  "ord o' = (case o' of Some r \<Rightarrow> or_ordinal r | None \<Rightarrow> 0)"

definition sort_changes :: "StateChanges \<Rightarrow> StateChanges" where
  "sort_changes out = out
     \<lparr>sch_storage_changes := sort_key (\<lambda>c. ord (st_origin c)) (sch_storage_changes out),
      sch_balance_changes := sort_key (\<lambda>c. ord (ba_origin c)) (sch_balance_changes out),
      sch_nonce_changes := sort_key (\<lambda>c. ord (no_origin c)) (sch_nonce_changes out),
      sch_code_changes := sort_key (\<lambda>c. ord (co_origin c)) (sch_code_changes out)\<rparr>"

definition collect :: "'x mapperlib_scheme \<Rightarrow> string \<Rightarrow> eth_block \<Rightarrow> StateChanges res" where
  "collect X params block =
     bnd (map_err (\<lambda>e. ''params: '' @ e) (parse X params)) (\<lambda>f.
     bnd (collect_block (Collector X f) block (empty_changes (Some (block_info block)))) (\<lambda>out.
     Inr (sort_changes (fold (push_authorizations f) (blk_transaction_traces block) out))))"

definition map_state_changes :: "'x mapperlib_scheme \<Rightarrow> string \<Rightarrow> eth_block \<Rightarrow> StateChanges res" where
  "map_state_changes X params block = collect X params block"

section \<open>The collector is a sink\<close>

interpretation coll: change_sink "Collector X f" "matches f"
    sch_storage_changes sch_balance_changes sch_nonce_changes sch_code_changes
    mk_storage "mk_balance X" mk_nonce mk_code
  for X f
  by unfold_locales (simp_all add: Collector_def)

lemma push_authorizations_frame [simp]:
  "sch_storage_changes (push_authorizations f trx out) = sch_storage_changes out"
  "sch_balance_changes (push_authorizations f trx out) = sch_balance_changes out"
  "sch_nonce_changes (push_authorizations f trx out) = sch_nonce_changes out"
  "sch_code_changes (push_authorizations f trx out) = sch_code_changes out"
proof -
  have "sch_storage_changes (fold g es out) = sch_storage_changes out \<and>
      sch_balance_changes (fold g es out) = sch_balance_changes out \<and>
      sch_nonce_changes (fold g es out) = sch_nonce_changes out \<and>
      sch_code_changes (fold g es out) = sch_code_changes out"
    if "\<And>e out. sch_storage_changes (g e out) = sch_storage_changes out \<and>
      sch_balance_changes (g e out) = sch_balance_changes out \<and>
      sch_nonce_changes (g e out) = sch_nonce_changes out \<and>
      sch_code_changes (g e out) = sch_code_changes out" for g and es :: "'z list"
    using that by (induction es arbitrary: out) simp_all
  note frame = this
  show "sch_storage_changes (push_authorizations f trx out) = sch_storage_changes out"
    "sch_balance_changes (push_authorizations f trx out) = sch_balance_changes out"
    "sch_nonce_changes (push_authorizations f trx out) = sch_nonce_changes out"
    "sch_code_changes (push_authorizations f trx out) = sch_code_changes out"
    unfolding push_authorizations_def by (auto simp: Let_def intro: frame [THEN conjunct1]
        frame [THEN conjunct2, THEN conjunct1] frame [THEN conjunct2, THEN conjunct2, THEN conjunct1]
        frame [THEN conjunct2, THEN conjunct2, THEN conjunct2])
qed

lemma fold_push_authorizations_frame [simp]:
  "sch_storage_changes (fold (push_authorizations f) txs out) = sch_storage_changes out"
  "sch_balance_changes (fold (push_authorizations f) txs out) = sch_balance_changes out"
  "sch_nonce_changes (fold (push_authorizations f) txs out) = sch_nonce_changes out"
  "sch_code_changes (fold (push_authorizations f) txs out) = sch_code_changes out"
  by (induction txs arbitrary: out) simp_all

definition boundaries_ok :: "eth_block \<Rightarrow> bool" where
  "boundaries_ok block \<longleftrightarrow> list_all (\<lambda>trx. \<not> boundary_missing trx) (blk_transaction_traces block)"

text \<open>The four lists of the result, against the specification.\<close>

lemma collect_lists:
  assumes "parse X params = Inr f" and "boundaries_ok block"
  shows "\<exists>out. collect X params block = Inr out \<and>
     sch_storage_changes out = sort_key (\<lambda>c. ord (st_origin c))
       (kept (matches f) sc_address mk_storage (persisted_storage block)) \<and>
     sch_balance_changes out = sort_key (\<lambda>c. ord (ba_origin c))
       (kept (matches f) bc_address (mk_balance X) (persisted_balances block)) \<and>
     sch_nonce_changes out = sort_key (\<lambda>c. ord (no_origin c))
       (kept (matches f) nc_address mk_nonce (persisted_nonces block)) \<and>
     sch_code_changes out = sort_key (\<lambda>c. ord (co_origin c))
       (kept (matches f) cc_address mk_code (persisted_codes block))"
proof -
  obtain t where t: "collect_block (Collector X f) block (empty_changes (Some (block_info block))) = Inr t"
    "sch_storage_changes t = kept (matches f) sc_address mk_storage (persisted_storage block)"
    "sch_balance_changes t = kept (matches f) bc_address (mk_balance X) (persisted_balances block)"
    "sch_nonce_changes t = kept (matches f) nc_address mk_nonce (persisted_nonces block)"
    "sch_code_changes t = kept (matches f) cc_address mk_code (persisted_codes block)"
    using coll.collect_block_ok [OF assms(2) [unfolded boundaries_ok_def], of X f
        "empty_changes (Some (block_info block))"]
    by (auto simp: empty_changes_def)
  then show ?thesis using assms(1) by (simp add: collect_def sort_changes_def)
qed

lemma collect_Inr:
  assumes "collect X params block = Inr out"
  shows "boundaries_ok block" and "\<exists>f. parse X params = Inr f"
proof -
  from assms obtain f where f: "parse X params = Inr f" by (auto simp: collect_def res_simps)
  then show "\<exists>f. parse X params = Inr f" ..
  show "boundaries_ok block"
  proof (rule ccontr)
    assume "\<not> boundaries_ok block"
    then have "\<not> list_all (\<lambda>trx. \<not> boundary_missing trx) (blk_transaction_traces block)"
      by (simp add: boundaries_ok_def)
    from coll.collect_block_error [OF this, of X f] assms f show False by (simp add: collect_def)
  qed
qed

section \<open>Properties\<close>

definition ex_mapper :: mapperlib where
  "ex_mapper = \<lparr>hex_encode = ref_encode, hex_decode = ref_decode,
     bigint_to_string = (\<lambda>bs. show_nat (be_val bs))\<rparr>"

lemma ex_mapper_codec: "hex_ok ex_mapper"
  by (simp add: ex_mapper_def ref_codec.hex_codec_axioms)

lemma parse_one:
  assumes "hex_ok X" and "length a = 20"
  shows "parse X (''0x'' @ hex_encode X a) = Inr \<lparr>accounts = [a]\<rparr>"
proof -
  have "list_all (\<lambda>c. \<not> is_separator c) (''0x'' @ hex_encode X a)"
    using hex_codec.set_enc [OF assms(1)] lower_hex_not_sep x_not_sep by (auto simp: list_all_iff)
  then have "split_on is_separator (''0x'' @ hex_encode X a) = [''0x'' @ hex_encode X a]"
    by (rule split_on_word)
  with assms show ?thesis
    by (simp add: parse_def parse_account_canonical del: append.simps append_Cons)
qed

text \<open>
  C4: collecting a block yields exactly the changes the persistence rules name, of the selected
  accounts only, each list in the order of the execution ordinals (and in block order among
  equal ordinals); it fails exactly when the filter does not parse or a failed set-code
  transaction has no boundary between authorization and execution.
\<close>

theorem collect_refines:
  "case parse X params of
     Inl e \<Rightarrow> collect X params block = Inl (''params: '' @ e)
   | Inr f \<Rightarrow>
       if boundaries_ok block then
         (\<exists>out. collect X params block = Inr out \<and>
           sch_storage_changes out = sort_key (\<lambda>c. ord (st_origin c))
             (kept (matches f) sc_address mk_storage (persisted_storage block)) \<and>
           sch_balance_changes out = sort_key (\<lambda>c. ord (ba_origin c))
             (kept (matches f) bc_address (mk_balance X) (persisted_balances block)) \<and>
           sch_nonce_changes out = sort_key (\<lambda>c. ord (no_origin c))
             (kept (matches f) nc_address mk_nonce (persisted_nonces block)) \<and>
           sch_code_changes out = sort_key (\<lambda>c. ord (co_origin c))
             (kept (matches f) cc_address mk_code (persisted_codes block)))
       else collect X params block =
         Inl ''failed SetCode transaction has no authorization/execution ordinal boundary''"
proof (cases "parse X params")
  case (Inl e)
  then show ?thesis by (simp add: collect_def)
next
  case (Inr f)
  show ?thesis
  proof (cases "boundaries_ok block")
    case True
    from collect_lists [OF Inr this] Inr True show ?thesis by simp
  next
    case False
    then have "\<not> list_all (\<lambda>trx. \<not> boundary_missing trx) (blk_transaction_traces block)"
      by (simp add: boundaries_ok_def)
    from coll.collect_block_error [OF this, of X f] Inr False show ?thesis by (simp add: collect_def)
  qed
qed

lemma kept_mem:
  "a \<in> set (kept keep addr mk l) \<longleftrightarrow> (\<exists>c x. (c, x) \<in> set l \<and> keep (addr c) \<and> a = mk c x)"
  by (force simp: kept_def)

text \<open>
  C6: a transaction that failed or reverted adds no storage change; the balance changes it adds
  are the root call's gas purchases, refunds and fees; the nonce changes it adds are one
  increment of the sender or changes of a non-discarded authority before execution began; the
  code changes it adds are those of such an authority.
\<close>

theorem failed_transaction_keeps:
  assumes failed: "is_failed trx" and calls: "trx_calls trx = root # rest"
    and ret: "collect_transaction (Collector X f) trx s = Inr t"
  shows "sch_storage_changes t = sch_storage_changes s \<and>
    (\<exists>bs ns cs. sch_balance_changes t = sch_balance_changes s @ bs \<and>
       sch_nonce_changes t = sch_nonce_changes s @ ns \<and> sch_code_changes t = sch_code_changes s @ cs \<and>
       (\<forall>b \<in> set bs. \<exists>c \<in> set (call_balance_changes root).
          is_gas_reason c \<and> \<not> balance_is_noop c \<and> matches f (bc_address c) \<and>
          b = mk_balance X c (tx_ctx trx TxFailedPersistent (call_index root))) \<and>
       (\<forall>n \<in> set ns. \<exists>c \<in> set (call_nonce_changes root). matches f (nc_address c) \<and>
          (is_sender_nonce trx c \<and> n = mk_nonce c (tx_ctx trx TxFailedPersistent (call_index root)) \<or>
           nc_address c \<in> authorities trx \<and> before_execution root (nc_ordinal c) \<and>
             n = mk_nonce c (tx_ctx trx Tx7702 (call_index root)))) \<and>
       (\<forall>d \<in> set cs. \<exists>c \<in> set (call_code_changes root). matches f (cc_address c) \<and>
          cc_address c \<in> authorities trx \<and> before_execution root (cc_ordinal c) \<and>
          d = mk_code c (tx_ctx trx Tx7702 (call_index root))))"
proof -
  have "\<not> boundary_missing trx" using coll.collect_tx_error [of trx X f s] ret by auto
  note eff = coll.collect_tx [OF this, of X f s]
  let ?bs = "kept (matches f) bc_address (mk_balance X) (tx_balances trx)"
  let ?ns = "kept (matches f) nc_address mk_nonce (tx_nonces trx)"
  let ?cs = "kept (matches f) cc_address mk_code (tx_codes trx)"
  have lists: "sch_storage_changes t = sch_storage_changes s"
    "sch_balance_changes t = sch_balance_changes s @ ?bs"
    "sch_nonce_changes t = sch_nonce_changes s @ ?ns" "sch_code_changes t = sch_code_changes s @ ?cs"
    using eff ret failed by (auto simp: tx_storage_def)
  have bs: "tx_balances trx = failed_balances trx root" "tx_nonces trx = failed_nonces trx root"
    "tx_codes trx = failed_codes trx root"
    using failed calls by (simp_all add: tx_balances_def tx_nonces_def tx_codes_def)
  have n: "c \<in> set (call_nonce_changes root) \<and>
      (is_sender_nonce trx c \<and> x = tx_ctx trx TxFailedPersistent (call_index root) \<or>
       nc_address c \<in> authorities trx \<and> before_execution root (nc_ordinal c) \<and>
         x = tx_ctx trx Tx7702 (call_index root))"
    if "(c, x) \<in> set (failed_nonces trx root)" for c x
    using that by (auto simp: failed_nonces_def authority_nonces_def in_set_enumerate_eq
        split: option.splits dest: sender_nonce_mem sym [THEN sender_nonce_mem])
  show ?thesis
    by (intro conjI exI, rule lists(1), rule lists(2), rule lists(3), rule lists(4))
      (auto simp: bs kept_mem failed_balances_def failed_codes_def real_balance_def dest!: n)
qed

definition ex_failed_tx :: eth_transaction where
  "ex_failed_tx = ex_tx\<lparr>trx_status := 3, trx_from := replicate 20 10, trx_nonce := 7,
     trx_calls := [ex_call\<lparr>call_state_reverted := True,
       call_nonce_changes := [\<lparr>nc_address = replicate 20 10, nc_old_value = 7, nc_new_value = 8,
         nc_ordinal = 1\<rparr>]\<rparr>]\<rparr>"

theorem failed_transaction_keeps_witness:
  "\<exists>t. collect_transaction (Collector ex_mapper \<lparr>accounts = []\<rparr>) ex_failed_tx (empty_changes None) = Inr t \<and>
     sch_storage_changes t = [] \<and> length (sch_nonce_changes t) = 1"
proof -
  have tx: "is_failed ex_failed_tx" "authorities ex_failed_tx = {}"
    by (simp_all add: ex_failed_tx_def ex_tx_def is_failed_def authorities_def)
  obtain root where root: "trx_calls ex_failed_tx = [root]"
    by (simp add: ex_failed_tx_def ex_tx_def)
  obtain t where t: "collect_transaction (Collector ex_mapper \<lparr>accounts = []\<rparr>) ex_failed_tx
      (empty_changes None) = Inr t" and n: "length (sch_nonce_changes t) = 1"
    using tx by (simp add: collect_transaction_def ex_failed_tx_def ex_tx_def ex_call_def Let_def
        Collector_def matches_def sender_nonce_def is_sender_nonce_def checked_add_def empty_changes_def)
  have "sch_storage_changes t = []"
    using failed_transaction_keeps [OF tx(1) root t] by (simp add: empty_changes_def)
  with t n show ?thesis by blast
qed

end
