(* ===== verification/Lifecycle.thy ===== *)
theory Lifecycle
  imports Collect
begin

text \<open>
  Account deletion at the end of a transaction (EIP-6780), \<open>src/lifecycle.rs\<close>: the account in
  whose context a \<open>SELFDESTRUCT\<close> ran, and the accounts a block deletes with the ordinal at which
  each deletion takes effect.
\<close>

definition BSC_CANCUN_TIME :: u64 where
  "BSC_CANCUN_TIME = 1718863500"

definition delegated :: "eth_call \<Rightarrow> bool" where
  "delegated call \<longleftrightarrow> call_call_type call = Delegate \<or> call_call_type call = Callcode"

definition parent_call :: "eth_call \<Rightarrow> eth_call list \<Rightarrow> eth_call option" where
  "parent_call call calls =
     find (\<lambda>p. call_index p = call_parent_index call \<and> call_index p \<noteq> call_index call) calls"

function execution_loop :: "eth_call list \<Rightarrow> eth_call \<Rightarrow> u32 set \<Rightarrow> bytes res" where
  "execution_loop calls current visited =
     (if delegated current then
        if call_index current \<in> visited then Inl ''cyclic delegated call ancestry''
        else (case parent_call current calls of
            None \<Rightarrow> Inl ''delegated SELFDESTRUCT missing execution context''
          | Some p \<Rightarrow> execution_loop calls p (insert (call_index current) visited))
      else Inr (call_address current))"
  by pat_completeness auto
termination
proof (relation "measure (\<lambda>(calls, current, visited). card (UNIV - visited))")
  fix calls current visited p
  assume "call_index current \<notin> visited"
  then have "UNIV - insert (call_index current) visited \<subset> UNIV - visited" by auto
  then have "card (UNIV - insert (call_index current) visited) < card (UNIV - visited)"
    by (rule psubset_card_mono [OF finite])
  then show "((calls, p, insert (call_index current) visited), (calls, current, visited))
      \<in> measure (\<lambda>(calls, current, visited). card (UNIV - visited))" by simp
qed simp

declare execution_loop.simps [simp del]

definition execution_address :: "eth_call \<Rightarrow> eth_call list \<Rightarrow> bytes res" where
  "execution_address call calls = execution_loop calls call {}"

definition created_accounts :: "eth_transaction \<Rightarrow> bytes set" where
  "created_accounts tx = set (map call_address
     (filter (\<lambda>c. \<not> call_state_reverted c \<and> call_call_type c = Create) (trx_calls tx)))"

definition destroying_calls :: "eth_transaction \<Rightarrow> eth_call list" where
  "destroying_calls tx = filter (\<lambda>c. call_suicide c \<and> \<not> call_state_reverted c) (trx_calls tx)"

definition delete_call :: "u64 \<Rightarrow> eth_transaction \<Rightarrow> eth_call \<Rightarrow> (bytes, u64) btree \<Rightarrow> (bytes, u64) btree res" where
  "delete_call timestamp tx call result =
     bnd (execution_address call (trx_calls tx)) (\<lambda>account.
       if timestamp < BSC_CANCUN_TIME \<or> account \<in> created_accounts tx then
         if trx_end_ordinal tx = 0 \<or> trx_end_ordinal tx \<le> call_end_ordinal call then
           Inl ''account deletion has no reliable transaction-end ordinal''
         else Inr (bt_insert account
                (case map_of result account of
                   Some end \<Rightarrow> max end (trx_end_ordinal tx) | None \<Rightarrow> trx_end_ordinal tx) result)
       else Inr result)"

definition delete_tx :: "u64 \<Rightarrow> eth_transaction \<Rightarrow> (bytes, u64) btree \<Rightarrow> (bytes, u64) btree res" where
  "delete_tx timestamp tx result =
     (if tx_status_of (trx_status tx) \<noteq> Succeeded then Inr result
      else fold_res (delete_call timestamp tx) (destroying_calls tx) result)"

definition deletions :: "eth_block \<Rightarrow> u64 \<Rightarrow> (bytes, u64) btree res" where
  "deletions block timestamp =
     bnd (fold_res (delete_tx timestamp) (blk_transaction_traces block) []) (\<lambda>result.
       if list_ex (\<lambda>call. call_suicide call \<and> \<not> call_state_reverted call) (blk_system_calls block)
       then Inl ''SELFDESTRUCT in system execution requires producer qualification''
       else Inr result)"

section \<open>The execution account\<close>

text \<open>The account of the nearest enclosing call that is not delegated.\<close>

inductive executes_as :: "eth_call list \<Rightarrow> eth_call \<Rightarrow> bytes \<Rightarrow> bool" for calls where
  own: "\<not> delegated c \<Longrightarrow> executes_as calls c (call_address c)"
| inherit: "delegated c \<Longrightarrow> parent_call c calls = Some p \<Longrightarrow> executes_as calls p a \<Longrightarrow>
     executes_as calls c a"

lemma execution_loop_sound:
  "execution_loop calls c visited = Inr a \<Longrightarrow> executes_as calls c a"
proof (induction calls c visited rule: execution_loop.induct)
  case (1 calls c visited)
  show ?case
  proof (cases "delegated c")
    case False
    with "1.prems" have "a = call_address c" by (simp add: execution_loop.simps [of calls c])
    with False show ?thesis by (simp add: executes_as.own)
  next
    case True
    with "1.prems" obtain p where p: "call_index c \<notin> visited" "parent_call c calls = Some p"
        "execution_loop calls p (insert (call_index c) visited) = Inr a"
      by (auto simp: execution_loop.simps [of calls c] split: if_splits option.splits)
    have "executes_as calls p a" by (rule "1.IH" [OF True p(1,2,3)])
    with True p show ?thesis by (blast intro: executes_as.inherit)
  qed
qed

text \<open>
  Conversely the loop finds the account whenever there is one, provided the call indices are
  distinct: a call whose index was visited is then the visited call, and an ancestry that comes
  back to a call never ends.  The length of the ancestry makes this precise.
\<close>

inductive ancestry :: "eth_call list \<Rightarrow> nat \<Rightarrow> eth_call \<Rightarrow> bytes \<Rightarrow> bool" for calls where
  zero: "\<not> delegated c \<Longrightarrow> ancestry calls 0 c (call_address c)"
| suc: "delegated c \<Longrightarrow> parent_call c calls = Some p \<Longrightarrow> ancestry calls n p a \<Longrightarrow>
     ancestry calls (Suc n) c a"

lemma executes_as_ancestry: "executes_as calls c a \<Longrightarrow> \<exists>n. ancestry calls n c a"
  by (induction rule: executes_as.induct) (blast intro: ancestry.intros)+

lemma ancestry_unique: "ancestry calls n c a \<Longrightarrow> ancestry calls m c b \<Longrightarrow> n = m \<and> a = b"
proof (induction arbitrary: m b rule: ancestry.induct)
  case (zero c)
  then show ?case by (auto elim: ancestry.cases)
next
  case (suc c p n a)
  from suc.prems suc.hyps obtain k where "m = Suc k" "ancestry calls k p b"
    by (auto elim: ancestry.cases)
  with suc.IH show ?case by blast
qed

lemma parent_call_mem: "parent_call c calls = Some p \<Longrightarrow> p \<in> set calls"
  by (auto simp: parent_call_def find_Some_iff)

lemma execution_loop_complete:
  assumes "distinct (map call_index calls)" and "ancestry calls n c a" and "c \<in> set calls"
    and "\<And>v. v \<in> visited \<Longrightarrow> \<exists>d \<in> set calls. \<exists>m > n. call_index d = v \<and> ancestry calls m d a"
  shows "execution_loop calls c visited = Inr a"
  using assms(2-)
proof (induction n c a arbitrary: visited rule: ancestry.induct)
  case (zero c)
  then show ?case by (simp add: execution_loop.simps [of calls c])
next
  case (suc c p n a)
  have anc: "ancestry calls (Suc n) c a" using suc.hyps by (blast intro: ancestry.suc)
  have fresh: "call_index c \<notin> visited"
  proof
    assume "call_index c \<in> visited"
    then obtain d m where d: "d \<in> set calls" "call_index d = call_index c" "Suc n < m"
        "ancestry calls m d a"
      using suc.prems(2) by blast
    then have "d = c" using assms(1) suc.prems(1) by (meson distinct_map inj_onD)
    with d(3,4) anc ancestry_unique show False by blast
  qed
  have "execution_loop calls p (insert (call_index c) visited) = Inr a"
  proof (rule suc.IH)
    show "p \<in> set calls" using suc.hyps(2) by (rule parent_call_mem)
    fix v assume "v \<in> insert (call_index c) visited"
    then show "\<exists>d \<in> set calls. \<exists>m > n. call_index d = v \<and> ancestry calls m d a"
      using suc.prems anc by (metis Suc_lessD insertE lessI)
  qed
  with suc.hyps fresh show ?case by (simp add: execution_loop.simps [of calls c])
qed

text \<open>
  In a transaction whose calls have distinct indices, the execution account the loop returns
  is the account of the nearest enclosing call that is not delegated, and the loop returns an
  error exactly when there is none.
\<close>

lemma execution_address_iff:
  assumes "distinct (map call_index calls)" and "call \<in> set calls"
  shows "execution_address call calls = Inr a \<longleftrightarrow> executes_as calls call a"
proof
  assume "execution_address call calls = Inr a"
  then show "executes_as calls call a"
    unfolding execution_address_def by (rule execution_loop_sound)
next
  assume "executes_as calls call a"
  then obtain n where "ancestry calls n call a" using executes_as_ancestry by blast
  then show "execution_address call calls = Inr a"
    unfolding execution_address_def
    by (rule execution_loop_complete [OF assms(1)]) (use assms(2) in simp_all)
qed

section \<open>The deleted accounts\<close>

definition deletes :: "u64 \<Rightarrow> eth_transaction \<Rightarrow> bytes \<Rightarrow> bool" where
  "deletes timestamp tx a \<longleftrightarrow> trx_status tx = 1 \<and>
     (\<exists>c \<in> set (destroying_calls tx). execution_address c (trx_calls tx) = Inr a) \<and>
     (timestamp < BSC_CANCUN_TIME \<or> a \<in> created_accounts tx)"

fun put_max :: "bytes \<times> u64 \<Rightarrow> (bytes, u64) btree \<Rightarrow> (bytes, u64) btree" where
  "put_max (a, e) r =
     bt_insert a (case map_of r a of Some e' \<Rightarrow> max e' e | None \<Rightarrow> e) r"

definition call_pairs :: "u64 \<Rightarrow> eth_transaction \<Rightarrow> eth_call \<Rightarrow> (bytes \<times> u64) list" where
  "call_pairs timestamp tx call = (case execution_address call (trx_calls tx) of
      Inl _ \<Rightarrow> []
    | Inr a \<Rightarrow> if timestamp < BSC_CANCUN_TIME \<or> a \<in> created_accounts tx
               then [(a, trx_end_ordinal tx)] else [])"

definition tx_pairs :: "u64 \<Rightarrow> eth_transaction \<Rightarrow> (bytes \<times> u64) list" where
  "tx_pairs timestamp tx = (if trx_status tx = 1
     then concat (map (call_pairs timestamp tx) (destroying_calls tx)) else [])"

lemma delete_call_pairs:
  "delete_call ts tx c r = Inr r' \<Longrightarrow> r' = fold put_max (call_pairs ts tx c) r"
  by (auto simp: delete_call_def call_pairs_def res_simps split: if_splits)

lemma delete_calls_pairs:
  "fold_res (delete_call ts tx) cs r = Inr r' \<Longrightarrow>
     r' = fold put_max (concat (map (call_pairs ts tx) cs)) r"
  by (induction cs arbitrary: r) (auto simp: res_simps dest!: delete_call_pairs)

lemma delete_tx_pairs: "delete_tx ts tx r = Inr r' \<Longrightarrow> r' = fold put_max (tx_pairs ts tx) r"
  by (auto simp: delete_tx_def tx_pairs_def dest!: delete_calls_pairs split: if_splits)

lemma delete_txs_pairs:
  "fold_res (delete_tx ts) txs r = Inr r' \<Longrightarrow> r' = fold put_max (concat (map (tx_pairs ts) txs)) r"
  by (induction txs arbitrary: r) (auto simp: res_simps dest!: delete_tx_pairs)

lemma bt_ok_put_max: "bt_ok r \<Longrightarrow> bt_ok (fold put_max ps r)"
proof (induction ps arbitrary: r)
  case (Cons p ps)
  have "bt_ok (put_max p r)" by (cases p) (simp add: bt_ok_insert [OF Cons.prems])
  with Cons.IH show ?case by simp
qed simp

definition ends :: "(bytes \<times> u64) list \<Rightarrow> bytes \<Rightarrow> u64 set" where
  "ends ps a = snd ` {p \<in> set ps. fst p = a}"

lemma ends_snoc: "ends (ps @ [p]) a = (if fst p = a then insert (snd p) (ends ps a) else ends ps a)"
  by (auto simp: ends_def)

lemma finite_ends [simp]: "finite (ends ps a)"
  by (simp add: ends_def)

lemma map_of_put_max:
  "map_of (fold put_max ps []) a = (if ends ps a = {} then None else Some (Max (ends ps a)))"
proof (induction ps arbitrary: a rule: rev_induct)
  case Nil
  show ?case by (simp add: ends_def)
next
  case (snoc p ps)
  then show ?case by (cases p) (auto simp: ends_snoc max.commute)
qed

lemma ends_tx_pairs:
  "ends (concat (map (tx_pairs ts) txs)) a = trx_end_ordinal ` {tx \<in> set txs. deletes ts tx a}"
proof -
  have "(a, e) \<in> set (tx_pairs ts tx) \<longleftrightarrow> deletes ts tx a \<and> e = trx_end_ordinal tx" for tx e
    by (force simp: tx_pairs_def call_pairs_def deletes_def split: sum.splits if_splits)
  then show ?thesis by (force simp: ends_def)
qed

lemma deletions_map_of:
  assumes "deletions block ts = Inr m"
  shows "bt_ok m" and "map_of m a =
    (let T = {tx \<in> set (blk_transaction_traces block). deletes ts tx a} in
     if T = {} then None else Some (Max (trx_end_ordinal ` T)))"
proof -
  from assms have "fold_res (delete_tx ts) (blk_transaction_traces block) [] = Inr m"
    by (auto simp: deletions_def res_simps split: if_splits)
  then have m: "m = fold put_max (concat (map (tx_pairs ts) (blk_transaction_traces block))) []"
    by (rule delete_txs_pairs)
  show "bt_ok m" unfolding m by (rule bt_ok_put_max) simp
  show "map_of m a = (let T = {tx \<in> set (blk_transaction_traces block). deletes ts tx a} in
     if T = {} then None else Some (Max (trx_end_ordinal ` T)))"
    unfolding m map_of_put_max ends_tx_pairs by (simp add: Let_def)
qed

text \<open>
  C5: the accounts reported as deleted are exactly those destroyed, in their own execution
  context, by a call that was not reverted of a transaction that succeeded, after Cancun only
  when the same transaction created them; each with the greatest end ordinal of the
  transactions that delete it.
\<close>

theorem deletions_exact:
  assumes "deletions block ts = Inr m"
  shows "(map_of m a = Some e \<longleftrightarrow>
      (\<exists>tx \<in> set (blk_transaction_traces block). deletes ts tx a \<and> e = trx_end_ordinal tx \<and>
        (\<forall>tx' \<in> set (blk_transaction_traces block). deletes ts tx' a \<longrightarrow> trx_end_ordinal tx' \<le> e)))"
proof -
  let ?T = "{tx \<in> set (blk_transaction_traces block). deletes ts tx a}"
  let ?E = "trx_end_ordinal ` ?T"
  have fin: "finite ?E" by simp
  show ?thesis
  proof (cases "?T = {}")
    case True
    with deletions_map_of(2) [OF assms, of a] show ?thesis by auto
  next
    case False
    then have "map_of m a = Some e \<longleftrightarrow> Max ?E = e"
      using deletions_map_of(2) [OF assms, of a] by (simp only: Let_def if_False) simp
    also have "\<dots> \<longleftrightarrow> e \<in> ?E \<and> (\<forall>x \<in> ?E. x \<le> e)"
      using False by (subst Max_eq_iff) auto
    finally show ?thesis by auto
  qed
qed

definition ex_destruction :: "bool \<Rightarrow> eth_block" where
  "ex_destruction here = ex_block\<lparr>blk_transaction_traces := [ex_tx\<lparr>trx_end_ordinal := 40,
     trx_calls := [ex_call\<lparr>call_index := 1, call_address := replicate 20 4, call_suicide := True,
       call_call_type := (if here then Create else Call), call_begin_ordinal := 3,
       call_end_ordinal := 30\<rparr>]\<rparr>]\<rparr>"

lemma ex_destruction_deletions:
  "deletions (ex_destruction False) (BSC_CANCUN_TIME - 1) = Inr [(replicate 20 4, 40)]"
  "deletions (ex_destruction False) BSC_CANCUN_TIME = Inr []"
  "deletions (ex_destruction True) BSC_CANCUN_TIME = Inr [(replicate 20 4, 40)]"
  by (simp_all add: deletions_def ex_destruction_def ex_block_def ex_tx_def ex_call_def
      delete_tx_def delete_call_def destroying_calls_def execution_address_def
      execution_loop.simps delegated_def BSC_CANCUN_TIME_def created_accounts_def)

theorem deletions_exact_witness:
  "deletes BSC_CANCUN_TIME (hd (blk_transaction_traces (ex_destruction True))) (replicate 20 4)"
  using deletions_exact [OF ex_destruction_deletions(3), of "replicate 20 4" 40]
  by (auto simp: ex_destruction_def ex_block_def)

end
