(* ===== verification/Block_State.thy ===== *)
theory Block_State
  imports Lifecycle
begin

text \<open>
  The native ClickHouse row of a block, \<open>src/block_state.rs\<close>: the block's identity and, for the
  selected accounts, the value each changed key has at the end of the block.  A \<open>BTreeMap\<close> is a
  sorted association list; the loops over the collected changes are folds.
\<close>

definition EMPTY_CODE_HASH :: string where
  "EMPTY_CODE_HASH = ''0xc5d2460186f7233c927e7db2dcc703c0e500b653ca82273b7bfad8045d85a470''"

definition hex :: "'x hexlib_scheme \<Rightarrow> bytes \<Rightarrow> string" where
  "hex X bs = ''0x'' @ hex_encode X bs"

definition pad64 :: "string \<Rightarrow> string" where
  "pad64 s = replicate (64 - length s) CHR ''0'' @ s"

definition word :: "'x hexlib_scheme \<Rightarrow> bytes \<Rightarrow> string res" where
  "word X bs = (if 32 < length bs then Inl ''storage word exceeds 32 bytes''
     else Inr (''0x'' @ pad64 (hex_encode X bs)))"

definition unwrap_ordinal :: "Origin option \<Rightarrow> u64 res" where
  "unwrap_ordinal o' = context_res (map_option or_ordinal o')
     ''called `Option::unwrap()` on a `None` value''"

type_synonym storage_map = "(string \<times> string, StorageValue) btree"
type_synonym balance_map = "(string, BalanceValue) btree"
type_synonym nonce_map = "(string, NonceValue) btree"
type_synonym code_map = "(string, CodeValue) btree"
type_synonym lifecycle_map = "(string \<times> u64 \<times> string, LifecycleEffect) btree"

definition put_effect :: "string \<Rightarrow> u64 \<Rightarrow> string \<Rightarrow> lifecycle_map \<Rightarrow> lifecycle_map" where
  "put_effect address ordinal kind m =
     bt_insert (address, ordinal, kind) \<lparr>le_address = address, le_kind = kind, le_ordinal = ordinal\<rparr> m"

definition put_storage :: "'x hexlib_scheme \<Rightarrow> StorageChange \<Rightarrow> storage_map \<Rightarrow> storage_map res" where
  "put_storage X c storage =
     (let address = hex X (st_address c) in
      bnd (word X (st_key c)) (\<lambda>slot.
      bnd (word X (st_new_value c)) (\<lambda>value.
      bnd (unwrap_ordinal (st_origin c)) (\<lambda>ordinal.
      Inr (bt_insert (address, slot)
        \<lparr>sv_address = address, sv_slot = slot, sv_value = value, sv_ordinal = ordinal\<rparr> storage)))))"

definition put_balance :: "'x hexlib_scheme \<Rightarrow> BalanceChange \<Rightarrow> balance_map \<Rightarrow> balance_map res" where
  "put_balance X c balances =
     (let address = hex X (ba_address c) in
      bnd (unwrap_ordinal (ba_origin c)) (\<lambda>ordinal.
      Inr (bt_insert address
        \<lparr>bv_address = address, bv_value = ba_new_value c, bv_ordinal = ordinal\<rparr> balances)))"

definition put_nonce :: "'x hexlib_scheme \<Rightarrow> NonceChange \<Rightarrow> nonce_map \<times> lifecycle_map \<Rightarrow>
    (nonce_map \<times> lifecycle_map) res" where
  "put_nonce X c acc =
     (let address = hex X (no_address c) in
      bnd (unwrap_ordinal (no_origin c)) (\<lambda>ordinal.
      let lifecycle = (if no_new_value c < no_old_value c
            then put_effect address ordinal ''nonce_reset'' (snd acc) else snd acc)
      in Inr (bt_insert address
           \<lparr>nv_address = address, nv_value = no_new_value c, nv_ordinal = ordinal\<rparr> (fst acc), lifecycle)))"

definition put_code :: "'x hexlib_scheme \<Rightarrow> CodeChange \<Rightarrow> code_map \<times> lifecycle_map \<Rightarrow>
    (code_map \<times> lifecycle_map) res" where
  "put_code X c acc =
     (let address = hex X (co_address c) in
      bnd (unwrap_ordinal (co_origin c)) (\<lambda>ordinal.
      ensure (length (co_new_hash c) = 32 \<or> co_new_hash c = [] \<and> co_new_code c = [])
        ''invalid code hash''
      (let lifecycle = (if co_new_code c = []
            then put_effect address ordinal ''code_cleared'' (snd acc) else snd acc)
       in Inr (bt_insert address
            \<lparr>cv_address = address,
             cv_hash = (if co_new_hash c = [] then EMPTY_CODE_HASH else hex X (co_new_hash c)),
             cv_code = hex X (co_new_code c), cv_ordinal = ordinal\<rparr> (fst acc), lifecycle))))"

definition put_selfdestructs :: "'x hexlib_scheme \<Rightarrow> Filter \<Rightarrow> eth_transaction \<Rightarrow> lifecycle_map \<Rightarrow>
    lifecycle_map res" where
  "put_selfdestructs X f tx lifecycle =
     fold_res (\<lambda>call lifecycle.
         bnd (execution_address call (trx_calls tx)) (\<lambda>account.
         if matches f account
         then Inr (put_effect (hex X account) (call_end_ordinal call) ''selfdestruct'' lifecycle)
         else Inr lifecycle))
       (filter (\<lambda>call. call_suicide call \<and> \<not> call_state_reverted call) (trx_calls tx)) lifecycle"

record block_maps =
  m_storage :: storage_map
  m_balances :: balance_map
  m_nonces :: nonce_map
  m_codes :: code_map
  m_lifecycle :: lifecycle_map

definition stale :: "('k, 'v) btree \<Rightarrow> ('v \<Rightarrow> u64) \<Rightarrow> 'k \<Rightarrow> u64 \<Rightarrow> bool" where
  "stale m ordinal_of key ordinal \<longleftrightarrow>
     (case map_of m key of None \<Rightarrow> True | Some value \<Rightarrow> ordinal_of value < ordinal)"

definition apply_deletion :: "'x hexlib_scheme \<Rightarrow> Filter \<Rightarrow> bytes \<times> u64 \<Rightarrow> block_maps \<Rightarrow> block_maps" where
  "apply_deletion X f d m = (case d of (account, ordinal) \<Rightarrow>
     if \<not> matches f account then m
     else let address = hex X account in
       m\<lparr>m_lifecycle := put_effect address ordinal ''storage_reset'' (m_lifecycle m),
         m_storage := bt_retain (\<lambda>(owner, slot) value. owner \<noteq> address \<or> ordinal < sv_ordinal value)
           (m_storage m),
         m_balances := (if stale (m_balances m) bv_ordinal address ordinal
           then bt_insert address \<lparr>bv_address = address, bv_value = ''0'', bv_ordinal = ordinal\<rparr> (m_balances m)
           else m_balances m),
         m_nonces := (if stale (m_nonces m) nv_ordinal address ordinal
           then bt_insert address \<lparr>nv_address = address, nv_value = 0, nv_ordinal = ordinal\<rparr> (m_nonces m)
           else m_nonces m),
         m_codes := (if stale (m_codes m) cv_ordinal address ordinal
           then bt_insert address \<lparr>cv_address = address, cv_hash = EMPTY_CODE_HASH, cv_code = ''0x'',
                  cv_ordinal = ordinal\<rparr> (m_codes m)
           else m_codes m)\<rparr>)"

definition check_trace :: "eth_transaction \<Rightarrow> unit \<Rightarrow> unit res" where
  "check_trace tx u =
     ensure (1 \<le> trx_status tx \<and> trx_status tx \<le> 3) ''unknown transaction persistence status''
    (ensure (trx_calls tx \<noteq> []) ''Extended transaction missing calls'' (Inr ()))"

definition check_block :: "eth_block \<Rightarrow> (eth_header \<times> eth_timestamp) res" where
  "check_block block =
     ensure (blk_detail_level block = DetaillevelExtended) ''account state requires Extended blocks''
    (ensure (3 \<le> blk_ver block \<and> blk_ver block \<le> 5) ''unsupported producer version (supported: 3..5)''
    (bnd (context_res (blk_header block) ''missing block header'') (\<lambda>header.
     ensure (length (blk_hash block) = 32 \<and> length (hdr_parent_hash header) = 32 \<and>
             length (hdr_state_root header) = 32)
       ''missing or invalid block hash, parent hash or state root''
    (ensure (hdr_number header = blk_number block) ''header/block number mismatch''
    (bnd (context_res (hdr_timestamp header) ''missing block timestamp'') (\<lambda>timestamp.
     ensure (0 \<le> ts_seconds timestamp \<and> 0 \<le> ts_nanos timestamp \<and> ts_nanos timestamp < 1000000000)
       ''invalid block timestamp''
    (bnd (fold_res check_trace (blk_transaction_traces block) ()) (\<lambda>_.
     Inr (header, timestamp)))))))))"

definition collapse :: "'x hexlib_scheme \<Rightarrow> Filter \<Rightarrow> eth_block \<Rightarrow> StateChanges \<Rightarrow> block_maps res" where
  "collapse X f block changes =
     bnd (fold_res (put_storage X) (sch_storage_changes changes) []) (\<lambda>storage.
     bnd (fold_res (put_balance X) (sch_balance_changes changes) []) (\<lambda>balances.
     bnd (fold_res (put_nonce X) (sch_nonce_changes changes) ([], [])) (\<lambda>(nonces, lifecycle).
     bnd (fold_res (put_code X) (sch_code_changes changes) ([], lifecycle)) (\<lambda>(codes, lifecycle).
     bnd (fold_res (put_selfdestructs X f)
           (filter (\<lambda>tx. tx_status_of (trx_status tx) = Succeeded) (blk_transaction_traces block))
           lifecycle) (\<lambda>lifecycle.
     Inr \<lparr>m_storage = storage, m_balances = balances, m_nonces = nonces, m_codes = codes,
          m_lifecycle = lifecycle\<rparr>)))))"

definition block_row :: "'x mapperlib_scheme \<Rightarrow> Filter \<Rightarrow> eth_block \<Rightarrow> eth_header \<Rightarrow> eth_timestamp \<Rightarrow>
    block_maps \<Rightarrow> BlockState" where
  "block_row X f block header timestamp m =
     \<lparr>bs_number = blk_number block, bs_hash = hex X (blk_hash block),
      bs_parent_hash = hex X (hdr_parent_hash header),
      bs_timestamp = word_of_int (ts_seconds timestamp),
      bs_state_root = hex X (hdr_state_root header), bs_producer_version = blk_ver block,
      bs_accounts = canonical X f, bs_schema_version = 1,
      bs_storage = bt_values (m_storage m), bs_balances = bt_values (m_balances m),
      bs_nonces = bt_values (m_nonces m), bs_codes = bt_values (m_codes m),
      bs_lifecycle = bt_values (m_lifecycle m)\<rparr>"

definition project :: "'x mapperlib_scheme \<Rightarrow> string \<Rightarrow> eth_block \<Rightarrow> BlockState res" where
  "project X params block =
     bnd (parse X params) (\<lambda>f.
     ensure (\<not> is_empty f) ''map_block_state requires explicit selected accounts''
    (bnd (check_block block) (\<lambda>(header, timestamp).
     bnd (collect X params block) (\<lambda>changes.
     bnd (collapse X f block changes) (\<lambda>maps.
     bnd (deletions block (word_of_int (ts_seconds timestamp))) (\<lambda>dels.
     Inr (block_row X f block header timestamp (fold (apply_deletion X f) dels maps))))))))"

definition map_block_state :: "'x mapperlib_scheme \<Rightarrow> string \<Rightarrow> eth_block \<Rightarrow> BlockState res" where
  "map_block_state X params block = project X params block"

section \<open>The folds as last-value maps\<close>

lemma fold_res_fold:
  assumes "fold_res f xs s = Inr t" and "\<And>x s t. x \<in> set xs \<Longrightarrow> f x s = Inr t \<Longrightarrow> t = g x s"
  shows "t = fold g xs s"
  using assms
proof (induction xs arbitrary: s)
  case Nil
  then show ?case by simp
next
  case (Cons x xs)
  from Cons.prems(1) obtain u where u: "f x s = Inr u" "fold_res f xs u = Inr t"
    by (auto simp: res_simps)
  have "u = g x s" using Cons.prems(2) u(1) by simp
  with Cons.IH [OF u(2)] Cons.prems(2) show ?case by simp
qed

definition slot_text :: "'x hexlib_scheme \<Rightarrow> bytes \<Rightarrow> string" where
  "slot_text X bs = ''0x'' @ pad64 (hex_encode X bs)"

definition storage_key :: "'x hexlib_scheme \<Rightarrow> StorageChange \<Rightarrow> string \<times> string" where
  "storage_key X c = (hex X (st_address c), slot_text X (st_key c))"

definition storage_val :: "'x hexlib_scheme \<Rightarrow> StorageChange \<Rightarrow> StorageValue" where
  "storage_val X c = \<lparr>sv_address = hex X (st_address c), sv_slot = slot_text X (st_key c),
     sv_value = slot_text X (st_new_value c), sv_ordinal = ord (st_origin c)\<rparr>"

definition balance_val :: "'x hexlib_scheme \<Rightarrow> BalanceChange \<Rightarrow> BalanceValue" where
  "balance_val X c = \<lparr>bv_address = hex X (ba_address c), bv_value = ba_new_value c,
     bv_ordinal = ord (ba_origin c)\<rparr>"

definition nonce_val :: "'x hexlib_scheme \<Rightarrow> NonceChange \<Rightarrow> NonceValue" where
  "nonce_val X c = \<lparr>nv_address = hex X (no_address c), nv_value = no_new_value c,
     nv_ordinal = ord (no_origin c)\<rparr>"

definition code_val :: "'x hexlib_scheme \<Rightarrow> CodeChange \<Rightarrow> CodeValue" where
  "code_val X c = \<lparr>cv_address = hex X (co_address c),
     cv_hash = (if co_new_hash c = [] then EMPTY_CODE_HASH else hex X (co_new_hash c)),
     cv_code = hex X (co_new_code c), cv_ordinal = ord (co_origin c)\<rparr>"

lemma storage_projs:
  "fst (storage_key X c) = hex X (st_address c)" "sv_ordinal (storage_val X c) = ord (st_origin c)"
  by (simp_all add: storage_key_def storage_val_def)

lemma unwrap_ordinal_Inr [res_simps]:
  "unwrap_ordinal o' = Inr n \<longleftrightarrow> o' \<noteq> None \<and> n = ord o'"
  by (cases o') (auto simp: unwrap_ordinal_def ord_def)

lemma word_Inr [res_simps]: "word X bs = Inr t \<longleftrightarrow> length bs \<le> 32 \<and> t = slot_text X bs"
  by (auto simp: word_def slot_text_def)

lemma put_storage_Inr:
  "put_storage X c m = Inr m' \<Longrightarrow> m' = bt_insert (storage_key X c) (storage_val X c) m"
  by (auto simp: put_storage_def res_simps storage_key_def storage_val_def Let_def)

lemma put_balance_Inr:
  "put_balance X c m = Inr m' \<Longrightarrow> m' = bt_insert (hex X (ba_address c)) (balance_val X c) m"
  by (auto simp: put_balance_def res_simps balance_val_def Let_def)

lemma put_nonce_Inr:
  "put_nonce X c acc = Inr acc' \<Longrightarrow>
     fst acc' = bt_insert (hex X (no_address c)) (nonce_val X c) (fst acc)"
  by (auto simp: put_nonce_def res_simps nonce_val_def Let_def)

lemma put_code_Inr:
  "put_code X c acc = Inr acc' \<Longrightarrow>
     fst acc' = bt_insert (hex X (co_address c)) (code_val X c) (fst acc)"
  by (auto simp: put_code_def res_simps code_val_def Let_def)

lemma fold_res_fst:
  assumes "fold_res f xs s = Inr t"
    and "\<And>x s t. x \<in> set xs \<Longrightarrow> f x s = Inr t \<Longrightarrow> fst t = g x (fst s)"
  shows "fst t = fold g xs (fst s)"
  using assms
proof (induction xs arbitrary: s)
  case Nil
  then show ?case by simp
next
  case (Cons x xs)
  from Cons.prems(1) obtain u where u: "f x s = Inr u" "fold_res f xs u = Inr t"
    by (auto simp: res_simps)
  have "fst u = g x (fst s)" using Cons.prems(2) u(1) by simp
  with Cons.IH [OF u(2)] Cons.prems(2) show ?case by simp
qed

lemma collapse_maps:
  assumes "collapse X f block changes = Inr m"
  shows "m_storage m = fold (\<lambda>c. bt_insert (storage_key X c) (storage_val X c)) (sch_storage_changes changes) []"
    and "m_balances m = fold (\<lambda>c. bt_insert (hex X (ba_address c)) (balance_val X c)) (sch_balance_changes changes) []"
    and "m_nonces m = fold (\<lambda>c. bt_insert (hex X (no_address c)) (nonce_val X c)) (sch_nonce_changes changes) []"
    and "m_codes m = fold (\<lambda>c. bt_insert (hex X (co_address c)) (code_val X c)) (sch_code_changes changes) []"
proof -
  from assms obtain nl cl where
    s: "fold_res (put_storage X) (sch_storage_changes changes) [] = Inr (m_storage m)" and
    b: "fold_res (put_balance X) (sch_balance_changes changes) [] = Inr (m_balances m)" and
    n: "fold_res (put_nonce X) (sch_nonce_changes changes) ([], []) = Inr (m_nonces m, nl)" and
    c: "fold_res (put_code X) (sch_code_changes changes) ([], nl) = Inr (m_codes m, cl)"
    by (auto simp: collapse_def res_simps split: prod.splits)
  show "m_storage m = fold (\<lambda>c. bt_insert (storage_key X c) (storage_val X c)) (sch_storage_changes changes) []"
    by (rule fold_res_fold [OF s put_storage_Inr])
  show "m_balances m = fold (\<lambda>c. bt_insert (hex X (ba_address c)) (balance_val X c)) (sch_balance_changes changes) []"
    by (rule fold_res_fold [OF b put_balance_Inr])
  show "m_nonces m = fold (\<lambda>c. bt_insert (hex X (no_address c)) (nonce_val X c)) (sch_nonce_changes changes) []"
    using fold_res_fst [OF n, where g = "\<lambda>c. bt_insert (hex X (no_address c)) (nonce_val X c)"]
      put_nonce_Inr by fastforce
  show "m_codes m = fold (\<lambda>c. bt_insert (hex X (co_address c)) (code_val X c)) (sch_code_changes changes) []"
    using fold_res_fst [OF c, where g = "\<lambda>c. bt_insert (hex X (co_address c)) (code_val X c)"]
      put_code_Inr by fastforce
qed

section \<open>Deletions\<close>

definition maps_ok :: "block_maps \<Rightarrow> bool" where
  "maps_ok m \<longleftrightarrow> bt_ok (m_storage m) \<and> bt_ok (m_balances m) \<and> bt_ok (m_nonces m) \<and> bt_ok (m_codes m)"

lemma maps_ok_deletion: "maps_ok m \<Longrightarrow> maps_ok (apply_deletion X f d m)"
  by (auto simp: maps_ok_def apply_deletion_def Let_def split: prod.splits)

lemma maps_ok_deletions: "maps_ok m \<Longrightarrow> maps_ok (fold (apply_deletion X f) ds m)"
  by (induction ds arbitrary: m) (simp_all add: maps_ok_deletion)

definition wiped :: "'x hexlib_scheme \<Rightarrow> Filter \<Rightarrow> (bytes \<times> u64) list \<Rightarrow> string \<Rightarrow> u64 \<Rightarrow> bool" where
  "wiped X f ds owner ordinal \<longleftrightarrow>
     (\<exists>(a, d) \<in> set ds. matches f a \<and> hex X a = owner \<and> ordinal \<le> d)"

lemma storage_after_deletions:
  "maps_ok m \<Longrightarrow> map_of (m_storage (fold (apply_deletion X f) ds m)) k =
     (case map_of (m_storage m) k of None \<Rightarrow> None
      | Some v \<Rightarrow> if wiped X f ds (fst k) (sv_ordinal v) then None else Some v)"
proof (induction ds arbitrary: m)
  case Nil
  show ?case by (simp add: wiped_def split: option.splits)
next
  case (Cons d ds)
  obtain a e where d: "d = (a, e)" by (cases d)
  have ok: "maps_ok (apply_deletion X f d m)" using Cons.prems by (rule maps_ok_deletion)
  have "map_of (m_storage (apply_deletion X f d m)) k =
      (case map_of (m_storage m) k of None \<Rightarrow> None
       | Some v \<Rightarrow> if wiped X f [d] (fst k) (sv_ordinal v) then None else Some v)"
    using Cons.prems by (cases k) (auto simp: d apply_deletion_def Let_def map_of_bt_retain maps_ok_def
        wiped_def not_le split: option.splits)
  with Cons.IH [OF ok] show ?case
    by (auto simp: wiped_def split: option.splits)
qed

text \<open>What a deletion leaves of the last value of a field.\<close>

definition settle :: "('v \<Rightarrow> u64) \<Rightarrow> (u64 \<Rightarrow> 'v) \<Rightarrow> 'v option \<Rightarrow> u64 option \<Rightarrow> 'v option" where
  "settle ordinal_of zero prev del = (case del of None \<Rightarrow> prev
     | Some d \<Rightarrow> (case prev of None \<Rightarrow> Some (zero d)
        | Some v \<Rightarrow> if ordinal_of v < d then Some (zero d) else Some v))"

definition zero_balance :: "string \<Rightarrow> u64 \<Rightarrow> BalanceValue" where
  "zero_balance a d = \<lparr>bv_address = a, bv_value = ''0'', bv_ordinal = d\<rparr>"

definition zero_nonce :: "string \<Rightarrow> u64 \<Rightarrow> NonceValue" where
  "zero_nonce a d = \<lparr>nv_address = a, nv_value = 0, nv_ordinal = d\<rparr>"

definition zero_code :: "string \<Rightarrow> u64 \<Rightarrow> CodeValue" where
  "zero_code a d = \<lparr>cv_address = a, cv_hash = EMPTY_CODE_HASH, cv_code = ''0x'', cv_ordinal = d\<rparr>"

lemma fields_after_deletion:
  fixes X f m account d
  defines "m' \<equiv> apply_deletion X f (account, d) m" and "a \<equiv> hex X account"
  shows "map_of (m_balances m') k = (if matches f account \<and> k = a
      then settle bv_ordinal (zero_balance a) (map_of (m_balances m) a) (Some d) else map_of (m_balances m) k)"
    and "map_of (m_nonces m') k = (if matches f account \<and> k = a
      then settle nv_ordinal (zero_nonce a) (map_of (m_nonces m) a) (Some d) else map_of (m_nonces m) k)"
    and "map_of (m_codes m') k = (if matches f account \<and> k = a
      then settle cv_ordinal (zero_code a) (map_of (m_codes m) a) (Some d) else map_of (m_codes m) k)"
  by (auto simp: m'_def a_def apply_deletion_def Let_def settle_def stale_def zero_balance_def
      zero_nonce_def zero_code_def split: option.splits)

definition del_of :: "'x hexlib_scheme \<Rightarrow> Filter \<Rightarrow> (bytes \<times> u64) list \<Rightarrow> string \<Rightarrow> u64 option" where
  "del_of X f ds k = map_option snd (find (\<lambda>(a, d). matches f a \<and> hex X a = k) ds)"

lemma settle_fold:
  assumes step: "\<And>account d m. P (apply_deletion X f (account, d) m) k =
      (if matches f account \<and> k = hex X account then settle ov z (P m k) (Some d) else P m k)"
    and inj: "inj (hex X)" and dist: "distinct (map fst ds)"
  shows "P (fold (apply_deletion X f) ds m) k = settle ov z (P m k) (del_of X f ds k)"
  using dist
proof (induction ds arbitrary: m)
  case Nil
  show ?case by (simp add: settle_def del_of_def)
next
  case (Cons p ds)
  obtain a d where p: "p = (a, d)" by (cases p)
  show ?case
  proof (cases "matches f a \<and> k = hex X a")
    case True
    have "find (\<lambda>(b, e). matches f b \<and> hex X b = k) ds = None"
      using Cons.prems True inj by (auto simp: find_None_iff p dest: injD) (metis fst_conv image_eqI injD)
    then have "del_of X f ds k = None" by (simp add: del_of_def)
    moreover have "del_of X f (p # ds) k = Some d" using True by (simp add: del_of_def p)
    ultimately show ?thesis
      using True Cons.IH [of "apply_deletion X f p m"] Cons.prems step [of a d m]
      by (simp add: p) (simp add: settle_def)
  next
    case False
    then have "del_of X f (p # ds) k = del_of X f ds k" by (auto simp: del_of_def p)
    with False Cons show ?thesis by (auto simp: p step)
  qed
qed

lemma hex_inj: "hex_ok X \<Longrightarrow> inj (hex X)"
  by (auto intro!: injI simp: hex_def hex_codec.enc_inject)

lemma fields_after_deletions:
  assumes "hex_ok X" and "distinct (map fst ds)"
  shows "map_of (m_balances (fold (apply_deletion X f) ds m)) k =
      settle bv_ordinal (zero_balance k) (map_of (m_balances m) k) (del_of X f ds k)"
    and "map_of (m_nonces (fold (apply_deletion X f) ds m)) k =
      settle nv_ordinal (zero_nonce k) (map_of (m_nonces m) k) (del_of X f ds k)"
    and "map_of (m_codes (fold (apply_deletion X f) ds m)) k =
      settle cv_ordinal (zero_code k) (map_of (m_codes m) k) (del_of X f ds k)"
  by (rule settle_fold [where P = "\<lambda>m. map_of (m_balances m)"]
      settle_fold [where P = "\<lambda>m. map_of (m_nonces m)"]
      settle_fold [where P = "\<lambda>m. map_of (m_codes m)"];
      simp add: fields_after_deletion hex_inj [OF assms(1)] assms(2))+

section \<open>What a successful projection is made of\<close>

lemma project_Inr:
  assumes "project X params block = Inr row"
  obtains f header timestamp changes maps dels where
    "parse X params = Inr f" and "\<not> is_empty f" and "check_block block = Inr (header, timestamp)"
    and "collect X params block = Inr changes" and "collapse X f block changes = Inr maps"
    and "deletions block (word_of_int (ts_seconds timestamp)) = Inr dels"
    and "row = block_row X f block header timestamp (fold (apply_deletion X f) dels maps)"
  using assms by (auto simp: project_def res_simps Let_def split: prod.splits)

text \<open>The changes a row is made of, in execution order.\<close>

definition storage_log :: "Filter \<Rightarrow> eth_block \<Rightarrow> StorageChange list" where
  "storage_log f block = sort_key (\<lambda>c. ord (st_origin c))
     (kept (matches f) sc_address mk_storage (persisted_storage block))"

definition balance_log :: "'x mapperlib_scheme \<Rightarrow> Filter \<Rightarrow> eth_block \<Rightarrow> BalanceChange list" where
  "balance_log X f block = sort_key (\<lambda>c. ord (ba_origin c))
     (kept (matches f) bc_address (mk_balance X) (persisted_balances block))"

definition nonce_log :: "Filter \<Rightarrow> eth_block \<Rightarrow> NonceChange list" where
  "nonce_log f block = sort_key (\<lambda>c. ord (no_origin c))
     (kept (matches f) nc_address mk_nonce (persisted_nonces block))"

definition code_log :: "Filter \<Rightarrow> eth_block \<Rightarrow> CodeChange list" where
  "code_log f block = sort_key (\<lambda>c. ord (co_origin c))
     (kept (matches f) cc_address mk_code (persisted_codes block))"

lemma collect_logs:
  assumes "parse X params = Inr f" and "collect X params block = Inr changes"
  shows "sch_storage_changes changes = storage_log f block"
    and "sch_balance_changes changes = balance_log X f block"
    and "sch_nonce_changes changes = nonce_log f block"
    and "sch_code_changes changes = code_log f block"
  using collect_lists [OF assms(1) collect_Inr(1) [OF assms(2)]] assms(2)
  by (auto simp: storage_log_def balance_log_def nonce_log_def code_log_def)

lemma check_block_Inr:
  assumes "check_block block = Inr (header, timestamp)"
  shows "blk_header block = Some header \<and> hdr_timestamp header = Some timestamp \<and>
    blk_detail_level block = DetaillevelExtended \<and> 3 \<le> blk_ver block \<and> blk_ver block \<le> 5 \<and>
    length (blk_hash block) = 32 \<and> length (hdr_parent_hash header) = 32 \<and>
    length (hdr_state_root header) = 32 \<and> hdr_number header = blk_number block \<and>
    0 \<le> ts_seconds timestamp"
  using assms by (auto simp: check_block_def res_simps)

lemma del_of_eq:
  assumes inj: "inj (hex X)" and ok: "bt_ok dels" and sel: "matches f a"
  shows "del_of X f dels (hex X a) = map_of dels a"
proof (cases "map_of dels a")
  case None
  then have "find (\<lambda>(b, d). matches f b \<and> hex X b = hex X a) dels = None"
    using inj by (auto simp: find_None_iff map_of_eq_None_iff dest: injD) (metis fst_conv image_eqI injD)
  with None show ?thesis by (simp add: del_of_def)
next
  case (Some d)
  then have "(a, d) \<in> set dels" by (rule map_of_SomeD)
  then obtain b e where be: "find (\<lambda>(b, d). matches f b \<and> hex X b = hex X a) dels = Some (b, e)"
    using sel by (cases "find (\<lambda>(b, d). matches f b \<and> hex X b = hex X a) dels")
      (auto simp: find_None_iff)
  then have "(b, e) \<in> set dels" "hex X b = hex X a"
    by (auto simp: find_Some_iff in_set_conv_nth)
  then have "map_of dels a = Some e"
    using inj ok bt_ok_distinct by (metis injD map_of_is_SomeI)
  with be Some show ?thesis by (simp add: del_of_def)
qed

lemma del_of_unselected:
  assumes "inj (hex X)" and "\<not> matches f a"
  shows "del_of X f dels (hex X a) = None"
  using assms by (auto simp: del_of_def find_None_iff dest: injD)

definition deleted_at :: "eth_block \<Rightarrow> u64 \<Rightarrow> bytes \<Rightarrow> u64 option" where
  "deleted_at block ts a = (let T = {tx \<in> set (blk_transaction_traces block). deletes ts tx a} in
     if T = {} then None else Some (Max (trx_end_ordinal ` T)))"

lemma deletions_deleted_at: "deletions block ts = Inr m \<Longrightarrow> map_of m a = deleted_at block ts a"
  by (simp only: deletions_map_of(2) deleted_at_def)

lemma wiped_iff:
  assumes inj: "inj (hex X)" and dels: "deletions block ts = Inr dels" and sel: "matches f a"
  shows "wiped X f dels (hex X a) n \<longleftrightarrow>
    (\<exists>tx \<in> set (blk_transaction_traces block). deletes ts tx a \<and> n \<le> trx_end_ordinal tx)"
proof -
  let ?E = "trx_end_ordinal ` {tx \<in> set (blk_transaction_traces block). deletes ts tx a}"
  have ok: "bt_ok dels" by (rule deletions_map_of(1) [OF dels])
  have "wiped X f dels (hex X a) n \<longleftrightarrow> (\<exists>d. map_of dels a = Some d \<and> n \<le> d)"
    using inj sel bt_ok_distinct [OF ok]
    by (auto simp: wiped_def dest: injD map_of_SomeD intro: map_of_is_SomeI)
  also have "\<dots> \<longleftrightarrow> ?E \<noteq> {} \<and> n \<le> Max ?E"
    using deletions_map_of(2) [OF dels, of a] by (auto simp: Let_def)
  also have "\<dots> \<longleftrightarrow> (\<exists>e \<in> ?E. n \<le> e)" by (cases "?E = {}") (auto simp: Max_ge_iff)
  finally show ?thesis by auto
qed

lemma log_selected: "c \<in> set (storage_log f block) \<Longrightarrow> matches f (st_address c)"
  by (auto simp: storage_log_def kept_mem mk_storage_def)

lemma bt_values_keys:
  assumes "bt_ok m" and "\<And>k v. map_of m k = Some v \<Longrightarrow> key v = k"
  shows "map key (bt_values m) = map fst m"
  using assms by (auto simp: bt_values_def bt_ok_distinct)

lemma find_bt_values:
  assumes "bt_ok m" and "\<And>k v. map_of m k = Some v \<Longrightarrow> key v = k"
  shows "find (\<lambda>v. key v = k) (bt_values m) = map_of m k"
  using assms
proof (induction m)
  case Nil
  show ?case by (simp add: bt_values_def)
next
  case (Cons e m)
  obtain a b where e: "e = (a, b)" by (cases e)
  have ab: "key b = a" using Cons.prems(2) [of a b] by (simp add: e)
  have "key v = k" if "map_of m k = Some v" for k v
  proof -
    have "k \<noteq> a" using that Cons.prems(1) by (auto simp: e dest!: map_of_SomeD)
    with that Cons.prems(2) [of k v] show ?thesis by (simp add: e)
  qed
  with Cons have "find (\<lambda>v. key v = k) (bt_values m) = map_of m k" by simp
  with ab show ?case by (simp add: e bt_values_def)
qed

text \<open>The maps behind a row, each as a function of the logs and the deletions.\<close>

lemma project_maps:
  assumes ok: "hex_ok X" and ret: "project X params block = Inr row" and f: "parse X params = Inr f"
  obtains dels m where
    "deletions block (bs_timestamp row) = Inr dels" and "maps_ok m"
    and "bs_storage row = bt_values (m_storage m)" and "bs_balances row = bt_values (m_balances m)"
    and "bs_nonces row = bt_values (m_nonces m)" and "bs_codes row = bt_values (m_codes m)"
    and "\<forall>k. map_of (m_storage m) k =
      (case last_val (storage_key X) (storage_val X) (storage_log f block) k of None \<Rightarrow> None
       | Some v \<Rightarrow> if wiped X f dels (fst k) (sv_ordinal v) then None else Some v)"
    and "\<forall>k. map_of (m_balances m) k = settle bv_ordinal (zero_balance k)
      (last_val (\<lambda>c. hex X (ba_address c)) (balance_val X) (balance_log X f block) k) (del_of X f dels k)"
    and "\<forall>k. map_of (m_nonces m) k = settle nv_ordinal (zero_nonce k)
      (last_val (\<lambda>c. hex X (no_address c)) (nonce_val X) (nonce_log f block) k) (del_of X f dels k)"
    and "\<forall>k. map_of (m_codes m) k = settle cv_ordinal (zero_code k)
      (last_val (\<lambda>c. hex X (co_address c)) (code_val X) (code_log f block) k) (del_of X f dels k)"
proof -
  obtain g header timestamp changes maps dels where
    g: "parse X params = Inr g" and b: "collect X params block = Inr changes"
      "collapse X g block changes = Inr maps"
      "deletions block (word_of_int (ts_seconds timestamp)) = Inr dels" and
    row: "row = block_row X g block header timestamp (fold (apply_deletion X g) dels maps)"
    by (rule project_Inr [OF ret])
  have fg: "g = f" using f g by simp
  let ?m = "fold (apply_deletion X f) dels maps"
  have maps: "maps_ok maps"
    unfolding maps_ok_def collapse_maps [OF b(2)] by (intro conjI bt_ok_fold_insert) simp_all
  have d: "distinct (map fst dels)" by (rule bt_ok_distinct [OF deletions_map_of(1) [OF b(3)]])
  note cm = collapse_maps [OF b(2)] collect_logs [OF f b(1)] map_of_fold_bt_insert
  show ?thesis
  proof (rule that [of dels ?m])
    show "\<forall>k. map_of (m_storage ?m) k =
      (case last_val (storage_key X) (storage_val X) (storage_log f block) k of None \<Rightarrow> None
       | Some v \<Rightarrow> if wiped X f dels (fst k) (sv_ordinal v) then None else Some v)"
      unfolding storage_after_deletions [OF maps] cm by (auto split: option.splits)
    show "\<forall>k. map_of (m_balances ?m) k = settle bv_ordinal (zero_balance k)
      (last_val (\<lambda>c. hex X (ba_address c)) (balance_val X) (balance_log X f block) k) (del_of X f dels k)"
      unfolding fields_after_deletions [OF ok d] cm by (auto split: option.splits)
    show "\<forall>k. map_of (m_nonces ?m) k = settle nv_ordinal (zero_nonce k)
      (last_val (\<lambda>c. hex X (no_address c)) (nonce_val X) (nonce_log f block) k) (del_of X f dels k)"
      unfolding fields_after_deletions [OF ok d] cm by (auto split: option.splits)
    show "\<forall>k. map_of (m_codes ?m) k = settle cv_ordinal (zero_code k)
      (last_val (\<lambda>c. hex X (co_address c)) (code_val X) (code_log f block) k) (del_of X f dels k)"
      unfolding fields_after_deletions [OF ok d] cm by (auto split: option.splits)
  qed (use b(3) row fg maps_ok_deletions [OF maps] in \<open>simp_all add: block_row_def\<close>)
qed

text \<open>
  C2: the storage entries of a row are in strictly increasing key order, so each slot occurs
  once; and they are exactly the last persisted write of each slot of a selected account, less
  those made at or before the end of a transaction that deleted the account.
\<close>

theorem project_storage_exact:
  assumes ok: "hex_ok X" and ret: "project X params block = Inr row" and f: "parse X params = Inr f"
  shows "sorted_wrt (<) (map (\<lambda>v. (sv_address v, sv_slot v)) (bs_storage row)) \<and>
    (v \<in> set (bs_storage row) \<longleftrightarrow>
      (\<exists>ys c zs. storage_log f block = ys @ c # zs \<and> v = storage_val X c \<and>
         (\<forall>z \<in> set zs. storage_key X z \<noteq> storage_key X c) \<and>
         (\<forall>tx \<in> set (blk_transaction_traces block).
            deletes (bs_timestamp row) tx (st_address c) \<longrightarrow> trx_end_ordinal tx < ord (st_origin c))))"
proof -
  obtain dels m where dels: "deletions block (bs_timestamp row) = Inr dels" and mok: "maps_ok m"
    and sto: "bs_storage row = bt_values (m_storage m)"
    and look: "\<forall>k. map_of (m_storage m) k =
      (case last_val (storage_key X) (storage_val X) (storage_log f block) k of None \<Rightarrow> None
       | Some v \<Rightarrow> if wiped X f dels (fst k) (sv_ordinal v) then None else Some v)"
    by (rule project_maps [OF ok ret f])
  have bt: "bt_ok (m_storage m)" using mok by (simp add: maps_ok_def)
  have key: "(sv_address v, sv_slot v) = k" if "map_of (m_storage m) k = Some v" for k v
    using that look [THEN spec, of k] by (auto simp: storage_key_def storage_val_def split: option.splits if_splits
        dest!: last_val_SomeD)
  have wipe: "\<not> wiped X f dels (hex X (st_address c)) (ord (st_origin c)) \<longleftrightarrow>
      (\<forall>tx \<in> set (blk_transaction_traces block).
         deletes (bs_timestamp row) tx (st_address c) \<longrightarrow> trx_end_ordinal tx < ord (st_origin c))"
    if "storage_log f block = ys @ c # zs" for ys c zs
    using wiped_iff [OF hex_inj [OF ok] dels log_selected [of c f block]] that by (auto simp: not_le)
  have "map (\<lambda>v. (sv_address v, sv_slot v)) (bs_storage row) = map fst (m_storage m)"
    unfolding sto by (rule bt_values_keys [OF bt key])
  then have sorted: "sorted_wrt (<) (map (\<lambda>v. (sv_address v, sv_slot v)) (bs_storage row))"
    using bt by simp
  have "v \<in> set (bs_storage row) \<longleftrightarrow> (\<exists>k. map_of (m_storage m) k = Some v)"
    unfolding sto by (rule set_bt_values [OF bt])
  also have "\<dots> \<longleftrightarrow> (\<exists>k. last_val (storage_key X) (storage_val X) (storage_log f block) k = Some v \<and>
      \<not> wiped X f dels (fst k) (sv_ordinal v))"
    by (rule iff_exI) (auto simp: look split: option.split)
  also have "\<dots> \<longleftrightarrow> (\<exists>ys c zs. storage_log f block = ys @ c # zs \<and> v = storage_val X c \<and>
      (\<forall>z \<in> set zs. storage_key X z \<noteq> storage_key X c) \<and>
      \<not> wiped X f dels (hex X (st_address c)) (ord (st_origin c)))"
    by (subst last_val_ex [where P = "\<lambda>q r. \<not> wiped X f dels (fst q) (sv_ordinal r)"])
      (simp only: storage_projs)
  also have "\<dots> \<longleftrightarrow> (\<exists>ys c zs. storage_log f block = ys @ c # zs \<and> v = storage_val X c \<and>
      (\<forall>z \<in> set zs. storage_key X z \<noteq> storage_key X c) \<and>
      (\<forall>tx \<in> set (blk_transaction_traces block).
         deletes (bs_timestamp row) tx (st_address c) \<longrightarrow> trx_end_ordinal tx < ord (st_origin c)))"
    by (intro iff_exI) (use wipe in blast)
  finally show ?thesis using sorted by blast
qed

text \<open>
  C3: the balance, nonce and code entry of a selected account are the last persisted change of
  that field in the block, unless a later transaction end deleted the account: then the entry
  is zero (for code, the empty code) with the deletion's ordinal.  Each field is resolved on its
  own, and an account with neither a change nor a deletion has no entry.
\<close>

theorem project_fields_exact:
  assumes ok: "hex_ok X" and ret: "project X params block = Inr row" and f: "parse X params = Inr f"
    and sel: "matches f a"
  defines "h \<equiv> hex X a" and "del \<equiv> deleted_at block (bs_timestamp row) a"
  shows "find (\<lambda>v. bv_address v = h) (bs_balances row) = settle bv_ordinal (zero_balance h)
      (last_val (\<lambda>c. hex X (ba_address c)) (balance_val X) (balance_log X f block) h) del \<and>
    find (\<lambda>v. nv_address v = h) (bs_nonces row) = settle nv_ordinal (zero_nonce h)
      (last_val (\<lambda>c. hex X (no_address c)) (nonce_val X) (nonce_log f block) h) del \<and>
    find (\<lambda>v. cv_address v = h) (bs_codes row) = settle cv_ordinal (zero_code h)
      (last_val (\<lambda>c. hex X (co_address c)) (code_val X) (code_log f block) h) del"
proof -
  obtain dels m where dels: "deletions block (bs_timestamp row) = Inr dels" and mok: "maps_ok m"
    and rows: "bs_balances row = bt_values (m_balances m)" "bs_nonces row = bt_values (m_nonces m)"
      "bs_codes row = bt_values (m_codes m)"
    and look: "\<forall>k. map_of (m_balances m) k = settle bv_ordinal (zero_balance k)
      (last_val (\<lambda>c. hex X (ba_address c)) (balance_val X) (balance_log X f block) k) (del_of X f dels k)"
      "\<forall>k. map_of (m_nonces m) k = settle nv_ordinal (zero_nonce k)
      (last_val (\<lambda>c. hex X (no_address c)) (nonce_val X) (nonce_log f block) k) (del_of X f dels k)"
      "\<forall>k. map_of (m_codes m) k = settle cv_ordinal (zero_code k)
      (last_val (\<lambda>c. hex X (co_address c)) (code_val X) (code_log f block) k) (del_of X f dels k)"
    by (rule project_maps [OF ok ret f])
  have bt: "bt_ok (m_balances m)" "bt_ok (m_nonces m)" "bt_ok (m_codes m)"
    using mok by (simp_all add: maps_ok_def)
  have "del_of X f dels h = del"
    using del_of_eq [OF hex_inj [OF ok] deletions_map_of(1) [OF dels] sel] deletions_map_of(2) [OF dels]
    by (simp add: h_def del_def deleted_at_def)
  moreover have "find (\<lambda>v. bv_address v = h) (bs_balances row) = map_of (m_balances m) h"
    unfolding rows by (rule find_bt_values [OF bt(1)])
      (use look(1) in \<open>auto simp: settle_def zero_balance_def balance_val_def
         split: option.splits if_splits dest!: last_val_SomeD\<close>)
  moreover have "find (\<lambda>v. nv_address v = h) (bs_nonces row) = map_of (m_nonces m) h"
    unfolding rows by (rule find_bt_values [OF bt(2)])
      (use look(2) in \<open>auto simp: settle_def zero_nonce_def nonce_val_def
         split: option.splits if_splits dest!: last_val_SomeD\<close>)
  moreover have "find (\<lambda>v. cv_address v = h) (bs_codes row) = map_of (m_codes m) h"
    unfolding rows by (rule find_bt_values [OF bt(3)])
      (use look(3) in \<open>auto simp: settle_def zero_code_def code_val_def
         split: option.splits if_splits dest!: last_val_SomeD\<close>)
  ultimately show ?thesis using look by simp
qed

section \<open>A closed example\<close>

text \<open>An account is destroyed by one transaction and created again by the next.\<close>

definition ex_row_block :: eth_block where
  "ex_row_block = ex_block\<lparr>blk_transaction_traces := [ex_tx\<lparr>trx_end_ordinal := 40,
     trx_calls := [ex_call\<lparr>call_index := 1, call_address := replicate 20 4, call_suicide := True,
       call_call_type := Call, call_begin_ordinal := 3, call_end_ordinal := 30\<rparr>]\<rparr>,
     ex_tx\<lparr>trx_index := 1, trx_end_ordinal := 80,
     trx_calls := [ex_call\<lparr>call_index := 1, call_address := replicate 20 4,
       call_call_type := Create, call_begin_ordinal := 50, call_end_ordinal := 79,
       call_storage_changes := [\<lparr>sc_address = replicate 20 4, sc_key = [2], sc_old_value = [],
         sc_new_value = [9], sc_ordinal = 60\<rparr>]\<rparr>]\<rparr>]\<rparr>"

definition ex_params :: string where "ex_params = ''0x'' @ ref_encode (replicate 20 4)"

lemma ex_parse: "parse ex_mapper ex_params = Inr \<lparr>accounts = [replicate 20 4]\<rparr>"
proof -
  have "ex_params = ''0x'' @ hex_encode ex_mapper (replicate 20 4)"
    by (simp add: ex_params_def ex_mapper_def)
  then show ?thesis using parse_one [OF ex_mapper_codec, of "replicate 20 4"] by (simp only: length_replicate simp_thms)
qed

lemma ex_check: "check_block ex_row_block = Inr (\<lparr>hdr_number = 100, hdr_parent_hash = replicate 32 1,
       hdr_state_root = replicate 32 3, hdr_coinbase = [],
       hdr_timestamp = Some \<lparr>ts_seconds = 1000, ts_nanos = 0\<rparr>\<rparr>, \<lparr>ts_seconds = 1000, ts_nanos = 0\<rparr>)"
  by (simp add: check_block_def ex_row_block_def ex_block_def ex_tx_def ex_call_def check_trace_def)

lemma ex_log: "storage_log \<lparr>accounts = [replicate 20 4]\<rparr> ex_row_block =
  [\<lparr>st_address = replicate 20 4, st_key = [2], st_old_value = [], st_new_value = [9],
    st_origin = Some \<lparr>or_ordinal = 60, or_scope = Tx, or_tx_hash = [], or_tx_index = 1, or_tx_status = 1, or_call_index = 1\<rparr>\<rparr>]"
  by (simp add: storage_log_def persisted_storage_def ex_row_block_def ex_block_def ex_tx_def ex_call_def
   live_changes_def tx_storage_def is_failed_def real_storage_def storage_is_noop_def matches_def mk_storage_def
   origin_def tx_ctx_def)

lemma ex_deletions: "deletions ex_row_block 1000 = Inr [(replicate 20 4, 40)]"
  by (simp add: deletions_def ex_row_block_def ex_block_def ex_tx_def ex_call_def
      delete_tx_def delete_call_def destroying_calls_def execution_address_def
      execution_loop.simps delegated_def BSC_CANCUN_TIME_def created_accounts_def)

lemma ex_row: "\<exists>row. project ex_mapper ex_params ex_row_block = Inr row \<and> length (bs_storage row) = 1 \<and>
   bs_timestamp row = 1000"
proof -
  have "boundaries_ok ex_row_block"
    by (simp add: boundaries_ok_def boundary_missing_def ex_row_block_def ex_block_def ex_tx_def is_failed_def)
  from collect_lists [OF ex_parse this] obtain ch where ch: "collect ex_mapper ex_params ex_row_block = Inr ch" by blast
  note logs = collect_logs [OF ex_parse ch]
  have l: "sch_balance_changes ch = []" "sch_nonce_changes ch = []" "sch_code_changes ch = []"
    unfolding logs by (simp_all add: balance_log_def nonce_log_def code_log_def persisted_balances_def persisted_nonces_def persisted_codes_def
     ex_row_block_def ex_block_def ex_tx_def ex_call_def live_changes_def tx_balances_def tx_nonces_def tx_codes_def is_failed_def)
  let ?v = "\<lparr>sv_address = hex ex_mapper (replicate 20 4), sv_slot = slot_text ex_mapper [2],
    sv_value = slot_text ex_mapper [9], sv_ordinal = 60\<rparr>"
  have sd: "\<exists>lc. fold_res (put_selfdestructs ex_mapper \<lparr>accounts = [replicate 20 4]\<rparr>)
       (filter (\<lambda>tx. tx_status_of (trx_status tx) = Succeeded) (blk_transaction_traces ex_row_block)) [] = Inr lc"
    by (simp add: put_selfdestructs_def execution_address_def execution_loop.simps delegated_def
       ex_row_block_def ex_block_def ex_tx_def ex_call_def matches_def)
  then obtain lc where lc: "fold_res (put_selfdestructs ex_mapper \<lparr>accounts = [replicate 20 4]\<rparr>)
       (filter (\<lambda>tx. tx_status_of (trx_status tx) = Succeeded) (blk_transaction_traces ex_row_block)) [] = Inr lc" ..
  have st: "fold_res (put_storage ex_mapper) (sch_storage_changes ch) [] =
     Inr [((hex ex_mapper (replicate 20 4), slot_text ex_mapper [2]), ?v)]"
    by (simp add: logs(1) ex_log put_storage_def word_def unwrap_ordinal_def slot_text_def Let_def)
  have co: "collapse ex_mapper \<lparr>accounts = [replicate 20 4]\<rparr> ex_row_block ch = Inr
    \<lparr>m_storage = [((hex ex_mapper (replicate 20 4), slot_text ex_mapper [2]), ?v)], m_balances = [], m_nonces = [], m_codes = [],
          m_lifecycle = lc\<rparr>"
    by (simp only: collapse_def st l lc fold_res.simps bnd_simps prod.case)
  show ?thesis
    by (simp add: project_def ex_parse is_empty_def ex_check ch co ex_deletions block_row_def apply_deletion_def Let_def
       bt_values_def bt_retain_def matches_def)
qed

theorem project_storage_exact_witness:
  "\<exists>row v. project ex_mapper ex_params ex_row_block = Inr row \<and> bs_storage row = [v] \<and>
     (\<exists>c \<in> set (storage_log \<lparr>accounts = [replicate 20 4]\<rparr> ex_row_block). v = storage_val ex_mapper c)"
proof -
  obtain row where row: "project ex_mapper ex_params ex_row_block = Inr row" "length (bs_storage row) = 1"
    using ex_row by blast
  then obtain v where v: "bs_storage row = [v]" by (auto simp: length_Suc_conv)
  then have "v \<in> set (bs_storage row)" by simp
  then obtain ys c zs where "storage_log \<lparr>accounts = [replicate 20 4]\<rparr> ex_row_block = ys @ c # zs"
      "v = storage_val ex_mapper c"
    using project_storage_exact [OF ex_mapper_codec row(1) ex_parse, of v] by blast
  then have "\<exists>c \<in> set (storage_log \<lparr>accounts = [replicate 20 4]\<rparr> ex_row_block). v = storage_val ex_mapper c"
    by auto
  with row(1) v show ?thesis by blast
qed

theorem project_fields_exact_witness:
  "\<exists>row. project ex_mapper ex_params ex_row_block = Inr row \<and>
     find (\<lambda>v. nv_address v = hex ex_mapper (replicate 20 4)) (bs_nonces row) =
       Some (zero_nonce (hex ex_mapper (replicate 20 4)) 40)"
proof -
  let ?f = "\<lparr>accounts = [replicate 20 (4 :: byte)]\<rparr>" and ?h = "hex ex_mapper (replicate 20 4)"
  obtain row where row: "project ex_mapper ex_params ex_row_block = Inr row" "bs_timestamp row = 1000"
    using ex_row by blast
  have log: "nonce_log ?f ex_row_block = []"
    by (simp add: nonce_log_def persisted_nonces_def ex_row_block_def ex_block_def ex_tx_def ex_call_def
        live_changes_def tx_nonces_def is_failed_def)
  have "deleted_at ex_row_block 1000 (replicate 20 4) = Some 40"
    using deletions_deleted_at [OF ex_deletions, of "replicate 20 4"] by simp
  moreover have "matches ?f (replicate 20 4)" by (simp add: matches_def)
  ultimately have "find (\<lambda>v. nv_address v = ?h) (bs_nonces row) = Some (zero_nonce ?h 40)"
    using project_fields_exact [OF ex_mapper_codec row(1) ex_parse, of "replicate 20 4"] row(2) log
    by (simp add: settle_def)
  with row(1) show ?thesis by blast
qed

text \<open>
  C7: a row is produced only for a non-empty filter and an Extended block of a supported
  producer whose header is complete and consistent and whose transactions all have a known
  status and calls; the row then carries the block's own number, hash, parent hash, state root
  and time, and the canonical text of the filter.
\<close>

theorem project_identity:
  assumes "project X params block = Inr row"
  shows "\<exists>f h t. parse X params = Inr f \<and> \<not> is_empty f \<and> blk_header block = Some h \<and>
    hdr_timestamp h = Some t \<and> blk_detail_level block = DetaillevelExtended \<and>
    3 \<le> blk_ver block \<and> blk_ver block \<le> 5 \<and> hdr_number h = blk_number block \<and>
    length (blk_hash block) = 32 \<and> length (hdr_parent_hash h) = 32 \<and> length (hdr_state_root h) = 32 \<and>
    (\<forall>tx \<in> set (blk_transaction_traces block).
       1 \<le> trx_status tx \<and> trx_status tx \<le> 3 \<and> trx_calls tx \<noteq> []) \<and>
    bs_number row = blk_number block \<and> bs_hash row = hex X (blk_hash block) \<and>
    bs_parent_hash row = hex X (hdr_parent_hash h) \<and> bs_state_root row = hex X (hdr_state_root h) \<and>
    bs_timestamp row = word_of_int (ts_seconds t) \<and> bs_producer_version row = blk_ver block \<and>
    bs_accounts row = canonical X f \<and> bs_schema_version row = 1"
proof -
  obtain f h t changes maps dels where p: "parse X params = Inr f" "\<not> is_empty f"
    "check_block block = Inr (h, t)" "row = block_row X f block h t (fold (apply_deletion X f) dels maps)"
    by (rule project_Inr [OF assms])
  have traces: "\<forall>tx \<in> set txs. 1 \<le> trx_status tx \<and> trx_status tx \<le> 3 \<and> trx_calls tx \<noteq> []"
    if "fold_res check_trace txs () = Inr u" for txs u
    using that by (induction txs) (auto simp: check_trace_def res_simps)
  have "fold_res check_trace (blk_transaction_traces block) () = Inr ()"
    using p(3) by (auto simp: check_block_def res_simps)
  from traces [OF this] check_block_Inr [OF p(3)] p show ?thesis
    by (intro exI [of _ f] exI [of _ h] exI [of _ t]) (simp add: block_row_def)
qed

theorem project_identity_witness:
  "\<exists>row. project ex_mapper ex_params ex_row_block = Inr row \<and> bs_number row = 100"
proof -
  obtain row where row: "project ex_mapper ex_params ex_row_block = Inr row" using ex_row by blast
  from project_identity [OF row] have "bs_number row = blk_number ex_row_block" by blast
  with row show ?thesis by (simp add: ex_row_block_def ex_block_def)
qed

end
