(* ===== verification/Db_Out.thy ===== *)
theory Db_Out
  imports Block_State
begin

text \<open>
  The PostgreSQL projection, \<open>src/db_out.rs\<close>.  The crate that renders the changes
  (\<open>substreams_database_change\<close>) is not part of the repository: the model of \<open>project\<close> is the
  sequence of calls it makes on \<open>Tables\<close>, one \<open>row_call\<close> per \<open>upsert_row\<close> with the fields set on
  that row in order.  A \<open>HashMap\<close> is a finite map whose iteration order is a parameter of the
  model, of which only that it visits every entry once is known.
\<close>

datatype dbval = VStr string | VU64 u64 | VU32 u32 | VI32 int | VReason reason | VBool bool

datatype setop = Set string dbval | SetIfNull string dbval

record row_call =
  rc_table :: string
  rc_key :: "(string \<times> string) list"
  rc_sets :: "setop list"

record Acc =
  acc_balance :: "(u64 \<times> string) option"
  acc_nonce :: "(u64 \<times> u64) option"
  acc_code :: "(u64 \<times> bytes) option"

type_synonym storage_entry = "(bytes \<times> bytes) \<times> (u64 \<times> bytes)"
type_synonym account_entry = "bytes \<times> Acc"

record hash_orders =
  storage_order :: "storage_entry list \<Rightarrow> storage_entry list"
  account_order :: "account_entry list \<Rightarrow> account_entry list"

definition bytea :: "'x hexlib_scheme \<Rightarrow> bytes \<Rightarrow> string" where
  "bytea X b = CHR 0x5C # ''x'' @ hex_encode X b"

definition db_word :: "'x hexlib_scheme \<Rightarrow> bytes \<Rightarrow> string" where
  "db_word X b = ''0x'' @ concat (replicate (32 - length b) ''00'') @ hex_encode X b"

definition scope_name :: "Origin option \<Rightarrow> string" where
  "scope_name o' = (case map_option or_scope o' of
       Some Tx \<Rightarrow> ''tx''
     | Some TxFailedPersistent \<Rightarrow> ''tx_failed_persistent''
     | Some Tx7702 \<Rightarrow> ''tx_7702''
     | Some SystemCall \<Rightarrow> ''system_call''
     | Some ScopeBlock \<Rightarrow> ''block''
     | _ \<Rightarrow> ''unspecified'')"

definition Origin_default :: Origin where
  "Origin_default = \<lparr>or_ordinal = 0, or_scope = Unspecified, or_tx_hash = [], or_tx_index = 0,
     or_tx_status = 0, or_call_index = 0\<rparr>"

definition set_origin :: "'x hexlib_scheme \<Rightarrow> Origin option \<Rightarrow> setop list" where
  "set_origin X o' =
     (let d = (case o' of Some g \<Rightarrow> g | None \<Rightarrow> Origin_default) in
      [Set ''scope'' (VStr (scope_name (Some d))),
       Set ''tx_hash'' (VStr (if or_tx_hash d = [] then [] else hex X (or_tx_hash d))),
       Set ''tx_index'' (VU32 (or_tx_index d)),
       Set ''tx_status'' (VI32 (or_tx_status d)),
       Set ''call_index'' (VU32 (or_call_index d))])"

definition db_ord :: "Origin option \<Rightarrow> u64" where
  "db_ord o' = (case o' of Some g \<Rightarrow> or_ordinal g | None \<Rightarrow> 0)"

definition BlockInfo_default :: BlockInfo where
  "BlockInfo_default = \<lparr>bi_number = 0, bi_hash = [], bi_parent_hash = [], bi_timestamp = 0,
     bi_state_root = [], bi_coinbase = [], bi_transaction_count = 0\<rparr>"

definition blocks_row :: "'x hexlib_scheme \<Rightarrow> BlockInfo \<Rightarrow> StateChanges \<Rightarrow> row_call" where
  "blocks_row X info ch = \<lparr>rc_table = ''blocks'', rc_key = [(''block_num'', show_u64 (bi_number info))],
     rc_sets =
       [Set ''block_hash'' (VStr (hex X (bi_hash info))),
        Set ''parent_hash'' (VStr (hex X (bi_parent_hash info))),
        Set ''timestamp'' (VStr (show_u64 (bi_timestamp info))),
        Set ''state_root'' (VStr (hex X (bi_state_root info))),
        Set ''coinbase'' (VStr (hex X (bi_coinbase info))),
        Set ''transaction_count'' (VU32 (bi_transaction_count info)),
        Set ''storage_changes'' (VU64 (of_nat (length (sch_storage_changes ch)))),
        Set ''balance_changes'' (VU64 (of_nat (length (sch_balance_changes ch)))),
        Set ''nonce_changes'' (VU64 (of_nat (length (sch_nonce_changes ch)))),
        Set ''code_changes'' (VU64 (of_nat (length (sch_code_changes ch))))]\<rparr>"

definition event_row :: "'x hexlib_scheme \<Rightarrow> BlockInfo \<Rightarrow> string \<Rightarrow> Origin option \<Rightarrow> setop list \<Rightarrow> row_call" where
  "event_row X info table o' fs = \<lparr>rc_table = table,
     rc_key = [(''block_num'', show_u64 (bi_number info)), (''ordinal'', show_u64 (db_ord o'))],
     rc_sets = fs @ [Set ''block_hash'' (VStr (hex X (bi_hash info))),
       Set ''timestamp'' (VStr (show_u64 (bi_timestamp info)))] @ set_origin X o'\<rparr>"

definition storage_event :: "'x hexlib_scheme \<Rightarrow> BlockInfo \<Rightarrow> StorageChange \<Rightarrow> row_call" where
  "storage_event X info c = event_row X info ''storage_changes'' (st_origin c)
     [Set ''address'' (VStr (hex X (st_address c))), Set ''slot'' (VStr (db_word X (st_key c))),
      Set ''old_value'' (VStr (db_word X (st_old_value c))),
      Set ''new_value'' (VStr (db_word X (st_new_value c)))]"

definition balance_event :: "'x hexlib_scheme \<Rightarrow> BlockInfo \<Rightarrow> BalanceChange \<Rightarrow> row_call" where
  "balance_event X info c = event_row X info ''balance_changes'' (ba_origin c)
     [Set ''address'' (VStr (hex X (ba_address c))), Set ''old_value'' (VStr (ba_old_value c)),
      Set ''new_value'' (VStr (ba_new_value c)), Set ''reason'' (VReason (ba_reason c))]"

definition nonce_event :: "'x hexlib_scheme \<Rightarrow> BlockInfo \<Rightarrow> NonceChange \<Rightarrow> row_call" where
  "nonce_event X info c = event_row X info ''nonce_changes'' (no_origin c)
     [Set ''address'' (VStr (hex X (no_address c))), Set ''old_value'' (VU64 (no_old_value c)),
      Set ''new_value'' (VU64 (no_new_value c))]"

definition code_event :: "'x hexlib_scheme \<Rightarrow> BlockInfo \<Rightarrow> CodeChange \<Rightarrow> row_call" where
  "code_event X info c = event_row X info ''code_changes'' (co_origin c)
     [Set ''address'' (VStr (hex X (co_address c))), Set ''old_hash'' (VStr (hex X (co_old_hash c))),
      Set ''new_hash'' (VStr (hex X (co_new_hash c)))]"

definition authorization_row :: "'x hexlib_scheme \<Rightarrow> BlockInfo \<Rightarrow> SetCodeAuthorization \<Rightarrow> row_call" where
  "authorization_row X info a = \<lparr>rc_table = ''set_code_authorizations'',
     rc_key = [(''block_num'', show_u64 (bi_number info)), (''tx_hash'', hex X (au_tx_hash a)),
       (''auth_index'', show_nat (unat (au_index a)))],
     rc_sets = [Set ''block_hash'' (VStr (hex X (bi_hash info))),
       Set ''timestamp'' (VStr (show_u64 (bi_timestamp info))),
       Set ''tx_index'' (VU32 (au_tx_index a)), Set ''tx_status'' (VI32 (au_tx_status a)),
       Set ''authority'' (VStr (hex X (au_authority a))), Set ''delegate'' (VStr (hex X (au_delegate a))),
       Set ''nonce'' (VU64 (au_nonce a)), Set ''discarded'' (VBool (au_discarded a))]\<rparr>"

section \<open>Current state\<close>

definition newer :: "u64 \<Rightarrow> 'v \<Rightarrow> (u64 \<times> 'v) option \<Rightarrow> (u64 \<times> 'v) option" where
  "newer o' v e = (case e of None \<Rightarrow> Some (o', v) | Some (po, pv) \<Rightarrow> if po \<le> o' then Some (o', v) else e)"

definition last_storage_step :: "StorageChange \<Rightarrow> storage_entry list \<Rightarrow> storage_entry list" where
  "last_storage_step c m =
     (case newer (db_ord (st_origin c)) (st_new_value c) (map_of m (st_address c, st_key c)) of
        Some e \<Rightarrow> bt_insert (st_address c, st_key c) e m | None \<Rightarrow> m)"

definition last_storage :: "StorageChange list \<Rightarrow> storage_entry list" where
  "last_storage cs = fold last_storage_step cs []"

definition storage_row :: "'x hexlib_scheme \<Rightarrow> BlockInfo \<Rightarrow> storage_entry \<Rightarrow> row_call" where
  "storage_row X info e = (case e of ((address, slot), (o', value)) \<Rightarrow>
     \<lparr>rc_table = ''storage'', rc_key = [(''address'', hex X address), (''slot'', db_word X slot)],
      rc_sets = [Set ''value'' (VStr (db_word X value)), Set ''block_num'' (VU64 (bi_number info)),
        Set ''ordinal'' (VU64 o')]\<rparr>)"

definition Acc_default :: Acc where
  "Acc_default = \<lparr>acc_balance = None, acc_nonce = None, acc_code = None\<rparr>"

definition entry_or_default :: "account_entry list \<Rightarrow> bytes \<Rightarrow> Acc" where
  "entry_or_default m a = (case map_of m a of Some e \<Rightarrow> e | None \<Rightarrow> Acc_default)"

definition account_balance_step :: "BalanceChange \<Rightarrow> account_entry list \<Rightarrow> account_entry list" where
  "account_balance_step c m = (let a = entry_or_default m (ba_address c) in
     bt_insert (ba_address c)
       (a\<lparr>acc_balance := newer (db_ord (ba_origin c)) (ba_new_value c) (acc_balance a)\<rparr>) m)"

definition account_nonce_step :: "NonceChange \<Rightarrow> account_entry list \<Rightarrow> account_entry list" where
  "account_nonce_step c m = (let a = entry_or_default m (no_address c) in
     bt_insert (no_address c)
       (a\<lparr>acc_nonce := newer (db_ord (no_origin c)) (no_new_value c) (acc_nonce a)\<rparr>) m)"

definition account_code_step :: "CodeChange \<Rightarrow> account_entry list \<Rightarrow> account_entry list" where
  "account_code_step c m = (let a = entry_or_default m (co_address c) in
     bt_insert (co_address c)
       (a\<lparr>acc_code := newer (db_ord (co_origin c)) (co_new_hash c) (acc_code a)\<rparr>) m)"

definition code_rows :: "'x hexlib_scheme \<Rightarrow> BlockInfo \<Rightarrow> CodeChange \<Rightarrow> row_call list" where
  "code_rows X info c = (if co_new_code c = [] then []
     else [\<lparr>rc_table = ''code'', rc_key = [(''code_hash'', hex X (co_new_hash c))],
       rc_sets = [Set ''code'' (VStr (bytea X (co_new_code c))),
         Set ''size'' (VU64 (of_nat (length (co_new_code c)))),
         SetIfNull ''first_block_num'' (VU64 (bi_number info))]\<rparr>])"

definition db_accounts :: "StateChanges \<Rightarrow> account_entry list" where
  "db_accounts ch = fold account_code_step (sch_code_changes ch)
     (fold account_nonce_step (sch_nonce_changes ch)
       (fold account_balance_step (sch_balance_changes ch) []))"

definition account_row :: "'x hexlib_scheme \<Rightarrow> BlockInfo \<Rightarrow> account_entry \<Rightarrow> row_call" where
  "account_row X info e = (case e of (address, a) \<Rightarrow>
     \<lparr>rc_table = ''accounts'', rc_key = [(''address'', hex X address)],
      rc_sets = Set ''block_num'' (VU64 (bi_number info)) #
        (case acc_balance a of Some (_, b) \<Rightarrow>
           [Set ''balance'' (VStr b), Set ''balance_block_num'' (VU64 (bi_number info))] | None \<Rightarrow> []) @
        (case acc_nonce a of Some (_, n) \<Rightarrow>
           [Set ''nonce'' (VU64 n), Set ''nonce_block_num'' (VU64 (bi_number info))] | None \<Rightarrow> []) @
        (case acc_code a of Some (_, h) \<Rightarrow>
           [Set ''code_hash'' (VStr (hex X h)), Set ''code_block_num'' (VU64 (bi_number info))] | None \<Rightarrow> [])\<rparr>)"

definition db_project :: "'x hexlib_scheme \<Rightarrow> hash_orders \<Rightarrow> StateChanges \<Rightarrow> row_call list" where
  "db_project X H ch =
     (let info = (case sch_block ch of Some i \<Rightarrow> i | None \<Rightarrow> BlockInfo_default) in
      [blocks_row X info ch] @
      map (storage_event X info) (sch_storage_changes ch) @
      map (balance_event X info) (sch_balance_changes ch) @
      map (nonce_event X info) (sch_nonce_changes ch) @
      map (code_event X info) (sch_code_changes ch) @
      map (authorization_row X info) (sch_set_code_authorizations ch) @
      map (storage_row X info) (storage_order H (last_storage (sch_storage_changes ch))) @
      concat (map (code_rows X info) (sch_code_changes ch)) @
      map (account_row X info) (account_order H (db_accounts ch)))"

definition db_out :: "'x mapperlib_scheme \<Rightarrow> hash_orders \<Rightarrow> string \<Rightarrow> eth_block \<Rightarrow> row_call list res" where
  "db_out X H params block =
     bnd (collect X params block) (\<lambda>ch. Inr (db_project X H ch))"

section \<open>Last change by ordinal\<close>

text \<open>
  The specification of ``last change by ordinal wins'': a change is the latest of its key when no
  later change of the list has an ordinal at least as large and no earlier one a larger ordinal.
\<close>

definition is_latest :: "('c \<Rightarrow> 'k) \<Rightarrow> ('c \<Rightarrow> u64) \<Rightarrow> 'c list \<Rightarrow> 'c \<Rightarrow> bool" where
  "is_latest key ordinal cs c \<longleftrightarrow> (\<exists>ys zs. cs = ys @ c # zs \<and>
     (\<forall>y \<in> set ys. key y = key c \<longrightarrow> ordinal y \<le> ordinal c) \<and>
     (\<forall>z \<in> set zs. key z = key c \<longrightarrow> ordinal z < ordinal c))"

definition latest :: "('c \<Rightarrow> 'k) \<Rightarrow> ('c \<Rightarrow> u64) \<Rightarrow> ('c \<Rightarrow> 'v) \<Rightarrow> 'c list \<Rightarrow> 'k \<Rightarrow> (u64 \<times> 'v) option" where
  "latest key ordinal val cs k =
     fold (\<lambda>c e. if key c = k then newer (ordinal c) (val c) e else e) cs None"

lemma latest_Nil [simp]: "latest key ordinal val [] k = None"
  by (simp add: latest_def)

lemma latest_snoc:
  "latest key ordinal val (cs @ [c]) k =
     (if key c = k then newer (ordinal c) (val c) (latest key ordinal val cs k)
      else latest key ordinal val cs k)"
  by (simp add: latest_def)

lemma is_latest_snoc:
  "is_latest key ordinal (cs @ [c]) d \<longleftrightarrow>
     d = c \<and> (\<forall>y \<in> set cs. key y = key c \<longrightarrow> ordinal y \<le> ordinal c) \<or>
     is_latest key ordinal cs d \<and> (key c = key d \<longrightarrow> ordinal c < ordinal d)"
  (is "?l \<longleftrightarrow> ?r")
proof
  assume ?l
  then obtain ys zs where *: "cs @ [c] = ys @ d # zs"
    "\<forall>y \<in> set ys. key y = key d \<longrightarrow> ordinal y \<le> ordinal d"
    "\<forall>z \<in> set zs. key z = key d \<longrightarrow> ordinal z < ordinal d"
    unfolding is_latest_def by blast
  show ?r
  proof (cases zs rule: rev_cases)
    case Nil
    with * show ?thesis by simp
  next
    case (snoc zs' z)
    with *(1) have "cs = ys @ d # zs'" "c = z" by simp_all
    with * snoc show ?thesis unfolding is_latest_def by auto
  qed
next
  assume ?r
  then show ?l
  proof
    assume "d = c \<and> (\<forall>y \<in> set cs. key y = key c \<longrightarrow> ordinal y \<le> ordinal c)"
    then show ?thesis unfolding is_latest_def by (intro exI [of _ cs] exI [of _ "[]"]) simp
  next
    assume a: "is_latest key ordinal cs d \<and> (key c = key d \<longrightarrow> ordinal c < ordinal d)"
    then obtain ys zs where "cs = ys @ d # zs"
      "\<forall>y \<in> set ys. key y = key d \<longrightarrow> ordinal y \<le> ordinal d"
      "\<forall>z \<in> set zs. key z = key d \<longrightarrow> ordinal z < ordinal d"
      unfolding is_latest_def by blast
    with a show ?thesis unfolding is_latest_def
      by (intro exI [of _ ys] exI [of _ "zs @ [c]"]) auto
  qed
qed

lemma latest_bound:
  "case latest key ordinal val cs k of
     None \<Rightarrow> \<forall>c \<in> set cs. key c \<noteq> k
   | Some (q, v) \<Rightarrow> (\<forall>c \<in> set cs. key c = k \<longrightarrow> ordinal c \<le> q) \<and> (\<exists>c \<in> set cs. key c = k \<and> ordinal c = q)"
proof (induction cs rule: rev_induct)
  case (snoc c cs)
  then show ?case
    by (auto simp: latest_snoc newer_def split: option.splits prod.splits if_splits)
qed simp

lemma latest_iff:
  "latest key ordinal val cs k = Some (q, v) \<longleftrightarrow>
     (\<exists>c. is_latest key ordinal cs c \<and> key c = k \<and> q = ordinal c \<and> v = val c)"
proof (induction cs arbitrary: q v rule: rev_induct)
  case Nil
  then show ?case by (simp add: is_latest_def)
next
  case (snoc c cs)
  show ?case
  proof (cases "key c = k")
    case False
    with snoc show ?thesis by (auto simp: latest_snoc is_latest_snoc)
  next
    case True
    have b: "case latest key ordinal val cs k of
        None \<Rightarrow> \<forall>c \<in> set cs. key c \<noteq> k
      | Some (q, v) \<Rightarrow> (\<forall>c \<in> set cs. key c = k \<longrightarrow> ordinal c \<le> q) \<and> (\<exists>c \<in> set cs. key c = k \<and> ordinal c = q)"
      by (rule latest_bound)
    show ?thesis
    proof (cases "latest key ordinal val cs k")
      case None
      with b have none: "\<forall>c \<in> set cs. key c \<noteq> k" by simp
      then have "\<not> (is_latest key ordinal cs d \<and> key d = k)" for d
        unfolding is_latest_def by auto
      with None True none show ?thesis by (auto simp: latest_snoc is_latest_snoc newer_def)
    next
      case (Some e)
      obtain q' v' where e: "e = (q', v')" by (cases e)
      with Some b have up: "\<forall>c \<in> set cs. key c = k \<longrightarrow> ordinal c \<le> q'"
        and ex: "\<exists>c \<in> set cs. key c = k \<and> ordinal c = q'" by simp_all
      have ih: "\<exists>d. is_latest key ordinal cs d \<and> key d = k \<and> q' = ordinal d \<and> v' = val d"
        using snoc [of q' v'] Some e by simp
      have uq: "is_latest key ordinal cs d \<Longrightarrow> key d = k \<Longrightarrow> ordinal d = q' \<and> val d = v'" for d
        using snoc [of "ordinal d" "val d"] Some e by auto
      show ?thesis
      proof (cases "q' \<le> ordinal c")
        case True
        have "\<not> (is_latest key ordinal cs d \<and> key d = k \<and> ordinal c < ordinal d)" for d
          using uq [of d] True by auto
        moreover have "\<forall>y \<in> set cs. key y = key c \<longrightarrow> ordinal y \<le> ordinal c"
          using up True \<open>key c = k\<close> by force
        ultimately show ?thesis using Some e True \<open>key c = k\<close>
          by (auto simp: latest_snoc is_latest_snoc newer_def)
      next
        case False
        then have "\<not> (\<forall>y \<in> set cs. key y = key c \<longrightarrow> ordinal y \<le> ordinal c)"
          using ex \<open>key c = k\<close> by auto
        then have "is_latest key ordinal (cs @ [c]) d \<longleftrightarrow>
            is_latest key ordinal cs d \<and> (key c = key d \<longrightarrow> ordinal c < ordinal d)" for d
          by (auto simp only: is_latest_snoc)
        moreover have "latest key ordinal val (cs @ [c]) k = Some (q', v')"
          using Some e False \<open>key c = k\<close> by (simp add: latest_snoc newer_def)
        moreover have "\<exists>d. is_latest key ordinal cs d \<and> key d = k \<and> q' = ordinal d \<and> v' = val d \<and>
            ordinal c < ordinal d"
          using ih False by auto
        ultimately show ?thesis using uq by (metis prod.inject option.inject)
      qed
    qed
  qed
qed

definition slot_of :: "StorageChange \<Rightarrow> bytes \<times> bytes" where
  "slot_of c = (st_address c, st_key c)"

abbreviation st_ord :: "StorageChange \<Rightarrow> u64" where "st_ord c \<equiv> db_ord (st_origin c)"
abbreviation ba_ord :: "BalanceChange \<Rightarrow> u64" where "ba_ord c \<equiv> db_ord (ba_origin c)"
abbreviation no_ord :: "NonceChange \<Rightarrow> u64" where "no_ord c \<equiv> db_ord (no_origin c)"
abbreviation co_ord :: "CodeChange \<Rightarrow> u64" where "co_ord c \<equiv> db_ord (co_origin c)"

lemma newer_Some: "\<exists>e'. newer q v e = Some e'"
  by (auto simp: newer_def split: option.splits)

lemma map_of_last_storage: "map_of (last_storage cs) k = latest slot_of st_ord st_new_value cs k"
proof (induction cs arbitrary: k rule: rev_induct)
  case (snoc c cs)
  have "last_storage (cs @ [c]) = last_storage_step c (last_storage cs)"
    by (simp add: last_storage_def)
  moreover obtain e where
    "newer (st_ord c) (st_new_value c) (map_of (last_storage cs) (slot_of c)) = Some e"
    by (rule exE [OF newer_Some])
  ultimately show ?case using snoc [of "slot_of c"] snoc [of k]
    by (auto simp: latest_snoc last_storage_step_def slot_of_def)
qed (simp add: last_storage_def)

lemma bt_ok_last_storage: "bt_ok (last_storage cs)"
proof -
  have "bt_ok m \<Longrightarrow> bt_ok (last_storage_step c m)" for c m
    by (auto simp: last_storage_step_def split: option.splits)
  then have "bt_ok m \<Longrightarrow> bt_ok (fold last_storage_step cs m)" for m
    by (induction cs arbitrary: m) simp_all
  then show ?thesis by (simp add: last_storage_def)
qed

lemma bt_mem_iff: "bt_ok m \<Longrightarrow> (k, v) \<in> set m \<longleftrightarrow> map_of m k = Some v"
  using bt_ok_distinct [of m] by auto

lemma entry_or_default_insert [simp]:
  "entry_or_default (bt_insert k a m) q = (if q = k then a else entry_or_default m q)"
  by (simp add: entry_or_default_def)

lemma balance_fold:
  "acc_balance (entry_or_default (fold account_balance_step cs []) a) =
     latest ba_address ba_ord ba_new_value cs a \<and>
   acc_nonce (entry_or_default (fold account_balance_step cs []) a) = None \<and>
   acc_code (entry_or_default (fold account_balance_step cs []) a) = None"
proof (induction cs arbitrary: a rule: rev_induct)
  case (snoc c cs)
  then show ?case by (simp add: account_balance_step_def Let_def latest_snoc)
qed (simp add: entry_or_default_def Acc_default_def)

lemma nonce_fold:
  assumes "\<forall>a. acc_nonce (entry_or_default m a) = None"
  shows "acc_nonce (entry_or_default (fold account_nonce_step cs m) a) =
     latest no_address no_ord no_new_value cs a \<and>
   acc_balance (entry_or_default (fold account_nonce_step cs m) a) = acc_balance (entry_or_default m a) \<and>
   acc_code (entry_or_default (fold account_nonce_step cs m) a) = acc_code (entry_or_default m a)"
proof (induction cs arbitrary: a rule: rev_induct)
  case (snoc c cs)
  then show ?case by (simp add: account_nonce_step_def Let_def latest_snoc)
qed (simp add: assms)

lemma code_fold:
  assumes "\<forall>a. acc_code (entry_or_default m a) = None"
  shows "acc_code (entry_or_default (fold account_code_step cs m) a) =
     latest co_address co_ord co_new_hash cs a \<and>
   acc_balance (entry_or_default (fold account_code_step cs m) a) = acc_balance (entry_or_default m a) \<and>
   acc_nonce (entry_or_default (fold account_code_step cs m) a) = acc_nonce (entry_or_default m a)"
proof (induction cs arbitrary: a rule: rev_induct)
  case (snoc c cs)
  then show ?case by (simp add: account_code_step_def Let_def latest_snoc)
qed (simp add: assms)

definition merged_account :: "StateChanges \<Rightarrow> bytes \<Rightarrow> Acc" where
  "merged_account ch a =
     \<lparr>acc_balance = latest ba_address ba_ord ba_new_value (sch_balance_changes ch) a,
      acc_nonce = latest no_address no_ord no_new_value (sch_nonce_changes ch) a,
      acc_code = latest co_address co_ord co_new_hash (sch_code_changes ch) a\<rparr>"

lemma entry_db_accounts: "entry_or_default (db_accounts ch) a = merged_account ch a"
proof -
  let ?b = "fold account_balance_step (sch_balance_changes ch) []"
  let ?n = "fold account_nonce_step (sch_nonce_changes ch) ?b"
  have "\<forall>a. acc_nonce (entry_or_default ?b a) = None" by (simp add: balance_fold)
  note n = nonce_fold [OF this]
  then have "\<forall>a. acc_code (entry_or_default ?n a) = None" by (simp add: balance_fold)
  from code_fold [OF this, of "sch_code_changes ch" a] n show ?thesis
    by (simp add: db_accounts_def merged_account_def balance_fold Acc.equality)
qed

definition touched :: "StateChanges \<Rightarrow> bytes set" where
  "touched ch = ba_address ` set (sch_balance_changes ch) \<union> no_address ` set (sch_nonce_changes ch) \<union>
     co_address ` set (sch_code_changes ch)"

lemma dom_fold_insert:
  assumes "\<And>c m. dom (map_of (step c m)) = insert (key c) (dom (map_of m))"
  shows "dom (map_of (fold step cs m)) = key ` set cs \<union> dom (map_of m)"
  by (induction cs arbitrary: m) (auto simp: assms)

lemma dom_db_accounts: "dom (map_of (db_accounts ch)) = touched ch"
proof -
  have "dom (map_of (account_balance_step c m)) = insert (ba_address c) (dom (map_of m))" for c m
    by (simp add: account_balance_step_def Let_def)
  moreover have "dom (map_of (account_nonce_step c m)) = insert (no_address c) (dom (map_of m))" for c m
    by (simp add: account_nonce_step_def Let_def)
  moreover have "dom (map_of (account_code_step c m)) = insert (co_address c) (dom (map_of m))" for c m
    by (simp add: account_code_step_def Let_def)
  ultimately show ?thesis
    by (simp add: db_accounts_def touched_def dom_fold_insert Un_ac)
qed

lemma bt_ok_db_accounts: "bt_ok (db_accounts ch)"
proof -
  have f: "bt_ok (fold step cs m)" if "\<And>c m. bt_ok m \<Longrightarrow> bt_ok (step c m)" "bt_ok m"
    for step :: "'c \<Rightarrow> account_entry list \<Rightarrow> account_entry list" and cs m
    using that by (induction cs arbitrary: m) simp_all
  show ?thesis unfolding db_accounts_def
    by (intro f) (simp_all add: account_balance_step_def account_nonce_step_def
        account_code_step_def Let_def)
qed

lemma map_of_db_accounts:
  "map_of (db_accounts ch) a = (if a \<in> touched ch then Some (merged_account ch a) else None)"
proof (cases "map_of (db_accounts ch) a")
  case None
  with dom_db_accounts [of ch] show ?thesis by auto
next
  case (Some e)
  moreover from Some have "a \<in> touched ch" unfolding dom_db_accounts [symmetric] by auto
  ultimately show ?thesis using entry_db_accounts [of ch a] by (simp add: entry_or_default_def)
qed

section \<open>The rows of the current state\<close>

text \<open>What is known of the iteration order of a hash map: every entry is visited once.\<close>

definition visits_all :: "hash_orders \<Rightarrow> bool" where
  "visits_all H \<longleftrightarrow> (\<forall>es. mset (storage_order H es) = mset es) \<and> (\<forall>es. mset (account_order H es) = mset es)"

definition db_info :: "StateChanges \<Rightarrow> BlockInfo" where
  "db_info ch = (case sch_block ch of Some i \<Rightarrow> i | None \<Rightarrow> BlockInfo_default)"

definition table_rows :: "string \<Rightarrow> row_call list \<Rightarrow> row_call list" where
  "table_rows t rows = filter (\<lambda>r. rc_table r = t) rows"

lemma table_rows_simps [simp]:
  "table_rows t [] = []"
  "table_rows t (r # rs) = (if rc_table r = t then r # table_rows t rs else table_rows t rs)"
  "table_rows t (rs @ rs') = table_rows t rs @ table_rows t rs'"
  by (simp_all add: table_rows_def)

lemma table_rows_other: "\<forall>r \<in> set rs. rc_table r \<noteq> t \<Longrightarrow> table_rows t rs = []"
  by (simp add: table_rows_def filter_empty_conv)

lemma table_rows_same: "\<forall>r \<in> set rs. rc_table r = t \<Longrightarrow> table_rows t rs = rs"
  by (simp add: table_rows_def)

lemmas row_defs = blocks_row_def storage_event_def balance_event_def nonce_event_def code_event_def
  event_row_def authorization_row_def storage_row_def code_rows_def account_row_def

lemma storage_rows:
  "table_rows ''storage'' (db_project X H ch) =
     map (storage_row X (db_info ch)) (storage_order H (last_storage (sch_storage_changes ch)))"
  unfolding db_project_def db_info_def [symmetric] Let_def table_rows_simps
  by (simp add: table_rows_other table_rows_same row_defs split: prod.splits)

lemma account_rows:
  "table_rows ''accounts'' (db_project X H ch) =
     map (account_row X (db_info ch)) (account_order H (db_accounts ch))"
  unfolding db_project_def db_info_def [symmetric] Let_def table_rows_simps
  by (simp add: table_rows_other table_rows_same row_defs split: prod.splits)

lemma db_word_full: "length b = 32 \<Longrightarrow> db_word X b = ''0x'' @ hex_encode X b"
  by (simp add: db_word_def)

lemma distinct_perm_map:
  assumes "mset ys = mset xs" "distinct (map fst xs)" "\<And>x y. x \<in> set xs \<Longrightarrow> y \<in> set xs \<Longrightarrow> g x = g y \<Longrightarrow> fst x = fst y"
  shows "distinct (map g ys)"
proof -
  have d: "distinct xs" using assms(2) by (simp add: distinct_map)
  have "inj_on g (set xs)"
    using assms(2,3) by (intro inj_onI) (metis distinct_map inj_on_def)
  with d have "distinct (map g xs)" by (simp add: distinct_map)
  moreover have "mset (map g ys) = mset (map g xs)" using assms(1) by simp
  ultimately show ?thesis by (metis mset_eq_imp_distinct_iff)
qed

text \<open>
  C19: when every storage key arrives as a full 32-byte word, the rows written to the
  \<open>storage\<close> table have pairwise different primary keys, whatever order the hash map is visited
  in, and they are exactly the rows of the changes that are the latest of their slot by ordinal.
\<close>

theorem db_storage_current:
  assumes "hex_ok X" "visits_all H" "\<forall>c \<in> set (sch_storage_changes ch). length (st_key c) = 32"
  shows "distinct (map rc_key (table_rows ''storage'' (db_project X H ch))) \<and>
    (row \<in> set (table_rows ''storage'' (db_project X H ch)) \<longleftrightarrow>
      (\<exists>c. is_latest slot_of st_ord (sch_storage_changes ch) c \<and>
        row = storage_row X (db_info ch) (slot_of c, st_ord c, st_new_value c)))"
proof
  let ?m = "last_storage (sch_storage_changes ch)"
  have ms: "mset (storage_order H ?m) = mset ?m" using assms(2) by (simp add: visits_all_def)
  have entry: "(k, q, v) \<in> set ?m \<longleftrightarrow> (\<exists>c. is_latest slot_of st_ord (sch_storage_changes ch) c \<and>
      k = slot_of c \<and> q = st_ord c \<and> v = st_new_value c)" for k q v
    by (auto simp: bt_mem_iff [OF bt_ok_last_storage] map_of_last_storage latest_iff)
  have len: "length (snd k) = 32" if "(k, e) \<in> set ?m" for k e
    using that assms(3) entry [of k "fst e" "snd e"] by (auto simp: is_latest_def slot_of_def)
  have inj: "fst x = fst y"
    if "x \<in> set ?m" "y \<in> set ?m" "rc_key (storage_row X (db_info ch) x) = rc_key (storage_row X (db_info ch) y)" for x y
    using that len [of "fst x" "snd x"] len [of "fst y" "snd y"]
    by (auto simp: storage_row_def db_word_full hex_def hex_codec.enc_inject [OF assms(1)] split: prod.splits)
  show "distinct (map rc_key (table_rows ''storage'' (db_project X H ch)))"
    unfolding storage_rows map_map
    by (rule distinct_perm_map [OF ms bt_ok_distinct [OF bt_ok_last_storage]])
      (rule inj, assumption, assumption, simp only: o_apply)
  have "row \<in> set (table_rows ''storage'' (db_project X H ch)) \<longleftrightarrow>
      (\<exists>k q v. (k, q, v) \<in> set ?m \<and> row = storage_row X (db_info ch) (k, q, v))"
    unfolding storage_rows using mset_eq_setD [OF ms] by auto
  then show "row \<in> set (table_rows ''storage'' (db_project X H ch)) \<longleftrightarrow>
      (\<exists>c. is_latest slot_of st_ord (sch_storage_changes ch) c \<and>
        row = storage_row X (db_info ch) (slot_of c, st_ord c, st_new_value c))"
    unfolding entry by blast
qed

text \<open>
  The rows written to the \<open>accounts\<close> table have pairwise different addresses; there is one for
  every account with a balance, nonce or code change, and it carries each of the three fields
  exactly when that field changed, with its latest value by ordinal, independently of the others.
\<close>

lemma db_accounts_current:
  assumes "hex_ok X" "visits_all H"
  shows "distinct (map rc_key (table_rows ''accounts'' (db_project X H ch))) \<and>
    set (table_rows ''accounts'' (db_project X H ch)) =
      (\<lambda>a. account_row X (db_info ch) (a, merged_account ch a)) ` touched ch"
proof
  let ?m = "db_accounts ch"
  have ms: "mset (account_order H ?m) = mset ?m" using assms(2) by (simp add: visits_all_def)
  have inj: "fst x = fst y"
    if "rc_key (account_row X (db_info ch) x) = rc_key (account_row X (db_info ch) y)" for x y
    using that by (auto simp: account_row_def hex_def hex_codec.enc_inject [OF assms(1)] split: prod.splits)
  show "distinct (map rc_key (table_rows ''accounts'' (db_project X H ch)))"
    unfolding account_rows map_map
    by (rule distinct_perm_map [OF ms bt_ok_distinct [OF bt_ok_db_accounts]])
      (rule inj, simp only: o_apply)
  have "set ?m = (\<lambda>a. (a, merged_account ch a)) ` touched ch"
    by (auto simp: bt_mem_iff [OF bt_ok_db_accounts] map_of_db_accounts split: if_splits)
  then show "set (table_rows ''accounts'' (db_project X H ch)) =
      (\<lambda>a. account_row X (db_info ch) (a, merged_account ch a)) ` touched ch"
    unfolding account_rows using mset_eq_setD [OF ms] by (simp add: image_image)
qed

section \<open>Examples\<close>

definition id_orders :: hash_orders where
  "id_orders = \<lparr>storage_order = (\<lambda>es. es), account_order = (\<lambda>es. es)\<rparr>"

definition rev_orders :: hash_orders where
  "rev_orders = \<lparr>storage_order = rev, account_order = rev\<rparr>"

lemma orders_simps:
  "storage_order id_orders es = es" "account_order id_orders as = as"
  "storage_order rev_orders es = rev es" "account_order rev_orders as = rev as"
  by (simp_all add: id_orders_def rev_orders_def)

lemma visits_all_examples [simp]: "visits_all id_orders" "visits_all rev_orders"
  by (simp_all add: visits_all_def id_orders_def rev_orders_def)

definition ex_origin :: "u64 \<Rightarrow> Origin" where
  "ex_origin q = Origin_default\<lparr>or_ordinal := q\<rparr>"

definition ex_write :: "bytes \<Rightarrow> bytes \<Rightarrow> u64 \<Rightarrow> StorageChange" where
  "ex_write key v q = \<lparr>st_address = replicate 20 4, st_key = key, st_old_value = [], st_new_value = v,
     st_origin = Some (ex_origin q)\<rparr>"

definition ex_nonce :: "u64 \<Rightarrow> u64 \<Rightarrow> NonceChange" where
  "ex_nonce n q = \<lparr>no_address = replicate 20 4, no_old_value = 0, no_new_value = n,
     no_origin = Some (ex_origin q)\<rparr>"

definition ex_changes :: "StorageChange list \<Rightarrow> NonceChange list \<Rightarrow> StateChanges" where
  "ex_changes ws ns = \<lparr>sch_block = None, sch_storage_changes = ws, sch_balance_changes = [],
     sch_nonce_changes = ns, sch_code_changes = [], sch_set_code_authorizations = []\<rparr>"

theorem db_storage_current_witness:
  "storage_row ref_hex BlockInfo_default (slot_of (ex_write (replicate 32 1) [8] 5), 5, [8])
     \<in> set (table_rows ''storage'' (db_project ref_hex rev_orders
         (ex_changes [ex_write (replicate 32 1) [7] 3, ex_write (replicate 32 1) [8] 5] [])))"
proof -
  have "is_latest slot_of st_ord
      [ex_write (replicate 32 1) [7] 3, ex_write (replicate 32 1) [8] 5] (ex_write (replicate 32 1) [8] 5)"
    unfolding is_latest_def
    by (intro exI [of _ "[ex_write (replicate 32 1) [7] 3]"] exI [of _ "[]"])
      (simp add: ex_write_def ex_origin_def Origin_default_def db_ord_def)
  then show ?thesis
    using db_storage_current [OF ref_hex_codec, of rev_orders
        "ex_changes [ex_write (replicate 32 1) [7] 3, ex_write (replicate 32 1) [8] 5] []"]
    by (auto simp: ex_changes_def db_info_def ex_write_def ex_origin_def Origin_default_def db_ord_def)
qed

lemma distinct_singleton_list: "distinct xs \<Longrightarrow> set xs = {a} \<Longrightarrow> xs = [a]"
proof (cases xs)
  case (Cons y ys)
  assume "distinct xs" "set xs = {a}"
  with Cons have "y = a" "set ys \<subseteq> {a}" "a \<notin> set ys" by auto
  then have "set ys = {}" by (auto dest: subset_singletonD)
  with Cons \<open>y = a\<close> show ?thesis by simp
qed simp


end
