(* ===== verification/Effects.thy ===== *)
theory Effects
  imports Prelude
begin

text \<open>
  Fallible operations on a world: a computation reads and changes a state of type \<open>'w\<close> and returns
  a result or an error message.  The state an error leaves behind is kept, since what was done
  before a failure is what crash safety is about.
\<close>

type_synonym ('w, 'a) io = "'w \<Rightarrow> 'a res \<times> 'w"

named_theorems io_simps

definition ret :: "'a \<Rightarrow> ('w, 'a) io" where
  "ret v w = (Inr v, w)"

definition fail :: "string \<Rightarrow> ('w, 'a) io" where
  "fail e w = (Inl e, w)"

definition bind :: "('w, 'a) io \<Rightarrow> ('a \<Rightarrow> ('w, 'b) io) \<Rightarrow> ('w, 'b) io" where
  "bind m f w = (case m w of (Inl e, w') \<Rightarrow> (Inl e, w') | (Inr v, w') \<Rightarrow> f v w')"

definition lift :: "'a res \<Rightarrow> ('w, 'a) io" where
  "lift r w = (r, w)"

definition check :: "bool \<Rightarrow> string \<Rightarrow> ('w, unit) io" where
  "check c e w = (if c then Inr () else Inl e, w)"

definition with_msg :: "('w, 'a) io \<Rightarrow> (string \<Rightarrow> string) \<Rightarrow> ('w, 'a) io" where
  "with_msg m g w = (case m w of (r, w') \<Rightarrow> (map_err g r, w'))"

fun for_each :: "('a \<Rightarrow> ('w, unit) io) \<Rightarrow> 'a list \<Rightarrow> ('w, unit) io" where
  "for_each f [] = ret ()"
| "for_each f (x # xs) = bind (f x) (\<lambda>_. for_each f xs)"

fun map_io :: "('a \<Rightarrow> ('w, 'b) io) \<Rightarrow> 'a list \<Rightarrow> ('w, 'b list) io" where
  "map_io f [] = ret []"
| "map_io f (x # xs) = bind (f x) (\<lambda>y. bind (map_io f xs) (\<lambda>ys. ret (y # ys)))"

lemma ret_proj [simp]:
  "fst (ret v w) = Inr v" "snd (ret v w) = w" "ret v w = (r, w') \<longleftrightarrow> r = Inr v \<and> w' = w"
  by (auto simp: ret_def)

lemma fail_proj [simp]:
  "fst (fail e w) = Inl e" "snd (fail e w) = w" "fail e w = (r, w') \<longleftrightarrow> r = Inl e \<and> w' = w"
  by (auto simp: fail_def)

lemma lift_proj [simp]:
  "fst (lift r w) = r" "snd (lift r w) = w" "lift r w = (r', w') \<longleftrightarrow> r = r' \<and> w' = w"
  by (auto simp: lift_def)

lemma check_proj [simp]:
  "snd (check c e w) = w"
  "check c e w = (r, w') \<longleftrightarrow> r = (if c then Inr () else Inl e) \<and> w' = w"
  by (auto simp: check_def)

lemma bind_ret [simp]: "bind (ret v) f = f v"
  by (rule ext) (simp add: bind_def ret_def fail_def)

lemma bind_fail [simp]: "bind (fail e) f = fail e"
  by (rule ext) (simp add: bind_def ret_def fail_def)

lemma ret_bind [simp]: "bind m ret = m"
  by (rule ext) (simp add: bind_def ret_def split: prod.splits sum.splits)

lemma bind_assoc: "bind (bind m f) g = bind m (\<lambda>x. bind (f x) g)"
  by (rule ext) (simp add: bind_def split: prod.splits sum.splits)

lemma bind_lift [simp]: "bind (lift (Inr v)) f = f v" "bind (lift (Inl e)) f = fail e"
  by (rule ext, simp add: bind_def lift_def fail_def)+

lemma bind_check [simp]: "bind (check True e) f = f ()" "bind (check False e) f = fail e"
  by (rule ext, simp add: bind_def check_def fail_def)+

lemma bind_Inr_iff [io_simps]:
  "bind m f w = (Inr y, w'') \<longleftrightarrow> (\<exists>x w'. m w = (Inr x, w') \<and> f x w' = (Inr y, w''))"
  by (auto simp: bind_def split: prod.splits sum.splits)

lemma bind_Inl_iff:
  "bind m f w = (Inl e, w'') \<longleftrightarrow>
     m w = (Inl e, w'') \<or> (\<exists>x w'. m w = (Inr x, w') \<and> f x w' = (Inl e, w''))"
  by (auto simp: bind_def split: prod.splits sum.splits)

lemma with_msg_Inr_iff [io_simps]: "with_msg m g w = (Inr v, w') \<longleftrightarrow> m w = (Inr v, w')"
  by (auto simp: with_msg_def map_err_def split: prod.splits sum.splits)

lemma for_each_append: "for_each f (xs @ ys) = bind (for_each f xs) (\<lambda>_. for_each f ys)"
  by (induction xs) (simp_all add: bind_assoc)

text \<open>An invariant of every step is one of the whole loop, on success and on failure.\<close>

lemma for_each_invariant:
  assumes "\<And>x w. x \<in> set xs \<Longrightarrow> P w \<Longrightarrow> P (snd (f x w))" and "P w"
  shows "P (snd (for_each f xs w))"
  using assms
proof (induction xs arbitrary: w)
  case (Cons x xs)
  then have "P (snd (f x w))" by simp
  moreover have "P (snd (for_each f xs w'))" if "P w'" for w' using Cons that by simp
  ultimately show ?case
    by (cases "f x w") (auto simp: bind_def split: sum.splits)
qed simp

lemma bind_invariant:
  assumes "P (snd (m w))" and "\<And>v w'. m w = (Inr v, w') \<Longrightarrow> P w' \<Longrightarrow> P (snd (f v w'))"
  shows "P (snd (bind m f w))"
  using assms by (auto simp: bind_def split: prod.splits sum.splits)

text \<open>Computations that only read the world.\<close>

definition reads :: "('w, 'a) io \<Rightarrow> bool" where
  "reads m \<longleftrightarrow> (\<forall>w. snd (m w) = w)"

lemma reads_intros [intro, simp]:
  "reads (ret v)" "reads (fail e)" "reads (lift r)" "reads (check c e)"
  by (simp_all add: reads_def check_def)

lemma reads_bind [intro]: "reads m \<Longrightarrow> (\<And>v. reads (f v)) \<Longrightarrow> reads (bind m f)"
  by (auto simp: reads_def bind_def split: prod.splits sum.splits) (metis snd_conv)+

end
