(* ===== verification/Json.thy ===== *)
theory Json
  imports Big_Endian
begin

text \<open>
  JSON values as \<open>serde_json\<close> has them with arbitrary-precision numbers (a number is its text)
  and sorted objects, and the field accessors the native tools use.
\<close>

datatype json = JNull | JBool bool | JNum string | JStr string | JArr "json list" | JObj "(string \<times> json) list"

definition get :: "json \<Rightarrow> string \<Rightarrow> json option" where
  "get v f = (case v of JObj fs \<Rightarrow> map_of fs f | _ \<Rightarrow> None)"

definition index :: "json \<Rightarrow> string \<Rightarrow> json" where
  "index v f = (case get v f of Some x \<Rightarrow> x | None \<Rightarrow> JNull)"

definition as_str :: "json \<Rightarrow> string option" where
  "as_str v = (case v of JStr s \<Rightarrow> Some s | _ \<Rightarrow> None)"

definition as_bool :: "json \<Rightarrow> bool option" where
  "as_bool v = (case v of JBool b \<Rightarrow> Some b | _ \<Rightarrow> None)"

definition as_u64 :: "json \<Rightarrow> u64 option" where
  "as_u64 v = (case v of JNum s \<Rightarrow> parse_u64 s | _ \<Rightarrow> None)"

definition as_array :: "json \<Rightarrow> json list option" where
  "as_array v = (case v of JArr vs \<Rightarrow> Some vs | _ \<Rightarrow> None)"

definition as_object :: "json \<Rightarrow> (string \<times> json) list option" where
  "as_object v = (case v of JObj fs \<Rightarrow> Some fs | _ \<Rightarrow> None)"

definition is_null :: "json \<Rightarrow> bool" where
  "is_null v \<longleftrightarrow> v = JNull"

definition jnum :: "u64 \<Rightarrow> json" where
  "jnum n = JNum (show_u64 n)"

definition jobj :: "(string \<times> json) list \<Rightarrow> json" where
  "jobj fs = JObj (bt_of_list fs)"

definition jset :: "json \<Rightarrow> string \<Rightarrow> json \<Rightarrow> json" where
  "jset v f x = (case v of JObj fs \<Rightarrow> JObj (bt_insert f x fs) | _ \<Rightarrow> JObj [(f, x)])"

lemma as_u64_jnum [simp]: "as_u64 (jnum n) = Some n"
  by (simp add: as_u64_def jnum_def)

lemma jnum_inject [simp]: "jnum a = jnum b \<longleftrightarrow> a = b"
  by (simp add: jnum_def)

lemma as_str_JStr [simp]: "as_str (JStr s) = Some s"
  by (simp add: as_str_def)

lemma as_str_iff: "as_str v = Some s \<longleftrightarrow> v = JStr s"
  by (auto simp: as_str_def split: json.splits)

lemma get_JObj [simp]: "get (JObj fs) f = map_of fs f"
  by (simp add: get_def)

lemma map_of_bt_of_list:
  "map_of (bt_of_list fs) k = last_val fst snd fs k"
proof -
  have "bt_of_list fs = fold (\<lambda>x. bt_insert (fst x) (snd x)) fs []"
    by (simp add: bt_of_list_def case_prod_unfold)
  then show ?thesis by (simp add: map_of_fold_bt_insert split: option.splits)
qed

lemma bt_ok_bt_of_list: "bt_ok (bt_of_list fs)"
  using bt_ok_fold_insert [of "[]" fst snd fs] by (simp add: bt_of_list_def case_prod_unfold)

lemma get_jobj: "get (jobj fs) k = last_val fst snd fs k"
  by (simp add: jobj_def map_of_bt_of_list)

lemma index_jobj: "index (jobj fs) k = (case last_val fst snd fs k of Some x \<Rightarrow> x | None \<Rightarrow> JNull)"
  by (simp add: index_def get_jobj)

lemma get_jset: "get (jset v f x) g = (if g = f then Some x else get v g)"
  by (cases v) (auto simp: jset_def get_def)

lemma map_of_filter_keys: "map_of (filter (\<lambda>(k, _). P k) fs) k = (if P k then map_of fs k else None)"
  by (induction fs) auto

section \<open>Typed fields\<close>

definition string_field :: "json \<Rightarrow> string \<Rightarrow> string res" where
  "string_field v f = context_res (Option.bind (get v f) as_str) (''missing string field '' @ f)"

definition uint :: "json \<Rightarrow> u64 res" where
  "uint v = (case as_u64 v of Some n \<Rightarrow> Inr n
     | None \<Rightarrow>
         bnd (context_res (as_str v) ''expected unsigned integer'') (\<lambda>text.
         ensure (text \<noteq> [] \<and> list_all is_digit text) ''expected unsigned integer''
         (context_res (parse_u64 text) ''integer exceeds uint64'')))"

definition ch_identifier :: "string \<Rightarrow> string res" where
  "ch_identifier name =
     ensure (name \<noteq> [] \<and> (\<forall>i < length name. name ! i = CHR ''_'' \<or> is_ascii_alphabetic (name ! i) \<or>
         0 < i \<and> is_digit (name ! i)))
       ''invalid ClickHouse database/table identifier'' (Inr name)"

lemma string_field_Inr: "string_field v f = Inr s \<longleftrightarrow> get v f = Some (JStr s)"
  by (auto simp: string_field_def context_res_Inr_iff bind_eq_Some_conv as_str_iff)

lemma uint_jnum [simp]: "uint (jnum n) = Inr n"
  by (simp add: uint_def)

lemma uint_text [simp]: "uint (JStr (show_u64 n)) = Inr n"
  by (simp add: uint_def as_u64_def) (simp add: show_u64_def show_nat_digits)

lemma ch_identifier_Inr:
  "ch_identifier s = Inr t \<longleftrightarrow> t = s \<and> s \<noteq> [] \<and> (is_ascii_alphabetic (hd s) \<or> hd s = CHR ''_'') \<and>
     list_all (\<lambda>c. is_ascii_alphanumeric c \<or> c = CHR ''_'') s"
proof (cases s)
  case (Cons c cs)
  show ?thesis
    unfolding ch_identifier_def Cons ensure_Inr_iff
    by (auto simp: All_less_Suc2 list_all_length is_ascii_alphanumeric_def)
qed (simp add: ch_identifier_def)

end
