(* ===== verification/Clickhouse.thy ===== *)
theory Clickhouse
  imports Effects Json
begin

text \<open>
  ClickHouse over HTTP, \<open>crates/evm-state/src/ch.rs\<close>.  The HTTP client and the JSON text codec are
  parameters: a request changes a world \<open>'w\<close> (the server) and yields a response or a transport
  error.  A response body is the bytes that arrive and whether the connection breaks after them.
\<close>

datatype http_error = HttpTimeout | HttpTransport

record Response =
  rs_code :: nat
  rs_success :: bool
  rs_exception :: "string option"  \<comment> \<open>the X-ClickHouse-Exception-Code header\<close>
  rs_body :: string
  rs_broken :: bool

record ClickHouse =
  ch_database :: string
  ch_url :: string
  ch_control_home :: string
  ch_user :: string
  ch_password :: string

record 'w chlib =
  url_ok :: "string \<Rightarrow> bool"  \<comment> \<open>parses with an http or https scheme and a host\<close>
  http_post :: "ClickHouse \<Rightarrow> (string \<times> string) list \<Rightarrow> string \<Rightarrow> 'w \<Rightarrow> (http_error + Response) \<times> 'w"
  json_parse :: "string \<Rightarrow> json option"
  json_print :: "json \<Rightarrow> string"

definition params :: "json \<Rightarrow> (string \<times> json) list res" where
  "params v = context_res (as_object v) ''query parameters must be an object''"

definition configured :: "('w, 'x) chlib_scheme \<Rightarrow> string \<Rightarrow> string \<Rightarrow> string \<Rightarrow> string \<Rightarrow> string option \<Rightarrow> ClickHouse res" where
  "configured L database url user password home =
     bnd (ch_identifier database) (\<lambda>_.
     ensure (url_ok L url) ''invalid ClickHouse URL''
     (Inr \<lparr>ch_database = database, ch_url = url,
       ch_control_home = (case home of Some h \<Rightarrow> h | None \<Rightarrow> ''localdata/control''),
       ch_user = user, ch_password = password\<rparr>))"

definition with_database :: "ClickHouse \<Rightarrow> string \<Rightarrow> ClickHouse res" where
  "with_database c database = bnd (ch_identifier database) (\<lambda>_. Inr (c\<lparr>ch_database := database\<rparr>))"

definition param_text :: "json \<Rightarrow> string res" where
  "param_text v = (case v of JStr s \<Rightarrow> Inr s | JNum n \<Rightarrow> Inr n
     | JBool b \<Rightarrow> Inr (if b then ''True'' else ''False'') | _ \<Rightarrow> Inl ''invalid query parameter value'')"

definition query_pairs :: "ClickHouse \<Rightarrow> string \<Rightarrow> (string \<times> json) list \<Rightarrow> (string \<times> string) list res" where
  "query_pairs c sql ps =
     bnd (map_res (\<lambda>(key, v). bnd (param_text v) (\<lambda>text. Inr (''param_'' @ key, text))) ps) (\<lambda>qs.
     Inr ([(''database'', ch_database c), (''query'', sql)] @ qs))"

definition check_response :: "Response \<Rightarrow> Response res" where
  "check_response r =
     ensure (rs_success r) (''ClickHouse query failed (HTTP '' @ show_nat (rs_code r) @ '')'')
     (ensure (case rs_exception r of None \<Rightarrow> True | Some code \<Rightarrow> code = ''0'')
        ''ClickHouse reported a query exception'' (Inr r))"

definition request :: "('w, 'x) chlib_scheme \<Rightarrow> ClickHouse \<Rightarrow> string \<Rightarrow> (string \<times> json) list \<Rightarrow> string \<Rightarrow> ('w, Response) io" where
  "request L c sql ps body =
     bind (lift (query_pairs c sql ps)) (\<lambda>query w.
       (case http_post L c query body w of
          (Inl HttpTimeout, w') \<Rightarrow> (Inl ''ClickHouse request failed: timeout'', w')
        | (Inl HttpTransport, w') \<Rightarrow> (Inl ''ClickHouse request failed: transport error'', w')
        | (Inr r, w') \<Rightarrow> (check_response r, w')))"

definition read_to_string :: "Response \<Rightarrow> string res" where
  "read_to_string r = ensure (\<not> rs_broken r) ''incomplete ClickHouse response'' (Inr (rs_body r))"

fun contains :: "string \<Rightarrow> string \<Rightarrow> bool" where
  "contains p [] = (p = [])"
| "contains p (c # s) = (prefix p (c # s) \<or> contains p s)"

definition execute :: "('w, 'x) chlib_scheme \<Rightarrow> ClickHouse \<Rightarrow> string \<Rightarrow> (string \<times> json) list \<Rightarrow> ('w, string) io" where
  "execute L c sql ps =
     bind (request L c sql ps []) (\<lambda>r.
     bind (lift (read_to_string r)) (\<lambda>result.
     bind (check (\<not> prefix ''Code:'' (dropWhile is_whitespace result) \<and> \<not> contains ''DB::Exception:'' result)
       ''ClickHouse reported a query exception after response headers'') (\<lambda>_.
     ret result)))"

section \<open>Streamed rows\<close>

definition strip_cr :: "string \<Rightarrow> string" where
  "strip_cr s = (if s \<noteq> [] \<and> List.last s = CHR 0x0D then butlast s else s)"

definition body_lines :: "Response \<Rightarrow> string res list" where
  "body_lines r =
     (let parts = split_on (\<lambda>c. c = CHR 0x0A) (rs_body r) in
      map (\<lambda>s. Inr (strip_cr s)) (butlast parts) @
      (if rs_broken r then [Inl ''connection broken'']
       else if List.last parts = [] then [] else [Inr (List.last parts)]))"

definition parse_row :: "('w, 'x) chlib_scheme \<Rightarrow> string \<Rightarrow> json res" where
  "parse_row L line =
     bnd (context_res (json_parse L line) ''invalid ClickHouse JSON row'') (\<lambda>v.
     ensure (as_object v \<noteq> None) ''ClickHouse row must be an object'' (Inr v))"

record Rows =
  rw_lines :: "string res list"
  rw_failed :: bool

fun next_line :: "('w, 'x) chlib_scheme \<Rightarrow> string res list \<Rightarrow> json res option \<times> Rows" where
  "next_line L [] = (None, \<lparr>rw_lines = [], rw_failed = False\<rparr>)"
| "next_line L (Inl e # ls) = (Some (Inl e), \<lparr>rw_lines = ls, rw_failed = True\<rparr>)"
| "next_line L (Inr line # ls) =
     (if trim line = [] then next_line L ls
      else let parsed = parse_row L line in
        (Some parsed, \<lparr>rw_lines = ls, rw_failed = \<not> is_ok parsed\<rparr>))"

definition rows_next :: "('w, 'x) chlib_scheme \<Rightarrow> Rows \<Rightarrow> json res option \<times> Rows" where
  "rows_next L s = (if rw_failed s then (None, s) else next_line L (rw_lines s))"

definition rows :: "('w, 'x) chlib_scheme \<Rightarrow> ClickHouse \<Rightarrow> string \<Rightarrow> (string \<times> json) list \<Rightarrow> ('w, Rows) io" where
  "rows L c sql ps =
     bind (request L c (sql @ '' FORMAT JSONEachRow'') ps []) (\<lambda>r.
     ret \<lparr>rw_lines = body_lines r, rw_failed = False\<rparr>)"

lemma next_line_shorter: "next_line L ls = (Some r, s) \<Longrightarrow> length (rw_lines s) < length ls"
  by (induction L ls rule: next_line.induct) (auto simp: Let_def split: if_splits intro: less_SucI)

function collect_rows :: "('w, 'x) chlib_scheme \<Rightarrow> Rows \<Rightarrow> json res list" where
  "collect_rows L s = (case rows_next L s of (None, _) \<Rightarrow> [] | (Some r, s') \<Rightarrow> r # collect_rows L s')"
  by pat_completeness auto
termination
  by (relation "measure (\<lambda>(L, s). length (rw_lines s))")
    (auto simp: rows_next_def split: if_splits dest!: next_line_shorter [OF sym])

declare collect_rows.simps [simp del]

definition rows_vec :: "('w, 'x) chlib_scheme \<Rightarrow> ClickHouse \<Rightarrow> string \<Rightarrow> (string \<times> json) list \<Rightarrow> ('w, json list) io" where
  "rows_vec L c sql ps = bind (rows L c sql ps) (\<lambda>s. lift (map_res (\<lambda>r. r) (collect_rows L s)))"

definition one :: "('w, 'x) chlib_scheme \<Rightarrow> ClickHouse \<Rightarrow> string \<Rightarrow> (string \<times> json) list \<Rightarrow> ('w, json) io" where
  "one L c sql ps =
     bind (rows L c sql ps) (\<lambda>s.
       (case rows_next L s of
          (None, _) \<Rightarrow> fail ''expected one result row, got none''
        | (Some (Inl e), _) \<Rightarrow> fail e
        | (Some (Inr row), s') \<Rightarrow>
            (case rows_next L s' of
               (None, _) \<Rightarrow> ret row
             | (Some (Inl e), _) \<Rightarrow> fail e
             | (Some (Inr _), _) \<Rightarrow> fail ''expected one result row, got multiple'')))"

section \<open>Batched inserts\<close>

definition read_acknowledgement :: "Response \<Rightarrow> string res" where
  "read_acknowledgement r =
     (if 8193 \<le> length (rs_body r) then Inr (take 8193 (rs_body r))
      else ensure (\<not> rs_broken r) ''incomplete ClickHouse insert response'' (Inr (rs_body r)))"

definition is_ascii_whitespace :: "char \<Rightarrow> bool" where
  "is_ascii_whitespace c \<longleftrightarrow> (of_char c :: nat) \<in> {9, 10, 12, 13, 32}"

definition insert_body :: "('w, 'x) chlib_scheme \<Rightarrow> ClickHouse \<Rightarrow> string \<Rightarrow> string \<Rightarrow> ('w, unit) io" where
  "insert_body L c table body =
     bind (request L c (''INSERT INTO '' @ table @ '' FORMAT JSONEachRow'') [] body) (\<lambda>r.
     bind (lift (read_acknowledgement r)) (\<lambda>ack.
     check (length ack \<le> 8192 \<and> list_all is_ascii_whitespace ack)
       ''ClickHouse returned an invalid insert acknowledgement''))"

definition row_text :: "('w, 'x) chlib_scheme \<Rightarrow> json \<Rightarrow> string" where
  "row_text L v = json_print L v @ [CHR 0x0A]"

fun insert_loop :: "('w, 'x) chlib_scheme \<Rightarrow> ClickHouse \<Rightarrow> string \<Rightarrow> nat \<Rightarrow> json res list \<Rightarrow> string \<Rightarrow> nat \<Rightarrow> ('w, unit) io" where
  "insert_loop L c table n [] body k =
     (if k \<noteq> 0 then insert_body L c table body else ret ())"
| "insert_loop L c table n (Inl e # rs) body k = fail e"
| "insert_loop L c table n (Inr v # rs) body k =
     (let body = body @ row_text L v; k = Suc k in
      if k = n then bind (insert_body L c table body) (\<lambda>_. insert_loop L c table n rs [] 0)
      else insert_loop L c table n rs body k)"

definition ch_insert :: "('w, 'x) chlib_scheme \<Rightarrow> ClickHouse \<Rightarrow> string \<Rightarrow> json res list \<Rightarrow> nat \<Rightarrow> ('w, unit) io" where
  "ch_insert L c table rs batch_size =
     bind (lift (ch_identifier table)) (\<lambda>_.
     bind (check (0 < batch_size) ''insert batch size must be positive'') (\<lambda>_.
     insert_loop L c table batch_size rs [] 0))"

definition insert_values :: "('w, 'x) chlib_scheme \<Rightarrow> ClickHouse \<Rightarrow> string \<Rightarrow> json list \<Rightarrow> ('w, unit) io" where
  "insert_values L c table vs = ch_insert L c table (map Inr vs) 1000"

definition disk_usage :: "('w, 'x) chlib_scheme \<Rightarrow> ClickHouse \<Rightarrow> ('w, u64) io" where
  "disk_usage L c =
     bind (lift (params (jobj [(''db'', JStr (ch_database c))]))) (\<lambda>ps.
     bind (one L c ''SELECT sum(bytes_on_disk) AS bytes FROM system.parts WHERE database = {db:String}'' ps) (\<lambda>row.
     lift (uint (index row ''bytes''))))"

section \<open>Properties\<close>

text \<open>
  The reference behaviour of a batched insert: cut the rows into pieces of the batch size, the
  last one possibly shorter, and send them in order.
\<close>

fun chunks :: "nat \<Rightarrow> 'a list \<Rightarrow> 'a list list" where
  "chunks n xs = (if n = 0 \<or> xs = [] then [] else take n xs # chunks n (drop n xs))"

declare chunks.simps [simp del]

lemma chunks_Nil [simp]: "chunks n [] = []"
  by (simp add: chunks.simps)

lemma concat_chunks: "0 < n \<Longrightarrow> concat (chunks n xs) = xs"
proof (induction n xs rule: chunks.induct)
  case (1 n xs)
  then show ?case by (subst chunks.simps) simp
qed

lemma chunks_length: "b \<in> set (chunks n xs) \<Longrightarrow> 0 < length b \<and> length b \<le> n"
proof (induction n xs rule: chunks.induct)
  case (1 n xs)
  show ?case
  proof (cases "n = 0 \<or> xs = []")
    case True
    with "1.prems" show ?thesis by (simp add: chunks.simps [of n xs])
  next
    case False
    with "1.prems" have "b = take n xs \<or> b \<in> set (chunks n (drop n xs))"
      by (simp add: chunks.simps [of n xs])
    with "1.IH" False show ?thesis by (auto simp: Suc_leI)
  qed
qed

lemma chunks_full: "0 < n \<Longrightarrow> length xs = n \<Longrightarrow> chunks n (xs @ ys) = xs # chunks n ys"
  by (subst chunks.simps) auto

lemma chunks_short: "length xs < n \<Longrightarrow> xs \<noteq> [] \<Longrightarrow> chunks n xs = [xs]"
  by (subst chunks.simps) auto

abbreviation send_batch :: "('w, 'x) chlib_scheme \<Rightarrow> ClickHouse \<Rightarrow> string \<Rightarrow> json list \<Rightarrow> ('w, unit) io" where
  "send_batch L c table b \<equiv> insert_body L c table (concat (map (row_text L) b))"

lemma insert_loop_rows:
  assumes "length pend < n"
  shows "insert_loop L c table n (map Inr vs) (concat (map (row_text L) pend)) (length pend) =
     for_each (send_batch L c table) (chunks n (pend @ vs))"
  using assms
proof (induction vs arbitrary: pend)
  case Nil
  then show ?case
    by (cases "pend = []") (simp_all add: chunks_short)
next
  case (Cons v vs)
  show ?case
  proof (cases "Suc (length pend) = n")
    case True
    then have "chunks n ((pend @ [v]) @ vs) = (pend @ [v]) # chunks n vs"
      by (intro chunks_full) auto
    with True Cons.IH [of "[]"] show ?thesis by simp
  next
    case False
    with Cons.prems Cons.IH [of "pend @ [v]"] show ?thesis by simp
  qed
qed

lemma insert_loop_error:
  assumes "length pend < n"
  shows "insert_loop L c table n (map Inr vs @ Inl e # rest) (concat (map (row_text L) pend)) (length pend) =
     bind (for_each (send_batch L c table) (filter (\<lambda>b. length b = n) (chunks n (pend @ vs)))) (\<lambda>_. fail e)"
  using assms
proof (induction vs arbitrary: pend)
  case Nil
  then show ?case
    by (cases "pend = []") (simp_all add: chunks_short)
next
  case (Cons v vs)
  show ?case
  proof (cases "Suc (length pend) = n")
    case True
    then have "chunks n ((pend @ [v]) @ vs) = (pend @ [v]) # chunks n vs"
      by (intro chunks_full) auto
    with True Cons.IH [of "[]"] show ?thesis by (simp add: bind_assoc)
  next
    case False
    with Cons.prems Cons.IH [of "pend @ [v]"] show ?thesis by simp
  qed
qed

text \<open>
  C18: inserting rows into a table with a positive batch size sends exactly the batches of the
  reference cut, in order, each row once; when producing a row fails, the batches that were
  already full have been sent, nothing of the incomplete batch has, and the row's error is
  returned.
\<close>

theorem insert_batches:
  assumes "ch_identifier table = Inr table" "0 < n"
  shows "ch_insert L c table (map Inr vs) n = for_each (send_batch L c table) (chunks n vs) \<and>
    concat (chunks n vs) = vs \<and>
    ch_insert L c table (map Inr vs @ Inl e # rest) n =
      bind (for_each (send_batch L c table) (filter (\<lambda>b. length b = n) (chunks n vs))) (\<lambda>_. fail e)"
  using insert_loop_rows [of "[]" n L c table vs] insert_loop_error [of "[]" n L c table vs e rest] assms
  by (simp add: ch_insert_def concat_chunks)

definition ex_chlib :: "string list chlib" where
  "ex_chlib = \<lparr>url_ok = (\<lambda>_. True),
     http_post = (\<lambda>c q body w. (Inr \<lparr>rs_code = 200, rs_success = True, rs_exception = None, rs_body = [],
       rs_broken = False\<rparr>, w @ [body])),
     json_parse = (\<lambda>_. Some (JObj [])), json_print = (\<lambda>v. case v of JNum s \<Rightarrow> s | _ \<Rightarrow> ''x'')\<rparr>"

definition ex_client :: ClickHouse where
  "ex_client = \<lparr>ch_database = ''db'', ch_url = ''u'', ch_control_home = ''h'', ch_user = ''u'', ch_password = ''p''\<rparr>"

lemma ex_insert_body: "insert_body ex_chlib ex_client t b w = (Inr (), w @ [b])"
  by (simp add: insert_body_def request_def query_pairs_def ex_chlib_def check_response_def
      read_acknowledgement_def bind_def lift_def check_def)

theorem insert_batches_witness:
  "ch_insert ex_chlib ex_client ''t'' [Inr (JNum ''1''), Inr (JNum ''2''), Inr (JNum ''3''), Inl ''boom''] 2 [] =
     (Inl ''boom'', [''1'' @ [CHR 0x0A] @ ''2'' @ [CHR 0x0A]])"
proof -
  have "ch_identifier ''t'' = Inr ''t''"
    by (simp add: ch_identifier_def is_ascii_alphabetic_def is_ascii_lowercase_def less_eq_char_def)
  moreover have "filter (\<lambda>b. length b = 2) (chunks 2 [JNum ''1'', JNum ''2'', JNum ''3'']) = [[JNum ''1'', JNum ''2'']]"
    by (simp add: chunks.simps)
  ultimately show ?thesis
    using insert_batches [of "''t''" 2 ex_chlib ex_client "[JNum ''1'', JNum ''2'', JNum ''3'']" "''boom''" "[]"]
    by (simp add: bind_def fail_def ret_def ex_insert_body row_text_def ex_chlib_def [THEN arg_cong, of json_print])
qed

text \<open>
  Reading a stream of rows: the rows of the non-blank lines up to and including the first error.
\<close>

fun until_error :: "'a res list \<Rightarrow> 'a res list" where
  "until_error [] = []"
| "until_error (Inl e # rs) = [Inl e]"
| "until_error (Inr v # rs) = Inr v # until_error rs"

definition blank :: "string res \<Rightarrow> bool" where
  "blank l = (case l of Inl _ \<Rightarrow> False | Inr s \<Rightarrow> trim s = [])"

lemma collect_rows_failed: "rw_failed s \<Longrightarrow> collect_rows L s = []"
  by (subst collect_rows.simps) (simp add: rows_next_def)

lemma next_line_split:
  "next_line L ls = (case dropWhile blank ls of
      [] \<Rightarrow> (None, \<lparr>rw_lines = [], rw_failed = False\<rparr>)
    | l # ls' \<Rightarrow> (Some (bnd l (parse_row L)), \<lparr>rw_lines = ls', rw_failed = \<not> is_ok (bnd l (parse_row L))\<rparr>))"
  by (induction L ls rule: next_line.induct) (simp_all add: blank_def Let_def)

lemma filter_dropWhile: "filter (\<lambda>x. \<not> P x) xs =
    (case dropWhile P xs of [] \<Rightarrow> [] | y # ys \<Rightarrow> y # filter (\<lambda>x. \<not> P x) ys)"
  by (induction xs) auto

text \<open>
  Iterating over a response yields, for its non-blank lines in order, the parsed row of each,
  and stops after the first line that cannot be read or is not a JSON object; no row after an
  error is ever delivered.
\<close>

lemma rows_stop_at_error:
  "collect_rows L \<lparr>rw_lines = ls, rw_failed = False\<rparr> =
     until_error (map (\<lambda>l. bnd l (parse_row L)) (filter (\<lambda>l. \<not> blank l) ls))"
proof (induction "length ls" arbitrary: ls rule: less_induct)
  case less
  show ?case
  proof (cases "dropWhile blank ls")
    case Nil
    have f: "filter (\<lambda>l. \<not> blank l) ls = []"
      by (simp only: filter_dropWhile [of blank ls] Nil list.case)
    have "next_line L ls = (None, \<lparr>rw_lines = [], rw_failed = False\<rparr>)"
      by (simp only: next_line_split Nil list.case)
    then show ?thesis
      by (subst collect_rows.simps) (simp add: rows_next_def f)
  next
    case (Cons l ls')
    then have "length ls' < length ls"
      using length_dropWhile_le [of blank ls] by simp
    note ih = less [OF this]
    show ?thesis
    proof (cases "bnd l (parse_row L)")
      case (Inl e)
      with Cons show ?thesis
        by (subst collect_rows.simps)
          (simp add: rows_next_def next_line_split filter_dropWhile [of blank ls] collect_rows_failed)
    next
      case (Inr v)
      with Cons ih show ?thesis
        by (subst collect_rows.simps)
          (simp add: rows_next_def next_line_split filter_dropWhile [of blank ls])
    qed
  qed
qed

end
