(* ===== verification/Files.thy ===== *)
theory Files
  imports Effects Json
begin

text \<open>
  Durable local metadata, \<open>crates/evm-state/src/files.rs\<close>: the two JSON texts whose hashes identify
  runs, atomic file replacement, advisory locks and path resolution.  A Rust \<open>char\<close> is its Unicode
  code point here; the file system is a map from paths to contents whose operations may fault.
\<close>

section \<open>Identity texts\<close>

definition encode_utf16 :: "nat \<Rightarrow> nat list" where
  "encode_utf16 c = (if c < 65536 then [c]
     else [55296 + (c - 65536) div 1024, 56320 + (c - 65536) mod 1024])"

definition hex4 :: "nat \<Rightarrow> string" where
  "hex4 n = [hex_digit (n div 4096 mod 16), hex_digit (n div 256 mod 16), hex_digit (n div 16 mod 16), hex_digit (n mod 16)]"

definition ascii_json :: "nat list \<Rightarrow> string" where
  "ascii_json cs = concat (map (\<lambda>c. if c < 128 then [char_of c]
     else concat (map (\<lambda>u. CHR 0x5C # CHR ''u'' # hex4 u) (encode_utf16 c))) cs)"

definition is_ascii :: "char \<Rightarrow> bool" where
  "is_ascii c \<longleftrightarrow> (of_char c :: nat) < 128"

text \<open>The scanner of \<open>spaced_json\<close>: whether it is inside a string and after a backslash.\<close>

fun spaced :: "bool \<Rightarrow> bool \<Rightarrow> string \<Rightarrow> string" where
  "spaced quoted escaped [] = []"
| "spaced quoted escaped (c # cs) =
     (if quoted then
        if escaped then c # spaced True False cs
        else if c = CHR 0x5C then c # spaced True True cs
        else if c = CHR 0x22 then c # spaced False False cs
        else c # spaced True False cs
      else if c = CHR 0x22 then c # spaced True escaped cs
      else if c = CHR '':'' \<or> c = CHR '','' then c # CHR '' '' # spaced False escaped cs
      else c # spaced False escaped cs)"

definition spaced_json :: "(json \<Rightarrow> nat list) \<Rightarrow> json \<Rightarrow> string" where
  "spaced_json print v = spaced False False (ascii_json (print v))"

definition canonical_json :: "(json \<Rightarrow> nat list) \<Rightarrow> json \<Rightarrow> string" where
  "canonical_json print v = ascii_json (print v)"

section \<open>Atomic replacement\<close>

text \<open>
  Each file-system call takes the next outcome of a schedule: it succeeds, fails, or (a write)
  leaves only a prefix of its bytes behind before failing.
\<close>

datatype outcome = Done | Fault | Torn nat

record fsys =
  fs_files :: "string \<rightharpoonup> string"
  fs_plan :: "outcome list"

definition fs_step :: "(fsys, outcome) io" where
  "fs_step s = (case fs_plan s of [] \<Rightarrow> (Inr Done, s) | x # xs \<Rightarrow> (Inr x, s\<lparr>fs_plan := xs\<rparr>))"

definition fs_try :: "(fsys, unit) io" where
  "fs_try = bind fs_step (\<lambda>x. if x = Done then ret () else fail ''input/output error'')"

definition fs_set :: "string \<Rightarrow> string option \<Rightarrow> (fsys, unit) io" where
  "fs_set p v s = (Inr (), s\<lparr>fs_files := (fs_files s)(p := v)\<rparr>)"

definition fs_get :: "string \<Rightarrow> (fsys, string option) io" where
  "fs_get p s = (Inr (fs_files s p), s)"

definition write_all :: "string \<Rightarrow> string \<Rightarrow> (fsys, unit) io" where
  "write_all p bytes = bind fs_step (\<lambda>x. case x of
       Done \<Rightarrow> fs_set p (Some bytes)
     | Fault \<Rightarrow> fail ''input/output error''
     | Torn n \<Rightarrow> bind (fs_set p (Some (take n bytes))) (\<lambda>_. fail ''input/output error''))"

definition rename :: "string \<Rightarrow> string \<Rightarrow> (fsys, unit) io" where
  "rename a b = bind fs_try (\<lambda>_. bind (fs_get a) (\<lambda>v. bind (fs_set a None) (\<lambda>_. fs_set b v)))"

definition hard_link :: "string \<Rightarrow> string \<Rightarrow> (fsys, unit) io" where
  "hard_link a b = bind fs_try (\<lambda>_. bind (fs_get b) (\<lambda>old.
     if old \<noteq> None then fail ''File exists'' else bind (fs_get a) (\<lambda>v. fs_set b v)))"

text \<open>
  The temporary file is created exclusively under the name the library settles on; it is dropped when the function returns, on success and on failure; removing
  one that was renamed away does nothing.
\<close>

definition drop_temp :: "string \<Rightarrow> (fsys, 'a) io \<Rightarrow> (fsys, 'a) io" where
  "drop_temp t m s = (case m s of (r, s') \<Rightarrow> (r, s'\<lparr>fs_files := (fs_files s')(t := None)\<rparr>))"

definition atomic_write :: "(fsys \<Rightarrow> string) \<Rightarrow> string option \<Rightarrow> string \<Rightarrow> string \<Rightarrow> bool \<Rightarrow> (fsys, unit) io" where
  "atomic_write temp parent path bytes overwrite =
     bind (lift (context_res parent ''metadata path has no parent'')) (\<lambda>_.
     bind fs_try (\<lambda>_.
     bind fs_try (\<lambda>_ s. let t = temp s in
       bind (check (fs_files s t = None) ''File exists'') (\<lambda>_.
       bind (fs_set t (Some [])) (\<lambda>_.
       drop_temp t
        (bind (write_all t bytes) (\<lambda>_.
         bind fs_try (\<lambda>_.
         bind fs_try (\<lambda>_.
         bind (if overwrite then rename t path else hard_link t path) (\<lambda>_.
         fs_try))))))) s)))"

definition atomic_json :: "(json \<Rightarrow> nat list) \<Rightarrow> (fsys \<Rightarrow> string) \<Rightarrow> string option \<Rightarrow> string \<Rightarrow> json \<Rightarrow> bool \<Rightarrow> (fsys, unit) io" where
  "atomic_json pretty temp parent path v overwrite =
     atomic_write temp parent path (ascii_json (pretty v) @ [CHR 0x0A]) overwrite"

section \<open>Locks\<close>

text \<open>
  Advisory locks as \<open>flock\<close> has them: a path has at most one exclusive holder or any number of
  shared ones, also within one process, since each acquisition opens the file anew.  A holder is
  named by its process; releasing drops one acquisition.  A blocking acquisition waits, so the
  run of a blocked operation is one that starts when the lock can be granted.
\<close>

datatype hold = Shared | Exclusive

type_synonym 'p locks = "(string \<times> 'p \<times> hold) list"

definition lock_free :: "'p locks \<Rightarrow> string \<Rightarrow> bool \<Rightarrow> bool" where
  "lock_free ls path exclusive \<longleftrightarrow>
     list_all (\<lambda>(q, _, h). q = path \<longrightarrow> \<not> exclusive \<and> h = Shared) ls"

definition file_lock :: "string \<Rightarrow> 'p \<Rightarrow> bool \<Rightarrow> 'p locks \<Rightarrow> 'p locks res" where
  "file_lock path p exclusive ls =
     (if lock_free ls path exclusive
      then Inr ((path, p, if exclusive then Exclusive else Shared) # ls)
      else Inl ''another process owns this state directory or lock acquisition failed'')"

definition unlock :: "string \<Rightarrow> 'p \<Rightarrow> bool \<Rightarrow> 'p locks \<Rightarrow> 'p locks" where
  "unlock path p exclusive ls = remove1 (path, p, if exclusive then Exclusive else Shared) ls"

section \<open>Path resolution\<close>

datatype component = RootDir | CurDir | ParentDir | Normal string

datatype lstat = Missing | NotLink | Link "component list res" | StatError string

definition is_absolute :: "component list \<Rightarrow> bool" where
  "is_absolute cs \<longleftrightarrow> cs \<noteq> [] \<and> hd cs = RootDir"

definition to_components :: "string list \<Rightarrow> component list" where
  "to_components p = RootDir # map Normal p"

text \<open>
  A resolved path is the list of its names below the root.  The recursion descends once per link,
  so its depth is bounded by the links still allowed: \<open>None\<close> would mean that the depth ran out,
  which is shown below never to happen.
\<close>

definition push :: "string list \<Rightarrow> component \<Rightarrow> string list" where
  "push resolved c = (case c of Normal x \<Rightarrow> resolved @ [x] | _ \<Rightarrow> [])"

definition link_target :: "string list \<Rightarrow> component list res \<Rightarrow> component list res" where
  "link_target resolved target =
     bnd target (\<lambda>t. if is_absolute t then Inr t
       else ensure (resolved \<noteq> []) ''symlink has no parent'' (Inr (to_components (butlast resolved) @ t)))"

fun resolve_inner :: "(string list \<Rightarrow> lstat) \<Rightarrow> nat \<Rightarrow> component list \<Rightarrow> string list \<Rightarrow> nat \<Rightarrow> (string list \<times> nat) res option" where
  "resolve_inner st n [] resolved links = Some (Inr (resolved, links))"
| "resolve_inner st n (c # cs) resolved links =
     (if c = ParentDir then resolve_inner st n cs (butlast resolved) links
      else if c = CurDir then resolve_inner st n cs resolved links
      else let resolved = push resolved c in
        case st resolved of
          Missing \<Rightarrow> resolve_inner st n cs resolved links
        | NotLink \<Rightarrow> resolve_inner st n cs resolved links
        | StatError e \<Rightarrow> Some (Inl e)
        | Link target \<Rightarrow>
            let links = Suc links in
            if 40 < links then Some (Inl ''too many symbolic links in state directory'')
            else (case link_target resolved target of Inl e \<Rightarrow> Some (Inl e) | Inr target \<Rightarrow>
              (case n of 0 \<Rightarrow> None
               | Suc n' \<Rightarrow>
                  (case resolve_inner st n' target [] links of
                     None \<Rightarrow> None
                   | Some (Inl e) \<Rightarrow> Some (Inl e)
                   | Some (Inr (resolved, links)) \<Rightarrow> resolve_inner st n cs resolved links))))"

definition resolve :: "(string list \<Rightarrow> lstat) \<Rightarrow> component list res \<Rightarrow> component list \<Rightarrow> string list res option" where
  "resolve st current_dir path =
     (case (if is_absolute path then Inr path else bnd current_dir (\<lambda>d. Inr (d @ path))) of
        Inl e \<Rightarrow> Some (Inl e)
      | Inr absolute \<Rightarrow>
          (case resolve_inner st 40 absolute [] 0 of
             None \<Rightarrow> None
           | Some r \<Rightarrow> Some (bnd r (\<lambda>(resolved, _). Inr resolved))))"

section \<open>Properties of the texts\<close>

lemma of_char_hex_digit_lt: "n < 16 \<Longrightarrow> (of_char (hex_digit n) :: nat) < 128"
  by (simp add: of_char_hex_digit)

lemma ascii_json_ascii: "list_all is_ascii (ascii_json cs)"
  by (auto simp: ascii_json_def list_all_iff is_ascii_def hex4_def of_char_hex_digit_lt)

text \<open>Dropping the space after every separator outside strings undoes the spacing.\<close>

fun despaced :: "bool \<Rightarrow> bool \<Rightarrow> string \<Rightarrow> string" where
  "despaced quoted escaped [] = []"
| "despaced quoted escaped (c # cs) =
     (if quoted then
        if escaped then c # despaced True False cs
        else if c = CHR 0x5C then c # despaced True True cs
        else if c = CHR 0x22 then c # despaced False False cs
        else c # despaced True False cs
      else if c = CHR 0x22 then c # despaced True escaped cs
      else if c = CHR '':'' \<or> c = CHR '','' then c # despaced False escaped (tl cs)
      else c # despaced False escaped cs)"

lemma despaced_spaced: "despaced q e (spaced q e s) = s"
  by (induction q e s rule: spaced.induct) auto

text \<open>
  The spaced identity text determines the compact one: it is ASCII whatever the value, and
  two values have the same spaced text exactly when they have the same compact text.
\<close>

lemma spaced_json_faithful:
  "list_all is_ascii (spaced_json print v) \<and>
   (spaced_json print v = spaced_json print u \<longleftrightarrow> canonical_json print v = canonical_json print u)"
proof
  have "list_all is_ascii s \<Longrightarrow> list_all is_ascii (spaced q e s)" for q e s
    by (induction q e s rule: spaced.induct) (auto simp: is_ascii_def)
  then show "list_all is_ascii (spaced_json print v)"
    by (simp add: spaced_json_def ascii_json_ascii)
  show "spaced_json print v = spaced_json print u \<longleftrightarrow> canonical_json print v = canonical_json print u"
    unfolding spaced_json_def canonical_json_def by (metis despaced_spaced)
qed

section \<open>Resolution returns\<close>

lemma resolve_inner_links:
  "resolve_inner st n cs r l = Some (Inr (r', l')) \<Longrightarrow> l \<le> l'"
proof (induction st n cs r l arbitrary: r' l' rule: resolve_inner.induct)
  case (2 st n c cs r l)
  then show ?case
    by (fastforce simp: Let_def split: if_splits lstat.splits sum.splits nat.splits option.splits prod.splits)
qed simp

lemma resolve_inner_depth:
  "40 \<le> n + l \<Longrightarrow> resolve_inner st n cs r l \<noteq> None"
proof (induction st n cs r l rule: resolve_inner.induct)
  case (2 st n c cs r l)
  then show ?case
    by (fastforce simp: Let_def dest: resolve_inner_links
        split: if_splits lstat.splits sum.splits nat.splits option.splits prod.splits)
qed simp

definition no_link :: "(string list \<Rightarrow> lstat) \<Rightarrow> string list \<Rightarrow> bool" where
  "no_link st p \<longleftrightarrow> st p = Missing \<or> st p = NotLink"

definition link_free :: "(string list \<Rightarrow> lstat) \<Rightarrow> string list \<Rightarrow> bool" where
  "link_free st r \<longleftrightarrow> (\<forall>k. 0 < k \<longrightarrow> k \<le> length r \<longrightarrow> no_link st (take k r))"

lemma link_free_Nil [simp]: "link_free st []"
  by (simp add: link_free_def)

lemma link_free_butlast: "link_free st r \<Longrightarrow> link_free st (butlast r)"
  by (auto simp: link_free_def butlast_conv_take min_def)

lemma link_free_push: "link_free st r \<Longrightarrow> no_link st (push r c) \<Longrightarrow> link_free st (push r c)"
  by (auto simp: link_free_def push_def le_Suc_eq split: component.splits)

lemma resolve_inner_link_case:
  assumes "resolve_inner st n (c # cs) r l = Some (Inr (r', l'))" "c \<noteq> ParentDir" "c \<noteq> CurDir" "st (push r c) = Link x"
  shows "\<exists>t m r1 l1. n = Suc m \<and> resolve_inner st m t [] (Suc l) = Some (Inr (r1, l1)) \<and>
    resolve_inner st n cs r1 l1 = Some (Inr (r', l'))"
  using assms
  by (simp add: Let_def split: if_splits sum.splits nat.splits option.splits prod.splits) blast

lemma resolve_inner_link_free:
  "link_free st r \<Longrightarrow> resolve_inner st n cs r l = Some (Inr (r', l')) \<Longrightarrow> link_free st r'"
proof (induction n arbitrary: cs r l r' l' rule: less_induct)
  case (less n)
  note outer = less.IH
  show ?case using less.prems
  proof (induction cs arbitrary: r l)
    case (Cons c cs)
    show ?case
    proof (cases "c = ParentDir \<or> c = CurDir")
      case True
      with Cons.prems(2) have "resolve_inner st n cs (if c = ParentDir then butlast r else r) l = Some (Inr (r', l'))"
        by auto
      with Cons.prems(1) show ?thesis by (intro Cons.IH) (simp_all add: link_free_butlast)
    next
      case False
      show ?thesis
      proof (cases "st (push r c)")
        case (Link x)
        obtain t m r1 l1 where "n = Suc m" "resolve_inner st m t [] (Suc l) = Some (Inr (r1, l1))"
          "resolve_inner st n cs r1 l1 = Some (Inr (r', l'))"
          using resolve_inner_link_case [OF Cons.prems(2) _ _ Link] False by blast
        with outer [of m "[]" t "Suc l" r1 l1] Cons.IH show ?thesis by simp
      qed (use Cons.prems False in \<open>auto simp: Let_def no_link_def intro!: Cons.IH [of "push r c" l] link_free_push\<close>)
    qed
  qed simp
qed

text \<open>
  C30: resolving a path always returns, whatever links the file system holds (cycles end at the
  limit of forty links); a path it returns has no component that is a symbolic link, so resolving
  two spellings of one directory cannot give two lock directories that differ by a link.
\<close>

theorem resolve_returns:
  "\<exists>r. resolve st cwd path = Some r \<and> (r = Inr p \<longrightarrow> link_free st p)"
proof (cases "if is_absolute path then Inr path else bnd cwd (\<lambda>d. Inr (d @ path))")
  case (Inl e)
  then show ?thesis by (simp add: resolve_def)
next
  case (Inr absolute)
  obtain r where r: "resolve_inner st 40 absolute [] 0 = Some r"
    using resolve_inner_depth [of 40 0 st absolute "[]"] by auto
  with Inr have "resolve st cwd path = Some (bnd r (\<lambda>(resolved, _). Inr resolved))"
    by (simp add: resolve_def)
  moreover have "link_free st p" if "bnd r (\<lambda>(resolved, _). Inr resolved) = Inr p"
    using that r resolve_inner_link_free [of st "[]"] by (auto simp: bnd_Inr_iff)
  ultimately show ?thesis by auto
qed

definition ex_stat :: "string list \<Rightarrow> lstat" where
  "ex_stat p = (if p = [''a''] then Link (Inr [Normal ''b'']) else if p = [''l''] then Link (Inr [Normal ''l'']) else Missing)"

theorem resolve_returns_witness:
  "resolve ex_stat (Inr [RootDir]) [Normal ''a'', CurDir, Normal ''x'', ParentDir, Normal ''y''] = Some (Inr [''b'', ''y'']) \<and>
   link_free ex_stat [''b'', ''y'']"
proof -
  have "resolve ex_stat (Inr [RootDir]) [Normal ''a'', CurDir, Normal ''x'', ParentDir, Normal ''y''] = Some (Inr [''b'', ''y''])"
    by (simp add: resolve_def is_absolute_def ex_stat_def push_def link_target_def to_components_def numeral_eq_Suc)
  with resolve_returns [of ex_stat "Inr [RootDir]" "[Normal ''a'', CurDir, Normal ''x'', ParentDir, Normal ''y'']" "[''b'', ''y'']"]
  show ?thesis by auto
qed

section \<open>Replacement is atomic\<close>

lemma fs_try_files: "fs_files (snd (fs_try s)) = fs_files s"
  by (auto simp: fs_try_def bind_def fs_step_def ret_def fail_def split: list.splits)

lemma write_all_files: "q \<noteq> t \<Longrightarrow> fs_files (snd (write_all t bytes s)) q = fs_files s q"
  by (auto simp: write_all_def bind_def fs_step_def fs_set_def ret_def fail_def
      split: list.splits outcome.splits)

lemma write_all_Inr: "write_all t bytes s = (Inr u, s') \<Longrightarrow> fs_files s' t = Some bytes"
  by (auto simp: write_all_def bind_def fs_step_def fs_set_def fail_def
      split: list.splits outcome.splits)

lemma fs_try_Inr: "fs_try s = (Inr u, s') \<Longrightarrow> fs_files s' = fs_files s"
  using fs_try_files [of s] by simp

lemma rename_files:
  assumes "fs_files s t = Some bytes"
  shows "fs_files (snd (rename t p s)) = fs_files s \<or>
    fs_files (snd (rename t p s)) = (fs_files s)(t := None, p := Some bytes)"
  using assms fs_try_files [of s]
  by (cases "fs_try s") (auto simp: rename_def bind_def fs_get_def fs_set_def split: sum.splits)

lemma hard_link_files:
  assumes "fs_files s t = Some bytes"
  shows "fs_files (snd (hard_link t p s)) = fs_files s \<or>
    fs_files s p = None \<and> fs_files (snd (hard_link t p s)) = (fs_files s)(p := Some bytes)"
  using assms fs_try_files [of s]
  by (cases "fs_try s") (auto simp: hard_link_def bind_def fs_get_def fs_set_def fail_def split: sum.splits)

definition replaced :: "string \<Rightarrow> string \<Rightarrow> string \<Rightarrow> bool \<Rightarrow> (string \<rightharpoonup> string) \<Rightarrow> (string \<rightharpoonup> string) \<Rightarrow> bool" where
  "replaced path t bytes overwrite old new \<longleftrightarrow>
     (\<forall>q. q \<noteq> path \<longrightarrow> q \<noteq> t \<longrightarrow> new q = old q) \<and>
     (new path = old path \<or> new path = Some bytes \<and> (overwrite \<or> old path = None))"

definition publish_temp :: "string \<Rightarrow> string \<Rightarrow> string \<Rightarrow> bool \<Rightarrow> (fsys, unit) io" where
  "publish_temp t path bytes overwrite =
     bind (write_all t bytes) (\<lambda>_.
     bind fs_try (\<lambda>_.
     bind fs_try (\<lambda>_.
     bind (if overwrite then rename t path else hard_link t path) (\<lambda>_. fs_try))))"

lemma rename_Inr: "rename t p s = (Inr u, s') \<Longrightarrow> fs_files s' p = fs_files s t"
  using fs_try_files [of s]
  by (cases "fs_try s") (auto simp: rename_def bind_def fs_get_def fs_set_def split: sum.splits)

lemma hard_link_Inr: "hard_link t p s = (Inr u, s') \<Longrightarrow> fs_files s' p = fs_files s t"
  using fs_try_files [of s]
  by (cases "fs_try s")
    (auto simp: hard_link_def bind_def fs_get_def fs_set_def fail_def split: sum.splits if_splits)

lemma try_then:
  assumes "P (fs_files s)" "\<And>x. fs_files x = fs_files s \<Longrightarrow> P (fs_files (snd (m x)))"
  shows "P (fs_files (snd (bind fs_try (\<lambda>_. m) s)))"
  using assms fs_try_files [of s] by (cases "fs_try s") (auto simp: bind_def split: sum.splits)

lemma then_try: "fs_files (snd (bind m (\<lambda>_. fs_try) s)) = fs_files (snd (m s))"
  by (cases "m s") (auto simp: bind_def fs_try_files split: sum.splits)

lemma publish_temp_replaced:
  assumes "t \<noteq> path"
  shows "replaced path t bytes ow (fs_files s) (fs_files (snd (publish_temp t path bytes ow s)))"
  unfolding publish_temp_def
proof (rule bind_invariant)
  show w: "replaced path t bytes ow (fs_files s) (fs_files (snd (write_all t bytes s)))"
    using write_all_files [of _ t bytes s] assms by (simp add: replaced_def)
  fix u s1 assume s1: "write_all t bytes s = (Inr u, s1)"
  then have t: "fs_files s1 t = Some bytes" by (rule write_all_Inr)
  have r: "replaced path t bytes ow (fs_files s) (fs_files x)" if "fs_files x = fs_files s1" for x
    using w s1 that by simp
  have p: "fs_files s1 path = fs_files s path" using write_all_files [of path t bytes s] assms s1 by simp
  let ?pub = "if ow then rename t path else hard_link t path"
  have pub: "replaced path t bytes ow (fs_files s) (fs_files (snd (?pub x)))" if "fs_files x = fs_files s1" for x
    using rename_files [of x t bytes path] hard_link_files [of x t bytes path] t that r [OF that] p
    by (auto simp: replaced_def)
  show "replaced path t bytes ow (fs_files s)
      (fs_files (snd (bind fs_try (\<lambda>_. bind fs_try (\<lambda>_. bind ?pub (\<lambda>_. fs_try))) s1)))"
  proof (rule try_then [where P = "replaced path t bytes ow (fs_files s)"])
    show "replaced path t bytes ow (fs_files s) (fs_files s1)" by (rule r) (rule refl)
    fix x :: fsys assume x: "fs_files x = fs_files s1"
    show "replaced path t bytes ow (fs_files s) (fs_files (snd (bind fs_try (\<lambda>_. bind ?pub (\<lambda>_. fs_try)) x)))"
    proof (rule try_then [where P = "replaced path t bytes ow (fs_files s)"])
      show "replaced path t bytes ow (fs_files s) (fs_files x)" by (rule r [OF x])
      fix y :: fsys assume "fs_files y = fs_files x"
      with x have "fs_files y = fs_files s1" by simp
      then show "replaced path t bytes ow (fs_files s) (fs_files (snd (bind ?pub (\<lambda>_. fs_try) y)))"
        unfolding then_try by (rule pub)
    qed
  qed
qed

lemma publish_temp_Inr:
  assumes "publish_temp t path bytes ow s = (Inr u, s')"
  shows "fs_files s' path = Some bytes"
proof -
  obtain s1 s2 s3 s4 where "write_all t bytes s = (Inr (), s1)" "fs_try s1 = (Inr (), s2)" "fs_try s2 = (Inr (), s3)"
    "(if ow then rename t path else hard_link t path) s3 = (Inr (), s4)" "fs_try s4 = (Inr u, s')"
    using assms by (auto simp: publish_temp_def bind_Inr_iff)
  with write_all_Inr [of t bytes s] fs_try_Inr rename_Inr hard_link_Inr show ?thesis
    by (cases ow) (metis (full_types))+
qed

lemma atomic_write_effect:
  assumes "\<forall>x. temp x \<noteq> path"
  shows "let (r, s') = atomic_write temp parent path bytes overwrite s in
    (\<forall>q. q \<noteq> path \<longrightarrow> fs_files s' q = fs_files s q) \<and>
    (fs_files s' path = fs_files s path \<or> fs_files s' path = Some bytes \<and> (overwrite \<or> fs_files s path = None)) \<and>
    (is_ok r \<longrightarrow> fs_files s' path = Some bytes)"
proof (cases parent)
  case None
  then show ?thesis by (simp add: atomic_write_def Let_def fail_def)
next
  case (Some d)
  let ?go = "\<lambda>x. let t = temp x in bind (check (fs_files x t = None) ''File exists'') (\<lambda>_.
    bind (fs_set t (Some [])) (\<lambda>_. drop_temp t (publish_temp t path bytes overwrite))) x"
  have aw: "atomic_write temp parent path bytes overwrite = bind fs_try (\<lambda>_. bind fs_try (\<lambda>_. ?go))"
    by (simp add: atomic_write_def publish_temp_def Some)
  let ?Q = "\<lambda>r f. (\<forall>q. q \<noteq> path \<longrightarrow> f q = fs_files s q) \<and>
    (f path = fs_files s path \<or> f path = Some bytes \<and> (overwrite \<or> fs_files s path = None)) \<and>
    (is_ok r \<longrightarrow> f path = Some bytes)"
  have go: "?Q (fst (?go x)) (fs_files (snd (?go x)))" if x: "fs_files x = fs_files s" for x
  proof (cases "fs_files x (temp x) = None")
    case False
    then have "?go x = (Inl ''File exists'', x)" by (auto simp: Let_def bind_def check_def)
    then show ?thesis using x by simp
  next
    case True
    define t where "t = temp x"
    have t: "fs_files s t = None" "t \<noteq> path" using assms x True by (simp_all add: t_def)
    let ?y = "x\<lparr>fs_files := (fs_files x)(t := Some [])\<rparr>"
    obtain r z where z: "publish_temp t path bytes overwrite ?y = (r, z)" by fastforce
    have "replaced path t bytes overwrite (fs_files ?y) (fs_files z)"
      using publish_temp_replaced [OF t(2), of bytes overwrite ?y] z by simp
    moreover have "is_ok r \<longrightarrow> fs_files z path = Some bytes"
      using publish_temp_Inr [of t path bytes overwrite ?y _ z] z by (auto simp: is_ok_iff)
    moreover have "?go x = (r, z\<lparr>fs_files := (fs_files z)(t := None)\<rparr>)"
      using z True by (simp add: t_def Let_def bind_def check_def fs_set_def drop_temp_def)
    ultimately show ?thesis using t x by (auto simp: replaced_def)
  qed
  have tr: "?Q (fst (bind fs_try (\<lambda>_. m) y)) (fs_files (snd (bind fs_try (\<lambda>_. m) y)))"
    if m: "\<And>x. fs_files x = fs_files s \<Longrightarrow> ?Q (fst (m x)) (fs_files (snd (m x)))" and y: "fs_files y = fs_files s" for m :: "(fsys, unit) io" and y
    using m [of "snd (fs_try y)"] fs_try_files [of y] y
    by (cases "fs_try y") (auto simp: bind_def split: sum.splits)
  have "?Q (fst (bind fs_try (\<lambda>_. bind fs_try (\<lambda>_. ?go)) s)) (fs_files (snd (bind fs_try (\<lambda>_. bind fs_try (\<lambda>_. ?go)) s)))"
    by (intro tr go refl)
  then show ?thesis unfolding aw by (simp add: case_prod_unfold Let_def)
qed

text \<open>
  C29: however the file-system calls fail, writing a metadata file leaves every other file as it
  was and the file itself with its old contents or the complete new ones, never a part of them;
  without permission to overwrite an existing file keeps its contents; and when the write reports
  success the file has the new contents.
\<close>

theorem atomic_write_all_or_nothing:
  assumes "\<forall>x. temp x \<noteq> path"
  shows "let (r, s') = atomic_write temp parent path bytes overwrite s in
    (\<forall>q. q \<noteq> path \<longrightarrow> fs_files s' q = fs_files s q) \<and>
    (fs_files s' path = fs_files s path \<or> fs_files s' path = Some bytes \<and> (overwrite \<or> fs_files s path = None)) \<and>
    (is_ok r \<longrightarrow> fs_files s' path = Some bytes)"
  by (rule atomic_write_effect [OF assms])

definition ex_fs :: "outcome list \<Rightarrow> fsys" where
  "ex_fs plan = \<lparr>fs_files = [''d/f'' \<mapsto> ''old''], fs_plan = plan\<rparr>"

theorem atomic_write_all_or_nothing_witness:
  "let (r, s') = atomic_write (\<lambda>_. ''d/.tmp'') (Some ''d'') ''d/f'' ''new'' True (ex_fs [Done, Done, Torn 1]) in
     r = Inl ''input/output error'' \<and> fs_files s' ''d/f'' = Some ''old'' \<and> fs_files s' ''d/.tmp'' = None"
proof -
  let ?r = "atomic_write (\<lambda>_. ''d/.tmp'') (Some ''d'') ''d/f'' ''new'' True (ex_fs [Done, Done, Torn 1])"
  have "fst ?r = Inl ''input/output error'' \<and> fs_files (snd ?r) ''d/f'' \<noteq> Some ''new''"
    by (simp add: atomic_write_def ex_fs_def bind_def fs_try_def fs_step_def ret_def fail_def lift_def
        write_all_def fs_set_def drop_temp_def Let_def check_def)
  moreover have "let (r, s') = ?r in (\<forall>q. q \<noteq> ''d/f'' \<longrightarrow> fs_files s' q = fs_files (ex_fs [Done, Done, Torn 1]) q) \<and>
     (fs_files s' ''d/f'' = fs_files (ex_fs [Done, Done, Torn 1]) ''d/f'' \<or>
       fs_files s' ''d/f'' = Some ''new'' \<and> (True \<or> fs_files (ex_fs [Done, Done, Torn 1]) ''d/f'' = None)) \<and>
     (is_ok r \<longrightarrow> fs_files s' ''d/f'' = Some ''new'')"
    by (rule atomic_write_all_or_nothing) (simp add: ex_fs_def)
  ultimately show ?thesis by (simp add: case_prod_unfold Let_def ex_fs_def)
qed

end
