(* ===== verification/Rlp.thy ===== *)
theory Rlp
  imports Big_Endian
begin

text \<open>
  The contract of the RLP codec (the crate \<open>alloy_rlp\<close>, which is not part of the repository), the
  facts its clients use, and an RLP codec written from the format's definition that satisfies it.
\<close>

abbreviation usize_max :: nat where "usize_max \<equiv> 2 ^ 64"

locale rlp_codec =
  fixes enc_uint :: "nat \<Rightarrow> bytes" and enc_bytes :: "bytes \<Rightarrow> bytes"
    and list_header :: "nat \<Rightarrow> bytes" and decode :: "bool \<Rightarrow> bytes \<Rightarrow> (bytes \<times> bytes) option"
  assumes enc_uint: "enc_uint n = enc_bytes (be_bytes n)"
    and enc_nonempty: "enc_bytes b \<noteq> []"
    and enc_length: "length b < usize_max \<Longrightarrow> length (enc_bytes b) \<le> length b + 9"
    and enc_length_ge: "length b \<le> length (enc_bytes b)"
    and dec_bytes: "length b < usize_max \<Longrightarrow> decode False (enc_bytes b @ r) = Some (b, r)"
    and dec_list: "length p < usize_max \<Longrightarrow> decode True (list_header (length p) @ p @ r) = Some (p, r)"
begin

lemma enc_bytes_prefix:
  assumes "enc_bytes a @ r = enc_bytes b @ s" "length a < usize_max" "length b < usize_max"
  shows "a = b \<and> r = s"
  using dec_bytes [OF assms(2), of r, unfolded assms(1)] dec_bytes [OF assms(3), of s] by simp

lemma items_inject:
  assumes "concat (map enc_bytes xs) = concat (map enc_bytes ys)"
    and "\<forall>x \<in> set xs. length x < usize_max" "\<forall>y \<in> set ys. length y < usize_max"
  shows "xs = ys"
  using assms
proof (induction xs arbitrary: ys)
  case Nil
  then show ?case using enc_nonempty by (cases ys) auto
next
  case (Cons x xs)
  then obtain y ys' where ys: "ys = y # ys'"
    using enc_nonempty [of x] by (cases ys) auto
  then have "x = y \<and> concat (map enc_bytes xs) = concat (map enc_bytes ys')"
    using Cons.prems by (intro enc_bytes_prefix) auto
  with Cons ys show ?case by simp
qed

lemma list_inject:
  assumes "list_header (length p) @ p = list_header (length q) @ q"
    "length p < usize_max" "length q < usize_max"
  shows "p = q"
  using dec_list [OF assms(2), of "[]"] dec_list [OF assms(3), of "[]"] assms(1) by simp

lemma enc_bytes_inject:
  "length a < usize_max \<Longrightarrow> length b < usize_max \<Longrightarrow> enc_bytes a = enc_bytes b \<longleftrightarrow> a = b"
  using enc_bytes_prefix [of a "[]" b "[]"] by auto

end

section \<open>RLP as the format defines it\<close>

definition ref_rlp_header :: "nat \<Rightarrow> nat \<Rightarrow> bytes" where
  "ref_rlp_header off n =
     (if n \<le> 55 then [of_nat (off + n)]
      else of_nat (off + 55 + length (be_bytes n)) # be_bytes n)"

definition ref_rlp_bytes :: "bytes \<Rightarrow> bytes" where
  "ref_rlp_bytes b = (if length b = 1 \<and> unat (hd b) < 128 then b else ref_rlp_header 128 (length b) @ b)"

definition ref_rlp_take :: "nat \<Rightarrow> bytes \<Rightarrow> (bytes \<times> bytes) option" where
  "ref_rlp_take k t =
     (if k \<le> 55 then if length t < k then None else Some (take k t, drop k t)
      else let l = k - 55; n = be_val (take l t) in
        if length t < l + n then None else Some (take n (drop l t), drop (l + n) t))"

definition ref_rlp_decode :: "bool \<Rightarrow> bytes \<Rightarrow> (bytes \<times> bytes) option" where
  "ref_rlp_decode lst s = (case s of [] \<Rightarrow> None
     | h # t \<Rightarrow>
         (if unat h < 128 then if lst then None else Some ([h], t)
          else if unat h < 192 then if lst then None else ref_rlp_take (unat h - 128) t
          else if lst then ref_rlp_take (unat h - 192) t else None))"

lemma length_be_bytes_usize: "n < usize_max \<Longrightarrow> length (be_bytes n) \<le> 8"
  by (rule length_be_bytes_le) simp

lemma unat_byte: "n < 256 \<Longrightarrow> unat (of_nat n :: byte) = n"
  by (simp add: unat_of_nat)

lemma be_bytes_nonempty: "0 < n \<Longrightarrow> 0 < length (be_bytes n)"
  by (metis be_val_be_bytes be_val_simps(1) length_greater_0_conv less_numeral_extra(3))

lemma ref_rlp_take_header:
  assumes "off = 128 \<or> off = 192" "length p < usize_max"
  shows "\<exists>h t. ref_rlp_header off (length p) @ p @ r = h # t \<and> off \<le> unat h \<and> unat h < off + 64 \<and>
    ref_rlp_take (unat h - off) t = Some (p, r)"
proof (cases "length p \<le> 55")
  case True
  with assms have "unat (of_nat (off + length p) :: byte) = off + length p"
    by (intro unat_byte) auto
  with True show ?thesis by (simp add: ref_rlp_header_def ref_rlp_take_def)
next
  case False
  let ?l = "length (be_bytes (length p))"
  have l: "?l \<le> 8" by (rule length_be_bytes_usize [OF assms(2)])
  have "0 < ?l" by (rule be_bytes_nonempty) (use False in linarith)
  note l = l this
  with assms(1) have "unat (of_nat (off + 55 + ?l) :: byte) = off + 55 + ?l"
    by (intro unat_byte) auto
  with False l show ?thesis by (simp add: ref_rlp_header_def ref_rlp_take_def Let_def)
qed

interpretation ref_rlp: rlp_codec "\<lambda>n. ref_rlp_bytes (be_bytes n)" ref_rlp_bytes
  "ref_rlp_header 192" ref_rlp_decode
proof
  show "ref_rlp_bytes b \<noteq> []" for b
    by (auto simp: ref_rlp_bytes_def ref_rlp_header_def)
  show "length (ref_rlp_bytes b) \<le> length b + 9" if "length b < usize_max" for b
    using length_be_bytes_usize [OF that] by (simp add: ref_rlp_bytes_def ref_rlp_header_def)
  show "length b \<le> length (ref_rlp_bytes b)" for b
    by (simp add: ref_rlp_bytes_def)
  show "ref_rlp_decode False (ref_rlp_bytes b @ r) = Some (b, r)" if "length b < usize_max" for b r
  proof (cases "length b = 1 \<and> unat (hd b) < 128")
    case True
    then obtain x where "b = [x]" by (cases b) auto
    with True show ?thesis by (simp add: ref_rlp_bytes_def ref_rlp_decode_def)
  next
    case False
    with ref_rlp_take_header [of 128 b r] that show ?thesis
      by (auto simp: ref_rlp_bytes_def ref_rlp_decode_def)
  qed
  show "ref_rlp_decode True (ref_rlp_header 192 (length p) @ p @ r) = Some (p, r)"
    if "length p < usize_max" for p r
    using ref_rlp_take_header [of 192 p r] that by (auto simp: ref_rlp_decode_def)
qed simp

end
