(* ===== verification/Proof.thy ===== *)
theory Proof
  imports Json Rlp
begin

text \<open>
  Account and storage proofs, \<open>crates/evm-state/src/proof.rs\<close>.  Hashing, RLP, 256-bit integer text,
  Merkle-Patricia proofs and the trie builder are crates outside the repository and fields of
  \<open>evmlib\<close>; a \<open>U256\<close> is a natural number.  The staged SQLite table is a map sorted by key with a
  schedule of the faults an insertion may meet.
\<close>

record evmlib = hexlib +
  keccak256 :: "bytes \<Rightarrow> bytes"
  u256_from_str_radix :: "string \<Rightarrow> nat \<Rightarrow> nat option"
  u256_to_string :: "nat \<Rightarrow> string"
  b256_lower_hex :: "bytes \<Rightarrow> string"
  rlp_uint :: "nat \<Rightarrow> bytes"
  rlp_bytes :: "bytes \<Rightarrow> bytes"
  rlp_list_header :: "nat \<Rightarrow> bytes"
  rlp_decode :: "bool \<Rightarrow> bytes \<Rightarrow> (bytes \<times> bytes) option"
  verify_proof :: "bytes \<Rightarrow> bytes \<Rightarrow> bytes option \<Rightarrow> bytes list \<Rightarrow> bool"
  EMPTY_ROOT_HASH :: bytes
  trie_root :: "(bytes \<times> bytes) list \<Rightarrow> bytes"

definition unhex :: "'x hexlib_scheme \<Rightarrow> string \<Rightarrow> bytes res" where
  "unhex X v =
     bnd (context_res (strip_prefix ''0x'' v) ''expected 0x-prefixed hex'') (\<lambda>raw.
     ensure (even (length raw)) ''expected even-length hex''
     (map_err (\<lambda>_. ''invalid hex'') (hex_decode X raw)))"

definition fixed :: "'x hexlib_scheme \<Rightarrow> nat \<Rightarrow> string \<Rightarrow> bytes res" where
  "fixed X n v = bnd (unhex X v) (\<lambda>bs.
     ensure (length bs = n) (''expected '' @ show_nat n @ '' bytes'') (Inr bs))"

definition address :: "'x hexlib_scheme \<Rightarrow> string \<Rightarrow> string res" where
  "address X v = bnd (fixed X 20 v) (\<lambda>bs. Inr (''0x'' @ hex_encode X bs))"

definition quantity :: "'x evmlib_scheme \<Rightarrow> string \<Rightarrow> nat \<Rightarrow> nat res" where
  "quantity X v bits =
     bnd (context_res (strip_prefix ''0x'' v) ''expected JSON-RPC hex quantity'') (\<lambda>raw.
     ensure (raw \<noteq> [] \<and> list_all is_hexdigit raw) ''invalid JSON-RPC quantity''
     (bnd (context_res (u256_from_str_radix X raw 16) ''quantity exceeds uint256'') (\<lambda>number.
     ensure (number < 2 ^ bits) (''quantity exceeds uint'' @ show_nat bits) (Inr number))))"

definition rlp_list :: "'x evmlib_scheme \<Rightarrow> bytes list \<Rightarrow> bytes" where
  "rlp_list X items = rlp_list_header X (sum_list (map length items)) @ concat items"

record Account =
  ac_address :: string
  ac_exists :: bool
  ac_nonce :: u64
  ac_balance :: nat
  ac_storage_root :: bytes
  ac_code_hash :: bytes

definition account_json :: "'x evmlib_scheme \<Rightarrow> Account \<Rightarrow> json" where
  "account_json X a = jobj [(''address'', JStr (ac_address a)), (''exists'', JBool (ac_exists a)),
     (''nonce'', jnum (ac_nonce a)), (''balance'', JStr (u256_to_string X (ac_balance a))),
     (''storage_root'', JStr (b256_lower_hex X (ac_storage_root a))),
     (''code_hash'', JStr (b256_lower_hex X (ac_code_hash a)))]"

definition account_rlp :: "'x evmlib_scheme \<Rightarrow> nat \<Rightarrow> nat \<Rightarrow> bytes \<Rightarrow> bytes \<Rightarrow> bytes" where
  "account_rlp X nonce balance storage_root code_hash =
     rlp_list X [rlp_uint X nonce, rlp_uint X balance, rlp_bytes X storage_root, rlp_bytes X code_hash]"

definition proof_address_ok :: "'x hexlib_scheme \<Rightarrow> string \<Rightarrow> json \<Rightarrow> unit res" where
  "proof_address_ok X selected p = (case get p ''address'' of None \<Rightarrow> Inr ()
     | Some actual \<Rightarrow>
         bnd (context_res (as_str actual) ''invalid proof address'') (\<lambda>text.
         bnd (address X text) (\<lambda>a.
         ensure (a = selected) ''proof is for a different account'' (Inr ()))))"

definition proof_nodes :: "'x hexlib_scheme \<Rightarrow> json \<Rightarrow> bytes list res" where
  "proof_nodes X p =
     bnd (context_res (Option.bind (get p ''accountProof'') as_array) ''missing account proof'')
       (map_res (\<lambda>node. bnd (context_res (as_str node) ''invalid account proof node'') (unhex X)))"

definition verify_account :: "'x evmlib_scheme \<Rightarrow> string \<Rightarrow> string \<Rightarrow> json \<Rightarrow> Account res" where
  "verify_account X state_root selected p =
     bnd (fixed X 32 state_root) (\<lambda>root.
     bnd (address X selected) (\<lambda>selected.
     bnd (proof_address_ok X selected p) (\<lambda>_.
     bnd (bnd (string_field p ''nonce'') (\<lambda>s. quantity X s 64)) (\<lambda>nonce.
     bnd (bnd (string_field p ''balance'') (\<lambda>s. quantity X s 256)) (\<lambda>balance.
     bnd (bnd (string_field p ''storageHash'') (fixed X 32)) (\<lambda>storage_root.
     bnd (bnd (string_field p ''codeHash'') (fixed X 32)) (\<lambda>code_hash.
     bnd (proof_nodes X p) (\<lambda>nodes.
     bnd (fixed X 20 selected) (\<lambda>raw.
     let key = keccak256 X raw;
         encoded = account_rlp X nonce balance storage_root code_hash;
         account = \<lambda>e. \<lparr>ac_address = selected, ac_exists = e, ac_nonce = of_nat nonce,
           ac_balance = balance, ac_storage_root = storage_root, ac_code_hash = code_hash\<rparr> in
     if verify_proof X root key (Some encoded) nodes then Inr (account True)
     else ensure (verify_proof X root key None nodes) ''invalid or incomplete account proof''
       (ensure (nonce = 0 \<and> balance = 0 \<and> storage_root = EMPTY_ROOT_HASH X \<and> code_hash = keccak256 X [])
          ''RPC account metadata does not match proven absence'' (Inr (account False))))))))))))"

definition exact_decimal :: "string \<Rightarrow> bool" where
  "exact_decimal s \<longleftrightarrow> s = ''0'' \<or> (\<not> prefix ''0'' s \<and> s \<noteq> [] \<and> list_all is_digit s)"

definition verify_metadata :: "'x evmlib_scheme \<Rightarrow> Account \<Rightarrow> string \<Rightarrow> json \<Rightarrow> unit res" where
  "verify_metadata X account code metadata =
     bnd (context_res (Option.bind (get metadata ''nonce'') as_u64) ''nonce must be an exact uint64'') (\<lambda>nonce.
     bnd (string_field metadata ''balance'') (\<lambda>balance.
     ensure (exact_decimal balance) ''balance must be an exact decimal string''
     (bnd (if nonce = ac_nonce account
           then bnd (context_res (u256_from_str_radix X balance 10) ''number too large'')
                  (\<lambda>b. Inr (b = ac_balance account))
           else Inr False) (\<lambda>same.
     ensure same ''account nonce/balance mismatch''
     (bnd (bnd (string_field metadata ''code_hash'') (fixed X 32)) (\<lambda>hash.
     ensure (hash = ac_code_hash account) ''account code hash mismatch''
     (bnd (unhex X code) (\<lambda>bytecode.
     ensure (keccak256 X bytecode = ac_code_hash account) ''bytecode does not match proven code hash''
       (Inr ())))))))))"

lemma unhex_enc [simp]: "hex_ok X \<Longrightarrow> unhex X (''0x'' @ hex_encode X b) = Inr b"
  by (simp add: unhex_def strip_prefix_def hex_codec.dec_enc hex_codec.length_enc)

lemma fixed_enc [simp]: "hex_ok X \<Longrightarrow> length b = n \<Longrightarrow> fixed X n (''0x'' @ hex_encode X b) = Inr b"
  by (simp add: fixed_def del: append_Cons)

lemma unhex_lower:
  assumes "hex_ok X" "unhex X s = Inr b"
  shows "\<exists>r. s = ''0x'' @ r \<and> map to_ascii_lowercase r = hex_encode X b"
proof -
  have t: "take 2 s = ''0x''" "map to_ascii_lowercase (drop 2 s) = hex_encode X b"
    using assms
    by (auto simp: unhex_def res_simps strip_prefix_def hex_codec.dec_iff numeral_2_eq_2 split: if_splits)
  with append_take_drop_id [of 2 s] show ?thesis by metis
qed

section \<open>The disk sort\<close>

record StorageSort =
  ss_table :: "(bytes, bytes) btree"
  ss_count :: u64
  ss_failed :: bool
  ss_faults :: "string option list"

definition sort_new :: "string option list \<Rightarrow> StorageSort" where
  "sort_new faults = \<lparr>ss_table = [], ss_count = 0, ss_failed = False, ss_faults = faults\<rparr>"

definition parse_slot :: "'x evmlib_scheme \<Rightarrow> string \<times> string \<Rightarrow> (bytes \<times> bytes) res" where
  "parse_slot X sv =
     bnd (fixed X 32 (fst sv)) (\<lambda>slot.
     bnd (fixed X 32 (snd sv)) (\<lambda>value.
     ensure (be_val value \<noteq> 0) ''complete-storage input must contain nonzero slots only''
       (Inr (keccak256 X slot, rlp_uint X (be_val value)))))"

definition sort_insert :: "'x evmlib_scheme \<Rightarrow> string \<Rightarrow> string \<Rightarrow> StorageSort \<Rightarrow> unit res \<times> StorageSort" where
  "sort_insert X slot value s =
     (if ss_failed s then (Inl ''storage sorting workspace has failed'', s)
      else let s = s\<lparr>ss_failed := True\<rparr> in
        (case parse_slot X (slot, value) of
           Inl e \<Rightarrow> (Inl e, s)
         | Inr (key, encoded) \<Rightarrow>
             let fault = (case ss_faults s of [] \<Rightarrow> None | f # _ \<Rightarrow> f);
                 s = s\<lparr>ss_faults := tl (ss_faults s)\<rparr> in
             if fault \<noteq> None then (Inl (the fault), s)
             else if map_of (ss_table s) key \<noteq> None then (Inl ''duplicate nonzero storage slot'', s)
             else (Inr (), s\<lparr>ss_table := bt_insert key encoded (ss_table s),
                   ss_count := ss_count s + 1, ss_failed := False\<rparr>)))"

fun read_staged :: "(bytes \<times> bytes) list \<Rightarrow> bytes option \<Rightarrow> (bytes \<times> bytes) list \<Rightarrow> u64 \<Rightarrow> ((bytes \<times> bytes) list \<times> u64) res" where
  "read_staged [] previous leaves observed = Inr (leaves, observed)"
| "read_staged ((key, value) # rest) previous leaves observed =
     ensure (length key = 32) ''invalid staged storage key''
     (ensure (case previous of None \<Rightarrow> True | Some p \<Rightarrow> p < key) ''unordered or duplicate staged storage key''
       (read_staged rest (Some key) (leaves @ [(key, value)]) (observed + 1)))"

definition sort_finish :: "'x evmlib_scheme \<Rightarrow> StorageSort \<Rightarrow> (bytes \<times> u64) res" where
  "sort_finish X s =
     ensure (\<not> ss_failed s) ''storage sorting workspace has failed''
     (bnd (read_staged (ss_table s) None [] 0) (\<lambda>(leaves, observed).
     ensure (observed = ss_count s) ''staged storage count changed''
       (Inr (trie_root X leaves, observed))))"

fun insert_slots :: "'x evmlib_scheme \<Rightarrow> (string \<times> string) res list \<Rightarrow> StorageSort \<Rightarrow> unit res \<times> StorageSort" where
  "insert_slots X [] s = (Inr (), s)"
| "insert_slots X (Inl e # ps) s = (Inl e, s)"
| "insert_slots X (Inr (slot, value) # ps) s =
     (case sort_insert X slot value s of
        (Inl e, s') \<Rightarrow> (Inl e, s')
      | (Inr _, s') \<Rightarrow> insert_slots X ps s')"

definition storage_root :: "'x evmlib_scheme \<Rightarrow> string option list \<Rightarrow> (string \<times> string) res list \<Rightarrow> (bytes \<times> u64) res" where
  "storage_root X faults slots =
     (case insert_slots X slots (sort_new faults) of
        (Inl e, _) \<Rightarrow> Inl e
      | (Inr _, s) \<Rightarrow> sort_finish X s)"

definition verify_complete :: "'x evmlib_scheme \<Rightarrow> string option list \<Rightarrow> Account \<Rightarrow> (string \<times> string) res list \<Rightarrow> string \<Rightarrow> json \<Rightarrow> u64 res" where
  "verify_complete X faults account slots code metadata =
     bnd (verify_metadata X account code metadata) (\<lambda>_.
     bnd (storage_root X faults slots) (\<lambda>(root, n).
     ensure (root = ac_storage_root account)
       ''storage root mismatch: incomplete, stale or incorrect account storage'' (Inr n)))"

section \<open>The staged table\<close>

lemma read_staged_sorted:
  assumes "bt_ok t" "\<forall>k \<in> fst ` set t. length k = 32" "case p of None \<Rightarrow> True | Some q \<Rightarrow> \<forall>k \<in> fst ` set t. q < k"
  shows "read_staged t p leaves n = Inr (leaves @ t, n + of_nat (length t))"
  using assms
proof (induction t p leaves n rule: read_staged.induct)
  case (2 key v rest p leaves n)
  then show ?case by (auto split: option.splits)
qed simp

lemma read_staged_keys:
  "read_staged t p leaves n = Inr r \<Longrightarrow> \<forall>k \<in> fst ` set t. length k = 32"
  by (induction t p leaves n rule: read_staged.induct) (auto simp: res_simps)

lemma fold_bt_insert_sorted:
  assumes "distinct (map fst kvs)"
  shows "fold (\<lambda>x. bt_insert (fst x) (snd x)) kvs [] = sort_key fst kvs"
proof -
  let ?t = "fold (\<lambda>x. bt_insert (fst x) (snd x)) kvs []"
  have ok: "bt_ok ?t" by (rule bt_ok_fold_insert) simp
  have d: "distinct (map fst ?t)" by (rule bt_ok_distinct [OF ok])
  have m: "map_of ?t = map_of kvs"
  proof
    fix k
    show "map_of ?t k = map_of kvs k"
    proof (cases "last_val fst snd kvs k")
      case None
      then have "map_of kvs k = None" by (auto simp: last_val_None_iff map_of_eq_None_iff)
      with None show ?thesis by (simp add: map_of_fold_bt_insert)
    next
      case (Some v)
      then have "map_of kvs k = Some v"
        using assms by (auto dest!: last_val_SomeD)
      with Some show ?thesis by (simp add: map_of_fold_bt_insert)
    qed
  qed
  have "set ?t = set kvs"
    using map_of_inject_set [OF d assms] m by simp
  moreover have "sorted (map fst ?t)" using ok by (simp add: strict_sorted_imp_sorted)
  moreover have "set (sort_key fst kvs) = set kvs" "sorted (map fst (sort_key fst kvs))"
    "distinct (map fst (sort_key fst kvs))"
    using assms by (simp_all add: distinct_map)
  ultimately show ?thesis
    using d by (intro map_sorted_distinct_set_unique [of fst]) (auto simp: distinct_map)
qed

lemma sort_insert_Inr:
  "sort_insert X slot v s = (Inr (), s') \<Longrightarrow> \<exists>k e. parse_slot X (slot, v) = Inr (k, e) \<and>
     map_of (ss_table s) k = None \<and> \<not> ss_failed s \<and> \<not> ss_failed s' \<and>
     ss_table s' = bt_insert k e (ss_table s) \<and> ss_count s' = ss_count s + 1"
  by (auto simp: sort_insert_def Let_def split: if_splits sum.splits)

lemma insert_slots_Inr:
  assumes "insert_slots X ps s = (Inr (), s')" "\<not> ss_failed s"
  shows "\<exists>svs kvs. ps = map Inr svs \<and> map_res (parse_slot X) svs = Inr kvs \<and> distinct (map fst kvs) \<and>
    fst ` set kvs \<inter> fst ` set (ss_table s) = {} \<and>
    ss_table s' = fold (\<lambda>x. bt_insert (fst x) (snd x)) kvs (ss_table s) \<and>
    ss_count s' = ss_count s + of_nat (length kvs) \<and> \<not> ss_failed s'"
  using assms
proof (induction X ps s rule: insert_slots.induct)
  case (1 X s)
  then show ?case by simp
next
  case (3 X slot v ps s)
  then obtain t where t: "sort_insert X slot v s = (Inr (), t)" "insert_slots X ps t = (Inr (), s')"
    by (auto split: prod.splits sum.splits)
  obtain k e where k: "parse_slot X (slot, v) = Inr (k, e)" "map_of (ss_table s) k = None"
    "\<not> ss_failed t" "ss_table t = bt_insert k e (ss_table s)" "ss_count t = ss_count s + 1"
    using sort_insert_Inr [OF t(1)] by blast
  from "3.IH" [OF t(1) [symmetric] refl t(2) k(3)] obtain svs kvs where
    ih: "ps = map Inr svs" "map_res (parse_slot X) svs = Inr kvs" "distinct (map fst kvs)"
      "fst ` set kvs \<inter> fst ` set (ss_table t) = {}"
      "ss_table s' = fold (\<lambda>x. bt_insert (fst x) (snd x)) kvs (ss_table t)"
      "ss_count s' = ss_count t + of_nat (length kvs)" "\<not> ss_failed s'"
    by blast
  have "k \<notin> fst ` set (ss_table s)" using k(2) by (simp add: map_of_eq_None_iff)
  with ih k show ?case
    by (intro exI [of _ "(slot, v) # svs"] exI [of _ "(k, e) # kvs"]) auto
qed simp

lemma insert_slots_ok:
  assumes "map_res (parse_slot X) svs = Inr kvs" "distinct (map fst kvs)"
    "fst ` set kvs \<inter> fst ` set (ss_table s) = {}" "\<not> ss_failed s" "ss_faults s = []"
  shows "\<exists>s'. insert_slots X (map Inr svs) s = (Inr (), s')"
  using assms
proof (induction svs arbitrary: kvs s)
  case (Cons sv svs)
  then obtain k e kvs' where kv: "parse_slot X sv = Inr (k, e)" "map_res (parse_slot X) svs = Inr kvs'"
    "kvs = (k, e) # kvs'"
    by (auto simp: res_simps)
  then have "map_of (ss_table s) k = None" using Cons.prems(3) by (auto simp: map_of_eq_None_iff)
  with kv Cons.prems have "sort_insert X (fst sv) (snd sv) s =
      (Inr (), s\<lparr>ss_table := bt_insert k e (ss_table s), ss_count := ss_count s + 1\<rparr>)"
    by (simp add: sort_insert_def)
  moreover have "\<exists>s'. insert_slots X (map Inr svs)
      (s\<lparr>ss_table := bt_insert k e (ss_table s), ss_count := ss_count s + 1\<rparr>) = (Inr (), s')"
    using Cons.prems kv by (intro Cons.IH [of kvs']) auto
  ultimately show ?case by (cases sv) simp
qed simp

lemma storage_root_Inr:
  assumes "storage_root X faults slots = Inr (root, n)"
  shows "\<exists>svs kvs. slots = map Inr svs \<and> map_res (parse_slot X) svs = Inr kvs \<and> distinct (map fst kvs) \<and>
    root = trie_root X (sort_key fst kvs) \<and> n = of_nat (length kvs)"
proof -
  obtain s where s: "insert_slots X slots (sort_new faults) = (Inr (), s)" "sort_finish X s = Inr (root, n)"
    using assms by (auto simp: storage_root_def split: prod.splits sum.splits)
  obtain svs kvs where kvs: "slots = map Inr svs" "map_res (parse_slot X) svs = Inr kvs" "distinct (map fst kvs)"
    "ss_table s = fold (\<lambda>x. bt_insert (fst x) (snd x)) kvs []" "ss_count s = of_nat (length kvs)"
    using insert_slots_Inr [OF s(1)] by (auto simp: sort_new_def)
  obtain r where r: "read_staged (ss_table s) None [] 0 = Inr r" "root = trie_root X (fst r)" "n = snd r"
    using s(2) by (auto simp: sort_finish_def res_simps)
  have t: "ss_table s = sort_key fst kvs" using kvs(3,4) by (simp add: fold_bt_insert_sorted)
  have "bt_ok (ss_table s)" unfolding kvs(4) by (rule bt_ok_fold_insert) simp
  with read_staged_keys [OF r(1)] r(1) have "r = (ss_table s, of_nat (length (ss_table s)))"
    by (simp add: read_staged_sorted)
  with t kvs r show ?thesis by auto
qed

section \<open>Contracts of the cryptographic crates\<close>

text \<open>
  Collision freedom as the proofs use it: hashed slots of 32 bytes, sorted leaf lists with
  distinct keys.
\<close>

locale storage_commitment =
  fixes hash :: "bytes \<Rightarrow> bytes" and root :: "(bytes \<times> bytes) list \<Rightarrow> bytes"
  assumes hash_length: "length (hash b) = 32"
    and hash_inject: "length a = 32 \<Longrightarrow> length b = 32 \<Longrightarrow> hash a = hash b \<Longrightarrow> a = b"
    and root_inject: "sorted (map fst xs) \<Longrightarrow> distinct (map fst xs) \<Longrightarrow> sorted (map fst ys) \<Longrightarrow>
      distinct (map fst ys) \<Longrightarrow> \<forall>(k, v) \<in> set xs \<union> set ys. length k = 32 \<and> length v \<le> 41 \<Longrightarrow>
      root xs = root ys \<Longrightarrow> xs = ys"
begin

lemma root_sort_inject:
  assumes "distinct (map fst xs)" "distinct (map fst ys)"
    "\<forall>(k, v) \<in> set xs \<union> set ys. length k = 32 \<and> length v \<le> 41"
    "root (sort_key fst xs) = root (sort_key fst ys)"
  shows "set xs = set ys"
proof -
  have "sort_key fst xs = sort_key fst ys"
    using assms by (intro root_inject) (auto simp: distinct_map)
  then show ?thesis by (metis set_sort)
qed

end

locale u256_text =
  fixes parse :: "string \<Rightarrow> nat \<Rightarrow> nat option"
  assumes parse_dec: "s \<noteq> [] \<Longrightarrow> list_all is_digit s \<Longrightarrow>
    parse s 10 = (if dec_val s < 2 ^ 256 then Some (dec_val s) else None)"
begin

lemma parse_exact:
  assumes "exact_decimal s" "n < 2 ^ 256"
  shows "parse s 10 = Some n \<longleftrightarrow> s = show_nat n"
proof -
  have c: "canonical_dec s" using assms(1)
    by (cases s) (auto simp: exact_decimal_def canonical_dec_def is_digit_def less_eq_char_def)
  then have "s \<noteq> []" "list_all is_digit s" by (simp_all add: canonical_dec_def)
  with parse_dec [OF this] assms(2) show_dec_val [OF c] show ?thesis by auto
qed

end

lemma exact_decimal_show: "exact_decimal (show_nat n)"
  using canonical_show_nat [of n] by (cases "show_nat n") (auto simp: exact_decimal_def canonical_dec_def)

section \<open>Complete storage\<close>

text \<open>
  Without I/O faults, the storage root of a stream of slots is computed exactly when every
  element of the stream is a pair of 32-byte words with a nonzero value and no two have the same
  hashed key; the root is then that of the leaves sorted by hashed key, and the count their number.
\<close>

lemma storage_root_exact:
  assumes "\<forall>b. length (keccak256 X b) = 32"
  shows "storage_root X [] slots = Inr (root, n) \<longleftrightarrow>
    (\<exists>svs kvs. slots = map Inr svs \<and> map_res (parse_slot X) svs = Inr kvs \<and> distinct (map fst kvs) \<and>
      root = trie_root X (sort_key fst kvs) \<and> n = of_nat (length kvs))" (is "?l \<longleftrightarrow> ?r")
proof
  assume ?l
  then show ?r by (rule storage_root_Inr)
next
  assume ?r
  then obtain svs kvs where kvs: "slots = map Inr svs" "map_res (parse_slot X) svs = Inr kvs"
    "distinct (map fst kvs)" "root = trie_root X (sort_key fst kvs)" "n = of_nat (length kvs)"
    by blast
  obtain s where s: "insert_slots X slots (sort_new []) = (Inr (), s)"
    using insert_slots_ok [OF kvs(2,3), of "sort_new []"] kvs(1) by (auto simp: sort_new_def)
  obtain svs' kvs' where t: "slots = map Inr svs'" "map_res (parse_slot X) svs' = Inr kvs'"
    "ss_table s = fold (\<lambda>x. bt_insert (fst x) (snd x)) kvs' []" "ss_count s = of_nat (length kvs')"
    "\<not> ss_failed s"
    using insert_slots_Inr [OF s] by (auto simp: sort_new_def)
  from t(1) kvs(1) have "svs' = svs" by (auto dest: map_injective simp: inj_def)
  with t(2) kvs(2) have "kvs' = kvs" by simp
  with t kvs have tab: "ss_table s = sort_key fst kvs" "ss_count s = n"
    by (simp_all add: fold_bt_insert_sorted)
  have ok: "bt_ok (ss_table s)" unfolding t(3) by (rule bt_ok_fold_insert) simp
  have "\<forall>k \<in> fst ` set (ss_table s). length k = 32"
    unfolding tab using assms map_res_set [OF kvs(2)] by (auto simp: parse_slot_def res_simps)
  with ok have "read_staged (ss_table s) None [] 0 = Inr (ss_table s, n)"
    by (simp add: read_staged_sorted tab kvs(5))
  then have "sort_finish X s = Inr (root, n)"
    using t(5) tab(2) by (simp add: sort_finish_def tab(1) kvs(4))
  with s show ?l by (simp add: storage_root_def)
qed

definition decode_slot :: "'x hexlib_scheme \<Rightarrow> string \<times> string \<Rightarrow> (bytes \<times> nat) res" where
  "decode_slot X sv = bnd (fixed X 32 (fst sv)) (\<lambda>slot. bnd (fixed X 32 (snd sv)) (\<lambda>v. Inr (slot, be_val v)))"

definition leaf :: "'x evmlib_scheme \<Rightarrow> bytes \<times> nat \<Rightarrow> bytes \<times> bytes" where
  "leaf X e = (keccak256 X (fst e), rlp_uint X (snd e))"

definition rlp_ok :: "'x evmlib_scheme \<Rightarrow> bool" where
  "rlp_ok X \<longleftrightarrow> rlp_codec (rlp_uint X) (rlp_bytes X) (rlp_list_header X) (rlp_decode X)"

lemma rlp_uint_small:
  assumes "rlp_ok X" "n < 2 ^ 256"
  shows "length (rlp_uint X n) \<le> 41"
proof -
  have c: "rlp_codec (rlp_uint X) (rlp_bytes X) (rlp_list_header X) (rlp_decode X)"
    using assms(1) by (simp add: rlp_ok_def)
  have "length (be_bytes n) \<le> 32" using assms(2) by (intro length_be_bytes_le) simp
  with rlp_codec.enc_length [OF c, of "be_bytes n"] show ?thesis
    by (simp add: rlp_codec.enc_uint [OF c])
qed

lemma rlp_uint_inject:
  assumes "rlp_ok X" "m < 2 ^ 256" "n < 2 ^ 256" "rlp_uint X m = rlp_uint X n"
  shows "m = n"
proof -
  have c: "rlp_codec (rlp_uint X) (rlp_bytes X) (rlp_list_header X) (rlp_decode X)"
    using assms(1) by (simp add: rlp_ok_def)
  have "length (be_bytes m) \<le> 32" "length (be_bytes n) \<le> 32"
    using assms(2,3) by (auto intro!: length_be_bytes_le)
  with rlp_codec.enc_bytes_inject [OF c, of "be_bytes m" "be_bytes n"] assms(4) show ?thesis
    by (simp add: rlp_codec.enc_uint [OF c])
qed

lemma fixed_length: "fixed X n s = Inr b \<Longrightarrow> length b = n"
  by (auto simp: fixed_def res_simps)

lemma be_val_word: "length b = 32 \<Longrightarrow> be_val b < 2 ^ 256"
  using be_val_lt [of b] by simp

lemma parse_slot_leaf:
  "parse_slot X sv = Inr kv \<longleftrightarrow> (\<exists>e. decode_slot X sv = Inr e \<and> snd e \<noteq> 0 \<and> kv = leaf X e)"
  by (auto simp: parse_slot_def decode_slot_def leaf_def res_simps)

lemma decode_slot_bounds:
  assumes "decode_slot X sv = Inr e"
  shows "length (fst e) = 32 \<and> snd e < 2 ^ 256"
proof -
  obtain a b where "fixed X 32 (fst sv) = Inr a" "fixed X 32 (snd sv) = Inr b" "e = (a, be_val b)"
    using assms by (auto simp: decode_slot_def res_simps)
  with fixed_length [of X 32 "fst sv" a] fixed_length [of X 32 "snd sv" b] be_val_word [of b]
  show ?thesis by simp
qed

lemma map_res_leaf:
  "map_res (parse_slot X) svs = Inr kvs \<Longrightarrow>
     \<exists>es. map_res (decode_slot X) svs = Inr es \<and> kvs = map (leaf X) es \<and> (\<forall>e \<in> set es. snd e \<noteq> 0)"
proof (induction svs arbitrary: kvs)
  case (Cons sv svs)
  then obtain kv kvs' where kv: "parse_slot X sv = Inr kv" "map_res (parse_slot X) svs = Inr kvs'" "kvs = kv # kvs'"
    by (auto simp: res_simps)
  from Cons.IH [OF kv(2)] kv(1,3) show ?case by (auto simp: parse_slot_leaf)
qed simp

lemma verify_complete_exact:
  assumes "rlp_ok X" "storage_commitment (keccak256 X) (trie_root X)"
    and "\<forall>e \<in> set truth. length (fst e) = 32 \<and> snd e < 2 ^ 256"
    and "distinct (map fst truth)"
    and "ac_storage_root account = trie_root X (sort_key fst (map (leaf X) truth))"
    and "verify_complete X faults account slots code metadata = Inr n"
  shows "\<exists>svs es. slots = map Inr svs \<and> map_res (decode_slot X) svs = Inr es \<and>
    distinct (map fst es) \<and> set es = set truth \<and> n = of_nat (length es)"
proof -
  note com = assms(2)
  obtain svs kvs where kvs: "slots = map Inr svs" "map_res (parse_slot X) svs = Inr kvs" "distinct (map fst kvs)"
    "trie_root X (sort_key fst kvs) = ac_storage_root account" "n = of_nat (length kvs)"
    using assms(6) by (auto simp: verify_complete_def res_simps dest!: storage_root_Inr)
  obtain es where es: "map_res (decode_slot X) svs = Inr es" "kvs = map (leaf X) es"
    using map_res_leaf [OF kvs(2)] by blast
  have b: "\<forall>e \<in> set es. length (fst e) = 32 \<and> snd e < 2 ^ 256"
    using map_res_set [OF es(1)] decode_slot_bounds by blast
  have small: "\<forall>(k, v) \<in> set kvs \<union> set (map (leaf X) truth). length k = 32 \<and> length v \<le> 41"
    using b assms(3) storage_commitment.hash_length [OF com] rlp_uint_small [OF assms(1)]
    by (auto simp: es(2) leaf_def simp del: power_numeral)
  have inj: "leaf X a = leaf X b \<Longrightarrow> a = b" if "a \<in> set es \<union> set truth" "b \<in> set es \<union> set truth" for a b
    using that b assms(3) storage_commitment.hash_inject [OF com] rlp_uint_inject [OF assms(1)]
    by (auto simp: leaf_def prod_eq_iff simp del: power_numeral)
  have keys: "distinct (map fst (map (leaf X) truth))"
    using assms(3,4) storage_commitment.hash_inject [OF com]
    by (auto simp: distinct_map inj_on_def leaf_def)
  have "set kvs = set (map (leaf X) truth)"
    by (rule storage_commitment.root_sort_inject [OF com kvs(3) keys small]) (simp add: kvs(4) assms(5))
  then have "leaf X ` set es = leaf X ` set truth" by (simp add: es(2))
  moreover have "inj_on (leaf X) (set es \<union> set truth)" by (rule inj_onI) (rule inj)
  ultimately have "set es = set truth" by (auto dest: inj_on_image_eq_iff)
  moreover have "distinct (map fst es)"
    using kvs(3) by (auto simp: es(2) distinct_map inj_on_def leaf_def)
  ultimately show ?thesis using kvs es by auto
qed

text \<open>
  If verification of an account's complete state succeeds, and the account's proven storage
  root is the root of its true storage (the nonzero slots), then every element of the stream is a
  slot, no slot occurs twice, the decoded slots are exactly the true storage with its values, and
  the returned count is their number.
\<close>

lemma verify_complete_sound:
  assumes "rlp_ok X" "storage_commitment (keccak256 X) (trie_root X)"
    and "\<forall>e \<in> set truth. length (fst e) = 32 \<and> snd e < 2 ^ 256"
    and "distinct (map fst truth)"
    and "ac_storage_root account = trie_root X (sort_key fst (map (leaf X) truth))"
    and "verify_complete X faults account slots code metadata = Inr n"
  shows "\<exists>svs es. slots = map Inr svs \<and> map_res (decode_slot X) svs = Inr es \<and>
    distinct (map fst es) \<and> set es = set truth \<and> n = of_nat (length es)"
  by (rule verify_complete_exact [OF assms])

text \<open>
  Metadata is accepted exactly when its nonce is the proven nonce, its balance is the decimal
  text of the proven balance without superfluous digits, its code hash is the proven one and the
  supplied bytecode hashes to it.
\<close>

lemma verify_metadata_iff:
  assumes "u256_text (u256_from_str_radix X)" "ac_balance account < 2 ^ 256"
  shows "verify_metadata X account code metadata = Inr () \<longleftrightarrow>
    Option.bind (get metadata ''nonce'') as_u64 = Some (ac_nonce account) \<and>
    get metadata ''balance'' = Some (JStr (show_nat (ac_balance account))) \<and>
    (\<exists>h. get metadata ''code_hash'' = Some (JStr h) \<and> fixed X 32 h = Inr (ac_code_hash account)) \<and>
    (\<exists>b. unhex X code = Inr b \<and> keccak256 X b = ac_code_hash account)"
proof -
  have "exact_decimal b \<and> u256_from_str_radix X b 10 = Some (ac_balance account) \<longleftrightarrow>
      b = show_nat (ac_balance account)" for b
    using u256_text.parse_exact [OF assms(1) _ assms(2)] exact_decimal_show by blast
  note bal = this
  have "verify_metadata X account code metadata = Inr () \<longleftrightarrow>
    (\<exists>b. Option.bind (get metadata ''nonce'') as_u64 = Some (ac_nonce account) \<and>
      get metadata ''balance'' = Some (JStr b) \<and>
      (exact_decimal b \<and> u256_from_str_radix X b 10 = Some (ac_balance account)) \<and>
      (\<exists>h. get metadata ''code_hash'' = Some (JStr h) \<and> fixed X 32 h = Inr (ac_code_hash account)) \<and>
      (\<exists>b. unhex X code = Inr b \<and> keccak256 X b = ac_code_hash account))"
    unfolding verify_metadata_def bnd_Inr_iff ensure_Inr_iff context_res_Inr_iff string_field_Inr
    by (cases "Option.bind (get metadata ''nonce'') as_u64 = Some (ac_nonce account)")
      (auto split: if_splits simp: bnd_Inr_iff context_res_Inr_iff)
  then show ?thesis unfolding bal by blast
qed

section \<open>Account proofs\<close>

text \<open>
  What a Merkle-Patricia proof establishes: under one root a key has one value, present or absent.
\<close>

definition proofs_unique :: "'x evmlib_scheme \<Rightarrow> bool" where
  "proofs_unique X \<longleftrightarrow> (\<forall>r k v v' ns ns'. verify_proof X r k v ns \<and> verify_proof X r k v' ns' \<longrightarrow> v = v')"

lemma account_rlp_inject:
  assumes "rlp_ok X" "n < 2 ^ 64" "n' < 2 ^ 64" "b < 2 ^ 256" "b' < 2 ^ 256"
    "length s = 32" "length s' = 32" "length h = 32" "length h' = 32"
    "account_rlp X n b s h = account_rlp X n' b' s' h'"
  shows "n = n' \<and> b = b' \<and> s = s' \<and> h = h'"
proof -
  have c: "rlp_codec (rlp_uint X) (rlp_bytes X) (rlp_list_header X) (rlp_decode X)"
    using assms(1) by (simp add: rlp_ok_def)
  have flat: "account_rlp X n b s h = rlp_list_header X (length p) @ p"
    if "p = concat (map (rlp_bytes X) [be_bytes n, be_bytes b, s, h])" for n b s h p
    using that by (simp add: account_rlp_def rlp_list_def rlp_codec.enc_uint [OF c])
  have len: "length (be_bytes n) \<le> 32" if "n < 2 ^ 256" for n
    using that by (intro length_be_bytes_le) simp
  have lens: "\<forall>x \<in> set [be_bytes n, be_bytes b, s, h]. length x \<le> 32"
    if "n < 2 ^ 64" "b < 2 ^ 256" "length s = 32" "length h = 32" for n b :: nat and s h :: bytes
    using that len [of n] len [of b] by auto
  have total: "length (concat (map (rlp_bytes X) xs)) \<le> 41 * length xs"
    if "\<forall>x \<in> set xs. length x \<le> 32" for xs :: "bytes list"
    using that
  proof (induction xs)
    case (Cons x xs)
    then have "length (rlp_bytes X x) \<le> length x + 9" by (intro rlp_codec.enc_length [OF c]) auto
    with Cons show ?case by fastforce
  qed simp
  let ?xs = "[be_bytes n, be_bytes b, s, h]" and ?ys = "[be_bytes n', be_bytes b', s', h']"
  have lx: "\<forall>x \<in> set ?xs. length x \<le> 32" using assms(2,4,6,8) by (intro lens)
  have ly: "\<forall>x \<in> set ?ys. length x \<le> 32" using assms(3,5,7,9) by (intro lens)
  let ?p = "concat (map (rlp_bytes X) ?xs)" and ?q = "concat (map (rlp_bytes X) ?ys)"
  have p: "length ?p < usize_max" by (rule order_le_less_trans [OF total [OF lx]]) simp
  have q: "length ?q < usize_max" by (rule order_le_less_trans [OF total [OF ly]]) simp
  have "rlp_list_header X (length ?p) @ ?p = rlp_list_header X (length ?q) @ ?q"
    using assms(10) by (simp only: flat [OF refl])
  then have "?p = ?q" by (rule rlp_codec.list_inject [OF c _ p q])
  then have "?xs = ?ys"
    using lx ly by (intro rlp_codec.items_inject [OF c]) auto
  then show ?thesis by simp
qed

lemma quantity_bound: "quantity X s bits = Inr n \<Longrightarrow> n < 2 ^ bits"
  by (auto simp: quantity_def res_simps)

lemma verify_account_Inr:
  assumes "verify_account X state_root selected p = Inr a"
  shows "\<exists>root raw nodes. fixed X 32 state_root = Inr root \<and> address X selected = Inr (ac_address a) \<and>
    fixed X 20 (ac_address a) = Inr raw \<and> ac_balance a < 2 ^ 256 \<and>
    length (ac_storage_root a) = 32 \<and> length (ac_code_hash a) = 32 \<and>
    (if ac_exists a
     then verify_proof X root (keccak256 X raw)
       (Some (account_rlp X (unat (ac_nonce a)) (ac_balance a) (ac_storage_root a) (ac_code_hash a))) nodes
     else verify_proof X root (keccak256 X raw) None nodes \<and> ac_nonce a = 0 \<and> ac_balance a = 0 \<and>
       ac_storage_root a = EMPTY_ROOT_HASH X \<and> ac_code_hash a = keccak256 X [])"
proof -
  obtain root addr nonce balance sr ch nodes raw where
    v: "fixed X 32 state_root = Inr root" "address X selected = Inr addr" "nonce < 2 ^ 64"
      "balance < 2 ^ 256" "length sr = 32" "length ch = 32" "fixed X 20 addr = Inr raw"
    and r: "(if verify_proof X root (keccak256 X raw) (Some (account_rlp X nonce balance sr ch)) nodes
       then Inr \<lparr>ac_address = addr, ac_exists = True, ac_nonce = of_nat nonce, ac_balance = balance,
         ac_storage_root = sr, ac_code_hash = ch\<rparr>
       else ensure (verify_proof X root (keccak256 X raw) None nodes) ''invalid or incomplete account proof''
         (ensure (nonce = 0 \<and> balance = 0 \<and> sr = EMPTY_ROOT_HASH X \<and> ch = keccak256 X [])
           ''RPC account metadata does not match proven absence''
           (Inr \<lparr>ac_address = addr, ac_exists = False, ac_nonce = of_nat nonce, ac_balance = balance,
             ac_storage_root = sr, ac_code_hash = ch\<rparr>))) = Inr a"
    using assms unfolding verify_account_def bnd_Inr_iff Let_def
    by (elim exE conjE) (blast dest: quantity_bound fixed_length)
  have "unat (of_nat nonce :: u64) = nonce" using v(3) by (simp add: unat_of_nat)
  with v r show ?thesis
    by (intro exI [of _ root] exI [of _ raw] exI [of _ nodes]) (auto simp: res_simps split: if_splits)
qed

text \<open>
  C14: the fields an RPC server reports have no authority of their own: two responses that pass
  verification for one state root and account, with whatever proof nodes and fields, give the same
  account.
\<close>

theorem verify_account_unique:
  assumes "rlp_ok X" "proofs_unique X"
    and "verify_account X state_root selected p = Inr a"
    and "verify_account X state_root selected q = Inr b"
  shows "a = b"
proof -
  obtain root raw nodes where a: "fixed X 32 state_root = Inr root" "address X selected = Inr (ac_address a)"
    "fixed X 20 (ac_address a) = Inr raw" "ac_balance a < 2 ^ 256"
    "length (ac_storage_root a) = 32" "length (ac_code_hash a) = 32"
    "if ac_exists a
     then verify_proof X root (keccak256 X raw)
       (Some (account_rlp X (unat (ac_nonce a)) (ac_balance a) (ac_storage_root a) (ac_code_hash a))) nodes
     else verify_proof X root (keccak256 X raw) None nodes \<and> ac_nonce a = 0 \<and> ac_balance a = 0 \<and>
       ac_storage_root a = EMPTY_ROOT_HASH X \<and> ac_code_hash a = keccak256 X []"
    using verify_account_Inr [OF assms(3)] by blast
  obtain nodes' where b: "address X selected = Inr (ac_address b)" "ac_balance b < 2 ^ 256"
    "length (ac_storage_root b) = 32" "length (ac_code_hash b) = 32"
    "if ac_exists b
     then verify_proof X root (keccak256 X raw)
       (Some (account_rlp X (unat (ac_nonce b)) (ac_balance b) (ac_storage_root b) (ac_code_hash b))) nodes'
     else verify_proof X root (keccak256 X raw) None nodes' \<and> ac_nonce b = 0 \<and> ac_balance b = 0 \<and>
       ac_storage_root b = EMPTY_ROOT_HASH X \<and> ac_code_hash b = keccak256 X []"
    using verify_account_Inr [OF assms(4)] a(1-3) by force
  have addr: "ac_address a = ac_address b" using a(2) b(1) by simp
  have uniq: "v = v'" if "verify_proof X root (keccak256 X raw) v nodes" "verify_proof X root (keccak256 X raw) v' nodes'" for v v'
    using assms(2) that unfolding proofs_unique_def by blast
  have ex: "ac_exists a = ac_exists b"
    using a(7) b(5) uniq by (auto split: if_splits)
  show ?thesis
  proof (cases "ac_exists a")
    case True
    have enc: "account_rlp X (unat (ac_nonce a)) (ac_balance a) (ac_storage_root a) (ac_code_hash a) =
        account_rlp X (unat (ac_nonce b)) (ac_balance b) (ac_storage_root b) (ac_code_hash b)"
      using a(7) b(5) ex True uniq by auto
    have "unat (ac_nonce a) = unat (ac_nonce b) \<and> ac_balance a = ac_balance b \<and>
        ac_storage_root a = ac_storage_root b \<and> ac_code_hash a = ac_code_hash b"
      by (rule account_rlp_inject [OF assms(1) u64_bound u64_bound a(4) b(2) a(5) b(3) a(6) b(4) enc])
    with addr ex show ?thesis by (simp add: word_unat_eq_iff)
  next
    case False
    with a(7) b(5) ex addr show ?thesis by simp
  qed
qed

section \<open>A concrete library\<close>

text \<open>
  Functions that satisfy the contracts above, for closed examples: the RLP and hexadecimal codecs
  of their definitions, a padded copy in place of a hash and a self-delimiting list of leaves in
  place of a trie root.
\<close>

definition hex_val :: "string \<Rightarrow> nat" where
  "hex_val s = foldl (\<lambda>n c. 16 * n + (case ref_nibble c of Some d \<Rightarrow> d | None \<Rightarrow> 0)) 0 s"

definition ref_u256 :: "string \<Rightarrow> nat \<Rightarrow> nat option" where
  "ref_u256 s r = (let n = (if r = 10 then dec_val s else hex_val s) in if n < 2 ^ 256 then Some n else None)"

definition ref_hash :: "bytes \<Rightarrow> bytes" where
  "ref_hash b = take 32 (b @ replicate 32 0)"

definition ref_root :: "(bytes \<times> bytes) list \<Rightarrow> bytes" where
  "ref_root ls = concat (map ref_rlp_bytes (concat (map (\<lambda>(k, v). [k, v]) ls)))"

definition ex_leaf :: bytes where
  "ex_leaf = (let items = map ref_rlp_bytes [be_bytes 1, be_bytes 2, replicate 32 9, replicate 32 0] in
     ref_rlp_header 192 (sum_list (map length items)) @ concat items)"

definition ex_evm :: evmlib where
  "ex_evm = \<lparr>hex_encode = ref_encode, hex_decode = ref_decode, keccak256 = ref_hash,
     u256_from_str_radix = ref_u256, u256_to_string = show_nat,
     b256_lower_hex = (\<lambda>b. ''0x'' @ ref_encode b),
     rlp_uint = (\<lambda>n. ref_rlp_bytes (be_bytes n)), rlp_bytes = ref_rlp_bytes,
     rlp_list_header = ref_rlp_header 192, rlp_decode = ref_rlp_decode,
     verify_proof = (\<lambda>r k v ns. v = Some ex_leaf), EMPTY_ROOT_HASH = replicate 32 9,
     trie_root = ref_root\<rparr>"

lemma ex_evm_simps:
  "hex_encode ex_evm = ref_encode" "hex_decode ex_evm = ref_decode" "keccak256 ex_evm = ref_hash"
  "u256_from_str_radix ex_evm = ref_u256" "rlp_uint ex_evm n = ref_rlp_bytes (be_bytes n)"
  "rlp_bytes ex_evm = ref_rlp_bytes" "rlp_list_header ex_evm = ref_rlp_header 192"
  "rlp_decode ex_evm = ref_rlp_decode" "verify_proof ex_evm r k v ns \<longleftrightarrow> v = Some ex_leaf"
  "EMPTY_ROOT_HASH ex_evm = replicate 32 9" "trie_root ex_evm = ref_root"
  by (simp_all add: ex_evm_def)

lemma ex_evm_rlp: "rlp_ok ex_evm"
  using ref_rlp.rlp_codec_axioms by (simp add: rlp_ok_def ex_evm_def)

lemma ex_evm_hex: "hex_ok ex_evm"
  using ref_codec.hex_codec_axioms by (simp add: ex_evm_def)

lemma ex_evm_unique: "proofs_unique ex_evm"
  by (simp add: proofs_unique_def ex_evm_simps)

interpretation ref_u256: u256_text ref_u256
  by unfold_locales (simp add: ref_u256_def)

lemma length_ref_hash [simp]: "length (ref_hash b) = 32"
  by (simp add: ref_hash_def)

lemma ref_hash_word: "length b = 32 \<Longrightarrow> ref_hash b = b"
  by (simp add: ref_hash_def)

lemma pair_flat_inject:
  "concat (map (\<lambda>(k, v). [k, v]) xs) = concat (map (\<lambda>(k, v). [k, v]) ys) \<Longrightarrow> xs = ys"
  by (induction xs ys rule: list_induct2') auto

interpretation ref_storage: storage_commitment ref_hash ref_root
proof
  show "length (ref_hash b) = 32" for b by simp
  show "a = b" if "length a = 32" "length b = 32" "ref_hash a = ref_hash b" for a b
    using that by (simp add: ref_hash_word)
  show "xs = ys"
    if b: "\<forall>(k, v) \<in> set xs \<union> set ys. length k = 32 \<and> length v \<le> 41" and r: "ref_root xs = ref_root ys" for xs ys
  proof (rule pair_flat_inject, rule ref_rlp.items_inject)
    show "concat (map ref_rlp_bytes (concat (map (\<lambda>(k, v). [k, v]) xs))) =
        concat (map ref_rlp_bytes (concat (map (\<lambda>(k, v). [k, v]) ys)))"
      using r by (simp add: ref_root_def)
    have short: "\<forall>x \<in> set (concat (map (\<lambda>(k, v). [k, v]) zs)). length x < usize_max"
      if "set zs \<subseteq> set xs \<union> set ys" for zs
    proof
      fix x assume "x \<in> set (concat (map (\<lambda>(k, v). [k, v]) zs))"
      then obtain k v where "(k, v) \<in> set zs" "x = k \<or> x = v" by auto
      moreover from this that have "(k, v) \<in> set xs \<union> set ys" by blast
      with b have "length k = 32 \<and> length v \<le> 41" by blast
      ultimately have "length x \<le> 41" by auto
      then show "length x < usize_max" by simp
    qed
    show "\<forall>x \<in> set (concat (map (\<lambda>(k, v). [k, v]) xs)). length x < usize_max" by (rule short) simp
    show "\<forall>y \<in> set (concat (map (\<lambda>(k, v). [k, v]) ys)). length y < usize_max" by (rule short) simp
  qed
qed

lemma ex_evm_commitment: "storage_commitment (keccak256 ex_evm) (trie_root ex_evm)"
  using ref_storage.storage_commitment_axioms by (simp add: ex_evm_simps)

definition hex32 :: "byte \<Rightarrow> string" where
  "hex32 b = ''0x'' @ ref_encode (replicate 32 b)"

lemma ex_fixed32: "fixed ex_evm 32 (hex32 b) = Inr (replicate 32 b)"
  using fixed_enc [OF ex_evm_hex, of "replicate 32 b" 32] by (simp add: hex32_def ex_evm_simps)

lemma be_val_zeros: "be_val (replicate n 0) = 0"
  by (induction n) simp_all

lemma ex_word_nonzero: "b \<noteq> 0 \<Longrightarrow> be_val (replicate 32 b) \<noteq> 0"
  using be_val_pos [of "replicate 32 b"] by (simp add: trimmed_def)

lemma ex_parse_slot:
  "b \<noteq> 0 \<Longrightarrow> parse_slot ex_evm (hex32 a, hex32 b) =
     Inr (replicate 32 a, ref_rlp_bytes (be_bytes (be_val (replicate 32 b))))"
  using ex_word_nonzero [of b] by (simp add: parse_slot_def ex_fixed32 ex_evm_simps ref_hash_word)

lemma ex_decode_slot:
  "decode_slot ex_evm (hex32 a, hex32 b) = Inr (replicate 32 a, be_val (replicate 32 b))"
  by (simp add: decode_slot_def ex_fixed32)

lemma replicate_less: "a < b \<Longrightarrow> 0 < n \<Longrightarrow> replicate n a < replicate n b" for a b :: byte
  by (cases n) simp_all

definition ex_account :: Account where
  "ex_account = \<lparr>ac_address = ''0x'' @ ref_encode (replicate 20 4), ac_exists = True, ac_nonce = 1,
     ac_balance = 2, ac_storage_root = ref_root [(replicate 32 7, ref_rlp_bytes (be_bytes (be_val (replicate 32 1))))],
     ac_code_hash = replicate 32 5\<rparr>"

definition ex_metadata :: json where
  "ex_metadata = jobj [(''nonce'', jnum 1), (''balance'', JStr (show_nat 2)), (''code_hash'', JStr (hex32 5))]"

lemma ex_metadata_get:
  "get ex_metadata ''nonce'' = Some (jnum 1)" "get ex_metadata ''balance'' = Some (JStr (show_nat 2))"
  "get ex_metadata ''code_hash'' = Some (JStr (hex32 5))"
  by (simp_all add: ex_metadata_def get_jobj)

lemma ex_unhex: "unhex ex_evm (hex32 5) = Inr (replicate 32 5)"
  using unhex_enc [OF ex_evm_hex, of "replicate 32 5"] by (simp add: hex32_def ex_evm_simps)

lemma ex_u256: "u256_text (u256_from_str_radix ex_evm)"
  using ref_u256.u256_text_axioms by (simp add: ex_evm_simps)

lemma ex_metadata_ok: "verify_metadata ex_evm ex_account (hex32 5) ex_metadata = Inr ()"
proof -
  have "u256_from_str_radix ex_evm (show_nat 2) 10 = Some 2"
    by (simp add: ex_evm_simps ref_u256_def)
  then show ?thesis
    by (simp add: verify_metadata_def string_field_def ex_metadata_get ex_account_def exact_decimal_show
        ex_fixed32 ex_unhex ex_evm_simps ref_hash_word)
qed

lemma ex_complete:
  "verify_complete ex_evm [] ex_account [Inr (hex32 7, hex32 1)] (hex32 5) ex_metadata = Inr 1"
proof -
  have "ac_storage_root ex_account = ref_root [(replicate 32 7, ref_rlp_bytes (be_bytes (be_val (replicate 32 1))))]"
    by (simp add: ex_account_def)
  then show ?thesis
    by (simp add: verify_complete_def ex_metadata_ok storage_root_def sort_new_def sort_insert_def
        sort_finish_def ex_parse_slot ex_evm_simps)
qed

definition ex_proof :: json where
  "ex_proof = jobj [(''nonce'', JStr ''0x1''), (''balance'', JStr ''0x2''), (''storageHash'', JStr (hex32 9)),
     (''codeHash'', JStr (hex32 0)), (''accountProof'', JArr [])]"

lemma ex_proof_get:
  "get ex_proof ''address'' = None" "get ex_proof ''nonce'' = Some (JStr ''0x1'')"
  "get ex_proof ''balance'' = Some (JStr ''0x2'')" "get ex_proof ''storageHash'' = Some (JStr (hex32 9))"
  "get ex_proof ''codeHash'' = Some (JStr (hex32 0))" "get ex_proof ''accountProof'' = Some (JArr [])"
  by (simp_all add: ex_proof_def get_jobj)

lemma ex_quantity: "quantity ex_evm ''0x1'' 64 = Inr 1" "quantity ex_evm ''0x2'' 256 = Inr 2"
proof -
  have n: "hex_val ''1'' = 1" "hex_val ''2'' = 2" by code_simp+
  show "quantity ex_evm ''0x1'' 64 = Inr 1"
    using n(1) by (simp add: quantity_def strip_prefix_def is_hexdigit_def is_lower_hex_def is_digit_def
        less_eq_char_def ex_evm_simps ref_u256_def)
  show "quantity ex_evm ''0x2'' 256 = Inr 2"
    using n(2) by (simp add: quantity_def strip_prefix_def is_hexdigit_def is_lower_hex_def is_digit_def
        less_eq_char_def ex_evm_simps ref_u256_def)
qed

definition ex_address :: string where "ex_address = ''0x'' @ ref_encode (replicate 20 4)"

lemma ex_fixed20: "fixed ex_evm 20 ex_address = Inr (replicate 20 4)"
  using fixed_enc [OF ex_evm_hex, of "replicate 20 4" 20] by (simp add: ex_address_def ex_evm_simps)

lemma ex_address_eq: "address ex_evm ex_address = Inr ex_address"
  using ex_fixed20 by (simp add: address_def ex_address_def ex_evm_simps)

definition ex_proven :: Account where
  "ex_proven = \<lparr>ac_address = ex_address, ac_exists = True, ac_nonce = 1, ac_balance = 2,
     ac_storage_root = replicate 32 9, ac_code_hash = replicate 32 0\<rparr>"

lemma ex_account_rlp: "account_rlp ex_evm 1 2 (replicate 32 9) (replicate 32 0) = ex_leaf"
  by (simp add: account_rlp_def rlp_list_def ex_leaf_def ex_evm_simps)

lemma ex_verify_account: "verify_account ex_evm (hex32 6) ex_address ex_proof = Inr ex_proven"
proof -
  show ?thesis using ex_account_rlp
    by (simp add: verify_account_def ex_fixed32 ex_address_eq proof_address_ok_def ex_proof_get
        string_field_def ex_quantity proof_nodes_def as_array_def ex_fixed20 ex_evm_simps ex_proven_def)
qed

definition ex_proof_addressed :: json where
  "ex_proof_addressed = (case ex_proof of JObj fs \<Rightarrow> JObj (bt_insert ''address'' (JStr ex_address) fs) | v \<Rightarrow> v)"

lemma ex_proof_addressed_get:
  "get ex_proof_addressed f = (if f = ''address'' then Some (JStr ex_address) else get ex_proof f)"
  by (simp add: ex_proof_addressed_def ex_proof_def jobj_def)

lemma ex_addressed_ok: "\<exists>b. verify_account ex_evm (hex32 6) ex_address ex_proof_addressed = Inr b"
  using ex_account_rlp
  by (simp add: verify_account_def ex_fixed32 ex_address_eq proof_address_ok_def ex_proof_addressed_get
      ex_proof_get string_field_def ex_quantity proof_nodes_def as_array_def ex_fixed20 ex_evm_simps)

theorem verify_account_unique_witness:
  "verify_account ex_evm (hex32 6) ex_address ex_proof_addressed = Inr ex_proven"
  using verify_account_unique [OF ex_evm_rlp ex_evm_unique _ ex_verify_account] ex_addressed_ok by metis

end
