(* ===== verification/Node.thy ===== *)
theory Node
  imports Clickhouse Files Proof
begin

text \<open>
  The world the native tools run in: the database server and the local file system, and the
  crates and system services they call there (hashing, base64, the cursor cipher, JSON text, UUIDs,
  the clock and the machine identity), and the locks all processes of the host hold.  New
  identifiers and clock readings are numbered draws, so that no two draws of a run coincide.
\<close>

record 'w node =
  nd_db :: 'w
  nd_fs :: fsys
  nd_locks :: "nat locks"
  nd_tick :: nat

record 'w nodelib = "'w chlib" +
  nl_evm :: evmlib
  sha256 :: "string \<Rightarrow> bytes"
  b64_decode :: "string \<Rightarrow> bytes option"
  b64_encode :: "bytes \<Rightarrow> string"
  cursor_decrypt :: "bytes \<Rightarrow> bytes option"
  cursor_encrypt :: "bytes \<Rightarrow> bytes option"
  json_text :: "json \<Rightarrow> nat list"
  json_pretty :: "json \<Rightarrow> nat list"
  fs_temp :: "string \<Rightarrow> fsys \<Rightarrow> string"
  nl_read_dir :: "string \<Rightarrow> fsys \<Rightarrow> string list"
  nl_is_dir :: "string \<Rightarrow> bool"
  nl_lstat :: "string list \<Rightarrow> lstat"
  nl_cwd :: "component list res"
  nl_hostname :: "string res"
  nl_uuid :: "string \<Rightarrow> string option"  \<comment> \<open>the canonical text of a parsed UUID that is not nil\<close>
  nl_new_id :: "nat \<Rightarrow> string"
  nl_clock :: "nat \<Rightarrow> nat res"  \<comment> \<open>nanoseconds since the epoch\<close>
  nl_pid :: nat

definition on_db :: "('w, 'a) io \<Rightarrow> ('w node, 'a) io" where
  "on_db m n = (case m (nd_db n) of (r, d) \<Rightarrow> (r, n\<lparr>nd_db := d\<rparr>))"

definition on_fs :: "(fsys, 'a) io \<Rightarrow> ('w node, 'a) io" where
  "on_fs m n = (case m (nd_fs n) of (r, f) \<Rightarrow> (r, n\<lparr>nd_fs := f\<rparr>))"

lemma on_db_Inr [io_simps]: "on_db m n = (Inr v, n') \<longleftrightarrow> (\<exists>d. m (nd_db n) = (Inr v, d) \<and> n' = n\<lparr>nd_db := d\<rparr>)"
  by (auto simp: on_db_def split: prod.splits)

lemma on_fs_Inr [io_simps]: "on_fs m n = (Inr v, n') \<longleftrightarrow> (\<exists>f. m (nd_fs n) = (Inr v, f) \<and> n' = n\<lparr>nd_fs := f\<rparr>)"
  by (auto simp: on_fs_def split: prod.splits)

lemma on_fs_db: "nd_db (snd (on_fs m n)) = nd_db n"
  by (simp add: on_fs_def split: prod.splits)

lemma on_db_fs: "nd_fs (snd (on_db m n)) = nd_fs n"
  by (simp add: on_db_def split: prod.splits)

section \<open>Draws, locks and paths\<close>

definition draw :: "(nat \<Rightarrow> 'a) \<Rightarrow> ('w node, 'a) io" where
  "draw f n = (Inr (f (nd_tick n)), n\<lparr>nd_tick := Suc (nd_tick n)\<rparr>)"

definition new_id :: "('w, 'x) nodelib_scheme \<Rightarrow> ('w node, string) io" where
  "new_id L = draw (nl_new_id L)"

definition now_ns :: "('w, 'x) nodelib_scheme \<Rightarrow> ('w node, u64) io" where
  "now_ns L = bind (draw (nl_clock L)) (\<lambda>r. bind (lift r) (\<lambda>t.
     lift (ensure (t < 2 ^ 64) ''timestamp exceeds uint64'' (Inr (of_nat t)))))"

definition on_locks :: "(nat locks \<Rightarrow> nat locks res) \<Rightarrow> ('w node, unit) io" where
  "on_locks f n = (case f (nd_locks n) of Inl e \<Rightarrow> (Inl e, n) | Inr ls \<Rightarrow> (Inr (), n\<lparr>nd_locks := ls\<rparr>))"

definition acquire :: "('w, 'x) nodelib_scheme \<Rightarrow> string \<Rightarrow> bool \<Rightarrow> ('w node, unit) io" where
  "acquire L path exclusive =
     bind (on_fs fs_try) (\<lambda>_. bind (on_fs fs_try) (\<lambda>_. on_locks (file_lock path (nl_pid L) exclusive)))"

definition release :: "('w, 'x) nodelib_scheme \<Rightarrow> string \<Rightarrow> bool \<Rightarrow> 'w node \<Rightarrow> 'w node" where
  "release L path exclusive n = n\<lparr>nd_locks := unlock path (nl_pid L) exclusive (nd_locks n)\<rparr>"

text \<open>The scope of a lock guard: it is dropped when the scope ends, with a value or an error.\<close>

definition holding :: "('w, 'x) nodelib_scheme \<Rightarrow> string \<Rightarrow> bool \<Rightarrow> ('w node, 'a) io \<Rightarrow> ('w node, 'a) io" where
  "holding L path exclusive m =
     bind (acquire L path exclusive) (\<lambda>_ n. case m n of (r, n') \<Rightarrow> (r, release L path exclusive n'))"

definition path_components :: "string \<Rightarrow> component list" where
  "path_components s =
     (if prefix ''/'' s then [RootDir] else []) @
     map (\<lambda>w. if w = ''.'' then CurDir else if w = ''..'' then ParentDir else Normal w)
       (filter (\<lambda>w. w \<noteq> []) (split_on (\<lambda>c. c = CHR ''/'') s))"

definition show_path :: "string list \<Rightarrow> string" where
  "show_path p = (if p = [] then ''/'' else concat (map (\<lambda>w. CHR ''/'' # w) p))"

definition resolve_path :: "('w, 'x) nodelib_scheme \<Rightarrow> string \<Rightarrow> string res" where
  "resolve_path L s = (case resolve (nl_lstat L) (nl_cwd L) (path_components s) of
     None \<Rightarrow> Inl [] | Some r \<Rightarrow> bnd r (\<lambda>p. Inr (show_path p)))"

lemma on_locks_Inr [io_simps]:
  "on_locks f n = (Inr v, n') \<longleftrightarrow> (\<exists>ls. f (nd_locks n) = Inr ls \<and> n' = n\<lparr>nd_locks := ls\<rparr>)"
  by (auto simp: on_locks_def split: sum.splits)

lemma on_locks_keeps: "nd_db (snd (on_locks f n)) = nd_db n" "nd_fs (snd (on_locks f n)) = nd_fs n"
  by (simp_all add: on_locks_def split: sum.splits)

lemma draw_Inr [io_simps]: "draw f n = (r, n') \<longleftrightarrow> r = Inr (f (nd_tick n)) \<and> n' = n\<lparr>nd_tick := Suc (nd_tick n)\<rparr>"
  by (auto simp: draw_def)

lemma release_keeps [simp]: "nd_db (release L p x n) = nd_db n" "nd_fs (release L p x n) = nd_fs n"
  by (simp_all add: release_def)

lemma acquire_db: "nd_db (snd (acquire L p x n)) = nd_db n"
  unfolding acquire_def
  by (intro bind_invariant [where P = "\<lambda>n'. nd_db n' = nd_db n"]) (simp_all add: on_fs_db on_locks_keeps)

lemma holding_Inr:
  "holding L p x m n = (Inr v, n') \<longleftrightarrow>
     (\<exists>n1 n2. acquire L p x n = (Inr (), n1) \<and> m n1 = (Inr v, n2) \<and> n' = release L p x n2)"
  unfolding holding_def bind_Inr_iff by (auto simp: case_prod_unfold) (metis prod.collapse)

text \<open>What holds of the database after every run of the body holds after the guarded scope.\<close>

lemma holding_db:
  assumes "\<And>n1. nd_db n1 = nd_db n \<Longrightarrow> P (nd_db (snd (m n1)))" "P (nd_db n)"
  shows "P (nd_db (snd (holding L p x m n)))"
  using assms acquire_db [of L p x n]
  by (auto simp: holding_def bind_def split: prod.splits sum.splits) (metis snd_conv)

definition path_join :: "string \<Rightarrow> string \<Rightarrow> string" where
  "path_join d f = d @ CHR ''/'' # f"

definition fs_read :: "string \<Rightarrow> (fsys, string) io" where
  "fs_read p = bind fs_try (\<lambda>_. bind (fs_get p) (\<lambda>v. case v of None \<Rightarrow> fail ''No such file or directory'' | Some c \<Rightarrow> ret c))"

definition fs_exists :: "string \<Rightarrow> (fsys, bool) io" where
  "fs_exists p = bind fs_try (\<lambda>_. bind (fs_get p) (\<lambda>v. ret (v \<noteq> None)))"

definition read_json :: "('w, 'x) nodelib_scheme \<Rightarrow> string \<Rightarrow> (fsys, json) io" where
  "read_json L p = bind (fs_read p) (\<lambda>c. lift (context_res (json_parse L c) ''invalid JSON''))"

definition jstr_eq :: "json \<Rightarrow> string \<Rightarrow> bool" where
  "jstr_eq v s \<longleftrightarrow> v = JStr s"

definition jnum_eq :: "json \<Rightarrow> u64 \<Rightarrow> bool" where
  "jnum_eq v n \<longleftrightarrow> as_u64 v = Some n"

section \<open>Rows as they stream\<close>

text \<open>A loop over the rows of a query stops at the first row that cannot be read or is refused.\<close>

definition each_row :: "('w, 'x) chlib_scheme \<Rightarrow> ClickHouse \<Rightarrow> string \<Rightarrow> (string \<times> json) list \<Rightarrow>
    (json \<Rightarrow> 's \<Rightarrow> 's res) \<Rightarrow> 's \<Rightarrow> ('w, 's) io" where
  "each_row L c sql ps f s =
     bind (rows L c sql ps) (\<lambda>rs. lift (fold_res (\<lambda>r s. bnd r (\<lambda>row. f row s)) (collect_rows L rs) s))"

lemma fold_rows_Inr:
  "fold_res (\<lambda>r s. bnd r (\<lambda>row. f row s)) rs s = Inr t \<longleftrightarrow>
     (\<exists>vs. map_res (\<lambda>r. r) rs = Inr vs \<and> fold_res f vs s = Inr t)"
  by (induction rs arbitrary: s) (force simp: res_simps)+

lemma each_row_Inr:
  "each_row L c sql ps f s w = (Inr t, w') \<longleftrightarrow>
     (\<exists>vs. rows_vec L c sql ps w = (Inr vs, w') \<and> fold_res f vs s = Inr t)"
  by (auto simp: each_row_def rows_vec_def io_simps fold_rows_Inr)

section \<open>Bytes as text\<close>

definition is_cont :: "nat \<Rightarrow> bool" where "is_cont b \<longleftrightarrow> 128 \<le> b \<and> b \<le> 191"

fun utf8_valid :: "nat list \<Rightarrow> bool" where
  "utf8_valid [] = True"
| "utf8_valid [a] = (a < 128)"
| "utf8_valid [a, b] =
     (if a < 128 then b < 128 else 194 \<le> a \<and> a \<le> 223 \<and> is_cont b)"
| "utf8_valid [a, b, c] =
     (if a < 128 then utf8_valid [b, c]
      else if 194 \<le> a \<and> a \<le> 223 then is_cont b \<and> utf8_valid [c]
      else if a = 224 then 160 \<le> b \<and> b \<le> 191 \<and> is_cont c
      else if a = 237 then 128 \<le> b \<and> b \<le> 159 \<and> is_cont c
      else 225 \<le> a \<and> a \<le> 239 \<and> is_cont b \<and> is_cont c)"
| "utf8_valid (a # b # c # d # r) =
     (if a < 128 then utf8_valid (b # c # d # r)
      else if 194 \<le> a \<and> a \<le> 223 then is_cont b \<and> utf8_valid (c # d # r)
      else if a = 224 then 160 \<le> b \<and> b \<le> 191 \<and> is_cont c \<and> utf8_valid (d # r)
      else if a = 237 then 128 \<le> b \<and> b \<le> 159 \<and> is_cont c \<and> utf8_valid (d # r)
      else if 225 \<le> a \<and> a \<le> 239 then is_cont b \<and> is_cont c \<and> utf8_valid (d # r)
      else if a = 240 then 144 \<le> b \<and> b \<le> 191 \<and> is_cont c \<and> is_cont d \<and> utf8_valid r
      else if a = 244 then 128 \<le> b \<and> b \<le> 143 \<and> is_cont c \<and> is_cont d \<and> utf8_valid r
      else 241 \<le> a \<and> a \<le> 243 \<and> is_cont b \<and> is_cont c \<and> is_cont d \<and> utf8_valid r)"

definition bytes_text :: "bytes \<Rightarrow> string" where
  "bytes_text bs = map (\<lambda>b. char_of (unat b)) bs"

definition text_bytes :: "string \<Rightarrow> bytes" where
  "text_bytes s = map (\<lambda>c. of_nat (of_char c)) s"

lemma bytes_text_bytes [simp]: "bytes_text (text_bytes s) = s"
proof -
  have "unat (of_nat (of_char c) :: byte) = of_char c" for c :: char
    by (rule unat_byte) (rule nat_of_char_less_256)
  then show ?thesis by (simp add: bytes_text_def text_bytes_def o_def)
qed

lemma utf8_cons: "a < 128 \<Longrightarrow> utf8_valid (a # ns) = utf8_valid ns"
proof -
  assume a: "a < 128"
  consider "ns = []" | b where "ns = [b]" | b c where "ns = [b, c]" | b c d r where "ns = b # c # d # r"
    by (metis list.exhaust)
  then show ?thesis by cases (simp_all only: utf8_valid.simps a if_True)
qed

lemma utf8_ascii: "\<forall>n \<in> set ns. n < 128 \<Longrightarrow> utf8_valid ns"
  by (induction ns) (simp_all add: utf8_cons)

end
