(* ===== verification/Cursor.thy ===== *)
theory Cursor
  imports Node
begin

text \<open>
  Native stream cursors and durable progress, \<open>crates/evm-state/src/cursor.rs\<close>: the decoding of an
  opaque cursor into a finalized position, the validation of that position against the stored
  block, and the progress file that only moves forward.
\<close>

record BlockRef =
  br_number :: u64
  br_hash :: string

record Position =
  po_block :: BlockRef
  po_head :: BlockRef
  po_lib :: BlockRef
  po_step :: nat

definition trim_padding :: "string \<Rightarrow> string" where
  "trim_padding s = rev (dropWhile (\<lambda>c. c = CHR ''='') (rev s))"

definition check_token :: "string \<Rightarrow> unit res" where
  "check_token token =
     ensure (token \<noteq> [] \<and> length token \<le> 2048) ''invalid cursor length''
     (let bare = trim_padding token in
      ensure (length token - length bare \<le> 2 \<and> bare \<noteq> [] \<and>
          list_all (\<lambda>c. is_ascii_alphanumeric c \<or> c = CHR ''_'' \<or> c = CHR ''-'') bare)
        ''invalid cursor alphabet'' (Inr ()))"

definition reference :: "string list \<Rightarrow> nat \<Rightarrow> BlockRef res" where
  "reference parts offset =
     (let number = parts ! offset; hash = parts ! (offset + 1) in
      ensure (number = ''0'' \<or> (number \<noteq> [] \<and> \<not> prefix ''0'' number \<and> list_all is_digit number))
        ''invalid BSC block number''
      (ensure (length hash = 64 \<and> list_all is_lower_hex hash) ''invalid BSC block hash''
      (bnd (context_res (parse_u64 number) ''block number exceeds uint64'') (\<lambda>n.
       Inr \<lparr>br_number = n, br_hash = ''0x'' @ hash\<rparr>))))"

definition decode_parts :: "string list \<Rightarrow> Position res" where
  "decode_parts parts =
     ensure ((parts ! 0 = ''c1'' \<or> parts ! 0 = ''c2'') \<and> length parts = 6 \<or> parts ! 0 = ''c3'' \<and> length parts = 8)
       ''invalid cursor segments''
     (ensure (parts ! 1 = ''1'' \<or> parts ! 1 = ''16'' \<or> parts ! 1 = ''17'') ''unsupported cursor step''
     (bnd (reference parts 2) (\<lambda>block.
      bnd (if parts ! 0 = ''c1'' then Inr block else reference parts 4) (\<lambda>head.
      bnd (if parts ! 0 = ''c2'' then Inr block else reference parts (if parts ! 0 = ''c1'' then 4 else 6)) (\<lambda>lib.
      ensure (lib = block \<and> br_number block \<le> br_number head \<and> (br_number head \<noteq> br_number block \<or> head = block))
        ''cursor is not on a finalized block''
        (Inr \<lparr>po_block = block, po_head = head, po_lib = lib, po_step = dec_val (parts ! 1)\<rparr>))))))"

definition cursor_decode :: "('w, 'x) nodelib_scheme \<Rightarrow> string \<Rightarrow> Position res" where
  "cursor_decode L token =
     bnd (check_token token) (\<lambda>_.
     bnd (context_res (b64_decode L token) ''invalid cursor base64'') (\<lambda>encoded.
     bnd (context_res (cursor_decrypt L encoded) ''invalid cursor ciphertext'') (\<lambda>payload.
     ensure (utf8_valid (map unat payload)) ''invalid cursor text''
     (decode_parts (split_on (\<lambda>c. c = CHR '':'') (bytes_text payload))))))"

definition encode_public :: "('w, 'x) nodelib_scheme \<Rightarrow> string \<Rightarrow> string res" where
  "encode_public L payload =
     bnd (context_res (cursor_encrypt L (text_bytes payload)) ''cursor encoding failed'') (\<lambda>v.
     Inr (b64_encode L v))"

definition node_canonical :: "('w, 'x) nodelib_scheme \<Rightarrow> json \<Rightarrow> string" where
  "node_canonical L v = canonical_json (json_text L) v"

definition binding :: "('w, 'x) nodelib_scheme \<Rightarrow> json \<Rightarrow> json res" where
  "binding L run =
     bnd (context_res (get run ''identity'') ''missing native run identity'') (\<lambda>identity.
     bnd (string_field run ''run_id'') (\<lambda>run_id.
     bnd (string_field run ''database_uuid'') (\<lambda>uuid.
     Inr (jobj [(''format_version'', JNum ''1''), (''run_id'', JStr run_id), (''database_uuid'', JStr uuid),
       (''identity_sha256'', JStr (hex_encode (nl_evm L) (sha256 L (node_canonical L identity))))]))))"

definition filter_accounts :: "json \<Rightarrow> string res" where
  "filter_accounts identity =
     bnd (context_res (as_array (index identity ''accounts'')) ''missing native account filter'') (\<lambda>vs.
     bnd (map_res (\<lambda>v. context_res (as_str v) ''invalid native account filter'') vs) (\<lambda>accounts.
     Inr (join '','' accounts)))"

fun trim_start_0x :: "string \<Rightarrow> string" where
  "trim_start_0x (a # b # s) = (if a = CHR ''0'' \<and> b = CHR ''x'' then trim_start_0x s else a # b # s)"
| "trim_start_0x s = s"

definition row_matches :: "Position \<Rightarrow> string \<Rightarrow> json list \<Rightarrow> json list \<Rightarrow> bool res" where
  "row_matches position accounts rs markers =
     (if length rs = 1 \<and> jstr_eq (index (rs ! 0) ''hash'') (br_hash (po_block position)) \<and>
         jstr_eq (index (rs ! 0) ''accounts'') accounts
      then bnd (uint (index (rs ! 0) ''schema_version'')) (\<lambda>schema.
        if schema \<noteq> 1 then Inr False else
        bnd (uint (index (rs ! 0) ''producer_version'')) (\<lambda>producer.
        if \<not> (3 \<le> producer \<and> producer \<le> 5) \<or> length markers \<noteq> 1 then Inr False else
        bnd (string_field (markers ! 0) ''hash'') (\<lambda>hash.
        Inr (''0x'' @ trim_start_0x hash = br_hash (po_block position)))))
      else Inr False)"

definition cursor_validate :: "('w, 'x) nodelib_scheme \<Rightarrow> ClickHouse \<Rightarrow> json \<Rightarrow> string \<Rightarrow> ('w, Position) io" where
  "cursor_validate L client run token =
     bind (lift (cursor_decode L token)) (\<lambda>position.
     let identity = index run ''identity'' in
     bind (lift (uint (index identity ''start_block''))) (\<lambda>start.
     bind (check (start \<le> br_number (po_block position)) ''native cursor precedes its run's start'') (\<lambda>_.
     bind (lift (params (jobj [(''number'', jnum (br_number (po_block position)))]))) (\<lambda>query.
     bind (rows_vec L client ''SELECT hash,accounts,schema_version,producer_version FROM state_blocks FINAL WHERE number={number:UInt64}'' query) (\<lambda>rows.
     bind (rows_vec L client ''SELECT hash FROM _blocks_ FINAL WHERE number={number:UInt64}'' query) (\<lambda>markers.
     bind (lift (filter_accounts identity)) (\<lambda>accounts.
     bind (lift (row_matches position accounts rows markers)) (\<lambda>same.
     bind (check same ''native cursor does not match its complete block data and marker'') (\<lambda>_.
     ret position)))))))))"

definition ref_json :: "BlockRef \<Rightarrow> json" where
  "ref_json b = jobj [(''number'', jnum (br_number b)), (''hash'', JStr (br_hash b))]"

definition position_json :: "Position \<Rightarrow> json" where
  "position_json p = jobj [(''block'', ref_json (po_block p)), (''head'', ref_json (po_head p)),
     (''lib'', ref_json (po_lib p)), (''step'', JNum (show_nat (po_step p)))]"

definition progress_path :: "string \<Rightarrow> string" where
  "progress_path directory = path_join directory ''durable_progress.json''"

definition bound_to :: "json \<Rightarrow> json \<Rightarrow> bool" where
  "bound_to expected record = (case expected of
       JObj fs \<Rightarrow> list_all (\<lambda>(key, v). get record key = Some v) fs | _ \<Rightarrow> False)"

definition load_progress :: "('w, 'x) nodelib_scheme \<Rightarrow> ClickHouse \<Rightarrow> json \<Rightarrow> string \<Rightarrow> ('w node, json) io" where
  "load_progress L client run directory =
     bind (on_fs (with_msg (fs_read (progress_path directory))
        (\<lambda>_. ''durable progress is missing; restore matching run metadata''))) (\<lambda>c.
     bind (lift (context_res (json_parse L c) ''invalid JSON'')) (\<lambda>record.
     bind (lift (binding L run)) (\<lambda>expected.
     bind (check (bound_to expected record) ''durable progress belongs to another native run'') (\<lambda>_.
     bind (lift (string_field record ''cursor'')) (\<lambda>token.
     bind (on_db (cursor_validate L client run token)) (\<lambda>position.
     bind (check (index record ''position'' = position_json position) ''durable progress position is corrupt'') (\<lambda>_.
     ret record)))))))"

definition progress_record :: "json \<Rightarrow> string \<Rightarrow> Position \<Rightarrow> json" where
  "progress_record bound token position =
     jset (jset bound ''cursor'' (JStr token)) ''position'' (position_json position)"

definition position_number :: "json \<Rightarrow> u64 res" where
  "position_number record = uint (index (index (index record ''position'') ''block'') ''number'')"

definition save_progress :: "('w, 'x) nodelib_scheme \<Rightarrow> ClickHouse \<Rightarrow> json \<Rightarrow> string \<Rightarrow> string \<Rightarrow> ('w node, json) io" where
  "save_progress L client run directory token =
     bind (on_db (cursor_validate L client run token)) (\<lambda>position.
     bind (on_fs (fs_exists (progress_path directory))) (\<lambda>there.
     bind (if there
           then bind (load_progress L client run directory) (\<lambda>previous.
                bind (lift (position_number previous)) (\<lambda>n.
                bind (check (n \<le> br_number (po_block position)) ''native cursor regressed behind durable progress'') (\<lambda>_.
                ret (if jstr_eq (index previous ''cursor'') token then Some previous else None))))
           else ret None) (\<lambda>same.
     case same of Some previous \<Rightarrow> ret previous
     | None \<Rightarrow>
         bind (lift (binding L run)) (\<lambda>bound.
         let record = progress_record bound token position in
         bind (on_fs (atomic_json (json_pretty L) (fs_temp L directory) (Some directory) (progress_path directory) record True)) (\<lambda>_.
         ret record)))))"

definition observe :: "('w, 'x) nodelib_scheme \<Rightarrow> ClickHouse \<Rightarrow> json \<Rightarrow> string \<Rightarrow> ('w node, json option) io" where
  "observe L client run directory =
     bind (on_fs fs_try) (\<lambda>_.
     bind (on_fs (fs_get (path_join directory ''cursor.txt''))) (\<lambda>v.
     case v of None \<Rightarrow> ret None
     | Some contents \<Rightarrow>
         bind (on_fs fs_try) (\<lambda>_.
         let bytes = take 2049 contents; token = trim bytes in
         if \<not> utf8_valid (map of_char bytes) then ret None
         else if \<not> is_ok (cursor_decode L token) then ret None
         else bind (save_progress L client run directory token) (\<lambda>r. ret (Some r)))))"

section \<open>Positions\<close>

definition ref_ok :: "BlockRef \<Rightarrow> bool" where
  "ref_ok b \<longleftrightarrow> (\<exists>h. br_hash b = ''0x'' @ h \<and> length h = 64 \<and> list_all is_lower_hex h)"

definition position_ok :: "Position \<Rightarrow> bool" where
  "position_ok p \<longleftrightarrow> po_lib p = po_block p \<and> br_number (po_block p) \<le> br_number (po_head p) \<and>
     (br_number (po_head p) = br_number (po_block p) \<longrightarrow> po_head p = po_block p) \<and>
     ref_ok (po_block p) \<and> ref_ok (po_head p) \<and> po_step p \<in> {1, 16, 17}"

lemma dec_val_steps: "dec_val ''1'' = 1" "dec_val ''16'' = 16" "dec_val ''17'' = 17"
  by (simp_all add: dec_val_def digit_val_def)

lemma reference_ok: "reference parts k = Inr b \<Longrightarrow> ref_ok b"
  by (auto simp: reference_def res_simps Let_def ref_ok_def)

lemma decode_parts_ok:
  assumes "decode_parts parts = Inr p"
  shows "position_ok p"
proof -
  obtain block head lib where d: "reference parts 2 = Inr block"
    "(if parts ! 0 = ''c1'' then Inr block else reference parts 4) = Inr head"
    "lib = block" "br_number block \<le> br_number head" "br_number head \<noteq> br_number block \<or> head = block"
    "parts ! 1 = ''1'' \<or> parts ! 1 = ''16'' \<or> parts ! 1 = ''17''"
    "p = \<lparr>po_block = block, po_head = head, po_lib = lib, po_step = dec_val (parts ! 1)\<rparr>"
    using assms unfolding decode_parts_def bnd_Inr_iff ensure_Inr_iff by (elim exE conjE) (rule that, auto)
  moreover have "ref_ok block" "ref_ok head"
    using reference_ok d(1,2) by (auto split: if_splits)
  ultimately show ?thesis by (auto simp: position_ok_def dec_val_steps)
qed

definition payload_parts :: "Position \<Rightarrow> string list" where
  "payload_parts p = [''c3'', show_nat (po_step p),
     show_u64 (br_number (po_block p)), drop 2 (br_hash (po_block p)),
     show_u64 (br_number (po_head p)), drop 2 (br_hash (po_head p)),
     show_u64 (br_number (po_lib p)), drop 2 (br_hash (po_lib p))]"

definition payload :: "Position \<Rightarrow> string" where
  "payload p = join '':'' (payload_parts p)"

lemma reference_show:
  assumes "parts ! k = show_u64 (br_number b)" "parts ! (k + 1) = drop 2 (br_hash b)" "ref_ok b"
  shows "reference parts k = Inr b"
proof -
  obtain h where h: "br_hash b = ''0x'' @ h" "length h = 64" "list_all is_lower_hex h"
    using assms(3) by (auto simp: ref_ok_def)
  have "show_u64 (br_number b) = ''0'' \<or>
      (show_u64 (br_number b) \<noteq> [] \<and> \<not> prefix ''0'' (show_u64 (br_number b)) \<and> list_all is_digit (show_u64 (br_number b)))"
    using canonical_show_nat [of "unat (br_number b)"]
    by (cases "show_nat (unat (br_number b))") (auto simp: canonical_dec_def show_u64_def)
  with assms(1,2) h show ?thesis by (simp add: reference_def Let_def)
qed

lemma decode_payload:
  assumes "position_ok p"
  shows "decode_parts (payload_parts p) = Inr p"
proof -
  have r: "ref_ok (po_block p)" "ref_ok (po_head p)" "po_lib p = po_block p"
    using assms by (simp_all add: position_ok_def)
  have "reference (payload_parts p) 2 = Inr (po_block p)" "reference (payload_parts p) 4 = Inr (po_head p)"
    "reference (payload_parts p) 6 = Inr (po_lib p)"
    using r by (auto intro!: reference_show simp: payload_parts_def)
  moreover have step: "show_nat 1 = ''1''" "show_nat 16 = ''16''" "show_nat 17 = ''17''"
    using show_dec_val [of "''1''"] show_dec_val [of "''16''"] show_dec_val [of "''17''"]
    by (simp_all add: dec_val_steps canonical_dec_def is_digit_def less_eq_char_def)
  moreover have "po_step p \<in> {1, 16, 17}" using assms by (simp add: position_ok_def)
  moreover have "payload_parts p ! 0 = ''c3''" "payload_parts p ! 1 = show_nat (po_step p)" "length (payload_parts p) = 8"
    by (simp_all add: payload_parts_def)
  ultimately show ?thesis using assms
    by (auto simp: decode_parts_def position_ok_def dec_val_steps)
qed

lemma lower_hex_not_colon: "list_all is_lower_hex h \<Longrightarrow> list_all (\<lambda>c. c \<noteq> CHR '':'') h"
  by (auto simp: list_all_iff is_lower_hex_def is_digit_def less_eq_char_def)

lemma digits_not_colon: "list_all is_digit h \<Longrightarrow> list_all (\<lambda>c. c \<noteq> CHR '':'') h"
  by (auto simp: list_all_iff is_digit_def less_eq_char_def)

lemma split_payload:
  assumes "position_ok p"
  shows "split_on (\<lambda>c. c = CHR '':'') (payload p) = payload_parts p"
proof -
  have h: "list_all (\<lambda>c. c \<noteq> CHR '':'') (drop 2 (br_hash b))" if "ref_ok b" for b
    using that lower_hex_not_colon by (auto simp: ref_ok_def)
  have "\<forall>w \<in> set (payload_parts p). list_all (\<lambda>c. c \<noteq> CHR '':'') w"
    using assms h digits_not_colon [OF show_nat_digits] by (simp add: payload_parts_def position_ok_def show_u64_def)
  then show ?thesis unfolding payload_def
    by (intro split_join) (simp_all add: payload_parts_def)
qed

section \<open>The cursor text\<close>

text \<open>What is relied on of the cipher (a 16-byte tag) and of URL-safe base64.\<close>

definition token_char :: "char \<Rightarrow> bool" where
  "token_char c \<longleftrightarrow> is_ascii_alphanumeric c \<or> c = CHR ''_'' \<or> c = CHR ''-''"

locale cursor_codec =
  fixes encrypt decrypt :: "bytes \<Rightarrow> bytes option" and b64e :: "bytes \<Rightarrow> string" and b64d :: "string \<Rightarrow> bytes option"
  assumes decrypt: "encrypt b = Some e \<Longrightarrow> decrypt e = Some b"
    and tag: "encrypt b = Some e \<Longrightarrow> length e = length b + 16"
    and b64: "b64d (b64e x) = Some x"
    and b64_length: "length (b64e x) \<le> 2 * length x + 4"
    and b64_chars: "x \<noteq> [] \<Longrightarrow> trim_padding (b64e x) \<noteq> [] \<and> list_all token_char (trim_padding (b64e x)) \<and>
      length (b64e x) - length (trim_padding (b64e x)) \<le> 2"
begin

lemma token_ok:
  assumes "encrypt b = Some e" "length b \<le> 1000"
  shows "check_token (b64e e) = Inr () \<and> b64d (b64e e) = Some e \<and> decrypt e = Some b"
proof -
  have len: "length e = length b + 16" by (rule tag [OF assms(1)])
  then have "e \<noteq> []" by auto
  note chars = b64_chars [OF this]
  moreover have "length (b64e e) \<le> 2048" using b64_length [of e] len assms(2) by simp
  moreover have "b64e e \<noteq> []" using chars by (auto simp: trim_padding_def)
  ultimately have "check_token (b64e e) = Inr ()"
    by (simp add: check_token_def Let_def token_char_def [abs_def])
  with b64 decrypt [OF assms(1)] show ?thesis by simp
qed

end

lemma length_show_nat: "n < 10 ^ k \<Longrightarrow> 0 < k \<Longrightarrow> length (show_nat n) \<le> k"
proof (induction k arbitrary: n)
  case (Suc k)
  show ?case
  proof (cases "n < 10")
    case True
    then show ?thesis by (simp add: show_nat.simps)
  next
    case False
    with Suc.prems have "n div 10 < 10 ^ k" "0 < k" by (auto simp: less_mult_imp_div_less mult.commute intro: Nat.gr0I)
    with Suc.IH [of "n div 10"] False show ?thesis by (subst show_nat.simps) simp
  qed
qed simp

lemma length_show_u64: "length (show_u64 n) \<le> 20"
proof -
  have "unat n < 10 ^ 20" using u64_bound [of n] by simp
  then show ?thesis by (simp add: show_u64_def length_show_nat)
qed

lemma payload_short:
  assumes "position_ok p"
  shows "length (payload p) \<le> 1000"
proof -
  have "length (drop 2 (br_hash b)) \<le> 64" if "ref_ok b" for b using that by (auto simp: ref_ok_def)
  then have "length (drop 2 (br_hash (po_block p))) \<le> 64" "length (drop 2 (br_hash (po_head p))) \<le> 64"
    "length (drop 2 (br_hash (po_lib p))) \<le> 64"
    using assms by (simp_all add: position_ok_def)
  moreover have "length (show_nat (po_step p)) \<le> 2"
    using assms by (intro length_show_nat) (auto simp: position_ok_def)
  moreover note length_show_u64 [of "br_number (po_block p)"] length_show_u64 [of "br_number (po_head p)"]
    length_show_u64 [of "br_number (po_lib p)"]
  ultimately show ?thesis by (simp add: payload_def payload_parts_def)
qed

lemma payload_ascii:
  assumes "position_ok p" "c \<in> set (payload p)"
  shows "(of_char c :: nat) < 128"
proof -
  have join: "set (join '':'' ws) \<subseteq> insert (CHR '':'') (\<Union>w \<in> set ws. set w)" for ws
    by (induction "'':''" ws rule: join.induct) auto
  have digit: "(of_char c :: nat) < 128" if "is_digit c" for c using that by (simp add: is_digit_iff)
  have hex: "(of_char c :: nat) < 128" if "is_lower_hex c" for c
    using that digit [of c] by (auto simp: is_lower_hex_def less_eq_char_def)
  have "\<forall>w \<in> set (payload_parts p). \<forall>c \<in> set w. (of_char c :: nat) < 128"
    using assms(1) show_nat_digits digit hex
    by (auto simp: payload_parts_def position_ok_def ref_ok_def show_u64_def list_all_iff)
  with join [of "payload_parts p"] assms(2) show ?thesis by (auto simp: payload_def)
qed

lemma decode_encoded:
  assumes "cursor_codec (cursor_encrypt L) (cursor_decrypt L) (b64_encode L) (b64_decode L)"
    and p: "position_ok p" "encode_public L (payload p) = Inr token"
  shows "cursor_decode L token = Inr p"
proof -
  from p(2) obtain e where e: "cursor_encrypt L (text_bytes (payload p)) = Some e" "token = b64_encode L e"
    by (auto simp: encode_public_def res_simps)
  have "length (text_bytes (payload p)) \<le> 1000" using payload_short p by (simp add: text_bytes_def)
  with cursor_codec.token_ok [OF assms(1) e(1)] have tok: "check_token token = Inr ()" "b64_decode L token = Some e"
    "cursor_decrypt L e = Some (text_bytes (payload p))"
    by (simp_all add: e(2))
  have unat: "unat (of_nat (of_char c) :: byte) = of_char c" for c :: char
    by (rule unat_byte) (rule nat_of_char_less_256)
  have "utf8_valid (map unat (text_bytes (payload p)))"
    using payload_ascii p by (intro utf8_ascii) (auto simp: text_bytes_def unat)
  with tok p show ?thesis by (simp add: cursor_decode_def split_payload decode_payload)
qed

text \<open>
  The cursor text of a finalized position decodes to that position, and every cursor that
  decodes at all gives a finalized one: the last irreversible block is the cursor's block, the head
  is at or above it and equal to it at the same height, and the hashes are 32-byte lowercase words.
\<close>

lemma cursor_roundtrip:
  assumes "cursor_codec (cursor_encrypt L) (cursor_decrypt L) (b64_encode L) (b64_decode L)"
  shows "(position_ok p \<and> encode_public L (payload p) = Inr token \<longrightarrow> cursor_decode L token = Inr p) \<and>
    (cursor_decode L t = Inr q \<longrightarrow> position_ok q)"
proof (intro conjI impI)
  assume "position_ok p \<and> encode_public L (payload p) = Inr token"
  then show "cursor_decode L token = Inr p" using decode_encoded [OF assms] by blast
next
  assume "cursor_decode L t = Inr q"
  then show "position_ok q" by (auto simp: cursor_decode_def res_simps dest: decode_parts_ok)
qed

section \<open>Progress moves forward\<close>

definition keeps_files :: "('w node, 'a) io \<Rightarrow> bool" where
  "keeps_files m \<longleftrightarrow> (\<forall>n. fs_files (nd_fs (snd (m n))) = fs_files (nd_fs n))"

lemma keeps_files_simps [simp]:
  "keeps_files (ret v)" "keeps_files (fail e)" "keeps_files (lift r)" "keeps_files (check c e)"
  "keeps_files (on_db m)" "keeps_files (on_fs fs_try)" "keeps_files (on_fs (fs_get p))"
  by (simp_all add: keeps_files_def on_db_fs on_fs_def fs_try_files fs_get_def split: prod.splits)
    (metis fs_try_files snd_conv)

lemma keeps_files_bind [intro]:
  assumes "keeps_files m" "\<And>v. keeps_files (f v)"
  shows "keeps_files (bind m f)"
  unfolding keeps_files_def
proof
  fix n
  have "fs_files (nd_fs (snd (m n))) = fs_files (nd_fs n)" "\<And>v x. fs_files (nd_fs (snd (f v x))) = fs_files (nd_fs x)"
    using assms by (simp_all add: keeps_files_def)
  then show "fs_files (nd_fs (snd (bind m f n))) = fs_files (nd_fs n)"
    by (cases "m n") (simp add: bind_def split: sum.splits)
qed

lemma keeps_files_if [intro]: "keeps_files a \<Longrightarrow> keeps_files b \<Longrightarrow> keeps_files (if c then a else b)"
  by simp

lemma fs_read_files: "fs_files (snd (fs_read p s)) = fs_files s"
  using fs_try_files [of s]
  by (cases "fs_try s") (auto simp: fs_read_def bind_def fs_get_def ret_def fail_def split: sum.splits option.splits)

lemma keeps_files_read [simp]:
  "keeps_files (on_fs (with_msg (fs_read p) g))" "keeps_files (on_fs (fs_exists p))"
proof -
  show "keeps_files (on_fs (with_msg (fs_read p) g))"
    unfolding keeps_files_def using fs_read_files [of p]
    by (auto simp: on_fs_def with_msg_def split: prod.splits) (metis snd_conv)
  have "fs_files (snd (fs_exists p s)) = fs_files s" for s
    using fs_try_files [of s]
    by (cases "fs_try s") (auto simp: fs_exists_def bind_def fs_get_def ret_def split: sum.splits)
  then show "keeps_files (on_fs (fs_exists p))"
    unfolding keeps_files_def by (auto simp: on_fs_def split: prod.splits) (metis snd_conv)
qed

lemma keeps_files_load: "keeps_files (load_progress L client run directory)"
  unfolding load_progress_def by (intro keeps_files_bind) simp_all

lemma keeps_filesD: "keeps_files m \<Longrightarrow> m n = (r, n') \<Longrightarrow> fs_files (nd_fs n') = fs_files (nd_fs n)"
  unfolding keeps_files_def by (metis snd_conv)

definition progress_text :: "('w, 'x) nodelib_scheme \<Rightarrow> json \<Rightarrow> string" where
  "progress_text L record = ascii_json (json_pretty L record) @ [CHR 0x0A]"

lemma fs_exists_Inr:
  "on_fs (fs_exists p) n = (Inr there, n') \<Longrightarrow> there = (fs_files (nd_fs n) p \<noteq> None)"
  using fs_try_files [of "nd_fs n"]
  by (cases "fs_try (nd_fs n)") (auto simp: on_fs_def fs_exists_def bind_def fs_get_def ret_def split: sum.splits prod.splits)

lemma load_progress_Inr:
  assumes "load_progress L client run directory n = (Inr record, n')" "fs_files (nd_fs n) (progress_path directory) = Some old"
  shows "json_parse L old = Some record"
proof -
  have "fs_read p s = (Inr c, s') \<Longrightarrow> fs_files s p = Some c" for p s c s'
    using fs_try_files [of s]
    by (cases "fs_try s") (auto simp: fs_read_def bind_def fs_get_def ret_def fail_def split: sum.splits option.splits)
  with assms show ?thesis
    unfolding load_progress_def bind_Inr_iff by (fastforce simp: io_simps context_res_Inr_iff)
qed

text \<open>
  The steps before the write keep all files, and the write is reached only with a validated
  position that does not regress.
\<close>

definition not_behind :: "('w, 'x) nodelib_scheme \<Rightarrow> string option \<Rightarrow> Position \<Rightarrow> bool" where
  "not_behind L old position \<longleftrightarrow> (case old of None \<Rightarrow> True
     | Some c \<Rightarrow> \<exists>previous k. json_parse L c = Some previous \<and> position_number previous = Inr k \<and>
         k \<le> br_number (po_block position))"

lemma save_progress_cases:
  assumes "save_progress L client run directory token n = (r, n')"
  shows "fs_files (nd_fs n') = fs_files (nd_fs n) \<or>
    (\<exists>position bound m. cursor_decode L token = Inr position \<and> binding L run = Inr bound \<and>
      not_behind L (fs_files (nd_fs n) (progress_path directory)) position \<and>
      fs_files (nd_fs m) = fs_files (nd_fs n) \<and>
      on_fs (atomic_json (json_pretty L) (fs_temp L directory) (Some directory) (progress_path directory)
        (progress_record bound token position) True) m = (map_sum id (\<lambda>_. ()) r, n'))"
proof -
  let ?P = "\<lambda>x. fs_files (nd_fs x) = fs_files (nd_fs n)"
  obtain r1 n1 where n1: "on_db (cursor_validate L client run token) n = (r1, n1)" by fastforce
  then have p1: "?P n1" by (metis keeps_filesD keeps_files_simps(5))
  show ?thesis
  proof (cases r1)
    case (Inl e)
    with n1 p1 assms show ?thesis by (auto simp: save_progress_def bind_def)
  next
    case (Inr position)
    have dec: "cursor_decode L token = Inr position"
      using n1 Inr unfolding on_db_Inr cursor_validate_def bind_Inr_iff Let_def by (auto simp: io_simps)
    obtain r2 n2 where n2: "on_fs (fs_exists (progress_path directory)) n1 = (r2, n2)" by fastforce
    then have p2: "?P n2" using p1 by (metis keeps_filesD keeps_files_read(2))
    show ?thesis
    proof (cases r2)
      case (Inl e)
      with n1 n2 \<open>r1 = Inr position\<close> p2 assms show ?thesis by (auto simp: save_progress_def bind_def)
    next
      case (Inr there)
      let ?old = "if there
           then bind (load_progress L client run directory) (\<lambda>previous.
                bind (lift (position_number previous)) (\<lambda>n.
                bind (check (n \<le> br_number (po_block position)) ''native cursor regressed behind durable progress'') (\<lambda>_.
                ret (if jstr_eq (index previous ''cursor'') token then Some previous else None))))
           else ret None"
      obtain r3 n3 where n3: "?old n2 = (r3, n3)" by fastforce
      have keep: "keeps_files ?old"
        by (intro keeps_files_if keeps_files_bind keeps_files_load) simp_all
      have p3: "?P n3" using keeps_filesD [OF keep n3] p2 by simp
      show ?thesis
      proof (cases "\<exists>e. r3 = Inl e \<or> (\<exists>x. r3 = Inr (Some x)) \<or> binding L run = Inl e")
        case True
        then show ?thesis
          using n1 n2 n3 \<open>r1 = Inr position\<close> Inr p3 assms
          by (cases "binding L run") (auto simp: save_progress_def bind_def ret_def fail_def lift_def
              split: sum.splits option.splits)
      next
        case False
        then obtain bound where b: "r3 = Inr None" "binding L run = Inr bound"
          by (metis (no_types, lifting) not_None_eq old.sum.exhaust)
        have nb: "not_behind L (fs_files (nd_fs n) (progress_path directory)) position"
        proof (cases "fs_files (nd_fs n) (progress_path directory)")
          case (Some old)
          then have "there" using fs_exists_Inr [OF n2 [unfolded Inr]] p1 by simp
          with n3 b obtain previous k m where l: "load_progress L client run directory n2 = (Inr previous, m)"
            "position_number previous = Inr k" "k \<le> br_number (po_block position)"
            by (auto simp: bind_Inr_iff split: if_splits)
          then have "json_parse L old = Some previous"
            using load_progress_Inr [OF l(1)] p2 Some by simp
          with l Some show ?thesis by (auto simp: not_behind_def)
        qed (simp add: not_behind_def)
        let ?w = "on_fs (atomic_json (json_pretty L) (fs_temp L directory) (Some directory) (progress_path directory)
          (progress_record bound token position) True)"
        have "save_progress L client run directory token n = bind ?w (\<lambda>_. ret (progress_record bound token position)) n3"
          using n1 n2 n3 \<open>r1 = Inr position\<close> Inr b by (simp add: save_progress_def bind_def Let_def lift_def)
        then have "?w n3 = (map_sum id (\<lambda>_. ()) r, n')"
          using assms by (cases "?w n3") (auto simp: bind_def ret_def split: sum.splits)
        with dec b nb p3 show ?thesis by blast
      qed
    qed
  qed
qed


section \<open>Examples\<close>

definition ex_encrypt :: "bytes \<Rightarrow> bytes option" where
  "ex_encrypt b = Some (b @ replicate 16 0)"

definition ex_decrypt :: "bytes \<Rightarrow> bytes option" where
  "ex_decrypt e = Some (take (length e - 16) e)"

definition ex_b64d :: "string \<Rightarrow> bytes option" where
  "ex_b64d s = (case ref_decode s of Inl _ \<Rightarrow> None | Inr b \<Rightarrow> Some b)"

lemma trim_padding_hex: "list_all is_lower_hex s \<Longrightarrow> trim_padding s = s"
proof -
  assume "list_all is_lower_hex s"
  then have "list_all is_lower_hex (rev s)" by (simp add: list_all_rev)
  then have "dropWhile (\<lambda>c. c = CHR ''='') (rev s) = rev s"
    by (cases "rev s") (auto simp: is_lower_hex_def is_digit_def less_eq_char_def)
  then show ?thesis by (simp add: trim_padding_def)
qed

lemma lower_hex_token: "is_lower_hex c \<Longrightarrow> token_char c"
  by (auto simp: is_lower_hex_def token_char_def is_ascii_alphanumeric_def is_ascii_alphabetic_def
      is_ascii_lowercase_def less_eq_char_def)

interpretation ex_cursor: cursor_codec ex_encrypt ex_decrypt ref_encode ex_b64d
proof
  fix x :: bytes assume "x \<noteq> []"
  have h: "list_all is_lower_hex (ref_encode x)" using ref_codec.set_enc by (auto simp: list_all_iff)
  with trim_padding_hex have "trim_padding (ref_encode x) = ref_encode x" by blast
  moreover have "ref_encode x \<noteq> []" using \<open>x \<noteq> []\<close> ref_codec.length_enc [of x] by auto
  moreover have "list_all token_char (ref_encode x)" using h lower_hex_token by (auto simp: list_all_iff)
  ultimately show "trim_padding (ref_encode x) \<noteq> [] \<and> list_all token_char (trim_padding (ref_encode x)) \<and>
      length (ref_encode x) - length (trim_padding (ref_encode x)) \<le> 2" by simp
qed (auto simp: ex_encrypt_def ex_decrypt_def ex_b64d_def ref_codec.dec_enc ref_codec.length_enc)

definition ex_ref :: BlockRef where
  "ex_ref = \<lparr>br_number = 100, br_hash = ''0x'' @ replicate 64 (CHR ''a'')\<rparr>"

definition ex_position :: Position where
  "ex_position = \<lparr>po_block = ex_ref, po_head = ex_ref, po_lib = ex_ref, po_step = 1\<rparr>"

lemma ex_position_ok: "position_ok ex_position"
  by (auto simp: position_ok_def ex_position_def ref_ok_def ex_ref_def list_all_iff is_lower_hex_def less_eq_char_def)

definition markers_sql :: string where
  "markers_sql = ''SELECT hash FROM _blocks_ FINAL WHERE number={number:UInt64} FORMAT JSONEachRow''"

definition ex_post :: "ClickHouse \<Rightarrow> (string \<times> string) list \<Rightarrow> string \<Rightarrow> unit \<Rightarrow> (http_error + Response) \<times> unit" where
  "ex_post c query body w = (Inr \<lparr>rs_code = 200, rs_success = True, rs_exception = None,
     rs_body = (if snd (query ! 1) = markers_sql then ''M'' else ''R''), rs_broken = False\<rparr>, w)"

definition ex_rows :: "string \<Rightarrow> json option" where
  "ex_rows s = (if s = ''M'' then Some (JObj [(''hash'', JStr (replicate 64 (CHR ''a'')))])
     else Some (JObj [(''accounts'', JStr ''x''), (''hash'', JStr (''0x'' @ replicate 64 (CHR ''a''))),
       (''producer_version'', jnum 5), (''schema_version'', jnum 1)]))"

definition ex_nodelib :: "unit nodelib" where
  "ex_nodelib = \<lparr>url_ok = (\<lambda>_. True), http_post = ex_post, json_parse = ex_rows, json_print = (\<lambda>_. []),
     nl_evm = ex_evm, sha256 = (\<lambda>_. []), b64_decode = ex_b64d, b64_encode = ref_encode,
     cursor_decrypt = ex_decrypt, cursor_encrypt = ex_encrypt, json_text = (\<lambda>_. []), json_pretty = (\<lambda>_. []),
     fs_temp = (\<lambda>d s. d @ ''/.tmp''),
     nl_read_dir = (\<lambda>_ _. []), nl_is_dir = (\<lambda>_. True), nl_lstat = (\<lambda>_. NotLink), nl_cwd = Inr [RootDir], nl_hostname = Inr ''h'',
     nl_uuid = (\<lambda>_. None), nl_new_id = (\<lambda>_. []), nl_clock = (\<lambda>k. Inr k), nl_pid = 1\<rparr>"

lemma ex_nodelib_simps:
  "http_post ex_nodelib = ex_post" "json_parse ex_nodelib = ex_rows" "b64_decode ex_nodelib = ex_b64d"
  "b64_encode ex_nodelib = ref_encode" "cursor_decrypt ex_nodelib = ex_decrypt" "cursor_encrypt ex_nodelib = ex_encrypt"
  "fs_temp ex_nodelib d s = d @ ''/.tmp''"
  by (simp_all add: ex_nodelib_def)

lemma ex_nodelib_codec:
  "cursor_codec (cursor_encrypt ex_nodelib) (cursor_decrypt ex_nodelib) (b64_encode ex_nodelib) (b64_decode ex_nodelib)"
  using ex_cursor.cursor_codec_axioms by (simp add: ex_nodelib_simps)

definition ex_token :: string where
  "ex_token = ref_encode (text_bytes (payload ex_position) @ replicate 16 0)"

lemma ex_cursor_encode: "encode_public ex_nodelib (payload ex_position) = Inr ex_token"
  by (simp add: encode_public_def ex_nodelib_simps ex_encrypt_def ex_token_def)

lemma ex_decoded: "cursor_decode ex_nodelib ex_token = Inr ex_position"
  by (rule decode_encoded [OF ex_nodelib_codec ex_position_ok ex_cursor_encode])

definition ex_run :: json where
  "ex_run = JObj [(''database_uuid'', JStr ''u''), (''identity'', JObj [(''accounts'', JArr [JStr ''x'']), (''start_block'', jnum 7)]),
     (''run_id'', JStr ''r'')]"

definition ex_node :: "unit node" where
  "ex_node = \<lparr>nd_db = (), nd_fs = \<lparr>fs_files = Map.empty, fs_plan = [Done, Done, Done, Torn 1]\<rparr>, nd_locks = [], nd_tick = 0\<rparr>"


end
