(* ===== verification/Host.thy ===== *)
theory Host
  imports Cursor
begin

text \<open>
  Machine identity, \<open>crates/evm-state/src/host.rs\<close>: the identity derived from an operating-system
  value, and whether a recorded host is this one.  The Linux branch of \<open>machine_id\<close> is modelled;
  the macOS branch runs an external program.
\<close>

definition darwin_id :: "string \<Rightarrow> bool" where
  "darwin_id v \<longleftrightarrow> length v = 36 \<and>
     list_all (\<lambda>(i, c). if i \<in> {8, 13, 18, 23} then c = CHR ''-'' else is_hexdigit c) (enumerate 0 v)"

definition from_os_value :: "('w, 'x) nodelib_scheme \<Rightarrow> string \<Rightarrow> string \<Rightarrow> string res" where
  "from_os_value L system raw =
     (let v = map to_ascii_lowercase (trim raw);
          valid = (if system = ''Linux'' then length v = 32 \<and> list_all is_hexdigit v
                   else if system = ''Darwin'' then darwin_id v else False) in
      ensure (valid \<and> list_ex (\<lambda>c. c \<noteq> CHR ''0'' \<and> c \<noteq> CHR ''-'') v)
        ''persistent local machine identity is unavailable''
        (Inr (''machine-sha256:'' @ hex_encode (nl_evm L) (sha256 L (system @ '':'' @ v)))))"

definition machine_id :: "('w, 'x) nodelib_scheme \<Rightarrow> ('w node, string) io" where
  "machine_id L = bind (on_fs (fs_read ''/etc/machine-id'')) (\<lambda>c. lift (from_os_value L ''Linux'' c))"

definition recovery_record_for :: "('w, 'x) nodelib_scheme \<Rightarrow> json \<Rightarrow> string \<Rightarrow> string \<Rightarrow> json res" where
  "recovery_record_for L record directory machine =
     bnd (string_field record ''host'') (\<lambda>host.
     bnd (resolve_path L directory) (\<lambda>directory.
     Inr (jobj [(''format_version'', JNum ''1''), (''original_host'', JStr host),
       (''record_sha256'', JStr (hex_encode (nl_evm L) (sha256 L (canonical_json (json_text L) record)))),
       (''directory'', JStr directory), (''machine_id'', JStr machine)])))"

definition matches_for :: "('w, 'x) nodelib_scheme \<Rightarrow> json \<Rightarrow> string \<Rightarrow> string \<Rightarrow> string \<Rightarrow> ('w node, bool) io" where
  "matches_for L record directory machine hostname =
     (case Option.bind (get record ''host'') as_str of
        None \<Rightarrow> ret False
      | Some expected \<Rightarrow>
          if expected = [] then ret False
          else if prefix ''machine-sha256:'' expected then ret (expected = machine)
          else bind (on_fs (fs_get (path_join directory ''host-rebinding.json''))) (\<lambda>recovery.
            case recovery of
              None \<Rightarrow> ret (expected = hostname)
            | Some c \<Rightarrow>
                bind (lift (recovery_record_for L record directory machine)) (\<lambda>wanted.
                ret (json_parse L c = Some wanted))))"

definition host_matches :: "('w, 'x) nodelib_scheme \<Rightarrow> json \<Rightarrow> string \<Rightarrow> ('w node, bool) io" where
  "host_matches L record directory =
     bind (machine_id L) (\<lambda>machine.
     bind (lift (nl_hostname L)) (\<lambda>name.
     matches_for L record directory machine name))"

lemma keeps_fs_get: "on_fs (fs_get p) n = (Inr (fs_files (nd_fs n) p), n)"
  by (simp add: on_fs_def fs_get_def)

text \<open>
  A record bound to a machine identity matches only that machine; a record bound to a host
  name matches by name only while no rebinding file exists, and once one exists it matches only if
  that file is the rebinding of this very record, directory and machine: renaming another machine
  to the recorded host name cannot take over a rebound record.
\<close>

lemma host_match_exact:
  assumes "get record ''host'' = Some (JStr expected)" "expected \<noteq> []" "resolve_path L directory = Inr d"
  shows "matches_for L record directory machine hostname n =
    (Inr (if prefix ''machine-sha256:'' expected then expected = machine
      else case fs_files (nd_fs n) (path_join directory ''host-rebinding.json'') of
        None \<Rightarrow> expected = hostname
      | Some c \<Rightarrow> json_parse L c = Some (jobj [(''format_version'', JNum ''1''), (''original_host'', JStr expected),
          (''record_sha256'', JStr (hex_encode (nl_evm L) (sha256 L (canonical_json (json_text L) record)))),
          (''directory'', JStr d), (''machine_id'', JStr machine)])), n)"
  using assms
  by (auto simp: matches_for_def bind_def keeps_fs_get recovery_record_for_def string_field_def lift_def ret_def
      split: option.splits)

end
