(* ===== verification/Control.thy ===== *)
theory Control
  imports Host
begin

text \<open>
  Single-host coordination, \<open>crates/evm-state/src/control.rs\<close>: object identifiers, the controller
  bound to one database, directory and machine, and its reader, publisher and retention locks.
  A guard is the scope in which its locks are held.
\<close>

definition object_id :: "string \<Rightarrow> string res" where
  "object_id id' = ensure (length id' = 32 \<and> list_all is_lower_hex id')
     ''expected a 32-character checkpoint or pin ID'' (Inr id')"

record ControlRecord =
  co_path :: string
  co_pins :: string
  co_record :: json

definition check_database_uuid :: "('w, 'x) nodelib_scheme \<Rightarrow> string \<Rightarrow> unit res" where
  "check_database_uuid L uuid =
     ensure (nl_uuid L uuid = Some uuid)
       ''checkpoint coordination requires an Atomic ClickHouse database'' (Inr ())"

definition control_record :: "string \<Rightarrow> string \<Rightarrow> string \<Rightarrow> string \<Rightarrow> json" where
  "control_record id' uuid path host =
     jobj [(''format_version'', JNum ''1''), (''control_id'', JStr id'), (''database_uuid'', JStr uuid),
       (''directory'', JStr path), (''host'', JStr host)]"

definition load_binding :: "('w, 'x) nodelib_scheme \<Rightarrow> string \<Rightarrow> string \<Rightarrow> bool \<Rightarrow> ('w node, json) io" where
  "load_binding L uuid path owned =
     (let file = path_join path ''binding.json'' in
      bind (on_fs (fs_exists file)) (\<lambda>there.
      if there then on_fs (read_json L file)
      else bind (check (\<not> owned) ''checkpoint control metadata is missing; restore the bound EVM_STATE_HOME'') (\<lambda>_.
        bind (new_id L) (\<lambda>id'. bind (machine_id L) (\<lambda>host.
        let record = control_record id' uuid path host in
        bind (on_fs (atomic_json (json_pretty L) (fs_temp L path) (Some path) file record False)) (\<lambda>_.
        ret record))))))"

definition claim_database :: "('w, 'x) nodelib_scheme \<Rightarrow> ClickHouse \<Rightarrow> json \<Rightarrow> string \<Rightarrow> ('w, unit) io" where
  "claim_database L client record control_id =
     bind (execute L client ''CREATE TABLE _evm_checkpoint_control (control_id String, binding String) ENGINE=MergeTree ORDER BY control_id SETTINGS fsync_after_insert=1, fsync_part_directory=1'' []) (\<lambda>_.
     insert_values L client ''_evm_checkpoint_control''
       [jobj [(''control_id'', JStr control_id), (''binding'', JStr (canonical_json (json_text L) record))]])"

definition owner_is :: "('w, 'x) nodelib_scheme \<Rightarrow> json \<Rightarrow> string \<Rightarrow> json \<Rightarrow> bool res" where
  "owner_is L owner control_id record =
     (if jstr_eq (index owner ''control_id'') control_id
      then bnd (string_field owner ''binding'') (\<lambda>text.
        bnd (context_res (json_parse L text) ''invalid JSON'') (\<lambda>b. Inr (b = record)))
      else Inr False)"

definition mark_initialized :: "('w, 'x) nodelib_scheme \<Rightarrow> string \<Rightarrow> string \<Rightarrow> ('w node, unit) io" where
  "mark_initialized L path control_id =
     (let file = path_join path ''initialized'' in
      bind (on_fs (fs_exists file)) (\<lambda>there.
      if there
      then bind (on_fs (fs_read file)) (\<lambda>c. check (c = control_id) ''checkpoint initialization marker is corrupt'')
      else on_fs (atomic_write (fs_temp L path) (Some path) file control_id False)))"

definition database_uuid :: "('w, 'x) nodelib_scheme \<Rightarrow> ClickHouse \<Rightarrow> ('w, string) io" where
  "database_uuid L client =
     bind (lift (params (jobj [(''db'', JStr (ch_database client))]))) (\<lambda>db.
     bind (one L client ''SELECT toString(uuid) AS id FROM system.databases WHERE name={db:String}'' db) (\<lambda>row.
     lift (string_field row ''id'')))"

definition quoted :: "string \<Rightarrow> string" where
  "quoted s = CHR 0x27 # s @ [CHR 0x27]"

definition control_owned :: "('w, 'x) nodelib_scheme \<Rightarrow> ClickHouse \<Rightarrow> ('w, bool) io" where
  "control_owned L client =
     bind (lift (params (jobj [(''db'', JStr (ch_database client))]))) (\<lambda>db.
     bind (one L client (''SELECT count() AS n FROM system.tables WHERE database={db:String} AND name='' @ quoted ''_evm_checkpoint_control'') db) (\<lambda>row.
     bind (lift (uint (index row ''n''))) (\<lambda>n. ret (n \<noteq> 0))))"

definition control_matches :: "('w, 'x) nodelib_scheme \<Rightarrow> json \<Rightarrow> string \<Rightarrow> string \<Rightarrow> ('w node, bool) io" where
  "control_matches L record uuid path =
     (if jstr_eq (index record ''database_uuid'') uuid \<and> jstr_eq (index record ''directory'') path
      then host_matches L record path
      else ret False)"

definition open_binding :: "('w, 'x) nodelib_scheme \<Rightarrow> ClickHouse \<Rightarrow> string \<Rightarrow> string \<Rightarrow> ('w node, json) io" where
  "open_binding L client uuid path =
     bind (on_db (control_owned L client)) (\<lambda>owned.
     bind (load_binding L uuid path owned) (\<lambda>record.
     bind (control_matches L record uuid path) (\<lambda>same.
     bind (check same ''checkpoint controller belongs to another database, directory or host'') (\<lambda>_.
     bind (lift (bnd (string_field record ''control_id'') object_id)) (\<lambda>control_id.
     bind (if owned then ret ()
           else bind (on_fs (fs_exists (path_join path ''initialized''))) (\<lambda>there.
                bind (check (\<not> there) ''database checkpoint ownership is missing; restore matching database and control metadata'') (\<lambda>_.
                on_db (claim_database L client record control_id)))) (\<lambda>_.
     bind (on_db (one L client ''SELECT control_id,binding FROM _evm_checkpoint_control'' [])) (\<lambda>owner.
     bind (lift (owner_is L owner control_id record)) (\<lambda>bound.
     bind (check bound ''database is bound to a different checkpoint controller'') (\<lambda>_.
     bind (mark_initialized L path control_id) (\<lambda>_.
     ret record))))))))))"

definition control_open :: "('w, 'x) nodelib_scheme \<Rightarrow> ClickHouse \<Rightarrow> ('w node, ControlRecord) io" where
  "control_open L client =
     bind (on_db (database_uuid L client)) (\<lambda>uuid.
     bind (lift (check_database_uuid L uuid)) (\<lambda>_.
     bind (lift (resolve_path L (ch_control_home client))) (\<lambda>home.
     let path = path_join home uuid in
     bind (on_fs fs_try) (\<lambda>_.
     bind (holding L (path_join path ''initialize.lock'') True (open_binding L client uuid path)) (\<lambda>record.
     bind (on_fs fs_try) (\<lambda>_.
     ret \<lparr>co_path = path, co_pins = path_join path ''pins'', co_record = record\<rparr>))))))"

section \<open>Locks of a controller\<close>

definition readers_lock :: "string \<Rightarrow> string" where "readers_lock path = path_join path ''readers.lock''"
definition writer_lock :: "string \<Rightarrow> string" where "writer_lock path = path_join path ''writer.lock''"

definition control_reader :: "('w, 'x) nodelib_scheme \<Rightarrow> ControlRecord \<Rightarrow> ('w node, 'a) io \<Rightarrow> ('w node, 'a) io" where
  "control_reader L control m = holding L (readers_lock (co_path control)) False m"

definition two_locks :: "('w, 'x) nodelib_scheme \<Rightarrow> string \<Rightarrow> bool \<Rightarrow> ('w node, 'a) io \<Rightarrow> ('w node, 'a) io" where
  "two_locks L path exclusive m =
     bind (acquire L (writer_lock path) True) (\<lambda>_ n.
       case acquire L (readers_lock path) exclusive n of
         (Inl e, n') \<Rightarrow> (Inl e, release L (writer_lock path) True n')
       | (Inr _, n') \<Rightarrow>
           (case m n' of (r, n'') \<Rightarrow> (r, release L (readers_lock path) exclusive (release L (writer_lock path) True n''))))"

definition control_publisher :: "('w, 'x) nodelib_scheme \<Rightarrow> ControlRecord \<Rightarrow> ('w node, 'a) io \<Rightarrow> ('w node, 'a) io" where
  "control_publisher L control m = two_locks L (co_path control) False m"

definition control_retention :: "('w, 'x) nodelib_scheme \<Rightarrow> ControlRecord \<Rightarrow> ('w node, 'a) io \<Rightarrow> ('w node, 'a) io" where
  "control_retention L control m = two_locks L (co_path control) True m"

section \<open>Metadata is only ever added\<close>

definition grows :: "('w node, 'a) io \<Rightarrow> bool" where
  "grows m \<longleftrightarrow> (\<forall>n. fs_files (nd_fs n) \<subseteq>\<^sub>m fs_files (nd_fs (snd (m n))))"

definition temp_ok :: "('w, 'x) nodelib_scheme \<Rightarrow> bool" where
  "temp_ok L \<longleftrightarrow> (\<forall>d s. \<exists>r. fs_temp L d s = path_join d (''.tmp'' @ r))"

lemma grows_simple [simp]:
  "grows (ret v)" "grows (fail e)" "grows (lift r)" "grows (check c e)" "grows (on_db m)" "grows (on_locks f)" "grows (draw g)"
  by (simp_all add: grows_def on_db_fs on_locks_keeps draw_def)

lemma grows_bind: "grows m \<Longrightarrow> (\<And>v. grows (f v)) \<Longrightarrow> grows (bind m f)"
  by (auto simp: grows_def bind_def split: prod.splits sum.splits) (metis map_le_trans snd_conv)+

lemma grows_fs_try [simp]: "grows (on_fs fs_try)"
  using fs_try_files by (simp add: grows_def on_fs_def case_prod_unfold)

lemma grows_fs_get [simp]: "grows (on_fs (fs_get p))"
  by (simp add: grows_def on_fs_def fs_get_def)

lemma on_fs_bind: "on_fs (bind m f) = bind (on_fs m) (\<lambda>v. on_fs (f v))"
  by (rule ext) (simp add: on_fs_def bind_def split: prod.splits sum.splits)

lemma on_fs_lift [simp]: "on_fs (lift r) = lift r" "on_fs (ret v) = ret v" "on_fs (fail e) = fail e"
  by (rule ext, simp add: on_fs_def lift_def ret_def fail_def)+

lemma grows_reads [simp]: "grows (on_fs (fs_read p))" "grows (on_fs (fs_exists p))" "grows (on_fs (read_json L p))"
  by (auto simp: fs_read_def fs_exists_def read_json_def on_fs_bind intro!: grows_bind split: option.split)

lemma path_join_inj: "path_join d f = path_join d g \<longleftrightarrow> f = g"
  by (simp add: path_join_def)

lemma create_effect:
  assumes "temp_ok L" "\<not> prefix ''.tmp'' f"
  shows "let (r, s') = atomic_write (fs_temp L d) parent (path_join d f) bytes False s in
    fs_files s \<subseteq>\<^sub>m fs_files s' \<and> (is_ok r \<longrightarrow> fs_files s' (path_join d f) = Some bytes)"
proof -
  have "\<forall>x. fs_temp L d x \<noteq> path_join d f"
    using assms by (metis path_join_inj temp_ok_def prefixI)
  from atomic_write_effect [OF this, of parent bytes False s] show ?thesis
    unfolding map_le_def by (auto simp: Let_def split: prod.splits) (metis domI domIff)+
qed

lemma grows_create:
  assumes "temp_ok L" "\<not> prefix ''.tmp'' f"
  shows "grows (on_fs (atomic_write (fs_temp L d) parent (path_join d f) bytes False))"
  using create_effect [OF assms, of d parent bytes] by (auto simp: grows_def on_fs_def case_prod_unfold Let_def)

lemma grows_acquire: "grows (acquire L p x)"
  unfolding acquire_def by (intro grows_bind) simp_all

lemma grows_holding: "grows m \<Longrightarrow> grows (holding L p x m)"
  unfolding holding_def by (intro grows_bind grows_acquire) (simp add: grows_def case_prod_unfold)

lemma grows_machine_id: "grows (machine_id L)"
  unfolding machine_id_def by (intro grows_bind) simp_all

lemma grows_host_matches: "grows (host_matches L record d)"
  unfolding host_matches_def matches_for_def
  by (auto intro!: grows_bind grows_machine_id split: option.split)

lemma grows_load_binding: "temp_ok L \<Longrightarrow> grows (load_binding L uuid path owned)"
  unfolding load_binding_def Let_def atomic_json_def new_id_def
  by (intro grows_bind) (auto intro!: grows_bind grows_machine_id grows_create)

lemma grows_mark_initialized: "temp_ok L \<Longrightarrow> grows (mark_initialized L path i)"
  unfolding mark_initialized_def Let_def
  by (intro grows_bind) (auto intro!: grows_bind grows_create)

lemma grows_open_binding: "temp_ok L \<Longrightarrow> grows (open_binding L client uuid path)"
  unfolding open_binding_def control_matches_def
  by (auto intro!: grows_bind grows_load_binding grows_mark_initialized grows_host_matches)

lemma grows_control_open: "temp_ok L \<Longrightarrow> grows (control_open L client)"
  unfolding control_open_def Let_def
  by (auto intro!: grows_bind grows_holding grows_open_binding)

lemma growsD: "grows m \<Longrightarrow> m n = (r, n') \<Longrightarrow> fs_files (nd_fs n) q = Some c \<Longrightarrow> fs_files (nd_fs n') q = Some c"
  unfolding grows_def map_le_def by (metis domI snd_conv)

lemma mark_initialized_marks:
  assumes "temp_ok L" "mark_initialized L path i n = (Inr u, n')"
  shows "fs_files (nd_fs n') (path_join path ''initialized'') = Some i"
proof -
  let ?file = "path_join path ''initialized''"
  obtain there n1 where e: "on_fs (fs_exists ?file) n = (Inr there, n1)"
    and r: "(if there then bind (on_fs (fs_read ?file)) (\<lambda>c. check (c = i) ''checkpoint initialization marker is corrupt'')
        else on_fs (atomic_write (fs_temp L path) (Some path) ?file i False)) n1 = (Inr u, n')"
    using assms(2) by (auto simp: mark_initialized_def Let_def io_simps)
  show ?thesis
  proof (cases there)
    case True
    with r show ?thesis
      by (auto simp: io_simps fs_read_def fs_get_def split: option.splits if_splits)
  next
    case False
    with r create_effect [OF assms(1), of "''initialized''" path "Some path" i "nd_fs n1"] show ?thesis
      by (auto simp: on_fs_def split: prod.splits)
  qed
qed

lemma open_binding_Inr:
  assumes "temp_ok L" "open_binding L client uuid path n = (Inr record, n')"
  shows "jstr_eq (index record ''database_uuid'') uuid \<and> jstr_eq (index record ''directory'') path \<and>
    (\<exists>i. get record ''control_id'' = Some (JStr i) \<and> object_id i = Inr i \<and>
      fs_files (nd_fs n') (path_join path ''initialized'') = Some i)"
proof -
  obtain r same i n1 n2 n3 n4 n5 where s:
      "control_matches L r uuid path n1 = (Inr same, n2)" "same"
      "bnd (string_field r ''control_id'') object_id = Inr i" "mark_initialized L path i n3 = (Inr (), n')" "r = record"
    using assms(2) unfolding open_binding_def bind_Inr_iff by (auto split: if_splits)
  from s(1,2) have "jstr_eq (index record ''database_uuid'') uuid" "jstr_eq (index record ''directory'') path"
    by (auto simp: control_matches_def s(5) split: if_splits)
  moreover from s(3) have "get record ''control_id'' = Some (JStr i)" "object_id i = Inr i"
    by (auto simp: res_simps string_field_Inr object_id_def s(5))
  ultimately show ?thesis using mark_initialized_marks [OF assms(1) s(4)] by blast
qed


definition ex_control_node :: "unit node" where
  "ex_control_node = ex_node\<lparr>nd_fs := \<lparr>fs_files = [''/h/u/binding.json'' \<mapsto> ''{}''], fs_plan = [Fault]\<rparr>\<rparr>"


section \<open>The lock protocol\<close>

text \<open>
  The operations of all processes of the host as one state machine: what each operation holds,
  and the locks granted.  The writer lock and the readers lock are taken in two steps, between
  which others may run.
\<close>

datatype phase = Idle | Reading | Writing bool | Publishing | Retaining

type_synonym proto = "(nat \<Rightarrow> phase) \<times> nat locks"

inductive lock_step :: "string \<Rightarrow> proto \<Rightarrow> proto \<Rightarrow> bool" for path where
  read: "ph p = Idle \<Longrightarrow> file_lock (readers_lock path) p False ls = Inr ls' \<Longrightarrow>
    lock_step path (ph, ls) (ph(p := Reading), ls')"
| read_end: "ph p = Reading \<Longrightarrow> lock_step path (ph, ls) (ph(p := Idle), unlock (readers_lock path) p False ls)"
| writer: "ph p = Idle \<Longrightarrow> file_lock (writer_lock path) p True ls = Inr ls' \<Longrightarrow>
    lock_step path (ph, ls) (ph(p := Writing retention), ls')"
| publish: "ph p = Writing False \<Longrightarrow> file_lock (readers_lock path) p False ls = Inr ls' \<Longrightarrow>
    lock_step path (ph, ls) (ph(p := Publishing), ls')"
| retain: "ph p = Writing True \<Longrightarrow> file_lock (readers_lock path) p True ls = Inr ls' \<Longrightarrow>
    lock_step path (ph, ls) (ph(p := Retaining), ls')"
| give_up: "ph p = Writing True \<Longrightarrow> file_lock (readers_lock path) p True ls = Inl e \<Longrightarrow>
    lock_step path (ph, ls) (ph(p := Idle), unlock (writer_lock path) p True ls)"
| publish_end: "ph p = Publishing \<Longrightarrow>
    lock_step path (ph, ls) (ph(p := Idle), unlock (readers_lock path) p False (unlock (writer_lock path) p True ls))"
| retain_end: "ph p = Retaining \<Longrightarrow>
    lock_step path (ph, ls) (ph(p := Idle), unlock (readers_lock path) p True (unlock (writer_lock path) p True ls))"

inductive lock_reachable :: "string \<Rightarrow> proto \<Rightarrow> bool" for path where
  start: "lock_reachable path (\<lambda>_. Idle, [])"
| step: "lock_reachable path s \<Longrightarrow> lock_step path s t \<Longrightarrow> lock_reachable path t"

inductive_cases lock_stepE: "lock_step path (ph, ls) t"

fun holds :: "string \<Rightarrow> phase \<Rightarrow> (string \<times> hold) set" where
  "holds path Idle = {}"
| "holds path Reading = {(readers_lock path, Shared)}"
| "holds path (Writing k) = {(writer_lock path, Exclusive)}"
| "holds path Publishing = {(writer_lock path, Exclusive), (readers_lock path, Shared)}"
| "holds path Retaining = {(writer_lock path, Exclusive), (readers_lock path, Exclusive)}"

definition held :: "string \<Rightarrow> (nat \<Rightarrow> phase) \<Rightarrow> (string \<times> nat \<times> hold) set" where
  "held path ph = {(q, p, h). (q, h) \<in> holds path (ph p)}"

definition compatible :: "(string \<times> nat \<times> hold) set \<Rightarrow> bool" where
  "compatible S \<longleftrightarrow> (\<forall>x \<in> S. \<forall>y \<in> S. snd (snd x) = Exclusive \<and> fst x = fst y \<longrightarrow> x = y)"

definition lock_inv :: "string \<Rightarrow> (nat \<Rightarrow> phase) \<Rightarrow> nat locks \<Rightarrow> bool" where
  "lock_inv path ph ls \<longleftrightarrow> distinct ls \<and> set ls = held path ph \<and> compatible (set ls)"

lemma locks_differ [simp]: "readers_lock path \<noteq> writer_lock path" "writer_lock path \<noteq> readers_lock path"
  by (simp_all add: readers_lock_def writer_lock_def path_join_def)

lemma file_lock_Inr: "file_lock q p x ls = Inr ls' \<longleftrightarrow>
    ls' = (q, p, if x then Exclusive else Shared) # ls \<and> (\<forall>(a, b, h) \<in> set ls. a = q \<longrightarrow> \<not> x \<and> h = Shared)"
  by (auto simp: file_lock_def lock_free_def list_all_iff)

lemma lock_inv_grant:
  assumes "lock_inv path ph ls" "file_lock q p x ls = Inr ls'"
    and "(q, if x then Exclusive else Shared) \<notin> holds path (ph p)"
    and "holds path new = insert (q, if x then Exclusive else Shared) (holds path (ph p))"
  shows "lock_inv path (ph(p := new)) ls'"
proof -
  let ?h = "if x then Exclusive else Shared"
  have "held path (ph(p := new)) = insert (q, p, ?h) (held path ph)" "(q, p, ?h) \<notin> held path ph"
    using assms(3,4) by (auto simp: held_def split: if_splits)
  moreover have "compatible (insert (q, p, ?h) (set ls))"
    using assms(1,2) unfolding lock_inv_def compatible_def file_lock_Inr by (cases x) fastforce+
  ultimately show ?thesis using assms(1,2) by (simp add: lock_inv_def file_lock_Inr)
qed

lemma lock_inv_drop:
  assumes "lock_inv path ph ls" "holds path new = holds path (ph p) - {(q, if x then Exclusive else Shared)}"
  shows "lock_inv path (ph(p := new)) (unlock q p x ls)"
proof -
  define h where "h = (if x then Exclusive else Shared)"
  have "(a, b, c) \<in> held path (ph(p := new)) \<longleftrightarrow> (a, b, c) \<in> held path ph - {(q, p, h)}" for a b c
    using assms(2) by (cases "b = p") (simp_all add: held_def h_def [symmetric])
  then have "held path (ph(p := new)) = held path ph - {(q, p, h)}" by auto
  with assms(1) show ?thesis by (auto simp: lock_inv_def unlock_def compatible_def h_def)
qed

lemma lock_inv_drop2:
  assumes "lock_inv path ph ls" "ph p = Publishing \<and> \<not> x \<or> ph p = Retaining \<and> x"
  shows "lock_inv path (ph(p := Idle)) (unlock (readers_lock path) p x (unlock (writer_lock path) p True ls))"
proof -
  have "held path (ph(p := Idle)) = held path ph - {(writer_lock path, p, Exclusive)} -
      {(readers_lock path, p, if x then Exclusive else Shared)}"
    using assms(2) by (auto simp: held_def split: if_splits)
  with assms(1) show ?thesis by (auto simp: lock_inv_def unlock_def compatible_def)
qed

lemma lock_inv_step:
  assumes "lock_step path (ph, ls) (ph', ls')" "lock_inv path ph ls"
  shows "lock_inv path ph' ls'"
  using assms(1)
proof cases
  case (read p)
  then show ?thesis by (auto intro: lock_inv_grant [OF assms(2) read(3)])
next
  case (read_end p)
  then show ?thesis by (auto intro: lock_inv_drop [OF assms(2)])
next
  case (writer p k)
  then show ?thesis by (auto intro: lock_inv_grant [OF assms(2) writer(3)])
next
  case (publish p)
  then show ?thesis by (auto intro: lock_inv_grant [OF assms(2) publish(3)])
next
  case (retain p)
  then show ?thesis by (auto intro: lock_inv_grant [OF assms(2) retain(3)])
next
  case (give_up p e)
  then show ?thesis by (auto intro: lock_inv_drop [OF assms(2)])
next
  case (publish_end p)
  then show ?thesis by (auto intro: lock_inv_drop2 [OF assms(2)])
next
  case (retain_end p)
  then show ?thesis by (auto intro: lock_inv_drop2 [OF assms(2)])
qed

lemma lock_inv_reachable: "lock_reachable path s \<Longrightarrow> lock_inv path (fst s) (snd s)"
proof (induction rule: lock_reachable.induct)
  case start
  show ?case by (simp add: lock_inv_def held_def compatible_def)
next
  case (step s t)
  then show ?case by (cases s; cases t) (auto intro: lock_inv_step)
qed

lemma held_writer: "(writer_lock path, p, Exclusive) \<in> held path ph \<longleftrightarrow>
    ph p = Publishing \<or> ph p = Retaining \<or> (\<exists>k. ph p = Writing k)"
  by (cases "ph p") (simp_all add: held_def)

lemma held_readers: "(readers_lock path, p, h) \<in> held path ph \<longleftrightarrow>
    (if h = Shared then ph p = Reading \<or> ph p = Publishing else ph p = Retaining)"
  by (cases "ph p"; cases h) (simp_all add: held_def)

text \<open>
  C23: under any interleaving of readers, publishers and retention runs, at most one process is
  past the writer lock, while one is retaining no other reads or publishes, and a publisher that
  holds the writer lock always obtains the shared lock at once.
\<close>

theorem lock_exclusion:
  assumes "lock_reachable path (ph, ls)"
  shows "(\<forall>p q. ph p \<in> {Publishing, Retaining, Writing True, Writing False} \<and>
      ph q \<in> {Publishing, Retaining, Writing True, Writing False} \<longrightarrow> p = q) \<and>
    (\<forall>p q. ph p = Retaining \<and> ph q \<in> {Reading, Publishing, Retaining} \<longrightarrow> p = q) \<and>
    (\<forall>p. ph p = Writing False \<longrightarrow> (\<exists>ls'. file_lock (readers_lock path) p False ls = Inr ls'))"
proof -
  from lock_inv_reachable [OF assms] have inv: "lock_inv path ph ls" by simp
  then have c: "x = y" if "x \<in> held path ph" "y \<in> held path ph" "snd (snd x) = Exclusive" "fst x = fst y" for x y
    using that by (auto simp: lock_inv_def compatible_def)
  have one: "p = q" if "ph p \<in> {Publishing, Retaining, Writing True, Writing False}"
      "ph q \<in> {Publishing, Retaining, Writing True, Writing False}" for p q
    using c [of "(writer_lock path, p, Exclusive)" "(writer_lock path, q, Exclusive)"] that by (auto simp: held_writer)
  have two: "p = q" if "ph p = Retaining" "ph q \<in> {Reading, Publishing, Retaining}" for p q
    using c [of "(readers_lock path, p, Exclusive)" "(readers_lock path, q, Exclusive)"]
      c [of "(readers_lock path, p, Exclusive)" "(readers_lock path, q, Shared)"] that
    by (cases "ph q") (simp_all add: held_readers)
  have three: "\<exists>ls'. file_lock (readers_lock path) p False ls = Inr ls'" if w: "ph p = Writing False" for p
  proof -
    have "h = Shared" if "(readers_lock path, q, h) \<in> held path ph" for q h
      using that one [of p q] w by (cases h) (auto simp: held_readers)
    with inv show ?thesis by (auto simp: file_lock_Inr lock_inv_def)
  qed
  show ?thesis by (intro conjI allI impI; (elim conjE)?; (rule one two three; assumption))
qed

lemma ex_reachable:
  "lock_reachable ''d'' ((\<lambda>_. Idle)(0 := Writing False, 1 := Reading),
     [(readers_lock ''d'', 1, Shared), (writer_lock ''d'', 0, Exclusive)])"
proof -
  have "lock_reachable ''d'' ((\<lambda>_. Idle)(0 := Writing False), [(writer_lock ''d'', 0, Exclusive)])"
    by (rule lock_reachable.step [OF lock_reachable.start lock_step.writer]) (simp_all add: file_lock_Inr)
  then show ?thesis
    by (rule lock_reachable.step [OF _ lock_step.read]) (simp_all add: file_lock_Inr)
qed

theorem lock_exclusion_witness:
  "\<exists>ls'. file_lock (readers_lock ''d'') (0 :: nat) False [(readers_lock ''d'', 1, Shared), (writer_lock ''d'', 0, Exclusive)] = Inr ls'"
  by (rule lock_exclusion [OF ex_reachable, THEN conjunct2, THEN conjunct2, rule_format]) simp

end
