(* ===== verification/Manifest.thy ===== *)
theory Manifest
  imports Control
begin

text \<open>
  Published checkpoints, the reading half of \<open>crates/evm-state/src/checkpoint.rs\<close>: selected account
  lists, the ready manifest, one account of a checkpoint, the check of an input range of blocks and
  the SQL of the state a checkpoint is built from.
\<close>

definition ZERO :: string where
  "ZERO = ''0x'' @ replicate 64 (CHR ''0'')"

definition account_texts :: "json \<Rightarrow> string list res" where
  "account_texts values =
     (case as_str values of
        Some t \<Rightarrow> Inr (filter (\<lambda>w. w \<noteq> []) (split_on (\<lambda>c. c = CHR '','' \<or> is_whitespace c) t))
      | None \<Rightarrow>
          (case as_object values of
             Some fs \<Rightarrow> Inr (map fst fs)
           | None \<Rightarrow>
               bnd (context_res (as_array values) ''account filter must be a list'') (\<lambda>vs.
               map_res (\<lambda>v. context_res (as_str v) ''invalid account address'') vs)))"

definition canonical_accounts :: "('w, 'x) nodelib_scheme \<Rightarrow> json \<Rightarrow> string list res" where
  "canonical_accounts L values =
     bnd (account_texts values) (\<lambda>vs.
     bnd (bnd (map_res (address (nl_evm L)) vs) (\<lambda>found. Inr (sort (remdups found)))) (\<lambda>result.
     ensure (result \<noteq> []) ''selected account list is empty'' (Inr result)))"

definition checkpoint_setup :: "('w, 'x) nodelib_scheme \<Rightarrow> ClickHouse \<Rightarrow> string \<Rightarrow> ('w, unit) io" where
  "checkpoint_setup L client checkpoints_sql =
     bind (lift (with_database client ''default'')) (\<lambda>c.
     bind (execute L c (''CREATE DATABASE IF NOT EXISTS '' @ ch_database client) []) (\<lambda>_.
     for_each (\<lambda>statement. bind (execute L client statement []) (\<lambda>_. ret ()))
       (filter (\<lambda>v. trim v \<noteq> []) (split_on (\<lambda>c. c = CHR '';'') checkpoints_sql))))"

definition manifest_unlocked :: "('w, 'x) nodelib_scheme \<Rightarrow> ClickHouse \<Rightarrow> string \<Rightarrow> ('w, json) io" where
  "manifest_unlocked L client snapshot_id =
     bind (lift (object_id snapshot_id)) (\<lambda>_.
     bind (lift (params (jobj [(''id'', JStr snapshot_id)]))) (\<lambda>ps.
     bind (one L client ''SELECT manifest FROM checkpoints FINAL WHERE snapshot_id={id:String}'' ps) (\<lambda>row.
     bind (lift (bnd (string_field row ''manifest'') (\<lambda>t. context_res (json_parse L t) ''invalid JSON''))) (\<lambda>data.
     bind (check (jstr_eq (index data ''snapshot_id'') snapshot_id \<and> jstr_eq (index data ''status'') ''ready'')
       ''checkpoint has no valid ready manifest'') (\<lambda>_.
     ret data)))))"

definition manifest :: "('w, 'x) nodelib_scheme \<Rightarrow> ClickHouse \<Rightarrow> string \<Rightarrow> ('w node, json) io" where
  "manifest L client snapshot_id =
     bind (control_open L client) (\<lambda>owner.
     control_reader L owner (on_db (manifest_unlocked L client snapshot_id)))"

definition read_account_unlocked :: "('w, 'x) nodelib_scheme \<Rightarrow> ClickHouse \<Rightarrow> string \<Rightarrow> string \<Rightarrow> ('w, json) io" where
  "read_account_unlocked L client snapshot_id selected =
     bind (manifest_unlocked L client snapshot_id) (\<lambda>published.
     bind (lift (address (nl_evm L) selected)) (\<lambda>selected.
     bind (lift (context_res (as_array (index published ''accounts'')) ''invalid checkpoint accounts'')) (\<lambda>accounts.
     bind (check (JStr selected \<in> set accounts) ''account is not ready in this checkpoint'') (\<lambda>_.
     bind (lift (params (jobj [(''id'', JStr snapshot_id), (''address'', JStr selected)]))) (\<lambda>ps.
     bind (one L client ''SELECT address, exists, nonce, balance, code_hash, code, storage_root, nonzero_slots FROM checkpoint_accounts FINAL WHERE snapshot_id={id:String} AND address={address:String}'' ps) (\<lambda>row.
     ret (jset (jset row ''snapshot_id'' (JStr snapshot_id)) ''header'' (index published ''header'')))))))) "

definition read_account :: "('w, 'x) nodelib_scheme \<Rightarrow> ClickHouse \<Rightarrow> string \<Rightarrow> string \<Rightarrow> ('w node, json) io" where
  "read_account L client snapshot_id selected =
     bind (control_open L client) (\<lambda>owner.
     control_reader L owner (on_db (read_account_unlocked L client snapshot_id selected)))"

section \<open>The input range\<close>

record interval =
  iv_expected :: u64
  iv_count :: u64
  iv_previous :: "string option"

definition interval_start :: "json \<Rightarrow> json \<Rightarrow> u64 \<Rightarrow> u64 \<Rightarrow> interval res" where
  "interval_start source header start last_block =
     (case get source ''bootstrap'' of
        None \<Rightarrow> Inr \<lparr>iv_expected = start, iv_count = 0, iv_previous = None\<rparr>
      | Some pre \<Rightarrow>
          bnd (uint (index (index pre ''header'') ''number'')) (\<lambda>number.
          ensure (index source ''start_block'' = index pre ''start_block'' \<and> number \<le> last_block)
            ''checkpoint range cannot use this compacted bootstrap prefix''
          (bnd (string_field (index pre ''header'') ''hash'') (\<lambda>previous.
           let expected = number + 1 in
           ensure (expected = last_block + 1 \<longrightarrow>
               index (index pre ''header'') ''hash'' = index header ''hash'' \<and>
               index (index pre ''header'') ''state_root'' = index header ''state_root'')
             ''bootstrap checkpoint differs from proof header''
           (Inr \<lparr>iv_expected = expected, iv_count = expected - start, iv_previous = Some previous\<rparr>)))))"

definition interval_row :: "('w, 'x) nodelib_scheme \<Rightarrow> json \<Rightarrow> json \<Rightarrow> string \<Rightarrow> u64 \<Rightarrow> json \<Rightarrow> interval \<Rightarrow> interval res" where
  "interval_row L source header accounts last_block row s =
     bnd (uint (index row ''number'')) (\<lambda>number.
     ensure (number = iv_expected s) (''missing or conflicting block at '' @ show_u64 (iv_expected s))
     (bnd (if jstr_eq (index row ''accounts'') accounts
           then bnd (uint (index row ''schema_version'')) (\<lambda>v. Inr (v = 1)) else Inr False) (\<lambda>same.
      ensure same (''account filter or schema changed at block '' @ show_u64 number)
      (bnd (uint (index row ''producer_version'')) (\<lambda>producer.
       ensure (3 \<le> producer \<and> producer \<le> 5) (''unsupported producer version at block '' @ show_u64 number)
       (bnd (bnd (string_field row ''hash'') (fixed (nl_evm L) 32)) (\<lambda>_.
        bnd (bnd (string_field row ''parent_hash'') (fixed (nl_evm L) 32)) (\<lambda>_.
        ensure (case iv_previous s of None \<Rightarrow> True | Some p \<Rightarrow> jstr_eq (index row ''parent_hash'') p)
          (''broken parent continuity at block '' @ show_u64 number)
        (ensure (number = last_block \<longrightarrow> index row ''hash'' = index header ''hash'' \<and>
             index row ''state_root'' = index header ''state_root'')
          ''stream checkpoint differs from proof header''
         (ensure (iv_count s = 0 \<longrightarrow> (case get source ''parent_hash'' of None \<Rightarrow> True
              | Some parent \<Rightarrow> index row ''parent_hash'' = parent))
            ''stream does not continue the base checkpoint''
          (bnd (string_field row ''hash'') (\<lambda>hash.
           Inr \<lparr>iv_expected = iv_expected s + 1, iv_count = iv_count s + 1, iv_previous = Some hash\<rparr>))))))))))))"

definition blocks_sql :: string where
  "blocks_sql = ''SELECT number, hash, parent_hash, state_root, accounts, schema_version, producer_version FROM state_blocks FINAL WHERE number >= {start:UInt64} AND number <= {end:UInt64} ORDER BY number, hash''"

definition validate_interval :: "('w, 'x) nodelib_scheme \<Rightarrow> ClickHouse \<Rightarrow> json \<Rightarrow> json \<Rightarrow> ('w, u64) io" where
  "validate_interval L client source header =
     bind (lift (uint (index source ''start_block''))) (\<lambda>start.
     bind (lift (uint (index header ''number''))) (\<lambda>last_block.
     bind (check (start \<le> last_block \<and> last_block < u64_max) ''invalid checkpoint input range'') (\<lambda>_.
     bind (lift (canonical_accounts L (index source ''accounts''))) (\<lambda>accounts.
     bind (lift (interval_start source header start last_block)) (\<lambda>s.
     bind (lift (params (jobj [(''start'', jnum (iv_expected s)), (''end'', jnum last_block)]))) (\<lambda>ps.
     bind (each_row L client blocks_sql ps (interval_row L source header (join '','' accounts) last_block) s) (\<lambda>t.
     bind (check (iv_expected t = last_block + 1)
       (''incomplete stream: expected through block '' @ show_u64 last_block @ '', got through block '' @
         show_u64 (saturating_sub (iv_expected t) 1))) (\<lambda>_.
     ret (iv_count t)))))))))"

section \<open>The state a checkpoint is built from\<close>

record queries =
  qs_params :: "(string \<times> json) list"
  qs_queries :: "string list"
  qs_resets :: "string list"

definition source_query :: "nat \<times> json \<Rightarrow> queries \<Rightarrow> queries res" where
  "source_query e s = (case e of (i, source) \<Rightarrow>
     bnd (bnd (string_field source ''database'') ch_identifier) (\<lambda>database.
     let n = show_nat i;
         s = s\<lparr>qs_params := bt_insert (''start'' @ n)
           (case get source ''delta_start'' of Some v \<Rightarrow> v | None \<Rightarrow> index source ''start_block'') (qs_params s)\<rparr>;
         s = (case get source ''bootstrap'' of None \<Rightarrow> s
           | Some pre \<Rightarrow> s\<lparr>qs_params := bt_insert (''prefix_number'' @ n) (index (index pre ''header'') ''number'')
                 (bt_insert (''prefix'' @ n) (index pre ''generation'') (qs_params s)),
               qs_queries := qs_queries s @ [''SELECT address,slot,value,tuple({prefix_number'' @ n @ '':UInt64},toUInt64(0)) AS position FROM '' @ database @ ''.bootstrap_storage WHERE generation={prefix'' @ n @ '':String}'']\<rparr>) in
     Inr (s\<lparr>qs_queries := qs_queries s @ [''SELECT storage.address AS address, storage.slot AS slot, storage.value AS value, tuple(number, storage.ordinal) AS position FROM '' @ database @ ''.state_blocks FINAL ARRAY JOIN storage WHERE number >= {start'' @ n @ '':UInt64} AND number <= {end:UInt64}''],
       qs_resets := qs_resets s @ [''SELECT lifecycle.address AS address, tuple(number, lifecycle.ordinal) AS position FROM '' @ database @ ''.state_blocks FINAL ARRAY JOIN lifecycle WHERE number >= {start'' @ n @ '':UInt64} AND number <= {end:UInt64} AND lifecycle.kind='' @ quoted ''storage_reset'']\<rparr>)))"

definition union_storage :: "json list \<Rightarrow> json option \<Rightarrow> (string \<times> json) list \<Rightarrow> (string \<times> (string \<times> json) list) res" where
  "union_storage sources base ps =
     bnd (fold_res source_query (enumerate 0 sources) \<lparr>qs_params = ps, qs_queries = [], qs_resets = []\<rparr>) (\<lambda>s.
     let s = (case base of None \<Rightarrow> s
       | Some b \<Rightarrow> s\<lparr>qs_params := bt_insert ''base_number'' (index (index b ''header'') ''number'')
             (bt_insert ''base'' (index b ''snapshot_id'') (qs_params s)),
           qs_queries := qs_queries s @ [''SELECT address, slot, value, tuple({base_number:UInt64}, toUInt64(0)) AS position FROM checkpoint_storage FINAL WHERE snapshot_id={base:String}'']\<rparr>);
         union = join '' UNION ALL '' (qs_queries s) in
     ensure (qs_queries s \<noteq> []) ''checkpoint has no source state''
     (Inr (if qs_resets s = [] then union
           else ''SELECT address,slot,value,position FROM ('' @ union @ '') AS changes LEFT JOIN (SELECT address,max(position) AS reset,count() AS reset_count FROM ('' @
             join '' UNION ALL '' (qs_resets s) @ '') GROUP BY address) AS deletions USING(address) WHERE reset_count=0 OR position > reset'',
       qs_params s)))"

definition extend :: "json \<Rightarrow> (string \<times> json) list \<Rightarrow> json res" where
  "extend v fs = (case v of JObj old \<Rightarrow> Inr (JObj (fold (\<lambda>(k, x). bt_insert k x) fs old))
     | _ \<Rightarrow> Inl ''called Option::unwrap() on a None value'')"

definition or_empty :: "json \<Rightarrow> string \<Rightarrow> json" where
  "or_empty result account = (case get result account of None \<Rightarrow> jset result account (JObj []) | Some _ \<Rightarrow> result)"

definition base_fields :: "json \<Rightarrow> json \<Rightarrow> json res" where
  "base_fields row result =
     bnd (string_field row ''address'') (\<lambda>account.
     bnd (uint (index row ''nonce'')) (\<lambda>nonce.
     Inr (jset result account (jobj [(''nonce'', jnum nonce), (''balance'', index row ''balance''),
       (''code_hash'', index row ''code_hash''), (''code'', index row ''code'')]))))"

definition prefix_fields :: "string \<times> json \<Rightarrow> json \<Rightarrow> json res" where
  "prefix_fields e result = (case e of (account, fs) \<Rightarrow>
     let result = or_empty result account in
     bnd (context_res (as_object fs) ''invalid account fields'') (\<lambda>fs.
     bnd (extend (index result account) fs) (\<lambda>v.
     Inr (jset result account v))))"

definition group_fields :: "string \<Rightarrow> json \<Rightarrow> json \<Rightarrow> json res" where
  "group_fields grp row result =
     bnd (string_field row ''address'') (\<lambda>account.
     let result = or_empty result account; old = index result account in
     if grp = ''balances'' then Inr (jset result account (jset old ''balance'' (index row ''value'')))
     else if grp = ''nonces'' then
       bnd (uint (index row ''value'')) (\<lambda>n. Inr (jset result account (jset old ''nonce'' (jnum n))))
     else Inr (jset result account (jset (jset old ''code_hash'' (index row ''hash'')) ''code'' (index row ''code''))))"

definition group_sql :: "string \<Rightarrow> nat \<Rightarrow> string \<Rightarrow> string list \<Rightarrow> string" where
  "group_sql database i grp fs =
     ''SELECT '' @ grp @ ''.address AS address, '' @
     join '', '' (map (\<lambda>f. ''argMax('' @ grp @ ''.'' @ f @ '', tuple(number, '' @ grp @ ''.ordinal)) AS '' @ f) fs) @
     '' FROM '' @ database @ ''.state_blocks FINAL ARRAY JOIN '' @ grp @ '' WHERE number >= {start'' @ show_nat i @
     '':UInt64} AND number <= {end:UInt64} GROUP BY address''"

fun fold_io :: "('a \<Rightarrow> 's \<Rightarrow> ('w, 's) io) \<Rightarrow> 'a list \<Rightarrow> 's \<Rightarrow> ('w, 's) io" where
  "fold_io f [] s = ret s"
| "fold_io f (x # xs) s = bind (f x s) (fold_io f xs)"

definition source_fields :: "('w, 'x) nodelib_scheme \<Rightarrow> ClickHouse \<Rightarrow> (string \<times> json) list \<Rightarrow> nat \<times> json \<Rightarrow> json \<Rightarrow> ('w, json) io" where
  "source_fields L client ps e result = (case e of (i, source) \<Rightarrow>
     bind (lift (bnd (string_field source ''database'') ch_identifier)) (\<lambda>database.
     bind (lift (case get source ''bootstrap'' of None \<Rightarrow> Inr result
       | Some pre \<Rightarrow> bnd (context_res (as_object (index pre ''fields'')) ''invalid bootstrap fields'')
           (\<lambda>fs. fold_res prefix_fields fs result))) (\<lambda>result.
     fold_io (\<lambda>(grp, fs). each_row L client (group_sql database i grp fs) ps (group_fields grp))
       [(''balances'', [''value'']), (''nonces'', [''value'']), (''codes'', [''hash'', ''code''])] result)))"

definition observed_fields :: "('w, 'x) nodelib_scheme \<Rightarrow> ClickHouse \<Rightarrow> json list \<Rightarrow> json option \<Rightarrow> (string \<times> json) list \<Rightarrow> ('w, json) io" where
  "observed_fields L client sources base ps =
     bind (if base \<noteq> None
           then each_row L client ''SELECT address, nonce, balance, code_hash, code FROM checkpoint_accounts FINAL WHERE snapshot_id={base:String}'' ps base_fields (JObj [])
           else ret (JObj [])) (\<lambda>result.
     fold_io (source_fields L client ps) (enumerate 0 sources) result)"

section \<open>A validated range is a chain of blocks\<close>

fun chained :: "u64 \<Rightarrow> string option \<Rightarrow> json list \<Rightarrow> bool" where
  "chained e p [] = True"
| "chained e p (r # rs) = (uint (index r ''number'') = Inr e \<and>
     (case p of None \<Rightarrow> True | Some h \<Rightarrow> get r ''parent_hash'' = Some (JStr h)) \<and>
     (case get r ''hash'' of Some (JStr h) \<Rightarrow> chained (e + 1) (Some h) rs | _ \<Rightarrow> False))"

definition row_ok :: "json \<Rightarrow> string \<Rightarrow> u64 \<Rightarrow> json \<Rightarrow> bool" where
  "row_ok header accounts last_block row \<longleftrightarrow> get row ''accounts'' = Some (JStr accounts) \<and>
     uint (index row ''schema_version'') = Inr 1 \<and>
     (uint (index row ''number'') = Inr last_block \<longrightarrow>
        index row ''hash'' = index header ''hash'' \<and> index row ''state_root'' = index header ''state_root'')"

lemma jstr_eq_index: "jstr_eq (index v f) t \<longleftrightarrow> get v f = Some (JStr t)"
  by (auto simp: jstr_eq_def index_def split: option.splits)

lemma interval_row_Inr:
  assumes "interval_row L source header accounts last_block row s = Inr t"
  shows "uint (index row ''number'') = Inr (iv_expected s)" "row_ok header accounts last_block row"
    "case iv_previous s of None \<Rightarrow> True | Some p \<Rightarrow> get row ''parent_hash'' = Some (JStr p)"
    "iv_count s = 0 \<Longrightarrow> get source ''parent_hash'' = Some parent \<Longrightarrow> index row ''parent_hash'' = parent"
    "\<exists>h. get row ''hash'' = Some (JStr h) \<and> t = \<lparr>iv_expected = iv_expected s + 1, iv_count = iv_count s + 1, iv_previous = Some h\<rparr>"
  using assms unfolding interval_row_def bnd_Inr_iff ensure_Inr_iff
  by (auto simp: row_ok_def jstr_eq_index string_field_Inr res_simps split: if_splits option.splits)

lemma interval_rows_Inr:
  assumes "fold_res (interval_row L source header accounts last_block) rs s = Inr t"
  shows "chained (iv_expected s) (iv_previous s) rs \<and> (\<forall>r \<in> set rs. row_ok header accounts last_block r) \<and>
    iv_expected t = iv_expected s + of_nat (length rs) \<and> iv_count t = iv_count s + of_nat (length rs) \<and>
    (rs \<noteq> [] \<longrightarrow> uint (index (List.last rs) ''number'') = Inr (iv_expected t - 1))"
  using assms
proof (induction rs arbitrary: s)
  case (Cons r rs)
  from Cons.prems obtain u where u: "interval_row L source header accounts last_block r s = Inr u"
      "fold_res (interval_row L source header accounts last_block) rs u = Inr t" by (auto simp: bnd_Inr_iff)
  note r = interval_row_Inr [OF u(1)]
  from r(5) obtain h where h: "get r ''hash'' = Some (JStr h)"
      "u = \<lparr>iv_expected = iv_expected s + 1, iv_count = iv_count s + 1, iv_previous = Some h\<rparr>" by blast
  from Cons.IH [OF u(2)] r(1-3) h show ?case by (auto simp: algebra_simps)
qed simp

definition first_needed :: "json \<Rightarrow> u64 \<Rightarrow> u64 res" where
  "first_needed source start = (case get source ''bootstrap'' of None \<Rightarrow> Inr start
     | Some pre \<Rightarrow> bnd (uint (index (index pre ''header'') ''number'')) (\<lambda>n. Inr (n + 1)))"

lemma interval_start_Inr:
  assumes "interval_start source header start last_block = Inr s"
  shows "first_needed source start = Inr (iv_expected s)" "iv_count s = iv_expected s - start"
    "get source ''bootstrap'' = None \<Longrightarrow> iv_expected s = start \<and> iv_previous s = None"
    "get source ''bootstrap'' = Some pre \<Longrightarrow>
       iv_previous s \<noteq> None \<and> get (index pre ''header'') ''hash'' = map_option JStr (iv_previous s) \<and>
       (iv_expected s = last_block + 1 \<longrightarrow>
         index (index pre ''header'') ''hash'' = index header ''hash'' \<and>
         index (index pre ''header'') ''state_root'' = index header ''state_root'')"
  using assms
  by (auto simp: interval_start_def first_needed_def Let_def bnd_Inr_iff ensure_Inr_iff string_field_Inr split: option.splits)

lemma start_below: "(start :: u64) \<le> n \<Longrightarrow> n < u64_max \<Longrightarrow> start \<noteq> n + 1"
proof
  assume a: "start \<le> n" "n < u64_max" "start = n + 1"
  from a(2) have "unat n < 2 ^ 64 - 1"
    by (simp add: u64_max_def word_less_nat_alt unsigned_minus_1_eq_mask mask_eq_exp_minus_1)
  then have "unat (n + 1) = unat n + 1" by (simp add: unat_word_ariths)
  with a(1,3) show False by (simp add: word_le_nat_alt)
qed

text \<open>
  C24: a range is accepted only if the rows the database returned for it form one chain: their
  numbers follow each other from the first block needed (after a compacted prefix if there is one)
  to the block of the proof header, each row names the hash before it as its parent, the first one
  that of the prefix, every row has the declared accounts and schema, and the end of the chain (the
  last row, or the prefix when no row is needed) is the header itself; the count is the length of
  the whole range.
\<close>

theorem interval_sound:
  assumes "validate_interval L client source header w = (Inr k, w')"
  shows "\<exists>start last_block first accounts rs. uint (index source ''start_block'') = Inr start \<and>
    uint (index header ''number'') = Inr last_block \<and> start \<le> last_block \<and> last_block < u64_max \<and>
    canonical_accounts L (index source ''accounts'') = Inr accounts \<and> first_needed source start = Inr first \<and>
    rows_vec L client blocks_sql (bt_of_list [(''start'', jnum first), (''end'', jnum last_block)]) w = (Inr rs, w') \<and>
    chained first (Option.bind (get source ''bootstrap'') (\<lambda>pre. Option.bind (get (index pre ''header'') ''hash'') as_str)) rs \<and>
    (\<forall>r \<in> set rs. row_ok header (join '','' accounts) last_block r) \<and>
    first + of_nat (length rs) = last_block + 1 \<and> k = last_block + 1 - start \<and>
    (let tip = (if rs = [] then index (index source ''bootstrap'') ''header'' else List.last rs) in
     index tip ''hash'' = index header ''hash'' \<and> index tip ''state_root'' = index header ''state_root'')"
proof -
  from assms obtain start last_block accounts s rs t where
    d: "uint (index source ''start_block'') = Inr start" "uint (index header ''number'') = Inr last_block"
      "start \<le> last_block" "last_block < u64_max" "canonical_accounts L (index source ''accounts'') = Inr accounts"
      "interval_start source header start last_block = Inr s"
      "rows_vec L client blocks_sql (bt_of_list [(''start'', jnum (iv_expected s)), (''end'', jnum last_block)]) w = (Inr rs, w')"
      "fold_res (interval_row L source header (join '','' accounts) last_block) rs s = Inr t"
      "iv_expected t = last_block + 1" "k = iv_count t"
    unfolding validate_interval_def bind_Inr_iff each_row_Inr params_def jobj_def
    by (auto simp: as_object_def split: if_splits)
  note r = interval_rows_Inr [OF d(8)] and st = interval_start_Inr [OF d(6)]
  have prev: "Option.bind (get source ''bootstrap'') (\<lambda>pre. Option.bind (get (index pre ''header'') ''hash'') as_str) = iv_previous s"
    using st(3,4) by (cases "get source ''bootstrap''"; cases "iv_previous s") auto
  have tip: "let tip = (if rs = [] then index (index source ''bootstrap'') ''header'' else List.last rs) in
     index tip ''hash'' = index header ''hash'' \<and> index tip ''state_root'' = index header ''state_root''"
  proof (cases "rs = []")
    case True
    with r d(9) have e: "iv_expected s = last_block + 1" by simp
    with st(3) start_below [OF d(3,4)] obtain pre where p: "get source ''bootstrap'' = Some pre" by fastforce
    with st(4) e True show ?thesis by (auto simp: Let_def index_def [of source])
  next
    case False
    with r d(9) have "uint (index (List.last rs) ''number'') = Inr last_block" "row_ok header (join '','' accounts) last_block (List.last rs)"
      by auto
    with False show ?thesis by (simp add: row_ok_def Let_def)
  qed
  have "k = last_block + 1 - start" using r d(9,10) st(2) by (simp add: algebra_simps)
  with d r prev tip st(1) show ?thesis by (intro exI conjI) (assumption | simp)+
qed

section \<open>A scripted server\<close>

text \<open>A server that answers each query with a fixed text of one-letter lines, for concrete runs.\<close>

definition script_post :: "(string \<Rightarrow> (string \<times> string) list \<Rightarrow> string) \<Rightarrow>
    ClickHouse \<Rightarrow> (string \<times> string) list \<Rightarrow> string \<Rightarrow> 'w \<Rightarrow> (http_error + Response) \<times> 'w" where
  "script_post answer c query body w = (Inr \<lparr>rs_code = 200, rs_success = True,
     rs_exception = None, rs_body = answer (snd (query ! 1)) (drop 2 query), rs_broken = False\<rparr>, w)"

definition scripted :: "(string \<Rightarrow> (string \<times> string) list \<Rightarrow> string) \<Rightarrow> (string \<Rightarrow> json option) \<Rightarrow> unit nodelib" where
  "scripted answer parse = ex_nodelib\<lparr>http_post := script_post answer, json_parse := parse\<rparr>"

definition text_rows :: "(string \<Rightarrow> json option) \<Rightarrow> string \<Rightarrow> json list" where
  "text_rows parse = map (\<lambda>c. the (parse [c]))"

definition text_ok :: "(string \<Rightarrow> json option) \<Rightarrow> string \<Rightarrow> bool" where
  "text_ok parse t \<longleftrightarrow> list_all (\<lambda>c. \<not> is_whitespace c \<and> (case parse [c] of Some (JObj _) \<Rightarrow> True | _ \<Rightarrow> False)) t"

lemma scripted_simps [simp]:
  "nl_evm (scripted a p) = ex_evm" "http_post (scripted a p) = script_post a" "json_parse (scripted a p) = p"
  by (simp_all add: scripted_def ex_nodelib_def)

lemma collect_letters:
  assumes "text_ok (json_parse L) t"
  shows "collect_rows L \<lparr>rw_lines = map (\<lambda>c. Inr [c]) t, rw_failed = False\<rparr> = map Inr (text_rows (json_parse L) t)"
  using assms
proof (induction t)
  case Nil
  show ?case by (subst collect_rows.simps) (simp add: rows_next_def text_rows_def)
next
  case (Cons c t)
  then obtain fs where "json_parse L [c] = Some (JObj fs)" "\<not> is_whitespace c"
    by (auto simp: text_ok_def split: option.splits json.splits)
  with Cons show ?case
    by (subst collect_rows.simps)
      (simp add: rows_next_def trim_def parse_row_def as_object_def text_rows_def text_ok_def Let_def)
qed

definition lines :: "string \<Rightarrow> string" where
  "lines t = concat (map (\<lambda>c. [c, CHR 0x0A]) t)"

lemma split_lines: "list_all (\<lambda>c. \<not> is_whitespace c) t \<Longrightarrow>
    split_on (\<lambda>c. c = CHR 0x0A) (lines t) = map (\<lambda>c. [c]) t @ [[]]"
  by (induction t) (auto simp: lines_def is_whitespace_def)

definition param_texts :: "(string \<times> json) list \<Rightarrow> (string \<times> string) list" where
  "param_texts ps = map (\<lambda>(k, v). (''param_'' @ k, case param_text v of Inr t \<Rightarrow> t | Inl _ \<Rightarrow> [])) ps"

lemma query_pairs_texts:
  assumes "list_all (\<lambda>(k, v). is_ok (param_text v)) ps"
  shows "query_pairs c sql ps = Inr ([(''database'', ch_database c), (''query'', sql)] @ param_texts ps)"
proof -
  have "map_res (\<lambda>(key, v). bnd (param_text v) (\<lambda>t. Inr (''param_'' @ key, t))) ps = Inr (param_texts ps)"
    using assms by (induction ps) (auto simp: is_ok_iff param_texts_def)
  then show ?thesis by (simp add: query_pairs_def)
qed

lemma script_rows:
  assumes "http_post L = script_post answer" "answer (sql @ '' FORMAT JSONEachRow'') (param_texts ps) = lines t"
    "text_ok (json_parse L) t" "list_all (\<lambda>(k, v). is_ok (param_text v)) ps"
  shows "rows L c sql ps w = (Inr \<lparr>rw_lines = map (\<lambda>c. Inr [c]) t, rw_failed = False\<rparr>, w)"
proof -
  have w: "list_all (\<lambda>c. \<not> is_whitespace c) t" using assms(3) by (auto simp: text_ok_def list_all_iff)
  have nocr: "strip_cr [x] = [x]" if "x \<in> set t" for x
    using w that by (auto simp: strip_cr_def list_all_iff is_whitespace_def)
  show ?thesis
    using nocr query_pairs_texts [OF assms(4), of c "sql @ '' FORMAT JSONEachRow''"]
    by (simp add: rows_def request_def bind_def assms(1,2) script_post_def check_response_def lift_def ret_def
        body_lines_def split_lines [OF w] Let_def)
qed

lemma script_rows_vec:
  assumes "http_post L = script_post answer" "answer (sql @ '' FORMAT JSONEachRow'') (param_texts ps) = lines t"
    "text_ok (json_parse L) t" "list_all (\<lambda>(k, v). is_ok (param_text v)) ps"
  shows "rows_vec L c sql ps w = (Inr (text_rows (json_parse L) t), w)"
proof -
  have "map_res (\<lambda>r. r) (map Inr vs) = Inr vs" for vs :: "json list" by (induction vs) simp_all
  then show ?thesis
    by (simp add: rows_vec_def bind_def lift_def script_rows [OF assms] collect_letters [OF assms(3)])
qed

lemma script_one:
  assumes "http_post L = script_post answer" "answer (sql @ '' FORMAT JSONEachRow'') (param_texts ps) = lines [x]"
    "json_parse L [x] = Some (JObj fs)" "\<not> is_whitespace x" "list_all (\<lambda>(k, v). is_ok (param_text v)) ps"
  shows "one L c sql ps w = (Inr (JObj fs), w)"
proof -
  have "text_ok (json_parse L) [x]" using assms(3,4) by (simp add: text_ok_def)
  from script_rows [OF assms(1,2) this assms(5)] assms(3,4) show ?thesis
    by (simp add: one_def bind_def rows_next_def trim_def parse_row_def as_object_def Let_def ret_def)
qed

definition ex_row :: "u64 \<Rightarrow> byte \<Rightarrow> json" where
  "ex_row n b = JObj [(''accounts'', JStr ex_address), (''hash'', JStr (hex32 (b + 1))), (''number'', jnum n),
     (''parent_hash'', JStr (hex32 b)), (''producer_version'', jnum 5), (''schema_version'', jnum 1), (''state_root'', JStr ''r'')]"

definition ex_chain :: "string \<Rightarrow> json option" where
  "ex_chain s = (if s = ''A'' then Some (ex_row 5 1) else if s = ''B'' then Some (ex_row 6 2) else None)"

definition ex_source :: json where
  "ex_source = JObj [(''accounts'', JArr [JStr ex_address]), (''start_block'', jnum 5)]"

definition ex_target :: json where
  "ex_target = JObj [(''hash'', JStr (hex32 3)), (''number'', jnum 6), (''state_root'', JStr ''r'')]"

abbreviation ex_blocks :: "unit nodelib" where "ex_blocks \<equiv> scripted (\<lambda>_ _. lines ''AB'') ex_chain"

lemma ex_interval: "validate_interval ex_blocks ex_client ex_source ex_target () = (Inr 2, ())"
proof -
  have ca: "canonical_accounts ex_blocks (index ex_source ''accounts'') = Inr [ex_address]"
    by (simp add: canonical_accounts_def account_texts_def ex_source_def index_def as_str_def as_object_def as_array_def ex_address_eq)
  have i: "interval_start ex_source ex_target 5 6 = Inr \<lparr>iv_expected = 5, iv_count = 0, iv_previous = None\<rparr>"
    by (simp add: interval_start_def ex_source_def)
  have row: "interval_row ex_blocks ex_source ex_target ex_address 6 (ex_row 5 1) \<lparr>iv_expected = 5, iv_count = 0, iv_previous = None\<rparr>
        = Inr \<lparr>iv_expected = 6, iv_count = 1, iv_previous = Some (hex32 2)\<rparr>"
      "interval_row ex_blocks ex_source ex_target ex_address 6 (ex_row 6 2) \<lparr>iv_expected = 6, iv_count = 1, iv_previous = Some (hex32 2)\<rparr>
        = Inr \<lparr>iv_expected = 7, iv_count = 2, iv_previous = Some (hex32 3)\<rparr>"
    by (simp_all add: interval_row_def ex_row_def index_def jstr_eq_def string_field_def ex_fixed32 ex_source_def ex_target_def)
  have "rows_vec ex_blocks ex_client blocks_sql (bt_of_list [(''start'', jnum 5), (''end'', jnum 6)]) () = (Inr [ex_row 5 1, ex_row 6 2], ())"
    using script_rows_vec [of ex_blocks "\<lambda>_ _. lines ''AB''" blocks_sql "bt_of_list [(''start'', jnum 5), (''end'', jnum 6)]" "''AB''" ex_client "()"]
    by (simp add: text_rows_def text_ok_def ex_chain_def is_whitespace_def ex_row_def bt_of_list_def jnum_def param_text_def)
  then have "each_row ex_blocks ex_client blocks_sql (bt_of_list [(''start'', jnum 5), (''end'', jnum 6)])
      (interval_row ex_blocks ex_source ex_target ex_address 6) \<lparr>iv_expected = 5, iv_count = 0, iv_previous = None\<rparr> () =
      (Inr \<lparr>iv_expected = 7, iv_count = 2, iv_previous = Some (hex32 3)\<rparr>, ())"
    by (simp add: each_row_Inr row)
  moreover have "uint (index ex_source ''start_block'') = Inr 5" "uint (index ex_target ''number'') = Inr 6" "(6 :: u64) < u64_max"
    by (simp_all add: ex_source_def ex_target_def index_def u64_max_def word_less_nat_alt unsigned_minus_1_eq_mask mask_eq_exp_minus_1)
  ultimately show ?thesis
    by (simp add: validate_interval_def bind_def lift_def check_def ca i params_def jobj_def as_object_def ret_def)
qed

theorem interval_sound_witness:
  "\<exists>rs. chained 5 None rs \<and> (5 :: u64) + of_nat (length rs) = 7"
proof -
  have "uint (index ex_source ''start_block'') = Inr 5" "uint (index ex_target ''number'') = Inr 6"
      "get ex_source ''bootstrap'' = None"
    by (simp_all add: ex_source_def ex_target_def index_def)
  with interval_sound [OF ex_interval] show ?thesis by (auto simp: first_needed_def)
qed

end
