(* ===== verification/Reader.thy ===== *)
theory Reader
  imports Manifest
begin

text \<open>
  Pins and pages of published checkpoints, \<open>crates/evm-state/src/reader.rs\<close>: durable pin files
  under the controller, storage cursors bound to one checkpoint and account, and keyset pages.
\<close>

section \<open>Pins\<close>

definition pin_file :: "ControlRecord \<Rightarrow> string \<Rightarrow> string" where
  "pin_file owner pin_id = path_join (co_pins owner) (pin_id @ ''.json'')"

definition pin :: "('w, 'x) nodelib_scheme \<Rightarrow> ClickHouse \<Rightarrow> string \<Rightarrow> string \<Rightarrow> ('w node, json) io" where
  "pin L client snapshot_id purpose =
     bind (control_open L client) (\<lambda>owner.
     control_reader L owner (
       bind (on_db (manifest_unlocked L client snapshot_id)) (\<lambda>ready.
       bind (new_id L) (\<lambda>id'.
       bind (now_ns L) (\<lambda>now.
       let result = jobj [(''pin_id'', JStr id'), (''snapshot_id'', JStr snapshot_id),
           (''control_id'', index (co_record owner) ''control_id''), (''created_at'', jnum now),
           (''purpose'', JStr purpose), (''header'', index ready ''header'')] in
       bind (on_fs (atomic_json (json_pretty L) (fs_temp L (co_pins owner)) (Some (co_pins owner)) (pin_file owner id') result False)) (\<lambda>_.
       ret result))))))"

definition read_pin :: "('w, 'x) nodelib_scheme \<Rightarrow> ControlRecord \<Rightarrow> string \<Rightarrow> (fsys, json) io" where
  "read_pin L owner pin_id =
     bind (lift (object_id pin_id)) (\<lambda>_.
     bind (read_json L (pin_file owner pin_id)) (\<lambda>record.
     bind (check (jstr_eq (index record ''pin_id'') pin_id \<and>
         index record ''control_id'' = index (co_record owner) ''control_id'')
       ''pin belongs to another controller or is corrupt'') (\<lambda>_.
     bind (lift (bnd (string_field record ''snapshot_id'') object_id)) (\<lambda>_.
     ret record))))"

definition remove_file :: "string \<Rightarrow> (fsys, unit) io" where
  "remove_file p = bind fs_try (\<lambda>_. bind (fs_get p) (\<lambda>v.
     if v = None then fail ''No such file or directory'' else fs_set p None))"

definition unpin :: "('w, 'x) nodelib_scheme \<Rightarrow> ClickHouse \<Rightarrow> string \<Rightarrow> ('w node, json) io" where
  "unpin L client pin_id =
     bind (control_open L client) (\<lambda>owner.
     control_reader L owner (
       bind (on_fs (read_pin L owner pin_id)) (\<lambda>record.
       bind (on_fs (remove_file (pin_file owner pin_id))) (\<lambda>_.
       bind (on_fs fs_try) (\<lambda>_.
       bind (on_fs fs_try) (\<lambda>_.
       ret (jobj [(''pin_id'', JStr pin_id), (''snapshot_id'', index record ''snapshot_id''), (''released'', JBool True)])))))))"

definition file_stem_ext :: "string \<Rightarrow> string \<times> string option" where
  "file_stem_ext name =
     (let r = rev name; rest = dropWhile (\<lambda>c. c \<noteq> CHR ''.'') r in
      if rest = [] \<or> tl rest = [] then (name, None)
      else (rev (tl rest), Some (rev (takeWhile (\<lambda>c. c \<noteq> CHR ''.'') r))))"

definition pin_entry :: "('w, 'x) nodelib_scheme \<Rightarrow> ControlRecord \<Rightarrow> string \<Rightarrow> (u64 \<times> json) list \<Rightarrow> (fsys, (u64 \<times> json) list) io" where
  "pin_entry L owner name pins =
     bind fs_try (\<lambda>_.
     case file_stem_ext name of (stem, ext) \<Rightarrow>
     if ext = Some ''json''
     then bind (read_pin L owner stem) (\<lambda>record.
          bind (lift (uint (index record ''created_at''))) (\<lambda>created.
          ret (pins @ [(created, record)])))
     else ret pins)"

definition read_dir :: "('w, 'x) nodelib_scheme \<Rightarrow> string \<Rightarrow> (fsys, string list) io" where
  "read_dir L dir = bind fs_try (\<lambda>_ s. (Inr (nl_read_dir L dir s), s))"

definition pins_unlocked :: "('w, 'x) nodelib_scheme \<Rightarrow> ControlRecord \<Rightarrow> (fsys, json list) io" where
  "pins_unlocked L owner =
     bind (read_dir L (co_pins owner)) (\<lambda>names.
     bind (fold_io (pin_entry L owner) names []) (\<lambda>pins.
     ret (map snd (sort_key fst pins))))"

definition list_pins :: "('w, 'x) nodelib_scheme \<Rightarrow> ClickHouse \<Rightarrow> ('w node, json list) io" where
  "list_pins L client =
     bind (control_open L client) (\<lambda>owner. control_reader L owner (on_fs (pins_unlocked L owner)))"

section \<open>Storage cursors\<close>

definition cursor_json :: "string \<Rightarrow> string \<Rightarrow> string \<Rightarrow> json" where
  "cursor_json snapshot_id account slot =
     jobj [(''version'', JNum ''1''), (''snapshot_id'', JStr snapshot_id), (''address'', JStr account), (''after_slot'', JStr slot)]"

definition encode_cursor :: "('w, 'x) nodelib_scheme \<Rightarrow> string \<Rightarrow> string \<Rightarrow> string \<Rightarrow> string" where
  "encode_cursor L snapshot_id account slot =
     b64_encode L (text_bytes (canonical_json (json_text L) (cursor_json snapshot_id account slot)))"

definition decode_cursor :: "('w, 'x) nodelib_scheme \<Rightarrow> string \<Rightarrow> string \<Rightarrow> string \<Rightarrow> string res" where
  "decode_cursor L token snapshot_id account =
     ensure (length token \<le> 1024) ''oversized storage cursor''
     (bnd (context_res (b64_decode L token) ''invalid storage cursor'') (\<lambda>bs.
      bnd (context_res (json_parse L (bytes_text bs)) ''invalid JSON'') (\<lambda>v.
      ensure (jnum_eq (index v ''version'') 1 \<and> jstr_eq (index v ''snapshot_id'') snapshot_id \<and>
          jstr_eq (index v ''address'') account)
        ''cursor belongs to another checkpoint or account''
      (bnd (string_field v ''after_slot'') (\<lambda>slot.
       bnd (fixed (nl_evm L) 32 slot) (\<lambda>_. Inr slot))))))"

section \<open>Pages\<close>

definition page_cut :: "nat \<Rightarrow> json list \<Rightarrow> (json list \<times> string option) res" where
  "page_cut limit rs =
     (let more = limit < length rs; rs = take limit rs in
      if more
      then (if rs = [] then Inl ''empty nonterminal page''
            else bnd (string_field (List.last rs) ''slot'') (\<lambda>slot. Inr (rs, Some slot)))
      else Inr (rs, None))"

definition page_sql :: string where
  "page_sql = ''SELECT slot,value FROM checkpoint_storage FINAL WHERE snapshot_id={id:String} AND address={address:String} AND slot>{after:String} ORDER BY slot LIMIT {limit:UInt32}''"

definition page_unlocked :: "('w, 'x) nodelib_scheme \<Rightarrow> ClickHouse \<Rightarrow> string \<Rightarrow> string \<Rightarrow> string \<Rightarrow> string option \<Rightarrow> nat \<Rightarrow> ('w, json) io" where
  "page_unlocked L client pin_id snapshot_id selected cursor limit =
     bind (read_account_unlocked L client snapshot_id selected) (\<lambda>metadata.
     bind (lift (uint (index metadata ''nonce''))) (\<lambda>nonce.
     let metadata = jset metadata ''nonce'' (JStr (show_u64 nonce)) in
     bind (lift (case cursor of None \<Rightarrow> Inr []
        | Some s \<Rightarrow> if s = [] then Inr [] else decode_cursor L s snapshot_id selected)) (\<lambda>after.
     bind (lift (params (jobj [(''id'', JStr snapshot_id), (''address'', JStr selected), (''after'', JStr after),
        (''limit'', JNum (show_nat (limit + 1)))]))) (\<lambda>ps.
     bind (rows_vec L client page_sql ps) (\<lambda>rs.
     bind (lift (page_cut limit rs)) (\<lambda>(rs, next).
     ret (jobj [(''pin_id'', JStr pin_id), (''snapshot_id'', JStr snapshot_id), (''header'', index metadata ''header''),
       (''account'', metadata), (''storage'', JArr rs),
       (''next_cursor'', case next of None \<Rightarrow> JNull | Some slot \<Rightarrow> JStr (encode_cursor L snapshot_id selected slot))])))))))"

definition page :: "('w, 'x) nodelib_scheme \<Rightarrow> ClickHouse \<Rightarrow> string \<Rightarrow> string \<Rightarrow> string option \<Rightarrow> nat \<Rightarrow> ('w node, json) io" where
  "page L client pin_id selected cursor limit =
     bind (check (1 \<le> limit \<and> limit \<le> 10000) ''page limit must be between 1 and 10000'') (\<lambda>_.
     bind (control_open L client) (\<lambda>owner.
     bind (lift (address (nl_evm L) selected)) (\<lambda>selected.
     control_reader L owner (
       bind (on_fs (read_pin L owner pin_id)) (\<lambda>pinned.
       bind (lift (string_field pinned ''snapshot_id'')) (\<lambda>snapshot_id.
       on_db (page_unlocked L client pin_id snapshot_id selected cursor limit)))))))"

section \<open>Cursors name their checkpoint and account\<close>

text \<open>What is relied on of JSON text and base64 for one cursor, and the length limit.\<close>

definition cursor_text_ok :: "('w, 'x) nodelib_scheme \<Rightarrow> string \<Rightarrow> string \<Rightarrow> string \<Rightarrow> bool" where
  "cursor_text_ok L snapshot_id account slot \<longleftrightarrow>
     (let v = cursor_json snapshot_id account slot; t = canonical_json (json_text L) v; e = b64_encode L (text_bytes t) in
      json_parse L t = Some v \<and> b64_decode L e = Some (text_bytes t) \<and> 0 < length e \<and> length e \<le> 1024)"

lemma cursor_json_get:
  "get (cursor_json i a s) ''version'' = Some (JNum ''1'')" "get (cursor_json i a s) ''snapshot_id'' = Some (JStr i)"
  "get (cursor_json i a s) ''address'' = Some (JStr a)" "get (cursor_json i a s) ''after_slot'' = Some (JStr s)"
  by (simp_all add: cursor_json_def get_jobj)

lemma parse_u64_one: "parse_u64 ''1'' = Some 1"
  by (subst parse_u64_digits) (simp_all add: is_digit_def less_eq_char_def dec_val_def digit_val_def)

lemma decode_encode:
  assumes "cursor_text_ok L i a slot" "fixed (nl_evm L) 32 slot = Inr b"
  shows "decode_cursor L (encode_cursor L i a slot) j c =
    (if i = j \<and> a = c then Inr slot else Inl ''cursor belongs to another checkpoint or account'')"
  using assms
  by (simp add: decode_cursor_def encode_cursor_def cursor_text_ok_def Let_def jnum_eq_def jstr_eq_def index_def ensure_def
      cursor_json_get as_u64_def parse_u64_one string_field_def)

text \<open>
  A storage cursor resumes exactly where it was issued: it decodes to its slot for the
  checkpoint and account it was made for, and is refused for every other checkpoint or account.
\<close>

lemma storage_cursor_bound:
  assumes "cursor_text_ok L snapshot_id account slot" "fixed (nl_evm L) 32 slot = Inr b"
  shows "decode_cursor L (encode_cursor L snapshot_id account slot) i a = Inr s \<longleftrightarrow>
    i = snapshot_id \<and> a = account \<and> s = slot"
  using decode_encode [OF assms] by auto

section \<open>Reading all pages\<close>

definition slot_of :: "json \<Rightarrow> string" where
  "slot_of r = (case get r ''slot'' of Some (JStr s) \<Rightarrow> s | _ \<Rightarrow> [])"

definition above :: "string \<Rightarrow> json list \<Rightarrow> json list" where
  "above after rs = filter (\<lambda>r. after < slot_of r) rs"

lemma filter_beyond:
  assumes "sorted_wrt (<) (map f xs)" "k < length xs"
  shows "filter (\<lambda>x. f (xs ! k) < (f x :: 'b :: linorder)) xs = drop (Suc k) xs"
proof -
  have nth: "f (xs ! i) < f (xs ! j)" if "i < j" "j < length xs" for i j
    using sorted_wrt_nth_less [OF assms(1) that(1)] that by simp
  have s: "f x < f (xs ! k)" if "x \<in> set (take k xs)" for x
    using that assms(2) nth by (auto simp: in_set_conv_nth)
  have g: "f (xs ! k) < f x" if "x \<in> set (drop (Suc k) xs)" for x
    using that assms(2) nth by (auto simp: in_set_conv_nth)
  have "xs = take k xs @ [xs ! k] @ drop (Suc k) xs"
    using assms(2) by (simp add: id_take_nth_drop)
  then have "filter (\<lambda>x. f (xs ! k) < f x) xs =
      filter (\<lambda>x. f (xs ! k) < f x) (take k xs @ [xs ! k] @ drop (Suc k) xs)" by argo
  also have "\<dots> = drop (Suc k) xs"
    using s g by (auto simp: filter_empty_conv intro: filter_True dest: less_asym)
  finally show ?thesis .
qed

lemma above_last:
  assumes "sorted_wrt (<) (map slot_of rs)" "0 < n" "n < length (above after rs)"
  shows "above (slot_of (List.last (take n (above after rs)))) rs = drop n (above after rs)"
proof -
  let ?B = "above after rs"
  have b: "sorted_wrt (<) (map slot_of ?B)"
    using assms(1) by (auto simp: above_def sorted_wrt_map intro: sorted_wrt_filter)
  obtain k where k: "n = Suc k" using assms(2) by (cases n) auto
  have l: "List.last (take n ?B) = ?B ! k" using assms(3) k by (subst last_conv_nth) auto
  have "?B ! k \<in> set ?B" using assms(3) k by simp
  then have "after < slot_of (?B ! k)" by (auto simp: above_def)
  then have "above (slot_of (?B ! k)) rs = filter (\<lambda>r. slot_of (?B ! k) < slot_of r) ?B"
    by (auto simp: above_def intro!: filter_cong)
  with filter_beyond [OF b, of k] assms(3) k l show ?thesis by simp
qed

text \<open>A client that follows the next cursor until there is none.\<close>

fun read_pages :: "('w, 'x) nodelib_scheme \<Rightarrow> ClickHouse \<Rightarrow> string \<Rightarrow> string \<Rightarrow> string \<Rightarrow> nat \<Rightarrow> nat \<Rightarrow> string option \<Rightarrow> ('w, json list) io" where
  "read_pages L client pin_id snapshot_id selected limit 0 cursor = fail ''out of fuel''"
| "read_pages L client pin_id snapshot_id selected limit (Suc n) cursor =
     bind (page_unlocked L client pin_id snapshot_id selected cursor limit) (\<lambda>p.
     let rs = (case index p ''storage'' of JArr rs \<Rightarrow> rs | _ \<Rightarrow> []) in
     case index p ''next_cursor'' of
       JStr t \<Rightarrow> bind (read_pages L client pin_id snapshot_id selected limit n (Some t)) (\<lambda>rest. ret (rs @ rest))
     | _ \<Rightarrow> ret rs)"

text \<open>
  What is relied on of the database for one account of a checkpoint with the storage rows \<open>rs\<close>:
  the account row is there and a page query returns the next rows in slot order.
\<close>

definition serves :: "('w, 'x) nodelib_scheme \<Rightarrow> ClickHouse \<Rightarrow> string \<Rightarrow> string \<Rightarrow> json list \<Rightarrow> 'w \<Rightarrow> bool" where
  "serves L client snapshot_id selected rs w \<longleftrightarrow>
     (\<exists>m k. read_account_unlocked L client snapshot_id selected w = (Inr m, w) \<and> uint (index m ''nonce'') = Inr k) \<and>
     (\<forall>after n. rows_vec L client page_sql (bt_of_list [(''id'', JStr snapshot_id), (''address'', JStr selected), (''after'', JStr after),
        (''limit'', JNum (show_nat n))]) w = (Inr (take n (above after rs)), w))"

definition slots_ok :: "('w, 'x) nodelib_scheme \<Rightarrow> string \<Rightarrow> string \<Rightarrow> json list \<Rightarrow> bool" where
  "slots_ok L snapshot_id selected rs \<longleftrightarrow> sorted_wrt (<) (map slot_of rs) \<and>
     (\<forall>r \<in> set rs. get r ''slot'' = Some (JStr (slot_of r)) \<and> is_ok (fixed (nl_evm L) 32 (slot_of r)) \<and>
       cursor_text_ok L snapshot_id selected (slot_of r))"

definition cursor_at :: "('w, 'x) nodelib_scheme \<Rightarrow> string \<Rightarrow> string \<Rightarrow> string option \<Rightarrow> string \<Rightarrow> bool" where
  "cursor_at L snapshot_id selected cursor after \<longleftrightarrow> (case cursor of None \<Rightarrow> after = []
     | Some t \<Rightarrow> t \<noteq> [] \<and> decode_cursor L t snapshot_id selected = Inr after)"

lemma page_run:
  assumes "serves L client i a rs w" "slots_ok L i a rs" "cursor_at L i a cursor after" "0 < limit"
  shows "\<exists>p. page_unlocked L client pin_id i a cursor limit w = (Inr p, w) \<and>
    index p ''storage'' = JArr (take limit (above after rs)) \<and>
    (if limit < length (above after rs)
     then \<exists>t. index p ''next_cursor'' = JStr t \<and> cursor_at L i a (Some t) (slot_of (List.last (take limit (above after rs))))
     else index p ''next_cursor'' = JNull)"
proof -
  let ?B = "above after rs"
  from assms(1) obtain m k where m: "read_account_unlocked L client i a w = (Inr m, w)" "uint (index m ''nonce'') = Inr k"
    and q: "\<And>n. rows_vec L client page_sql (bt_of_list [(''id'', JStr i), (''address'', JStr a), (''after'', JStr after),
        (''limit'', JNum (show_nat n))]) w = (Inr (take n ?B), w)" by (auto simp: serves_def)
  have c: "(case cursor of None \<Rightarrow> Inr [] | Some s \<Rightarrow> if s = [] then Inr [] else decode_cursor L s i a) = Inr after"
    using assms(3) by (auto simp: cursor_at_def split: option.splits)
  have run: "page_unlocked L client pin_id i a cursor limit w =
      (bnd (page_cut limit (take (Suc limit) ?B)) (\<lambda>(rs, next).
         Inr (jobj [(''pin_id'', JStr pin_id), (''snapshot_id'', JStr i), (''header'', index (jset m ''nonce'' (JStr (show_u64 k))) ''header''),
       (''account'', jset m ''nonce'' (JStr (show_u64 k))), (''storage'', JArr rs),
       (''next_cursor'', case next of None \<Rightarrow> JNull | Some slot \<Rightarrow> JStr (encode_cursor L i a slot))])), w)"
    using q [of "Suc limit"]
    by (cases "page_cut limit (take (Suc limit) ?B)")
      (simp_all add: page_unlocked_def bind_def m lift_def c params_def jobj_def as_object_def ret_def Let_def case_prod_unfold)
  show ?thesis
  proof (cases "limit < length ?B")
    case False
    then have "page_cut limit (take (Suc limit) ?B) = Inr (take limit ?B, None)" by (simp add: page_cut_def)
    with run False show ?thesis by (simp add: index_jobj)
  next
    case True
    let ?r = "List.last (take limit ?B)"
    have ne: "take limit ?B \<noteq> []" using True assms(4) by auto
    then have "?r \<in> set rs" using last_in_set [OF ne] in_set_takeD [of ?r limit ?B] by (auto simp: above_def)
    with assms(2) obtain b where r: "get ?r ''slot'' = Some (JStr (slot_of ?r))" "fixed (nl_evm L) 32 (slot_of ?r) = Inr b"
        "cursor_text_ok L i a (slot_of ?r)" by (auto simp: slots_ok_def is_ok_iff)
    have "page_cut limit (take (Suc limit) ?B) = Inr (take limit ?B, Some (slot_of ?r))"
      using True ne r(1) by (simp add: page_cut_def string_field_def min_def Let_def)
    moreover have "cursor_at L i a (Some (encode_cursor L i a (slot_of ?r))) (slot_of ?r)"
      using decode_encode [OF r(3,2)] r(3) by (simp add: cursor_at_def encode_cursor_def cursor_text_ok_def Let_def)
    ultimately show ?thesis using run True by (simp add: index_jobj)
  qed
qed

lemma read_pages_all:
  assumes "serves L client i a rs w" "slots_ok L i a rs" "0 < limit"
  shows "cursor_at L i a cursor after \<Longrightarrow> length (above after rs) < n \<Longrightarrow>
    read_pages L client pin_id i a limit n cursor w = (Inr (above after rs), w)"
proof (induction n arbitrary: cursor after)
  case (Suc n)
  let ?B = "above after rs"
  from page_run [OF assms(1,2) Suc.prems(1) assms(3), of pin_id] obtain p where
    p: "page_unlocked L client pin_id i a cursor limit w = (Inr p, w)" "index p ''storage'' = JArr (take limit ?B)"
      "if limit < length ?B then \<exists>t. index p ''next_cursor'' = JStr t \<and> cursor_at L i a (Some t) (slot_of (List.last (take limit ?B)))
       else index p ''next_cursor'' = JNull" by blast
  show ?case
  proof (cases "limit < length ?B")
    case False
    with p show ?thesis by (simp add: bind_def ret_def)
  next
    case True
    with p(3) obtain t where t: "index p ''next_cursor'' = JStr t" "cursor_at L i a (Some t) (slot_of (List.last (take limit ?B)))" by auto
    have rest: "above (slot_of (List.last (take limit ?B))) rs = drop limit ?B"
      using above_last [OF _ assms(3) True] assms(2) by (simp add: slots_ok_def)
    have "read_pages L client pin_id i a limit n (Some t) w = (Inr (drop limit ?B), w)"
      using Suc.IH [OF t(2)] rest Suc.prems(2) assms(3) True by simp
    with p(1,2) t(1) show ?thesis by (simp add: bind_def ret_def)
  qed
qed simp

text \<open>
  C25: following the cursors page by page, with any page size, reads every storage row of the
  account exactly once and in slot order, and ends after at most one page more than there are rows.
\<close>

theorem pages_complete:
  assumes "serves L client snapshot_id selected rs w" "slots_ok L snapshot_id selected rs" "0 < limit"
    "\<forall>r \<in> set rs. slot_of r \<noteq> []" "length rs < n"
  shows "read_pages L client pin_id snapshot_id selected limit n None w = (Inr rs, w)"
proof -
  have "[] < s" if "s \<noteq> []" for s :: string using that by (cases s) simp_all
  then have "above [] rs = rs" using assms(4) by (simp add: above_def filter_id_conv)
  with read_pages_all [OF assms(1-3), of None "[]" n pin_id] assms(5) show ?thesis by (simp add: cursor_at_def)
qed

section \<open>A concrete checkpoint\<close>

definition ex_id :: string where "ex_id = replicate 32 (CHR ''a'')"

definition ex_slot :: "byte \<Rightarrow> json" where
  "ex_slot b = JObj [(''slot'', JStr (hex32 b)), (''value'', JStr (hex32 7))]"

definition ex_letters :: "(char \<times> json) list" where
  "ex_letters = [(CHR ''A'', ex_slot 1), (CHR ''B'', ex_slot 2)]"

definition ex_texts :: "string \<Rightarrow> json option" where
  "ex_texts s =
     (if s = ''A'' then Some (ex_slot 1) else if s = ''B'' then Some (ex_slot 2)
      else if s = ''M'' then Some (JObj [(''manifest'', JStr ''Z'')])
      else if s = ''C'' then Some (JObj [(''nonce'', jnum 1)])
      else if s = ''Z'' then Some (JObj [(''accounts'', JArr [JStr ex_address]), (''snapshot_id'', JStr ex_id), (''status'', JStr ''ready'')])
      else if length s = 66 then Some (cursor_json ex_id ex_address s) else None)"

definition manifest_query :: string where
  "manifest_query = ''SELECT manifest FROM checkpoints FINAL WHERE snapshot_id={id:String} FORMAT JSONEachRow''"

definition ex_answers :: "string \<Rightarrow> (string \<times> string) list \<Rightarrow> string" where
  "ex_answers sql ps =
     (if sql = page_sql @ '' FORMAT JSONEachRow''
      then lines (map fst (take (dec_val (snd (ps ! 3))) (filter (\<lambda>(c, r). snd (ps ! 1) < slot_of r) ex_letters)))
      else if sql = manifest_query then lines ''M'' else lines ''C'')"

definition ex_reader :: "unit nodelib" where
  "ex_reader = (scripted ex_answers ex_texts)\<lparr>json_text := (\<lambda>v. case get v ''after_slot'' of Some (JStr s) \<Rightarrow> map of_char s | _ \<Rightarrow> [])\<rparr>"

lemma ex_reader_simps [simp]:
  "http_post ex_reader = script_post ex_answers" "json_parse ex_reader = ex_texts" "nl_evm ex_reader = ex_evm"
  "b64_encode ex_reader = ref_encode" "b64_decode ex_reader = ex_b64d"
  "json_text ex_reader (cursor_json i a s) = map of_char s"
  by (simp_all add: ex_reader_def scripted_def ex_nodelib_def cursor_json_get)

lemma hex32_ascii: "list_all is_ascii (hex32 b)"
  by (auto simp: hex32_def ref_encode_def hex2_def is_ascii_def list_all_iff of_char_hex_digit_lt nibbles_lt)

lemma hex32_length: "length (hex32 b) = 66"
  by (simp add: hex32_def ref_codec.length_enc)

lemma hex32_less: "hex32 1 < hex32 2"
proof -
  have "replicate 32 b = b # replicate 31 b" for b :: byte using replicate_Suc [of 31 b] by simp
  then have h: "hex32 b = ''0x'' @ hex2 b @ ref_encode (replicate 31 b)" for b by (simp add: hex32_def ref_encode_def)
  show ?thesis by (simp add: h hex2_def hex_digit_def less_char_def)
qed

lemma ascii_json_text: "list_all is_ascii s \<Longrightarrow> ascii_json (map of_char s) = s"
  by (induction s) (auto simp: ascii_json_def is_ascii_def)

lemma ex_cursor_text: "cursor_text_ok ex_reader ex_id ex_address (hex32 b)"
proof -
  have "hex32 b \<noteq> [c]" for c using hex32_length [of b] by auto
  then have t: "ex_texts (hex32 b) = Some (cursor_json ex_id ex_address (hex32 b))"
    by (simp add: ex_texts_def hex32_length)
  have l: "length (ref_encode (text_bytes (hex32 b))) = 132"
    by (simp add: ref_codec.length_enc text_bytes_def hex32_length)
  then have "ref_encode (text_bytes (hex32 b)) \<noteq> []" by auto
  with t l show ?thesis
    by (simp add: cursor_text_ok_def Let_def canonical_json_def ascii_json_text [OF hex32_ascii] ex_b64d_def ref_codec.dec_enc)
qed

lemma ex_serves: "serves ex_reader ex_client ex_id ex_address [ex_slot 1, ex_slot 2] ()"
proof -
  have one1: "one ex_reader ex_client ''SELECT manifest FROM checkpoints FINAL WHERE snapshot_id={id:String}'' (bt_of_list [(''id'', JStr ex_id)]) () =
      (Inr (JObj [(''manifest'', JStr ''Z'')]), ())"
    by (rule script_one [where answer = ex_answers and x = "CHR ''M''"])
      (simp_all add: ex_answers_def page_sql_def manifest_query_def ex_texts_def is_whitespace_def bt_of_list_def param_text_def)
  have one2: "one ex_reader ex_client ''SELECT address, exists, nonce, balance, code_hash, code, storage_root, nonzero_slots FROM checkpoint_accounts FINAL WHERE snapshot_id={id:String} AND address={address:String}''
      (bt_of_list [(''id'', JStr ex_id), (''address'', JStr ex_address)]) () = (Inr (JObj [(''nonce'', jnum 1)]), ())"
    by (rule script_one [where answer = ex_answers and x = "CHR ''C''"])
      (simp_all add: ex_answers_def page_sql_def manifest_query_def ex_texts_def is_whitespace_def bt_of_list_def param_text_def less_eq_char_def)
  have m: "manifest_unlocked ex_reader ex_client ex_id () = (Inr (the (ex_texts ''Z'')), ())"
    by (simp add: manifest_unlocked_def object_id_def ex_id_def list_all_iff is_lower_hex_def less_eq_char_def bind_def lift_def
        params_def jobj_def as_object_def one1 [unfolded ex_id_def] string_field_def ex_texts_def jstr_eq_def index_def check_def ret_def)
  have "\<exists>m k. read_account_unlocked ex_reader ex_client ex_id ex_address () = (Inr m, ()) \<and> uint (index m ''nonce'') = Inr k"
    by (simp add: read_account_unlocked_def bind_def m lift_def ex_texts_def ex_address_eq index_def as_array_def check_def
        params_def jobj_def as_object_def one2 ret_def jset_def less_eq_char_def)
  moreover have "rows_vec ex_reader ex_client page_sql (bt_of_list [(''id'', JStr ex_id), (''address'', JStr ex_address), (''after'', JStr after),
        (''limit'', JNum (show_nat n))]) () = (Inr (take n (above after [ex_slot 1, ex_slot 2])), ())" for after n
  proof -
    let ?t = "take n (filter (\<lambda>(c, r). after < slot_of r) ex_letters)"
    let ?ps = "bt_of_list [(''id'', JStr ex_id), (''address'', JStr ex_address), (''after'', JStr after), (''limit'', JNum (show_nat n))]"
    have ps: "?ps = [(''address'', JStr ex_address), (''after'', JStr after), (''id'', JStr ex_id), (''limit'', JNum (show_nat n))]"
      by (simp add: bt_of_list_def less_eq_char_def)
    have sub: "set ?t \<subseteq> set ex_letters" by (meson in_set_takeD filter_is_subset subset_code(1))
    then have "text_ok ex_texts (map fst ?t)"
      by (auto simp: text_ok_def list_all_iff ex_letters_def ex_texts_def is_whitespace_def ex_slot_def)
    moreover have "text_rows ex_texts (map fst ?t) = map snd ?t"
      using sub by (auto simp: text_rows_def ex_letters_def ex_texts_def)
    moreover have "map snd ?t = take n (above after [ex_slot 1, ex_slot 2])"
      by (simp add: take_map [symmetric] above_def ex_letters_def)
    moreover have "ex_answers (page_sql @ '' FORMAT JSONEachRow'') (param_texts ?ps) = lines (map fst ?t)"
      by (simp add: ex_answers_def ps param_texts_def param_text_def)
    ultimately show ?thesis
      using script_rows_vec [of ex_reader ex_answers page_sql ?ps "map fst ?t" ex_client "()"] by (simp add: ps param_text_def)
  qed
  ultimately show ?thesis by (simp add: serves_def)
qed

theorem pages_complete_witness:
  "read_pages ex_reader ex_client ''p'' ex_id ex_address 1 3 None () = (Inr [ex_slot 1, ex_slot 2], ())"
proof -
  have s: "slot_of (ex_slot b) = hex32 b" "get (ex_slot b) ''slot'' = Some (JStr (hex32 b))" for b
    by (simp_all add: slot_of_def ex_slot_def)
  have "slots_ok ex_reader ex_id ex_address [ex_slot 1, ex_slot 2]"
    by (simp add: slots_ok_def s hex32_less ex_fixed32 ex_cursor_text)
  moreover have "hex32 b \<noteq> []" for b using hex32_length [of b] by auto
  ultimately show ?thesis using pages_complete [OF ex_serves, of 1 3 "''p''"] by (simp add: s)
qed

end
