(* ===== verification/Server.thy ===== *)
theory Server
  imports Control
begin

text \<open>
  What the native tools' requests leave as it was: an observation of the database that every
  statement of a class keeps, kept by the operations that send only such statements.  Reading a
  database and opening its controller send only harmless statements.
\<close>

definition control_create :: string where
  "control_create = ''CREATE TABLE _evm_checkpoint_control (control_id String, binding String) ENGINE=MergeTree ORDER BY control_id SETTINGS fsync_after_insert=1, fsync_part_directory=1''"

definition harmless :: "string \<Rightarrow> bool" where
  "harmless sql \<longleftrightarrow> prefix ''SELECT '' sql \<or> sql = control_create \<or> sql = ''INSERT INTO _evm_checkpoint_control FORMAT JSONEachRow''"

definition observed :: "('w, 'x) chlib_scheme \<Rightarrow> (string \<Rightarrow> bool) \<Rightarrow> ('w \<Rightarrow> 'p) \<Rightarrow> bool" where
  "observed L ok parts \<longleftrightarrow> (\<forall>sql. harmless sql \<longrightarrow> ok sql) \<and>
     (\<forall>c db sql ps body w. ok sql \<longrightarrow> parts (snd (http_post L c ((''database'', db) # (''query'', sql) # ps) body w)) = parts w)"

definition keeps :: "('w \<Rightarrow> 'p) \<Rightarrow> ('w \<Rightarrow> 'r \<times> 'w) \<Rightarrow> bool" where
  "keeps parts m \<longleftrightarrow> (\<forall>w. parts (snd (m w)) = parts w)"

lemma keeps_simple [simp]: "keeps p (ret v)" "keeps p (fail e)" "keeps p (lift r)" "keeps p (check c e)"
  by (simp_all add: keeps_def)

lemma keeps_bind: "keeps p m \<Longrightarrow> (\<And>v. keeps p (f v)) \<Longrightarrow> keeps p (bind m f)"
  by (auto simp: keeps_def bind_def split: prod.splits sum.splits) (metis snd_conv)+

lemma keepsD: "keeps p m \<Longrightarrow> m w = (r, w') \<Longrightarrow> p w' = p w"
  unfolding keeps_def by (metis snd_conv)

lemma keeps_for_each: "(\<And>x. x \<in> set xs \<Longrightarrow> keeps p (f x)) \<Longrightarrow> keeps p (for_each f xs)"
  by (induction xs) (simp_all add: keeps_bind)

text \<open>
  A computation changes the observation, or succeeds, only in worlds where \<open>P\<close> holds; each step
  before the first change is known to have succeeded.
\<close>

definition only_after :: "('w \<Rightarrow> 'p) \<Rightarrow> 'p \<Rightarrow> ('w \<Rightarrow> bool) \<Rightarrow> ('w, 'a) io \<Rightarrow> 'w \<Rightarrow> bool" where
  "only_after p h P m w \<longleftrightarrow> (\<forall>r w'. m w = (r, w') \<longrightarrow> p w' = h \<and> \<not> is_ok r \<or> P w')"

lemma only_after_bind:
  assumes "keeps p m" "p w = h" "\<And>v u. m w = (Inr v, u) \<Longrightarrow> p u = h \<Longrightarrow> only_after p h P (f v) u"
  shows "only_after p h P (bind m f) w"
  unfolding only_after_def
proof (intro allI impI)
  fix r w' assume b: "bind m f w = (r, w')"
  obtain a u where a: "m w = (a, u)" by fastforce
  have u: "p u = h" using keepsD [OF assms(1) a] assms(2) by simp
  show "p w' = h \<and> \<not> is_ok r \<or> P w'"
  proof (cases a)
    case (Inl e)
    with a b u show ?thesis by (auto simp: bind_def)
  next
    case (Inr v)
    with a b have "f v u = (r, w')" by (simp add: bind_def)
    with assms(3) [of v u] a Inr u show ?thesis unfolding only_after_def by blast
  qed
qed

lemma only_after_lift:
  "(\<And>v. r = Inr v \<Longrightarrow> only_after p h P (f v) w) \<Longrightarrow> p w = h \<Longrightarrow> only_after p h P (bind (lift r) f) w"
  by (cases r) (simp_all add: only_after_def fail_def)

lemma only_after_check:
  "(c \<Longrightarrow> only_after p h P (f ()) w) \<Longrightarrow> p w = h \<Longrightarrow> only_after p h P (bind (check c e) f) w"
  by (cases c) (simp_all add: only_after_def fail_def)

lemma only_after_all: "(\<And>r w'. m w = (r, w') \<Longrightarrow> P w') \<Longrightarrow> only_after p h P m w"
  by (simp add: only_after_def)

lemma only_after_mono: "only_after p h P m w \<Longrightarrow> (\<And>w'. P w' \<Longrightarrow> Q w') \<Longrightarrow> only_after p h Q m w"
  unfolding only_after_def by blast

lemma only_afterD: "only_after p h P m w \<Longrightarrow> m w = (r, w') \<Longrightarrow> p w' \<noteq> h \<or> is_ok r \<Longrightarrow> P w'"
  unfolding only_after_def by blast

lemma keeps_request:
  assumes "observed L ok parts" "ok sql"
  shows "keeps parts (request L c sql ps body)"
  unfolding keeps_def
proof
  fix w
  show "parts (snd (request L c sql ps body w)) = parts w"
  proof (cases "query_pairs c sql ps")
    case (Inr q)
    then obtain qs where q: "q = (''database'', ch_database c) # (''query'', sql) # qs" by (auto simp: query_pairs_def bnd_Inr_iff)
    have "parts (snd (http_post L c q body w)) = parts w" using assms by (simp add: observed_def q)
    moreover obtain r w' where "http_post L c q body w = (r, w')" by fastforce
    moreover have "snd (case r of Inl HttpTimeout \<Rightarrow> (a, w') | Inl HttpTransport \<Rightarrow> (b, w') | Inr x \<Rightarrow> (check_response x, w')) = w'" for a b
      by (cases r) (auto split: http_error.split)
    ultimately show ?thesis using Inr
      by (cases r) (auto simp: request_def bind_def lift_def split: http_error.split)
  qed (simp add: request_def bind_def lift_def)
qed

lemma keeps_reads:
  assumes "observed L ok parts" "prefix ''SELECT '' sql"
  shows "keeps parts (rows L c sql ps)" "keeps parts (rows_vec L c sql ps)" "keeps parts (each_row L c sql ps f v)"
    "keeps parts (one L c sql ps)"
proof -
  have "harmless (sql @ '' FORMAT JSONEachRow'')" using assms(2) unfolding harmless_def by (simp only: prefix_prefix simp_thms)
  then have "ok (sql @ '' FORMAT JSONEachRow'')" using assms(1) unfolding observed_def by blast
  then show r: "keeps parts (rows L c sql ps)"
    unfolding rows_def by (intro keeps_bind keeps_request [OF assms(1)]) simp_all
  show "keeps parts (rows_vec L c sql ps)" "keeps parts (each_row L c sql ps f v)"
    unfolding rows_vec_def each_row_def by (intro keeps_bind r keeps_simple)+
  show "keeps parts (one L c sql ps)"
    unfolding one_def by (intro keeps_bind r) (simp split: prod.split option.split sum.split)
qed

lemma keeps_disk_usage: "observed L ok parts \<Longrightarrow> keeps parts (disk_usage L c)"
  unfolding disk_usage_def by (intro keeps_bind keeps_reads keeps_simple) simp_all

lemma keeps_insert_body:
  assumes "observed L ok parts" "ok (''INSERT INTO '' @ table @ '' FORMAT JSONEachRow'')"
  shows "keeps parts (insert_body L c table body)"
  unfolding insert_body_def by (intro keeps_bind keeps_request [OF assms] keeps_simple)

lemma keeps_insert_loop:
  assumes "observed L ok parts" "ok (''INSERT INTO '' @ table @ '' FORMAT JSONEachRow'')"
  shows "keeps parts (insert_loop L c table k rs body j)"
proof (induction rs arbitrary: body j)
  case Nil
  show ?case by (simp add: keeps_insert_body [OF assms])
next
  case (Cons r rs)
  then show ?case by (cases r) (simp_all add: Let_def keeps_bind keeps_insert_body [OF assms])
qed

lemma keeps_claim:
  assumes "observed L ok parts"
  shows "keeps parts (claim_database L c record i)"
proof -
  have "ok control_create" "ok ''INSERT INTO _evm_checkpoint_control FORMAT JSONEachRow''"
    using assms unfolding observed_def harmless_def by blast+
  then show ?thesis
    unfolding claim_database_def execute_def insert_values_def ch_insert_def
    by (intro keeps_bind keeps_request [OF assms] keeps_simple keeps_insert_loop [OF assms]) (simp_all add: control_create_def)
qed

abbreviation keeps_node :: "('w \<Rightarrow> 'p) \<Rightarrow> ('w node \<Rightarrow> 'r \<times> 'w node) \<Rightarrow> bool" where
  "keeps_node parts \<equiv> keeps (\<lambda>n. parts (nd_db n))"

lemma keeps_on_db: "keeps parts m \<Longrightarrow> keeps_node parts (on_db m)"
  by (simp add: keeps_def on_db_def case_prod_unfold)

lemma keeps_on_fs [simp]: "keeps_node parts (on_fs m)" "keeps_node parts (on_locks f)" "keeps_node parts (draw g)"
  by (simp_all add: keeps_def on_fs_db on_locks_keeps draw_def)

lemma keeps_holding: "keeps_node parts m \<Longrightarrow> keeps_node parts (holding L p x m)"
  unfolding holding_def acquire_def
  by (intro keeps_bind keeps_on_fs) (simp add: keeps_def case_prod_unfold)

lemma keeps_host: "keeps_node parts (machine_id L)" "keeps_node parts (host_matches L record d)"
  unfolding host_matches_def matches_for_def machine_id_def
  by (auto intro!: keeps_bind split: option.split)

lemma keeps_control_open:
  assumes "observed L ok parts"
  shows "keeps_node parts (control_open L client)"
proof -
  have q: "keeps parts (database_uuid L client)" "keeps parts (control_owned L client)"
    unfolding database_uuid_def control_owned_def by (intro keeps_bind keeps_reads [OF assms] keeps_simple, simp)+
  have "keeps_node parts (load_binding L uuid path owned)" "keeps_node parts (mark_initialized L path i)"
      "keeps_node parts (control_matches L rc uuid path)" for uuid path owned i rc
    unfolding load_binding_def mark_initialized_def control_matches_def Let_def new_id_def
    by (auto intro!: keeps_bind keeps_host)
  then have "keeps_node parts (open_binding L client uuid path)" for uuid path
    unfolding open_binding_def
    by (auto intro!: keeps_bind keeps_on_db q keeps_claim [OF assms] keeps_reads [OF assms])
  then show ?thesis unfolding control_open_def Let_def
    by (intro keeps_bind keeps_on_db q keeps_simple keeps_on_fs keeps_holding)
qed

end
