(* ===== verification/Retention.thy ===== *)
theory Retention
  imports Reader Server
begin

text \<open>
  Retention of checkpoint generations, \<open>crates/evm-state/src/retention.rs\<close>: the plan of what to
  keep and the removal of whole partitions, publication first.
\<close>

definition TABLES :: "string list" where
  "TABLES = [''checkpoints'', ''checkpoint_accounts'', ''checkpoint_storage'']"

definition table_list :: string where
  "table_list = CHR ''('' # join '','' (map quoted TABLES) @ '')''"

definition db_params :: "ClickHouse \<Rightarrow> (string \<times> json) list res" where
  "db_params client = params (jobj [(''db'', JStr (ch_database client))])"

definition schema_sql :: string where
  "schema_sql = ''SELECT name,partition_key FROM system.tables WHERE database={db:String} AND name IN '' @ table_list"

definition require_partitioned_schema :: "('w, 'x) nodelib_scheme \<Rightarrow> ClickHouse \<Rightarrow> ('w, unit) io" where
  "require_partitioned_schema L client =
     bind (lift (db_params client)) (\<lambda>ps.
     bind (rows_vec L client schema_sql ps) (\<lambda>rs.
     check (length rs = 3 \<and> list_all (\<lambda>row. jstr_eq (index row ''partition_key'') ''snapshot_id'') rs)
       ''checkpoint tables use an old prototype schema; export and import into a fresh database before retention''))"

definition ready_record :: "('w, 'x) nodelib_scheme \<Rightarrow> json \<Rightarrow> json list \<Rightarrow> json list res" where
  "ready_record L row records =
     bnd (bnd (string_field row ''manifest'') (\<lambda>t. context_res (json_parse L t) ''invalid JSON'')) (\<lambda>v.
     bnd (bnd (string_field row ''snapshot_id'') object_id) (\<lambda>id'.
     ensure (jstr_eq (index v ''snapshot_id'') id' \<and> jstr_eq (index v ''status'') ''ready'')
       ''invalid ready manifest blocks retention''
     (Inr (records @ [v]))))"

definition id_set :: "json list \<Rightarrow> string list res" where
  "id_set records = bnd (map_res (\<lambda>row. string_field row ''snapshot_id'') records) (\<lambda>ids. Inr (sort (remdups ids)))"

type_synonym kept = "(string, string) btree \<times> string list"

definition keep_account :: "json \<Rightarrow> json \<Rightarrow> kept \<Rightarrow> kept res" where
  "keep_account record account s = (case s of (latest, keep) \<Rightarrow>
     bnd (context_res (as_str account) ''invalid checkpoint account'') (\<lambda>account.
     if map_of latest account = None
     then bnd (string_field record ''snapshot_id'') (\<lambda>id'. Inr (bt_insert account id' latest, insort_insert id' keep))
     else Inr (latest, keep)))"

definition keep_record :: "json \<Rightarrow> kept \<Rightarrow> kept res" where
  "keep_record record s =
     bnd (context_res (as_array (index record ''accounts'')) ''invalid checkpoint accounts'') (\<lambda>accounts.
     fold_res (keep_account record) accounts s)"

definition keep_pin :: "string list \<Rightarrow> json \<Rightarrow> string list \<Rightarrow> string list res" where
  "keep_pin ready p keep =
     bnd (string_field p ''snapshot_id'') (\<lambda>id'.
     ensure (id' \<in> set ready) ''a pinned checkpoint is missing; retention stopped''
     (Inr (insort_insert id' keep)))"

definition trim_quotes :: "string \<Rightarrow> string" where
  "trim_quotes s = rev (dropWhile (\<lambda>c. c = CHR 0x27) (rev (dropWhile (\<lambda>c. c = CHR 0x27) s)))"

definition partition_row :: "json \<Rightarrow> string list \<Rightarrow> string list res" where
  "partition_row row partitions =
     bnd (string_field row ''partition'') (\<lambda>p.
     bnd (object_id (trim_quotes p)) (\<lambda>id'. Inr (insort_insert id' partitions)))"

definition strings :: "string list \<Rightarrow> json" where
  "strings xs = JArr (map JStr xs)"

definition plan_json :: "string list \<Rightarrow> string list \<Rightarrow> string list \<Rightarrow> json list \<Rightarrow> (string, string) btree \<Rightarrow> nat \<Rightarrow> json" where
  "plan_json keep remove ready pins latest keep_latest =
     jobj [(''keep'', strings keep), (''remove'', strings remove),
       (''unpublished_candidates'', strings (filter (\<lambda>x. x \<notin> set ready) remove)),
       (''pins'', JArr (map (\<lambda>p. jobj [(''pin_id'', index p ''pin_id''), (''snapshot_id'', index p ''snapshot_id'')]) pins)),
       (''latest_for_account'', JObj (map (\<lambda>(a, i). (a, JStr i)) latest)), (''keep_latest'', JNum (show_nat keep_latest))]"

definition records_sql :: string where
  "records_sql = ''SELECT snapshot_id,manifest FROM checkpoints FINAL ORDER BY block_number DESC, created_at DESC''"

definition parts_sql :: string where
  "parts_sql = ''SELECT DISTINCT partition FROM system.parts WHERE database={db:String} AND active AND table IN '' @ table_list"

definition plan_keep :: "json list \<Rightarrow> nat \<Rightarrow> (string list \<times> kept) res" where
  "plan_keep records keep_latest =
     bnd (id_set records) (\<lambda>ready.
     bnd (id_set (take keep_latest records)) (\<lambda>keep.
     bnd (fold_res keep_record records ([], keep)) (\<lambda>s. Inr (ready, s))))"

definition retention_plan_unlocked :: "('w, 'x) nodelib_scheme \<Rightarrow> ClickHouse \<Rightarrow> ControlRecord \<Rightarrow> nat \<Rightarrow> ('w node, json) io" where
  "retention_plan_unlocked L client owner keep_latest =
     bind (check (1 \<le> keep_latest) ''keep_latest must be at least one'') (\<lambda>_.
     bind (on_db (require_partitioned_schema L client)) (\<lambda>_.
     bind (on_db (each_row L client records_sql [] (ready_record L) [])) (\<lambda>records.
     bind (lift (plan_keep records keep_latest)) (\<lambda>(ready, latest, keep).
     bind (on_fs (pins_unlocked L owner)) (\<lambda>pins.
     bind (lift (fold_res (keep_pin ready) pins keep)) (\<lambda>keep.
     bind (lift (db_params client)) (\<lambda>ps.
     bind (on_db (each_row L client parts_sql ps partition_row [])) (\<lambda>partitions.
     let remove = filter (\<lambda>x. x \<notin> set keep) partitions in
     ret (plan_json keep remove ready pins latest keep_latest)))))))))"

definition retention_plan :: "('w, 'x) nodelib_scheme \<Rightarrow> ClickHouse \<Rightarrow> nat \<Rightarrow> ('w node, json) io" where
  "retention_plan L client keep_latest =
     bind (control_open L client) (\<lambda>owner.
     control_retention L owner (retention_plan_unlocked L client owner keep_latest))"

definition drop_sql :: "string \<Rightarrow> string" where
  "drop_sql table = ''ALTER TABLE '' @ table @ '' DROP PARTITION {id:String}''"

definition drop_generation :: "('w, 'x) nodelib_scheme \<Rightarrow> ClickHouse \<Rightarrow> json \<Rightarrow> ('w, unit) io" where
  "drop_generation L client id' =
     for_each (\<lambda>table. bind (lift (params (jobj [(''id'', id')]))) (\<lambda>ps.
       bind (execute L client (drop_sql table) ps) (\<lambda>_. ret ()))) TABLES"

definition prune :: "('w, 'x) nodelib_scheme \<Rightarrow> ClickHouse \<Rightarrow> nat \<Rightarrow> ('w node, json) io" where
  "prune L client keep_latest =
     bind (control_open L client) (\<lambda>owner.
     control_retention L owner (
       bind (retention_plan_unlocked L client owner keep_latest) (\<lambda>result.
       bind (on_db (disk_usage L client)) (\<lambda>before.
       bind (on_db (for_each (drop_generation L client) (case index result ''remove'' of JArr ids \<Rightarrow> ids | _ \<Rightarrow> []))) (\<lambda>_.
       bind (on_db (disk_usage L client)) (\<lambda>after.
       ret (jset (jset (jset (jset result ''bytes_before'' (jnum before)) ''bytes_after'' (jnum after)) ''applied'' (JBool True))
         ''space_reclamation'' (JStr ''ClickHouse may retain inactive parts until background cleanup; bytes_after includes them'')))))))) "

section \<open>What the plan keeps\<close>

definition listed :: "json \<Rightarrow> string set" where
  "listed record = (case index record ''accounts'' of JArr vs \<Rightarrow> {a. JStr a \<in> set vs} | _ \<Rightarrow> {})"

lemma set_insort_insert' [simp]: "set (insort_insert x xs) = insert x (set xs)"
  by (simp add: set_insort_insert)

lemma keep_accounts_Inr:
  assumes "fold_res (keep_account record) vs (latest, keep) = Inr (latest', keep')"
    and "get record ''snapshot_id'' = Some (JStr i)"
  shows "dom (map_of latest') = dom (map_of latest) \<union> {a. JStr a \<in> set vs} \<and>
    set keep \<subseteq> set keep' \<and> (\<forall>a. JStr a \<in> set vs \<and> map_of latest a = None \<longrightarrow> i \<in> set keep')"
  using assms(1)
proof (induction vs arbitrary: latest keep)
  case (Cons v vs)
  from Cons.prems obtain s where s: "keep_account record v (latest, keep) = Inr s" "fold_res (keep_account record) vs s = Inr (latest', keep')"
    by (auto simp: bnd_Inr_iff)
  obtain l k where lk: "s = (l, k)" by (cases s)
  from s(1) lk obtain a where v: "v = JStr a"
    and r: "if map_of latest a = None then l = bt_insert a i latest \<and> k = insort_insert i keep else l = latest \<and> k = keep"
    using assms(2) by (auto simp: keep_account_def res_simps as_str_iff string_field_Inr split: if_splits)
  have ih: "dom (map_of latest') = dom (map_of l) \<union> {a. JStr a \<in> set vs} \<and>
    set k \<subseteq> set keep' \<and> (\<forall>a. JStr a \<in> set vs \<and> map_of l a = None \<longrightarrow> i \<in> set keep')"
    using Cons.IH [of l k] s(2) lk by simp
  show ?case
  proof (cases "map_of latest a = None")
    case True
    with r have "l = bt_insert a i latest" "k = insort_insert i keep" by simp_all
    with ih v show ?thesis by auto
  next
    case False
    with r have "l = latest" "k = keep" by simp_all
    with ih v False show ?thesis by auto
  qed
qed simp

lemma keep_records_Inr:
  assumes "fold_res keep_record rs (latest, keep) = Inr (latest', keep')"
    and "\<forall>r \<in> set rs. get r ''snapshot_id'' = Some (JStr (ident r))"
  shows "set keep \<subseteq> set keep' \<and>
    (\<forall>xs r ys a. rs = xs @ r # ys \<and> a \<in> listed r \<and> (\<forall>q \<in> set xs. a \<notin> listed q) \<and> map_of latest a = None \<longrightarrow> ident r \<in> set keep')"
  using assms
proof (induction rs arbitrary: latest keep)
  case (Cons r rs)
  from Cons.prems(1) obtain s where s: "keep_record r (latest, keep) = Inr s" "fold_res keep_record rs s = Inr (latest', keep')"
    by (auto simp: bnd_Inr_iff)
  obtain l k where lk: "s = (l, k)" by (cases s)
  from s(1) lk obtain vs where vs: "index r ''accounts'' = JArr vs" "fold_res (keep_account r) vs (latest, keep) = Inr (l, k)"
    by (auto simp: keep_record_def res_simps as_array_def split: json.splits)
  have id: "get r ''snapshot_id'' = Some (JStr (ident r))" using Cons.prems(2) by simp
  from keep_accounts_Inr [OF vs(2) id] have acc: "dom (map_of l) = dom (map_of latest) \<union> listed r" "set keep \<subseteq> set k"
      "\<forall>a. a \<in> listed r \<and> map_of latest a = None \<longrightarrow> ident r \<in> set k"
    by (simp_all add: listed_def vs(1))
  have ih: "set k \<subseteq> set keep' \<and> (\<forall>xs q ys a. rs = xs @ q # ys \<and> a \<in> listed q \<and> (\<forall>p \<in> set xs. a \<notin> listed p) \<and>
      map_of l a = None \<longrightarrow> ident q \<in> set keep')"
    using Cons.IH [of l k] s(2) lk Cons.prems(2) by simp
  have main: "ident q \<in> set keep'" if c: "r # rs = xs @ q # ys" "a \<in> listed q" "\<forall>p \<in> set xs. a \<notin> listed p" "map_of latest a = None" for xs q ys a
  proof (cases xs)
    case Nil
    with c have "q = r" by simp
    with c(2,4) acc(3) have "ident q \<in> set k" by blast
    then show ?thesis using ih by (meson subsetD)
  next
    case (Cons p xs')
    with c have p: "p = r" "rs = xs' @ q # ys" by simp_all
    have "a \<notin> dom (map_of l)" using acc(1) c(3,4) Cons p(1) by (simp add: domIff)
    then have "map_of l a = None" by (simp add: domIff)
    moreover have "\<forall>p \<in> set xs'. a \<notin> listed p" using c(3) Cons by simp
    ultimately show ?thesis using ih [THEN conjunct2, rule_format, of xs' q ys a] p(2) c(2) by simp
  qed
  have "set keep \<subseteq> set keep'" using acc(2) ih by blast
  then show ?case by (intro conjI allI impI) (assumption, elim conjE, rule main)
qed simp

lemma keep_pin_Inr: "keep_pin ready p keep = Inr k \<longleftrightarrow>
    (\<exists>i \<in> set ready. get p ''snapshot_id'' = Some (JStr i) \<and> k = insort_insert i keep)"
  by (auto simp: keep_pin_def res_simps string_field_Inr)

lemma keep_pins_Inr:
  assumes "fold_res (keep_pin ready) pins keep = Inr keep'"
  shows "set keep' = set keep \<union> {i. \<exists>p \<in> set pins. get p ''snapshot_id'' = Some (JStr i)} \<and>
    (\<forall>p \<in> set pins. \<exists>i \<in> set ready. get p ''snapshot_id'' = Some (JStr i))"
  using assms
proof (induction pins arbitrary: keep)
  case (Cons p pins)
  then obtain i where "get p ''snapshot_id'' = Some (JStr i)" "i \<in> set ready"
      "fold_res (keep_pin ready) pins (insort_insert i keep) = Inr keep'"
    by (auto simp: keep_pin_Inr bnd_Inr_iff)
  with Cons.IH [of "insort_insert i keep"] show ?case by auto
qed simp

lemma id_set_Inr:
  "id_set rs = Inr ids \<Longrightarrow> set ids = {i. \<exists>r \<in> set rs. get r ''snapshot_id'' = Some (JStr i)} \<and>
     (\<forall>r \<in> set rs. \<exists>i. get r ''snapshot_id'' = Some (JStr i))"
proof -
  assume a: "id_set rs = Inr ids"
  then obtain xs where xs: "map_res (\<lambda>row. string_field row ''snapshot_id'') rs = Inr xs" "set ids = set xs"
    by (auto simp: id_set_def bnd_Inr_iff)
  from xs(1) have "list_all2 (\<lambda>x y. get x ''snapshot_id'' = Some (JStr y)) rs xs"
    by (simp add: map_res_Inr_iff string_field_Inr)
  then have "\<forall>r \<in> set rs. \<exists>i. get r ''snapshot_id'' = Some (JStr i)"
    by (auto simp: list_all2_conv_all_nth in_set_conv_nth)
  with map_res_set [OF xs(1)] xs(2) show ?thesis by (auto simp: string_field_Inr)
qed

definition removed :: "json \<Rightarrow> string set" where
  "removed plan = (case index plan ''remove'' of JArr ids \<Rightarrow> {i. JStr i \<in> set ids} | _ \<Rightarrow> {})"

lemma removed_plan_json: "index (plan_json keep remove ready pins latest k) ''remove'' = strings remove"
  by (simp add: plan_json_def index_jobj)

lemma plan_keep_Inr:
  assumes "plan_keep records k = Inr (ready, latest, keep)"
  shows "(\<forall>r \<in> set (take k records). \<forall>i. get r ''snapshot_id'' = Some (JStr i) \<longrightarrow> i \<in> set keep) \<and>
    (\<forall>xs r ys a i. records = xs @ r # ys \<and> a \<in> listed r \<and> (\<forall>q \<in> set xs. a \<notin> listed q) \<and>
       get r ''snapshot_id'' = Some (JStr i) \<longrightarrow> i \<in> set keep)"
proof -
  from assms obtain keep0 where k: "id_set records = Inr ready" "id_set (take k records) = Inr keep0"
      "fold_res keep_record records ([], keep0) = Inr (latest, keep)"
    by (auto simp: plan_keep_def bnd_Inr_iff)
  define ident where "ident r = (case get r ''snapshot_id'' of Some (JStr i) \<Rightarrow> i | _ \<Rightarrow> [])" for r
  have "\<forall>r \<in> set records. get r ''snapshot_id'' = Some (JStr (ident r))"
    using id_set_Inr [OF k(1)] by (fastforce simp: ident_def)
  note fin = keep_records_Inr [OF k(3) this]
  show ?thesis
  proof (intro conjI ballI allI impI)
    show "i \<in> set keep" if "r \<in> set (take k records)" "get r ''snapshot_id'' = Some (JStr i)" for r i
      using fin [THEN conjunct1] id_set_Inr [OF k(2)] that by blast
    show "i \<in> set keep" if "records = xs @ r # ys \<and> a \<in> listed r \<and> (\<forall>q \<in> set xs. a \<notin> listed q) \<and>
       get r ''snapshot_id'' = Some (JStr i)" for xs r ys a i
      using fin [THEN conjunct2, rule_format, of xs r ys a] that by (simp add: ident_def)
  qed
qed

text \<open>
  C22: a retention plan removes only partitions that exist, and never the generation of a pin, one
  of the newest checkpoints that are to be kept, or, for any account, the newest checkpoint that
  contains it.
\<close>

theorem retention_plan_keeps:
  assumes "retention_plan_unlocked L client owner k n = (Inr plan, n')"
  shows "\<exists>records pins partitions n1 n2 n3 n4 n5 ps.
    on_db (each_row L client records_sql [] (ready_record L) []) n1 = (Inr records, n2) \<and>
    on_fs (pins_unlocked L owner) n2 = (Inr pins, n3) \<and>
    on_db (each_row L client parts_sql ps partition_row []) n4 = (Inr partitions, n5) \<and>
    removed plan \<subseteq> set partitions \<and>
    (\<forall>p \<in> set pins. \<forall>i. get p ''snapshot_id'' = Some (JStr i) \<longrightarrow> i \<notin> removed plan) \<and>
    (\<forall>r \<in> set (take k records). \<forall>i. get r ''snapshot_id'' = Some (JStr i) \<longrightarrow> i \<notin> removed plan) \<and>
    (\<forall>xs r ys a i. records = xs @ r # ys \<and> a \<in> listed r \<and> (\<forall>q \<in> set xs. a \<notin> listed q) \<and>
       get r ''snapshot_id'' = Some (JStr i) \<longrightarrow> i \<notin> removed plan)"
proof -
  from assms obtain records pins partitions ready latest keep0 keep ps n1 n2 n3 n5 where
    d: "on_db (each_row L client records_sql [] (ready_record L) []) n1 = (Inr records, n2)"
      "plan_keep records k = Inr (ready, latest, keep0)"
      "on_fs (pins_unlocked L owner) n2 = (Inr pins, n3)" "fold_res (keep_pin ready) pins keep0 = Inr keep"
      "on_db (each_row L client parts_sql ps partition_row []) n3 = (Inr partitions, n5)"
      "plan = plan_json keep (filter (\<lambda>x. x \<notin> set keep) partitions) ready pins latest k"
    unfolding retention_plan_unlocked_def by (auto simp: Let_def bind_Inr_iff split: prod.splits if_splits)
  note pins = keep_pins_Inr [OF d(4)] and kept = plan_keep_Inr [OF d(2)]
  have r: "removed plan = {i \<in> set partitions. i \<notin> set keep}"
    by (auto simp: removed_def d(6) removed_plan_json strings_def)
  have pin: "\<forall>p \<in> set pins. \<forall>i. get p ''snapshot_id'' = Some (JStr i) \<longrightarrow> i \<notin> removed plan"
    using pins r by blast
  have "i \<in> set keep" if "i \<in> set keep0" for i using that pins by blast
  then have "i \<notin> removed plan" if "i \<in> set keep0" for i using r that by blast
  note gone = this
  show ?thesis
    by (intro exI conjI, (rule d(1) d(3) d(5))+)
      (use r pin gone kept in blast)+
qed

section \<open>Interrupted removal\<close>

text \<open>
  What is relied on of the server: the set of stored partitions changes by nothing but dropping, a
  drop removes at most the partition it names, and one that is acknowledged has removed it.
\<close>

definition partition_server :: "('w, 'x) chlib_scheme \<Rightarrow> ('w \<Rightarrow> (string \<times> string) set) \<Rightarrow> bool" where
  "partition_server L parts \<longleftrightarrow>
     (\<forall>c db sql ps body w. harmless sql \<longrightarrow> parts (snd (http_post L c ((''database'', db) # (''query'', sql) # ps) body w)) = parts w) \<and>
     (\<forall>c db t x body w. t \<in> set TABLES \<longrightarrow>
        (let (r, w') = http_post L c [(''database'', db), (''query'', drop_sql t), (''param_id'', x)] body w in
         (parts w' = parts w \<or> parts w' = parts w - {(t, x)}) \<and>
         (\<forall>resp. r = Inr resp \<and> is_ok (check_response resp) \<longrightarrow> parts w' = parts w - {(t, x)})))"

lemma partition_observed: "partition_server L parts \<Longrightarrow> observed L harmless parts"
  by (simp add: partition_server_def observed_def)

lemma keeps_plan:
  assumes "partition_server L parts"
  shows "keeps_node parts (retention_plan_unlocked L client owner k)"
  unfolding retention_plan_unlocked_def require_partitioned_schema_def schema_sql_def records_sql_def parts_sql_def Let_def
  by (auto intro!: keeps_bind keeps_on_db keeps_reads [OF partition_observed [OF assms]] split: prod.split)

text \<open>The effect of one drop statement, and of dropping a generation, table by table.\<close>

lemma drop_table_effect:
  assumes "partition_server L parts" "t \<in> set TABLES"
    "bind (lift (params (jobj [(''id'', JStr x)]))) (\<lambda>ps. bind (execute L c (drop_sql t) ps) (\<lambda>_. ret ())) w = (r, w')"
  shows "(parts w' = parts w \<or> parts w' = parts w - {(t, x)}) \<and> (is_ok r \<longrightarrow> parts w' = parts w - {(t, x)})"
proof -
  define q where "q = [(''database'', ch_database c), (''query'', drop_sql t), (''param_id'', x)]"
  obtain a u where h: "http_post L c q [] w = (a, u)" by fastforce
  have law: "parts u = parts w \<or> parts u = parts w - {(t, x)}"
      "\<forall>resp. a = Inr resp \<and> is_ok (check_response resp) \<longrightarrow> parts u = parts w - {(t, x)}"
    using assms(1) [unfolded partition_server_def, THEN conjunct2, rule_format, OF assms(2), of c "ch_database c" x "[]" w] h
    unfolding q_def by (simp_all add: Let_def)
  have ps: "params (jobj [(''id'', JStr x)]) = Inr [(''id'', JStr x)]"
    by (simp add: params_def jobj_def as_object_def bt_of_list_def)
  have rq: "request L c (drop_sql t) [(''id'', JStr x)] [] w =
      (case a of Inl e \<Rightarrow> (Inl (case e of HttpTimeout \<Rightarrow> ''ClickHouse request failed: timeout''
         | HttpTransport \<Rightarrow> ''ClickHouse request failed: transport error''), u) | Inr x \<Rightarrow> (check_response x, u))"
    using h by (simp add: request_def query_pairs_def param_text_def bind_def lift_def q_def split: sum.split http_error.split)
  have "w' = u \<and> (is_ok r \<longrightarrow> (\<exists>resp. a = Inr resp \<and> is_ok (check_response resp)))"
  proof (cases a)
    case (Inl e)
    with assms(3) rq show ?thesis by (auto simp: ps execute_def bind_def)
  next
    case (Inr resp)
    with assms(3) rq show ?thesis
      by (cases "check_response resp") (auto simp: ps execute_def bind_def lift_def check_def ret_def split: sum.splits if_splits)
  qed
  with law show ?thesis by blast
qed

lemma drop_generation_effect:
  assumes "partition_server L parts" "drop_generation L c (JStr x) w = (r, w')"
  shows "parts w' \<subseteq> parts w" "(t, y) \<in> parts w \<Longrightarrow> y \<noteq> x \<Longrightarrow> (t, y) \<in> parts w'"
    "(''checkpoints'', x) \<in> parts w' \<Longrightarrow> parts w' = parts w"
    "is_ok r \<Longrightarrow> t \<in> set TABLES \<Longrightarrow> (t, x) \<notin> parts w'"
proof -
  define d where "d t = bind (lift (params (jobj [(''id'', JStr x)]))) (\<lambda>ps. bind (execute L c (drop_sql t) ps) (\<lambda>_. ret ()))" for t
  obtain r1 w1 where 1: "d ''checkpoints'' w = (r1, w1)" by fastforce
  obtain r2 w2 where 2: "d ''checkpoint_accounts'' w1 = (r2, w2)" by fastforce
  obtain r3 w3 where 3: "d ''checkpoint_storage'' w2 = (r3, w3)" by fastforce
  define A1 where "A1 = parts w - {(''checkpoints'', x)}"
  define A2 where "A2 = A1 - {(''checkpoint_accounts'', x)}"
  define A3 where "A3 = A2 - {(''checkpoint_storage'', x)}"
  have p1: "parts w1 = parts w \<or> parts w1 = A1" "is_ok r1 \<longrightarrow> parts w1 = A1"
    using drop_table_effect [OF assms(1) _ 1 [unfolded d_def]] by (simp_all add: TABLES_def A1_def)
  have p2: "parts w2 = parts w1 \<or> parts w2 = parts w1 - {(''checkpoint_accounts'', x)}"
      "is_ok r2 \<longrightarrow> parts w2 = parts w1 - {(''checkpoint_accounts'', x)}"
    using drop_table_effect [OF assms(1) _ 2 [unfolded d_def]] by (simp_all add: TABLES_def)
  have p3: "parts w3 = parts w2 \<or> parts w3 = parts w2 - {(''checkpoint_storage'', x)}"
      "is_ok r3 \<longrightarrow> parts w3 = parts w2 - {(''checkpoint_storage'', x)}"
    using drop_table_effect [OF assms(1) _ 3 [unfolded d_def]] by (simp_all add: TABLES_def)
  have res: "(r, w') = (case r1 of Inl e \<Rightarrow> (Inl e, w1) | Inr _ \<Rightarrow> (case r2 of Inl e \<Rightarrow> (Inl e, w2) | Inr _ \<Rightarrow>
      (case r3 of Inl e \<Rightarrow> (Inl e, w3) | Inr _ \<Rightarrow> (Inr (), w3))))"
    using assms(2) 1 2 3 unfolding drop_generation_def d_def [symmetric]
    by (cases r1; cases r2; cases r3) (auto simp: TABLES_def bind_def ret_def)
  have fin: "(parts w' = parts w \<or> parts w' = A1 \<or> parts w' = A2 \<or> parts w' = A3) \<and> (is_ok r \<longrightarrow> parts w' = A3)"
  proof (cases r1)
    case (Inl e)
    with res p1(1) show ?thesis by auto
  next
    case 1: (Inr u)
    then have w1: "parts w1 = A1" using p1(2) by simp
    show ?thesis
    proof (cases r2)
      case (Inl e)
      with 1 res have "w' = w2" "\<not> is_ok r" by simp_all
      with p2(1) w1 show ?thesis by (auto simp only: A2_def)
    next
      case 2: (Inr v)
      then have w2: "parts w2 = A2" using p2(2) w1 by (simp add: A2_def)
      have "w' = w3" "is_ok r \<longrightarrow> is_ok r3" using 1 2 res by (auto split: sum.splits)
      with p3 w2 show ?thesis by (auto simp only: A3_def)
    qed
  qed
  show "parts w' \<subseteq> parts w" using fin by (auto simp: A1_def A2_def A3_def)
  show "(t, y) \<in> parts w \<Longrightarrow> y \<noteq> x \<Longrightarrow> (t, y) \<in> parts w'" using fin by (auto simp: A1_def A2_def A3_def)
  show "(''checkpoints'', x) \<in> parts w' \<Longrightarrow> parts w' = parts w" using fin by (auto simp: A1_def A2_def A3_def)
  show "is_ok r \<Longrightarrow> t \<in> set TABLES \<Longrightarrow> (t, x) \<notin> parts w'" using fin by (auto simp: A1_def A2_def A3_def TABLES_def)
qed

text \<open>Dropping a list of generations, up to where it stopped.\<close>

definition pruned :: "(string \<times> string) set \<Rightarrow> (string \<times> string) set \<Rightarrow> string set \<Rightarrow> bool" where
  "pruned before after ids \<longleftrightarrow> after \<subseteq> before \<and> (\<forall>t y. (t, y) \<in> before \<and> y \<notin> ids \<longrightarrow> (t, y) \<in> after) \<and>
     (\<forall>y t. (''checkpoints'', y) \<in> after \<and> (t, y) \<in> before \<longrightarrow> (t, y) \<in> after)"

lemma pruned_trans: "pruned a b I \<Longrightarrow> pruned b c J \<Longrightarrow> pruned a c (I \<union> J)"
  unfolding pruned_def by (intro conjI allI impI) (blast, blast, meson in_mono)

lemma pruned_mono: "pruned a b I \<Longrightarrow> I \<subseteq> J \<Longrightarrow> pruned a b J"
  unfolding pruned_def by blast

lemma pruned_refl: "pruned a a I"
  by (simp add: pruned_def)

lemma drop_generations_effect:
  assumes "partition_server L parts" "for_each (drop_generation L c) (map JStr xs) w = (r, w')"
  shows "pruned (parts w) (parts w') (set xs) \<and> (is_ok r \<longrightarrow> (\<forall>x \<in> set xs. \<forall>t \<in> set TABLES. (t, x) \<notin> parts w'))"
  using assms(2)
proof (induction xs arbitrary: w)
  case Nil
  then show ?case by (simp add: pruned_refl)
next
  case (Cons x xs)
  obtain r1 w1 where 1: "drop_generation L c (JStr x) w = (r1, w1)" by fastforce
  note e = drop_generation_effect [OF assms(1) 1]
  have p: "pruned (parts w) (parts w1) {x}"
    unfolding pruned_def using e(1-3) by (metis singletonI)
  show ?case
  proof (cases r1)
    case (Inl m)
    with Cons.prems 1 have "w' = w1" "\<not> is_ok r" by (auto simp: bind_def)
    with p show ?thesis by (auto intro: pruned_mono)
  next
    case (Inr u)
    with Cons.prems 1 have n: "for_each (drop_generation L c) (map JStr xs) w1 = (r, w')" by (simp add: bind_def)
    note ih = Cons.IH [OF n]
    have "pruned (parts w) (parts w') (set (x # xs))" using pruned_trans [OF p, of "parts w'" "set xs"] ih by simp
    moreover have "(t, x) \<notin> parts w'" if "t \<in> set TABLES" for t
      using e(4) that Inr ih by (auto simp: pruned_def)
    ultimately show ?thesis using ih by auto
  qed
qed

lemma two_locks_cases:
  assumes "two_locks L path x m n = (r, n')"
  shows "(nd_db n' = nd_db n \<and> \<not> is_ok r) \<or> (\<exists>n1 n2. nd_db n1 = nd_db n \<and> m n1 = (r, n2) \<and> nd_db n' = nd_db n2)"
proof -
  obtain a n1 where a: "acquire L (writer_lock path) True n = (a, n1)" by fastforce
  obtain b n2 where b: "acquire L (readers_lock path) x n1 = (b, n2)" by fastforce
  have db: "nd_db n1 = nd_db n" "nd_db n2 = nd_db n"
    using acquire_db [of L "writer_lock path" True n] acquire_db [of L "readers_lock path" x n1] a b by simp_all
  show ?thesis
    using assms a b db by (cases a; cases b) (auto simp: two_locks_def bind_def split: prod.splits)
qed

lemma plan_strings:
  "retention_plan_unlocked L client owner k n = (Inr plan, n') \<Longrightarrow> \<exists>xs. index plan ''remove'' = strings xs"
  unfolding retention_plan_unlocked_def by (auto simp: Let_def bind_Inr_iff removed_plan_json split: prod.splits)

lemma prune_effect:
  assumes "partition_server L parts" "prune L client k n = (r, n')"
  shows "parts (nd_db n') = parts (nd_db n) \<and> \<not> is_ok r \<or>
    (\<exists>owner plan xs n1 n2. retention_plan_unlocked L client owner k n1 = (Inr plan, n2) \<and>
       parts (nd_db n1) = parts (nd_db n) \<and> index plan ''remove'' = strings xs \<and>
       pruned (parts (nd_db n)) (parts (nd_db n')) (set xs) \<and>
       (is_ok r \<longrightarrow> (\<forall>x \<in> set xs. \<forall>t \<in> set TABLES. (t, x) \<notin> parts (nd_db n'))))"
    (is "?none \<or> ?some")
proof -
  define body where "body owner = bind (retention_plan_unlocked L client owner k) (\<lambda>result.
       bind (on_db (disk_usage L client)) (\<lambda>before.
       bind (on_db (for_each (drop_generation L client) (case index result ''remove'' of JArr ids \<Rightarrow> ids | _ \<Rightarrow> []))) (\<lambda>_.
       bind (on_db (disk_usage L client)) (\<lambda>after.
       ret (jset (jset (jset (jset result ''bytes_before'' (jnum before)) ''bytes_after'' (jnum after)) ''applied'' (JBool True))
         ''space_reclamation'' (JStr ''ClickHouse may retain inactive parts until background cleanup; bytes_after includes them''))))))" for owner
  have du: "parts (nd_db m') = parts (nd_db m)" if "on_db (disk_usage L client) m = (q, m')" for m q m'
    using keeps_on_db [OF keeps_disk_usage [OF partition_observed [OF assms(1)], of client]] that unfolding keeps_def by (metis snd_conv)
  have plan: "parts (nd_db m') = parts (nd_db m)" if "retention_plan_unlocked L client owner k m = (q, m')" for owner m q m'
    using keeps_plan [OF assms(1), of client owner k] that unfolding keeps_def by (metis snd_conv)
  have run: "parts (nd_db m') = parts (nd_db m) \<and> \<not> is_ok q \<or> (\<exists>plan xs n2. retention_plan_unlocked L client owner k m = (Inr plan, n2) \<and>
       index plan ''remove'' = strings xs \<and> pruned (parts (nd_db m)) (parts (nd_db m')) (set xs) \<and>
       (is_ok q \<longrightarrow> (\<forall>x \<in> set xs. \<forall>t \<in> set TABLES. (t, x) \<notin> parts (nd_db m'))))"
    if "body owner m = (q, m')" for owner m q m'
  proof -
    obtain a m1 where a: "retention_plan_unlocked L client owner k m = (a, m1)" by fastforce
    show ?thesis
    proof (cases a)
      case (Inl e)
      with that a plan [OF a] show ?thesis by (auto simp: body_def bind_def)
    next
      case pl: (Inr result)
      obtain b m2 where b: "on_db (disk_usage L client) m1 = (b, m2)" by fastforce
      show ?thesis
      proof (cases b)
        case (Inl e)
        with that a b pl plan [OF a] du [OF b] show ?thesis by (auto simp: body_def bind_def)
      next
        case before: (Inr x)
        from plan_strings a pl obtain xs where xs: "index result ''remove'' = strings xs" by blast
        obtain c m3 where c: "on_db (for_each (drop_generation L client) (map JStr xs)) m2 = (c, m3)" by fastforce
        then have "for_each (drop_generation L client) (map JStr xs) (nd_db m2) = (c, nd_db m3)"
          by (auto simp: on_db_def split: prod.splits)
        note eff = drop_generations_effect [OF assms(1) this]
        have parts: "parts (nd_db m2) = parts (nd_db m)" using plan [OF a] du [OF b] by simp
        have "parts (nd_db m') = parts (nd_db m3) \<and> (is_ok q \<longrightarrow> is_ok c)"
        proof (cases c)
          case (Inl e)
          with that a b c pl before xs show ?thesis by (auto simp: body_def bind_def strings_def)
        next
          case dropped: (Inr u)
          obtain d m4 where d: "on_db (disk_usage L client) m3 = (d, m4)" by fastforce
          have "m' = m4" using that a b c d pl before xs dropped
            by (cases d) (auto simp: body_def bind_def strings_def ret_def)
          with du [OF d] dropped show ?thesis by simp
        qed
        with eff parts a pl xs show ?thesis by auto
      qed
    qed
  qed
  obtain o' n0 where o': "control_open L client n = (o', n0)" by fastforce
  have n0: "parts (nd_db n0) = parts (nd_db n)"
    using keeps_control_open [OF partition_observed [OF assms(1)], of client] o' unfolding keeps_def by (metis snd_conv)
  show ?thesis
  proof (cases o')
    case (Inl e)
    with assms(2) o' n0 show ?thesis by (auto simp: prune_def bind_def)
  next
    case (Inr owner)
    with assms(2) o' have "two_locks L (co_path owner) True (body owner) n0 = (r, n')"
      by (simp add: prune_def bind_def control_retention_def body_def)
    from two_locks_cases [OF this] show ?thesis
    proof
      assume "nd_db n' = nd_db n0 \<and> \<not> is_ok r"
      with n0 show ?thesis by simp
    next
      assume "\<exists>n1 n2. nd_db n1 = nd_db n0 \<and> body owner n1 = (r, n2) \<and> nd_db n' = nd_db n2"
      then obtain n1 n2 where "nd_db n1 = nd_db n0" "body owner n1 = (r, n2)" "nd_db n' = nd_db n2" by blast
      with run [of owner n1 r n2] n0 show ?thesis by metis
    qed
  qed
qed


section \<open>Concrete runs\<close>

definition ex_old :: string where "ex_old = replicate 32 (CHR ''b'')"

definition ex_plan_texts :: "string \<Rightarrow> json option" where
  "ex_plan_texts s =
     (if s = ''R'' then Some (JObj [(''manifest'', JStr ''Z''), (''snapshot_id'', JStr ex_id)])
      else if s = ''K'' then Some (JObj [(''partition_key'', JStr ''snapshot_id'')])
      else if s = ''P'' then Some (JObj [(''partition'', JStr (quoted ex_id))])
      else if s = ''Q'' then Some (JObj [(''partition'', JStr (quoted ex_old))])
      else if s = ''Z'' then Some (JObj [(''accounts'', JArr [JStr ex_address]), (''snapshot_id'', JStr ex_id), (''status'', JStr ''ready'')])
      else None)"

definition ex_plan_answers :: "string \<Rightarrow> (string \<times> string) list \<Rightarrow> string" where
  "ex_plan_answers sql ps = (if sql = records_sql @ '' FORMAT JSONEachRow'' then lines ''R''
     else if sql = parts_sql @ '' FORMAT JSONEachRow'' then lines ''PQ'' else lines ''KKK'')"

abbreviation ex_retention :: "unit nodelib" where "ex_retention \<equiv> scripted ex_plan_answers ex_plan_texts"

definition ex_owner :: ControlRecord where
  "ex_owner = \<lparr>co_path = ''/c'', co_pins = ''/c/pins'', co_record = JObj [(''control_id'', JStr ex_id)]\<rparr>"

definition ex_idle :: "unit node" where
  "ex_idle = ex_node\<lparr>nd_fs := \<lparr>fs_files = Map.empty, fs_plan = []\<rparr>\<rparr>"

lemma ex_ids: "object_id ex_id = Inr ex_id" "object_id ex_old = Inr ex_old" "ex_id \<noteq> ex_old"
    "trim_quotes (quoted ex_id) = ex_id" "trim_quotes (quoted ex_old) = ex_old"
  by (simp_all add: object_id_def ex_id_def ex_old_def list_all_iff is_lower_hex_def less_eq_char_def trim_quotes_def quoted_def
      numeral_eq_Suc)

lemma ex_queries:
  "rows_vec ex_retention ex_client records_sql [] () = (Inr [the (ex_plan_texts ''R'')], ())"
  "rows_vec ex_retention ex_client parts_sql [(''db'', JStr d)] () = (Inr [the (ex_plan_texts ''P''), the (ex_plan_texts ''Q'')], ())"
  "rows_vec ex_retention ex_client schema_sql
     [(''db'', JStr d)] () = (Inr (replicate 3 (the (ex_plan_texts ''K''))), ())"
proof -
  have ok: "text_ok ex_plan_texts ''R''" "text_ok ex_plan_texts ''PQ''" "text_ok ex_plan_texts ''KKK''"
    by (simp_all add: text_ok_def is_whitespace_def ex_plan_texts_def)
  show "rows_vec ex_retention ex_client records_sql [] () = (Inr [the (ex_plan_texts ''R'')], ())"
    using script_rows_vec [of ex_retention ex_plan_answers records_sql "[]" "''R''"] ok(1)
    by (simp add: ex_plan_answers_def text_rows_def)
  show "rows_vec ex_retention ex_client parts_sql [(''db'', JStr d)] () = (Inr [the (ex_plan_texts ''P''), the (ex_plan_texts ''Q'')], ())"
    using script_rows_vec [of ex_retention ex_plan_answers parts_sql "[(''db'', JStr d)]" "''PQ''"] ok(2)
    by (simp add: ex_plan_answers_def text_rows_def param_text_def records_sql_def parts_sql_def)
  show "rows_vec ex_retention ex_client schema_sql
     [(''db'', JStr d)] () = (Inr (replicate 3 (the (ex_plan_texts ''K''))), ())"
    using script_rows_vec [of ex_retention ex_plan_answers schema_sql
        "[(''db'', JStr d)]" "''KKK''"] ok(3)
    by (simp add: ex_plan_answers_def text_rows_def param_text_def records_sql_def parts_sql_def schema_sql_def numeral_eq_Suc)
qed

lemma ex_plan: "\<exists>plan. retention_plan_unlocked ex_retention ex_client ex_owner 1 ex_idle = (Inr plan, ex_idle) \<and> removed plan = {ex_old}"
proof -
  have db: "db_params ex_client = Inr [(''db'', JStr ''db'')]"
    by (simp add: db_params_def params_def jobj_def as_object_def bt_of_list_def ex_client_def)
  have schema: "require_partitioned_schema ex_retention ex_client () = (Inr (), ())"
    by (simp add: require_partitioned_schema_def db bind_def lift_def ex_queries check_def jstr_eq_def index_def ex_plan_texts_def list_all_iff)
  have z: "json_parse ex_retention ''Z'' = Some (the (ex_plan_texts ''Z''))" by (simp add: ex_plan_texts_def)
  have recs: "each_row ex_retention ex_client records_sql [] (ready_record ex_retention) [] () = (Inr [the (ex_plan_texts ''Z'')], ())"
    by (simp add: each_row_Inr ex_queries ready_record_def ex_plan_texts_def string_field_def ex_ids jstr_eq_def index_def)
  have keep: "plan_keep [the (ex_plan_texts ''Z'')] 1 = Inr ([ex_id], [(ex_address, ex_id)], [ex_id])"
    by (simp add: plan_keep_def id_set_def string_field_def ex_plan_texts_def keep_record_def index_def as_array_def keep_account_def insort_insert_key_def)
  have pins: "pins_unlocked ex_retention ex_owner (nd_fs ex_idle) = (Inr [], nd_fs ex_idle)"
    by (simp add: pins_unlocked_def read_dir_def scripted_def ex_nodelib_def bind_def fs_try_def fs_step_def ex_idle_def ret_def)
  have parts: "each_row ex_retention ex_client parts_sql [(''db'', JStr ''db'')] partition_row [] () =
      (Inr (insort_insert ex_old [ex_id]), ())"
    by (simp add: each_row_Inr ex_queries partition_row_def ex_plan_texts_def string_field_def ex_ids insort_insert_key_def)
  have upd: "m\<lparr>nd_db := ()\<rparr> = m" "m\<lparr>nd_fs := nd_fs m\<rparr> = m" for m :: "unit node" by (cases m; simp)+
  have sets: "{i. i \<in> set (filter (\<lambda>x. x \<notin> set [ex_id]) (insort_insert ex_old [ex_id]))} = {ex_old}" using ex_ids(3) by auto
  show ?thesis
    using sets
    by (simp add: retention_plan_unlocked_def bind_def check_def on_db_def on_fs_def schema recs keep [unfolded One_nat_def] pins parts db
        lift_def Let_def ret_def upd removed_def removed_plan_json strings_def image_iff)
qed

theorem retention_plan_keeps_witness:
  "\<exists>plan. retention_plan_unlocked ex_retention ex_client ex_owner 1 ex_idle = (Inr plan, ex_idle) \<and> removed plan = {ex_old} \<and>
     (\<exists>partitions. removed plan \<subseteq> set partitions)"
  using ex_plan retention_plan_keeps [of ex_retention ex_client ex_owner 1 ex_idle _ ex_idle] by metis

definition ex_drop_post :: "ClickHouse \<Rightarrow> (string \<times> string) list \<Rightarrow> string \<Rightarrow> (string \<times> string) set \<Rightarrow> (http_error + Response) \<times> (string \<times> string) set" where
  "ex_drop_post c q body w = (Inr \<lparr>rs_code = 200, rs_success = True, rs_exception = None, rs_body = [], rs_broken = False\<rparr>,
     case filter (\<lambda>t. snd (q ! 1) = drop_sql t) TABLES of [] \<Rightarrow> w | t # _ \<Rightarrow> w - {(t, snd (q ! 2))})"

definition ex_drop_lib :: "(string \<times> string) set nodelib" where
  "ex_drop_lib = \<lparr>url_ok = (\<lambda>_. True), http_post = ex_drop_post, json_parse = (\<lambda>_. None), json_print = (\<lambda>_. []),
     nl_evm = ex_evm, sha256 = (\<lambda>_. []), b64_decode = ex_b64d, b64_encode = ref_encode,
     cursor_decrypt = ex_decrypt, cursor_encrypt = ex_encrypt, json_text = (\<lambda>_. []), json_pretty = (\<lambda>_. []),
     fs_temp = (\<lambda>d s. d @ ''/.tmp''),
     nl_read_dir = (\<lambda>_ _. []), nl_is_dir = (\<lambda>_. True), nl_lstat = (\<lambda>_. NotLink), nl_cwd = Inr [RootDir], nl_hostname = Inr ''h'',
     nl_uuid = (\<lambda>_. None), nl_new_id = (\<lambda>_. []), nl_clock = (\<lambda>k. Inr k), nl_pid = 1\<rparr>"

lemma ex_drop_server: "partition_server ex_drop_lib (\<lambda>w. w)"
proof -
  have "drop_sql t \<noteq> sql" if "harmless sql" for t sql
    using that by (auto simp: harmless_def drop_sql_def control_create_def)
  moreover have "drop_sql t = drop_sql u \<longleftrightarrow> t = u" for t u by (simp add: drop_sql_def)
  ultimately show ?thesis
    by (auto simp: partition_server_def ex_drop_lib_def ex_drop_post_def TABLES_def Let_def split: list.splits)
qed

definition ex_drop_node :: "(string \<times> string) set node" where
  "ex_drop_node = \<lparr>nd_db = {(''checkpoints'', ex_id)}, nd_fs = nd_fs ex_idle, nd_locks = [], nd_tick = 0\<rparr>"


end
