(* ===== verification/Source.thy ===== *)
theory Source
  imports Manifest
begin

text \<open>
  Native ingestion runs as checkpoint inputs, \<open>crates/evm-state/src/source.rs\<close>: a declared source is
  accepted only when the database, the run directory, the host, the frozen package and the schema
  all name the same run.  The shared lock of the accepted source is held while it is in use.
\<close>

definition jbool_eq :: "json \<Rightarrow> bool \<Rightarrow> bool" where
  "jbool_eq v b \<longleftrightarrow> v = JBool b"

definition selected_accounts :: "('w, 'x) nodelib_scheme \<Rightarrow> json \<Rightarrow> string list res" where
  "selected_accounts L v =
     ensure (as_array v \<noteq> None) ''source accounts must be a nonempty list'' (canonical_accounts L v)"

definition bound_here :: "('w, 'x) nodelib_scheme \<Rightarrow> json \<Rightarrow> string \<Rightarrow> ('w node, bool) io" where
  "bound_here L identity directory =
     (if jnum_eq (index identity ''format_version'') 3
      then bind (host_matches L identity directory) (\<lambda>m.
        ret (m \<and> jstr_eq (index identity ''state_directory'') directory))
      else ret False)"

definition qualified_identity :: "ClickHouse \<Rightarrow> json \<Rightarrow> bool" where
  "qualified_identity client identity \<longleftrightarrow>
     jstr_eq (index identity ''database'') (ch_database client) \<and> jstr_eq (index identity ''http_url'') (ch_url client) \<and>
     jstr_eq (index identity ''module'') ''map_block_state'' \<and> jstr_eq (index identity ''network'') ''bsc'' \<and>
     jnum_eq (index identity ''schema_version'') 1 \<and> jbool_eq (index identity ''final_blocks_only'') True"

definition same_declaration :: "('w, 'x) nodelib_scheme \<Rightarrow> json \<Rightarrow> json \<Rightarrow> string \<Rightarrow> bool res" where
  "same_declaration L source identity hash =
     (if jbool_eq (index source ''final_blocks_only'') True \<and> jstr_eq (index source ''module_hash'') hash \<and>
         length hash = 40 \<and> list_all is_lower_hex hash
      then bnd (selected_accounts L (index source ''accounts'')) (\<lambda>accounts.
        Inr (JArr (map JStr accounts) = index identity ''accounts''))
      else Inr False)"

definition start_covered :: "json \<Rightarrow> json \<Rightarrow> bool res" where
  "start_covered source identity =
     bnd (context_res (as_u64 (index source ''start_block'')) ''invalid source start block'') (\<lambda>start.
     bnd (uint (index identity ''start_block'')) (\<lambda>own. Inr (own \<le> start)))"

definition add_provenance :: "json \<Rightarrow> string \<times> json \<Rightarrow> (string \<times> json) list \<Rightarrow> (string \<times> json) list res" where
  "add_provenance source kv checked = (case kv of (key, v) \<Rightarrow>
     ensure (case get source key of None \<Rightarrow> True | Some actual \<Rightarrow> actual = v)
       ''source provenance differs from its recorded native run''
     (Inr (bt_insert key v checked)))"

definition recorded_run :: "('w, 'x) nodelib_scheme \<Rightarrow> ClickHouse \<Rightarrow> json \<Rightarrow> string \<Rightarrow> string \<Rightarrow> ('w node, json \<times> json) io" where
  "recorded_run L client identity run_id directory =
     bind (on_fs (read_json L (path_join directory ''run.json''))) (\<lambda>record.
     bind (lift (params (jobj [(''db'', JStr (ch_database client))]))) (\<lambda>ps.
     bind (on_db (one L client ''SELECT toString(uuid) AS id FROM system.databases WHERE name={db:String}'' ps)) (\<lambda>db.
     bind (check (jstr_eq (index record ''phase'') ''prepared'' \<and> jstr_eq (index record ''run_id'') run_id \<and>
         index record ''identity'' = identity \<and> index record ''database_uuid'' = index db ''id'')
       ''source database and local run metadata differ'') (\<lambda>_.
     ret (record, db)))))"

definition source_validate :: "('w, 'x) nodelib_scheme \<Rightarrow> ClickHouse \<Rightarrow> json \<Rightarrow> json \<Rightarrow> string \<Rightarrow> string \<Rightarrow> ('w node, json) io" where
  "source_validate L client source identity run_id directory =
     bind (bound_here L identity directory) (\<lambda>b.
     bind (check b ''source run has no matching host/directory binding; use a fresh guarded continuation'') (\<lambda>_.
     bind (check (qualified_identity client identity)
       ''source database identity is not the qualified finalized BSC module'') (\<lambda>_.
     bind (lift (string_field identity ''module_hash'')) (\<lambda>hash.
     bind (lift (same_declaration L source identity hash)) (\<lambda>same.
     bind (check same ''source filter, module hash or finality differs from its native run'') (\<lambda>_.
     bind (lift (start_covered source identity)) (\<lambda>covered.
     bind (check covered ''source range starts before its native run'') (\<lambda>_.
     bind (recorded_run L client identity run_id directory) (\<lambda>(record, db).
     bind (on_fs (fs_read (path_join directory ''package.spkg''))) (\<lambda>package.
     bind (lift (string_field identity ''package_sha256'')) (\<lambda>digest.
     bind (check (hex_encode (nl_evm L) (sha256 L package) = digest) ''source frozen package is missing or changed'') (\<lambda>_.
     bind (on_fs (fs_read (path_join (path_join directory ''meta'') (ch_database client @ ''_schema_hash.txt'')))) (\<lambda>schema.
     bind (lift (string_field record ''schema_hash'')) (\<lambda>schema_hash.
     bind (check (trim schema = schema_hash) ''source schema metadata is missing or changed'') (\<lambda>_.
     bind (lift (context_res (as_object source) ''invalid source'')) (\<lambda>checked.
     bind (lift (fold_res (add_provenance source)
       (bt_of_list [(''run_id'', JStr run_id), (''database_uuid'', index db ''id''), (''package_sha256'', index identity ''package_sha256''),
         (''schema_hash'', index record ''schema_hash''), (''state_directory'', JStr directory)]) checked)) (\<lambda>checked.
     ret (JObj checked))))))))))))))))))"

definition run_recorded :: "('w, 'x) nodelib_scheme \<Rightarrow> ClickHouse \<Rightarrow> ('w, bool) io" where
  "run_recorded L client =
     bind (lift (params (jobj [(''db'', JStr (ch_database client))]))) (\<lambda>ps.
     bind (one L client (''SELECT count() AS n FROM system.tables WHERE database={db:String} AND name='' @ quoted ''_evm_state_run'') ps) (\<lambda>row.
     bind (lift (uint (index row ''n''))) (\<lambda>n. ret (n \<noteq> 0))))"

definition source_identity :: "('w, 'x) nodelib_scheme \<Rightarrow> ClickHouse \<Rightarrow> ClickHouse option \<Rightarrow> ('w, json \<times> json) io" where
  "source_identity L client checkpoints =
     bind (run_recorded L client) (\<lambda>there.
     bind (check there ''source has no guarded native run ownership record'') (\<lambda>_.
     bind (one L client ''SELECT run_id,identity FROM _evm_state_run'' []) (\<lambda>owner.
     bind (lift (bnd (string_field owner ''identity'') (\<lambda>t. context_res (json_parse L t) ''invalid JSON''))) (\<lambda>identity.
     bind (check (as_object identity \<noteq> None \<and> jnum_eq (index identity ''format_version'') 3)
       ''source uses an old native run identity; use a fresh guarded continuation'') (\<lambda>_.
     bind (check (case checkpoints of None \<Rightarrow> True | Some c \<Rightarrow> jstr_eq (index identity ''checkpoint_database'') (ch_database c))
       ''source is bound to a different checkpoint database'') (\<lambda>_.
     ret (owner, identity)))))))"

definition reached :: "('w, 'x) nodelib_scheme \<Rightarrow> ClickHouse \<Rightarrow> string \<Rightarrow> u64 option \<Rightarrow> json \<Rightarrow> ('w node, json) io" where
  "reached L client directory end_block checked =
     (case end_block of None \<Rightarrow> ret checked
      | Some e \<Rightarrow>
          bind (on_fs (read_json L (path_join directory ''run.json''))) (\<lambda>run.
          bind (load_progress L client run directory) (\<lambda>progress.
          bind (lift (position_number progress)) (\<lambda>n.
          bind (check (e \<le> n) ''durable native progress has not reached the checkpoint target'') (\<lambda>_.
          ret (jset checked ''durable_position'' (index (index progress ''position'') ''block'')))))))"

definition verified_source :: "('w, 'x) nodelib_scheme \<Rightarrow> ClickHouse \<Rightarrow> json \<Rightarrow> ClickHouse option \<Rightarrow> u64 option \<Rightarrow>
    (json \<Rightarrow> ('w node, 'a) io) \<Rightarrow> ('w node, 'a) io" where
  "verified_source L client source checkpoints end_block k =
     bind (on_db (source_identity L client checkpoints)) (\<lambda>(owner, identity).
     bind (lift (string_field identity ''state_directory'')) (\<lambda>declared.
     bind (lift (resolve_path L declared)) (\<lambda>directory.
     bind (if jstr_eq (index identity ''state_directory'') directory \<and> nl_is_dir L directory
           then host_matches L identity directory else ret False) (\<lambda>here.
     bind (check here ''source run has no matching host/directory binding'') (\<lambda>_.
     holding L (path_join directory ''source_readers.lock'') False (
       bind (lift (string_field owner ''run_id'')) (\<lambda>run_id.
       bind (source_validate L client source identity run_id directory) (\<lambda>checked.
       bind (reached L client directory end_block checked) k))))))))"

end
