(* ===== verification/Example_Run.thy ===== *)
theory Example_Run
  imports Manifest
begin

text \<open>
  A complete concrete run of the native tools: a scripted server and a directory that belong to
  one controller and one ingestion run.  It shows that the hypotheses of the results about these
  operations can be met.
\<close>

section \<open>Quiet file systems\<close>

definition quiet :: "'w node \<Rightarrow> bool" where
  "quiet n \<longleftrightarrow> fs_plan (nd_fs n) = []"

lemma quiet_try: "quiet n \<Longrightarrow> on_fs fs_try n = (Inr (), n)"
  by (simp add: quiet_def on_fs_def fs_try_def fs_step_def bind_def ret_def)

lemma quiet_get: "on_fs (fs_get p) n = (Inr (fs_files (nd_fs n) p), n)"
  by (simp add: on_fs_def fs_get_def)

lemma quiet_read: "quiet n \<Longrightarrow> fs_files (nd_fs n) p = Some c \<Longrightarrow> on_fs (fs_read p) n = (Inr c, n)"
  by (simp add: fs_read_def on_fs_bind bind_def quiet_try quiet_get ret_def)

lemma quiet_exists: "quiet n \<Longrightarrow> on_fs (fs_exists p) n = (Inr (fs_files (nd_fs n) p \<noteq> None), n)"
  by (simp add: fs_exists_def on_fs_bind bind_def quiet_try quiet_get ret_def)

lemma quiet_json:
  "quiet n \<Longrightarrow> fs_files (nd_fs n) p = Some c \<Longrightarrow> json_parse L c = Some v \<Longrightarrow> on_fs (read_json L p) n = (Inr v, n)"
  by (simp add: read_json_def on_fs_bind bind_def quiet_read lift_def)

lemma quiet_db: "on_db m (n :: unit node) = (fst (m ()), n)"
  by (cases n) (simp add: on_db_def case_prod_unfold)

definition locked :: "('w, 'x) nodelib_scheme \<Rightarrow> string \<Rightarrow> bool \<Rightarrow> 'w node \<Rightarrow> 'w node" where
  "locked L p x n = n\<lparr>nd_locks := (p, nl_pid L, if x then Exclusive else Shared) # nd_locks n\<rparr>"

lemma locked_simps [simp]: "quiet (locked L p x n) = quiet n" "nd_fs (locked L p x n) = nd_fs n" "nd_db (locked L p x n) = nd_db n"
    "nd_tick (locked L p x n) = nd_tick n"
    "nd_locks (locked L p x n) = (p, nl_pid L, if x then Exclusive else Shared) # nd_locks n"
  by (simp_all add: locked_def quiet_def)

lemma quiet_holding:
  assumes "quiet n" "lock_free (nd_locks n) p x" "m (locked L p x n) = (r, locked L p x n)"
  shows "holding L p x m n = (r, n)"
  using assms
  by (cases n) (simp add: holding_def acquire_def bind_def quiet_try on_locks_def file_lock_def release_def unlock_def locked_def)

section \<open>The run\<close>

definition ex_snapshot :: string where "ex_snapshot = replicate 32 (CHR ''a'')"

definition ex_control :: json where
  "ex_control = JObj [(''control_id'', JStr ex_snapshot), (''database_uuid'', JStr ''u''), (''directory'', JStr ''/h/u''), (''host'', JStr ''h'')]"

definition ex_manifest :: json where
  "ex_manifest = JObj [(''accounts'', JArr [JStr ex_address]),
     (''header'', JObj [(''hash'', JStr (hex32 1)), (''number'', jnum 90)]), (''snapshot_id'', JStr ex_snapshot),
     (''sources'', JArr [JObj [(''run_id'', JStr ''r'')]]), (''status'', JStr ''ready'')]"

definition ex_native :: json where
  "ex_native = JObj [(''database_uuid'', JStr ''u''), (''identity'', JObj [(''accounts'', JArr [JStr ex_address]), (''start_block'', jnum 7)]),
     (''run_id'', JStr ''r'')]"

definition ex_progress :: json where
  "ex_progress = JObj [(''cursor'', JStr ex_token), (''database_uuid'', JStr ''u''), (''format_version'', JNum ''1''),
     (''identity_sha256'', JStr []), (''position'', position_json ex_position), (''run_id'', JStr ''r'')]"

definition run_texts :: "(string \<times> json) list" where
  "run_texts = [(''U'', JObj [(''id'', JStr ''u'')]), (''N'', JObj [(''n'', jnum 1)]),
     (''O'', JObj [(''binding'', JStr ''B''), (''control_id'', JStr ex_snapshot)]), (''B'', ex_control),
     (''M'', JObj [(''manifest'', JStr ''Z''), (''snapshot_id'', JStr ex_snapshot)]), (''Z'', ex_manifest),
     (''R'', JObj [(''accounts'', JStr ex_address), (''hash'', JStr (br_hash ex_ref)), (''producer_version'', jnum 5), (''schema_version'', jnum 1)]),
     (''K'', JObj [(''hash'', JStr (replicate 64 (CHR ''a'')))]), (''G'', ex_progress),
     (''X'', JObj [(''name'', JStr ''state_blocks''), (''partition_key'', JStr ''toDate(_block_timestamp_)'')]),
     (''Y'', JObj [(''name'', JStr ''_blocks_''), (''partition_key'', JStr ''toYYYYMM(timestamp)'')])]"

text \<open>Queries are told apart by their length.\<close>

definition run_answers :: "(nat \<times> string) list \<Rightarrow> string \<Rightarrow> (string \<times> string) list \<Rightarrow> string" where
  "run_answers table sql ps = (case map_of table (length sql) of Some t \<Rightarrow> lines t | None \<Rightarrow> [])"

definition run_table :: "(nat \<times> string) list" where
  "run_table = [(91, ''U''), (119, ''N''), (73, ''O''), (87, ''M''), (69, ''M''), (124, ''R''), (79, ''K''), (130, ''XY''), (172, []), (168, [])]"

definition ex_lib :: "unit nodelib" where
  "ex_lib = (scripted (run_answers run_table) (map_of run_texts))\<lparr>nl_uuid := Some\<rparr>"

definition ex_files :: "string \<rightharpoonup> string" where
  "ex_files = map_of [(''/h/u/binding.json'', ''B''), (''/h/u/initialized'', ex_snapshot), (''/etc/machine-id'', ex_snapshot),
     (''/d/durable_progress.json'', ''G''), (''/d/cursor.txt'', ex_token)]"

definition ex_machine :: "unit node" where
  "ex_machine = \<lparr>nd_db = (), nd_fs = \<lparr>fs_files = ex_files, fs_plan = []\<rparr>, nd_locks = [], nd_tick = 0\<rparr>"

lemma ex_lib_simps [simp]:
  "http_post ex_lib = script_post (run_answers run_table)" "json_parse ex_lib = map_of run_texts" "nl_evm ex_lib = ex_evm"
  "nl_uuid ex_lib = Some" "nl_hostname ex_lib = Inr ''h''" "nl_lstat ex_lib = (\<lambda>_. NotLink)" "nl_cwd ex_lib = Inr [RootDir]"
  "nl_pid ex_lib = 1" "sha256 ex_lib = (\<lambda>_. [])" "b64_decode ex_lib = ex_b64d" "cursor_decrypt ex_lib = ex_decrypt"
  by (simp_all add: ex_lib_def scripted_def ex_nodelib_def)

lemma ex_machine_simps [simp]: "quiet ex_machine" "fs_files (nd_fs ex_machine) = ex_files" "nd_locks ex_machine = []" "nd_db ex_machine = ()"
  by (simp_all add: quiet_def ex_machine_def)

lemma run_texts_ok [simp]: "text_ok (map_of run_texts) ''U''" "text_ok (map_of run_texts) ''XY''" "text_ok (map_of run_texts) ''M''"
  "text_ok (map_of run_texts) ''R''" "text_ok (map_of run_texts) ''K''"
  by (simp_all add: text_ok_def run_texts_def is_whitespace_def)

lemma run_answer: "map_of table (length sql + 19) = Some t \<Longrightarrow> run_answers table (sql @ '' FORMAT JSONEachRow'') ps = lines t"
proof -
  have "length (sql @ '' FORMAT JSONEachRow'') = length sql + 19" by simp
  then show "map_of table (length sql + 19) = Some t \<Longrightarrow> run_answers table (sql @ '' FORMAT JSONEachRow'') ps = lines t"
    by (simp only: run_answers_def option.case)
qed

lemma run_one:
  assumes "map_of run_table (length sql + 19) = Some [x]" "map_of run_texts [x] = Some (JObj fs)" "\<not> is_whitespace x"
    "list_all (\<lambda>(k, v). is_ok (param_text v)) ps"
  shows "one ex_lib c sql ps () = (Inr (JObj fs), ())"
  using script_one [of ex_lib "run_answers run_table" sql ps x fs c "()"] run_answer [OF assms(1)] assms(2-4) by simp

lemma run_rows:
  assumes "map_of run_table (length sql + 19) = Some t" "text_ok (map_of run_texts) t" "list_all (\<lambda>(k, v). is_ok (param_text v)) ps"
  shows "rows_vec ex_lib c sql ps () = (Inr (text_rows (map_of run_texts) t), ())"
  using script_rows_vec [of ex_lib "run_answers run_table" sql ps t c "()"] run_answer [OF assms(1)] assms(2,3) by simp

definition ex_db :: ClickHouse where
  "ex_db = \<lparr>ch_database = ''db'', ch_url = ''u'', ch_control_home = ''/h'', ch_user = ''u'', ch_password = ''p''\<rparr>"

lemma ex_object_id: "object_id ex_snapshot = Inr ex_snapshot"
  by (simp add: object_id_def ex_snapshot_def list_all_iff is_lower_hex_def less_eq_char_def)

lemma run_queries:
  "database_uuid ex_lib ex_db () = (Inr ''u'', ())" "control_owned ex_lib ex_db () = (Inr True, ())"
  "one ex_lib ex_db ''SELECT control_id,binding FROM _evm_checkpoint_control'' [] () = (Inr (JObj [(''binding'', JStr ''B''), (''control_id'', JStr ex_snapshot)]), ())"
proof -
  have ps: "params (jobj [(''db'', JStr (ch_database ex_db))]) = Inr [(''db'', JStr ''db'')]"
    by (simp add: params_def jobj_def as_object_def bt_of_list_def ex_db_def)
  have u: "one ex_lib ex_db ''SELECT toString(uuid) AS id FROM system.databases WHERE name={db:String}'' [(''db'', JStr ''db'')] () =
      (Inr (JObj [(''id'', JStr ''u'')]), ())"
    by (rule run_one [of _ "CHR ''U''"]) (simp_all add: run_table_def run_texts_def is_whitespace_def param_text_def)
  have o1: "one ex_lib ex_db (''SELECT count() AS n FROM system.tables WHERE database={db:String} AND name='' @ quoted ''_evm_checkpoint_control'')
      [(''db'', JStr ''db'')] () = (Inr (JObj [(''n'', jnum 1)]), ())"
    by (rule run_one [of _ "CHR ''N''"]) (simp_all add: run_table_def run_texts_def is_whitespace_def param_text_def quoted_def)
  show "database_uuid ex_lib ex_db () = (Inr ''u'', ())"
    by (simp only: database_uuid_def ps bind_lift bind_def u) (simp add: string_field_def lift_def)
  show "control_owned ex_lib ex_db () = (Inr True, ())"
    by (simp only: control_owned_def ps bind_lift bind_def o1) (simp add: index_def lift_def ret_def)
  show "one ex_lib ex_db ''SELECT control_id,binding FROM _evm_checkpoint_control'' [] () =
      (Inr (JObj [(''binding'', JStr ''B''), (''control_id'', JStr ex_snapshot)]), ())"
    by (rule run_one [of _ "CHR ''O''"]) (simp_all add: run_table_def run_texts_def is_whitespace_def)
qed

lemma ex_machine_id: "quiet n \<Longrightarrow> fs_files (nd_fs n) = ex_files \<Longrightarrow> \<exists>m. machine_id ex_lib n = (Inr m, n)"
proof -
  assume q: "quiet n" "fs_files (nd_fs n) = ex_files"
  have "map to_ascii_lowercase (trim ex_snapshot) = ex_snapshot"
    by (simp add: ex_snapshot_def trim_def is_whitespace_def to_ascii_lowercase_def less_eq_char_def numeral_eq_Suc)
  then have "\<exists>m. from_os_value ex_lib ''Linux'' ex_snapshot = Inr m"
    by (simp add: from_os_value_def Let_def) (simp add: ex_snapshot_def list_all_iff list_ex_iff is_hexdigit_def is_lower_hex_def less_eq_char_def)
  then show ?thesis using quiet_read [OF q(1), of "''/etc/machine-id''" ex_snapshot] q(2)
    by (auto simp: machine_id_def bind_def lift_def ex_files_def)
qed

lemma ex_host_matches: "quiet n \<Longrightarrow> fs_files (nd_fs n) = ex_files \<Longrightarrow> host_matches ex_lib ex_control ''/h/u'' n = (Inr True, n)"
  using ex_machine_id [of n] by (auto simp: host_matches_def bind_def lift_def matches_for_def ex_control_def quiet_get path_join_def ex_files_def ret_def)

lemma ex_open_binding:
  assumes "quiet n" "fs_files (nd_fs n) = ex_files"
  shows "open_binding ex_lib ex_db ''u'' ''/h/u'' (n :: unit node) = (Inr ex_control, n)"
proof -
  have 1: "load_binding ex_lib ''u'' ''/h/u'' True n = (Inr ex_control, n)"
    using quiet_exists [OF assms(1), of "''/h/u/binding.json''"] quiet_json [OF assms(1), of "''/h/u/binding.json''" "''B''" ex_lib ex_control]
    by (simp add: load_binding_def Let_def bind_def path_join_def assms(2)) (simp add: ex_files_def run_texts_def)
  have 2: "control_matches ex_lib ex_control ''u'' ''/h/u'' n = (Inr True, n)"
    using ex_host_matches [OF assms] by (simp add: control_matches_def jstr_eq_def) (simp add: ex_control_def index_def)
  have 3: "bnd (string_field ex_control ''control_id'') object_id = Inr ex_snapshot"
    using ex_object_id by (simp add: string_field_def ex_control_def)
  have 4: "owner_is ex_lib (JObj [(''binding'', JStr ''B''), (''control_id'', JStr ex_snapshot)]) ex_snapshot ex_control = Inr True"
    by (simp add: owner_is_def jstr_eq_def index_def string_field_def run_texts_def)
  have 5: "mark_initialized ex_lib ''/h/u'' ex_snapshot n = (Inr (), n)"
    using quiet_exists [OF assms(1), of "''/h/u/initialized''"] quiet_read [OF assms(1), of "''/h/u/initialized''" ex_snapshot]
    by (simp add: mark_initialized_def Let_def bind_def path_join_def assms(2) check_def) (simp add: ex_files_def)
  show ?thesis
    by (simp add: open_binding_def bind_def quiet_db run_queries(2) quiet_db run_queries(3) 1 2 check_def 3 4 5 ret_def lift_def)
qed

definition ex_controller :: ControlRecord where
  "ex_controller = \<lparr>co_path = ''/h/u'', co_pins = ''/h/u/pins'', co_record = ex_control\<rparr>"

lemma ex_control_open:
  assumes "quiet n" "fs_files (nd_fs n) = ex_files" "lock_free (nd_locks n) ''/h/u/initialize.lock'' True"
  shows "control_open ex_lib ex_db (n :: unit node) = (Inr ex_controller, n)"
proof -
  have h: "resolve_path ex_lib (ch_control_home ex_db) = Inr ''/h''"
    by (simp add: ex_db_def resolve_path_def resolve_def path_components_def is_absolute_def push_def show_path_def)
  have l: "holding ex_lib ''/h/u/initialize.lock'' True (open_binding ex_lib ex_db ''u'' ''/h/u'') n = (Inr ex_control, n)"
    by (rule quiet_holding) (simp_all add: assms ex_open_binding)
  show ?thesis
    by (simp add: control_open_def bind_def quiet_db run_queries(1) check_database_uuid_def lift_def h Let_def path_join_def quiet_try assms(1) l
        ret_def ex_controller_def)
qed

lemma ex_manifest_read:
  "manifest_unlocked ex_lib ex_db ex_snapshot () = (Inr ex_manifest, ())"
proof -
  have ps: "params (jobj [(''id'', JStr ex_snapshot)]) = Inr [(''id'', JStr ex_snapshot)]"
    by (simp add: params_def jobj_def as_object_def bt_of_list_def)
  have m: "one ex_lib ex_db ''SELECT manifest FROM checkpoints FINAL WHERE snapshot_id={id:String}'' [(''id'', JStr ex_snapshot)] () =
      (Inr (JObj [(''manifest'', JStr ''Z''), (''snapshot_id'', JStr ex_snapshot)]), ())"
    by (rule run_one [of _ "CHR ''M''"]) (simp_all add: run_table_def run_texts_def is_whitespace_def param_text_def)
  show ?thesis
    by (simp only: manifest_unlocked_def ex_object_id bind_lift ps bind_def m)
      (simp add: string_field_def run_texts_def jstr_eq_def ex_manifest_def index_def check_def ret_def lift_def)
qed

lemma ex_manifest_open: "quiet n \<Longrightarrow> fs_files (nd_fs n) = ex_files \<Longrightarrow> nd_locks n = [] \<Longrightarrow>
    manifest ex_lib ex_db ex_snapshot (n :: unit node) = (Inr ex_manifest, n)"
  by (simp add: manifest_def bind_def ex_control_open lock_free_def control_reader_def ex_controller_def quiet_holding quiet_db ex_manifest_read)

end
