(* ===== verification/History.thy ===== *)
theory History
  imports Source Example_Run
begin

text \<open>
  Cleanup of native history, \<open>crates/evm-state/src/history.rs\<close>: which whole partitions lie before the
  oldest block a retained checkpoint may continue from, and their removal under the locks of the
  source's writer.
\<close>

definition PARTITIONS :: "(string \<times> string) list" where
  "PARTITIONS = [(''state_blocks'', ''toDate(_block_timestamp_)''), (''_blocks_'', ''toYYYYMM(timestamp)'')]"

definition schema_row :: "json \<Rightarrow> (string, json) btree \<Rightarrow> (string, json) btree res" where
  "schema_row row schemas =
     bnd (string_field row ''name'') (\<lambda>name.
     ensure (map_of schemas name = None) ''duplicate native history table''
     (Inr (bt_insert name (index row ''partition_key'') schemas)))"

definition partition_sql :: "string \<Rightarrow> string" where
  "partition_sql table = ''SELECT _partition_id AS id,min(number) AS first,max(number) AS last FROM '' @ table @ '' GROUP BY _partition_id HAVING last < {before:UInt64} ORDER BY first''"

fun fold_tables :: "(string \<Rightarrow> ('w, json) io) \<Rightarrow> string list \<Rightarrow> json \<Rightarrow> ('w, json) io" where
  "fold_tables f [] result = ret result"
| "fold_tables f (t # ts) result = bind (f t) (\<lambda>v. fold_tables f ts (jset result t v))"

definition partitions_before :: "('w, 'x) nodelib_scheme \<Rightarrow> ClickHouse \<Rightarrow> u64 \<Rightarrow> ('w, json) io" where
  "partitions_before L client before =
     bind (lift (params (jobj [(''db'', JStr (ch_database client))]))) (\<lambda>ps.
     bind (each_row L client (''SELECT name,partition_key FROM system.tables WHERE database={db:String} AND name IN ('' @ quoted ''state_blocks'' @ CHR '','' # quoted ''_blocks_'' @ '')'') ps schema_row []) (\<lambda>schemas.
     bind (check (JObj schemas = jobj (map (\<lambda>(t, k). (t, JStr k)) PARTITIONS))
       ''native history schema does not match the qualified partition layout'') (\<lambda>_.
     bind (lift (params (jobj [(''before'', jnum before)]))) (\<lambda>ps.
     fold_tables (\<lambda>table. bind (rows_vec L client (partition_sql table) ps) (\<lambda>rs. ret (JArr rs)))
       (map fst PARTITIONS) (JObj [])))))"

definition drop_partition :: "('w, 'x) nodelib_scheme \<Rightarrow> ClickHouse \<Rightarrow> string \<Rightarrow> json \<Rightarrow> ('w, unit) io" where
  "drop_partition L client table part =
     bind (lift (string_field part ''id'')) (\<lambda>id'.
     bind (lift (params (jobj [(''id'', JStr id')]))) (\<lambda>ps.
     bind (execute L client (''ALTER TABLE '' @ table @ '' DROP PARTITION ID {id:String}'') ps) (\<lambda>_. ret ())))"

definition drop_partitions :: "('w, 'x) nodelib_scheme \<Rightarrow> ClickHouse \<Rightarrow> json \<Rightarrow> ('w, unit) io" where
  "drop_partitions L client partitions =
     for_each (\<lambda>(table, _).
       bind (lift (context_res (as_array (index partitions table)) ''invalid partition plan'')) (\<lambda>ps.
       for_each (drop_partition L client table) ps)) PARTITIONS"

definition declaration_keys :: "string list" where
  "declaration_keys = [''database'', ''accounts'', ''start_block'', ''module_hash'', ''final_blocks_only'']"

definition declare_key :: "json \<Rightarrow> string \<Rightarrow> json \<Rightarrow> json res" where
  "declare_key identity key source =
     bnd (context_res (get identity key) ''incomplete native source identity'') (\<lambda>v. Inr (jset source key v))"

definition source_declaration :: "json \<Rightarrow> json res" where
  "source_declaration identity = fold_res (declare_key identity) declaration_keys (JObj [])"

record SourceWriter =
  sw_directory :: string
  sw_run :: json
  sw_source :: json
  sw_checkpoints :: ClickHouse
  sw_control_path :: string

text \<open>The locks of an opened writer are held while \<open>k\<close> runs.\<close>

definition owned_source :: "('w, 'x) nodelib_scheme \<Rightarrow> ClickHouse \<Rightarrow> ClickHouse \<Rightarrow> string \<Rightarrow> json \<Rightarrow> ('w node, json) io" where
  "owned_source L client checkpoints directory run =
     bind (lift (source_declaration (index run ''identity''))) (\<lambda>decl.
     verified_source L client decl (Some checkpoints) None (\<lambda>checked.
       bind (check (jstr_eq (index checked ''state_directory'') directory \<and> index checked ''run_id'' = index run ''run_id'')
         ''cleanup directory does not own this native source'') (\<lambda>_.
       ret checked)))"

definition source_writer :: "('w, 'x) nodelib_scheme \<Rightarrow> string \<Rightarrow> ClickHouse \<Rightarrow> string \<Rightarrow> bool \<Rightarrow>
    (SourceWriter \<Rightarrow> ('w node, 'a) io) \<Rightarrow> ('w node, 'a) io" where
  "source_writer L checkpoints_sql client dir create k =
     bind (lift (resolve_path L dir)) (\<lambda>directory.
     bind (on_fs (read_json L (path_join directory ''run.json''))) (\<lambda>run.
     bind (check (jnum_eq (index (index run ''identity'') ''format_version'') 3)
       ''native cleanup requires destination-bound run identity format 3'') (\<lambda>_.
     bind (lift (bnd (string_field (index run ''identity'') ''checkpoint_database'') (with_database client))) (\<lambda>checkpoints.
     bind (if create then on_db (checkpoint_setup L checkpoints checkpoints_sql) else ret ()) (\<lambda>_.
     bind (control_open L checkpoints) (\<lambda>control.
     control_publisher L control (
       holding L (path_join directory ''run.lock'') True (
         bind (owned_source L client checkpoints directory run) (\<lambda>source.
         holding L (path_join directory ''source_readers.lock'') True (
           k \<lparr>sw_directory = directory, sw_run = run, sw_source = source, sw_checkpoints = checkpoints,
              sw_control_path = co_path control\<rparr>))))))))))"

definition writer_progress :: "('w, 'x) nodelib_scheme \<Rightarrow> ClickHouse \<Rightarrow> SourceWriter \<Rightarrow> ('w node, json) io" where
  "writer_progress L client owner =
     bind (load_progress L client (sw_run owner) (sw_directory owner)) (\<lambda>progress.
     bind (on_fs (fs_read (path_join (sw_directory owner) ''cursor.txt''))) (\<lambda>text.
     bind (lift (string_field progress ''cursor'')) (\<lambda>cursor.
     bind (check (trim text = cursor) ''native cursor differs from durable progress; recover or finish the run before cleanup'') (\<lambda>_.
     ret progress))))"

definition source_keys :: "string list" where
  "source_keys = [''database_uuid'', ''package_sha256'', ''schema_hash'', ''module_hash'', ''accounts'']"

definition covers_source :: "SourceWriter \<Rightarrow> json \<Rightarrow> bool res" where
  "covers_source owner ready =
     bnd (context_res (as_array (index ready ''sources'')) ''invalid checkpoint sources'') (\<lambda>sources.
     let covered = filter (\<lambda>s. get s ''run_id'' = get (sw_run owner) ''run_id'') sources in
     Inr (length covered = 1 \<and> list_all (\<lambda>key. get (hd covered) key = get (sw_source owner) key) source_keys))"

text \<open>The lowest block of a retained checkpoint that shares an account with the source.\<close>

definition protect_row :: "('w, 'x) nodelib_scheme \<Rightarrow> string list \<Rightarrow> json \<Rightarrow> u64 \<times> string list \<Rightarrow> (u64 \<times> string list) res" where
  "protect_row L selected row s = (case s of (floor, protected) \<Rightarrow>
     bnd (bnd (string_field row ''manifest'') (\<lambda>t. context_res (json_parse L t) ''invalid JSON'')) (\<lambda>record.
     ensure (jstr_eq (index record ''status'') ''ready'' \<and> index record ''snapshot_id'' = index row ''snapshot_id'')
       ''invalid retained checkpoint prevents native history cleanup''
     (bnd (canonical_accounts L (index record ''accounts'')) (\<lambda>accounts.
      if list_ex (\<lambda>a. a \<in> set selected) accounts
      then bnd (uint (index (index record ''header'') ''number'')) (\<lambda>n.
        bnd (string_field record ''snapshot_id'') (\<lambda>id'. Inr (min floor n, protected @ [id'])))
      else Inr (floor, protected)))))"

definition remove_before :: "u64 \<Rightarrow> u64 \<Rightarrow> u64 \<Rightarrow> u64" where
  "remove_before floor tip keep_blocks = min (saturating_add floor 1) (saturating_sub tip (keep_blocks - 1))"

definition retained_sql :: string where
  "retained_sql = ''SELECT snapshot_id,manifest FROM checkpoints FINAL''"

definition history_plan :: "('w, 'x) nodelib_scheme \<Rightarrow> ClickHouse \<Rightarrow> SourceWriter \<Rightarrow> string \<Rightarrow> u64 \<Rightarrow> ('w node, json) io" where
  "history_plan L client owner snapshot_id keep_blocks =
     bind (check (0 < keep_blocks) ''keep_blocks must be at least one'') (\<lambda>_.
     bind (manifest L (sw_checkpoints owner) snapshot_id) (\<lambda>ready.
     bind (lift (covers_source owner ready)) (\<lambda>same.
     bind (check same ''checkpoint does not cover this exact native source'') (\<lambda>_.
     bind (lift (canonical_accounts L (index (index (sw_run owner) ''identity'') ''accounts''))) (\<lambda>selected.
     bind (lift (canonical_accounts L (index ready ''accounts''))) (\<lambda>covered.
     bind (check (set selected \<subseteq> set covered) ''checkpoint does not cover all source accounts'') (\<lambda>_.
     bind (writer_progress L client owner) (\<lambda>progress.
     bind (lift (position_number progress)) (\<lambda>tip.
     bind (lift (uint (index (index ready ''header'') ''number''))) (\<lambda>floor.
     bind (check (floor \<le> tip) ''native progress has not reached the checkpoint'') (\<lambda>_.
     bind (on_db (each_row L (sw_checkpoints owner) retained_sql [] (protect_row L selected) (floor, []))) (\<lambda>(floor, protected).
     let before = remove_before floor tip keep_blocks in
     bind (on_db (partitions_before L client before)) (\<lambda>partitions.
     ret (jobj [(''source'', sw_source owner), (''checkpoint'', JStr snapshot_id),
       (''protected_checkpoints'', JArr (map JStr (sort protected))), (''remove_before'', jnum before), (''keep_blocks'', jnum keep_blocks),
       (''durable_block'', index (index progress ''position'') ''block''), (''partitions'', partitions)]))))))))))))))"

definition history_cleanup :: "('w, 'x) nodelib_scheme \<Rightarrow> string \<Rightarrow> ClickHouse \<Rightarrow> string \<Rightarrow> string \<Rightarrow> u64 \<Rightarrow> bool \<Rightarrow> ('w node, json) io" where
  "history_cleanup L checkpoints_sql client directory snapshot_id keep_blocks apply =
     bind (check (0 < keep_blocks) ''keep_blocks must be at least one'') (\<lambda>_.
     source_writer L checkpoints_sql client directory False (\<lambda>owner.
       bind (history_plan L client owner snapshot_id keep_blocks) (\<lambda>result.
       bind (on_db (disk_usage L client)) (\<lambda>before.
       bind (if apply
             then bind (on_db (drop_partitions L client (index result ''partitions''))) (\<lambda>_.
                  bind (writer_progress L client owner) (\<lambda>_. ret ()))
             else ret ()) (\<lambda>_.
       bind (on_db (disk_usage L client)) (\<lambda>after.
       ret (jset (jset (jset (jset result ''bytes_before'' (jnum before)) ''applied'' (JBool apply)) ''bytes_after'' (jnum after))
         ''space_reclamation'' (JStr ''inactive parts may remain until ClickHouse background cleanup; byte counts include them''))))))))"

section \<open>What cleanup leaves\<close>

lemma protect_rows_Inr:
  assumes "fold_res (protect_row L selected) rs (f0, p0) = Inr (f, p)"
  shows "f \<le> f0 \<and> (\<forall>row \<in> set rs. \<exists>t record accounts. get row ''manifest'' = Some (JStr t) \<and> json_parse L t = Some record \<and>
    canonical_accounts L (index record ''accounts'') = Inr accounts \<and>
    (set accounts \<inter> set selected \<noteq> {} \<longrightarrow> (\<exists>m. uint (index (index record ''header'') ''number'') = Inr m \<and> f \<le> m)))"
  using assms
proof (induction rs arbitrary: f0 p0)
  case (Cons row rs)
  from Cons.prems obtain f1 p1 where r: "protect_row L selected row (f0, p0) = Inr (f1, p1)"
      "fold_res (protect_row L selected) rs (f1, p1) = Inr (f, p)" by (auto simp: bnd_Inr_iff)
  from r(1) obtain t rec accounts where t: "get row ''manifest'' = Some (JStr t)" "json_parse L t = Some rec"
      "canonical_accounts L (index rec ''accounts'') = Inr accounts"
      "if list_ex (\<lambda>a. a \<in> set selected) accounts
       then \<exists>m. uint (index (index rec ''header'') ''number'') = Inr m \<and> f1 = min f0 m else f1 = f0"
    by (auto simp: protect_row_def res_simps string_field_Inr split: if_splits)
  note ih = Cons.IH [OF r(2)]
  have "f \<le> f0" using ih t(4) by (auto split: if_splits)
  moreover have "\<exists>m. uint (index (index rec ''header'') ''number'') = Inr m \<and> f \<le> m" if "set accounts \<inter> set selected \<noteq> {}"
    using that t(4) ih by (auto simp: list_ex_iff split: if_splits)
  ultimately show ?case using ih t(1-3) by auto
qed simp

lemma remove_before_bounds:
  assumes "0 < keep_blocks"
  shows "unat (remove_before floor tip keep_blocks) \<le> unat floor + 1"
    "unat (remove_before floor tip keep_blocks) + unat keep_blocks \<le> unat tip + 1 \<or> remove_before floor tip keep_blocks = 0"
proof -
  have k: "unat (keep_blocks - 1) = unat keep_blocks - 1" "0 < unat keep_blocks"
    using assms by (simp_all add: unat_sub word_le_nat_alt word_less_nat_alt)
  have m: "unat (min a b) = min (unat a) (unat b)" for a b :: u64 by (simp add: min_def word_le_nat_alt)
  show "unat (remove_before floor tip keep_blocks) \<le> unat floor + 1"
    by (simp add: remove_before_def m unat_saturating_add)
  have "unat (remove_before floor tip keep_blocks) \<le> unat tip - (unat keep_blocks - 1)"
    by (simp add: remove_before_def m unat_saturating_sub k(1))
  then show "unat (remove_before floor tip keep_blocks) + unat keep_blocks \<le> unat tip + 1 \<or> remove_before floor tip keep_blocks = 0"
    using k(2) by (auto simp: unat_eq_0 [symmetric])
qed

text \<open>
  C38: the removal bound of a history cleanup plan is at most one past the block of every retained
  checkpoint that shares an account with the source, so each can still be continued, and at least
  the requested number of newest durable blocks lie at or after it, without overflow for any block
  numbers; the partitions of the plan are those the database reports wholly before that bound.
\<close>

theorem history_plan_bound:
  assumes "history_plan L client owner snapshot_id keep_blocks n = (Inr plan, n')"
  shows "\<exists>before tip selected rs w1 w2 w3 w4. index plan ''remove_before'' = jnum before \<and>
    uint (index (index plan ''durable_block'') ''number'') = Inr tip \<and>
    canonical_accounts L (index (index (sw_run owner) ''identity'') ''accounts'') = Inr selected \<and>
    rows_vec L (sw_checkpoints owner) retained_sql [] w1 = (Inr rs, w2) \<and>
    (\<forall>row \<in> set rs. \<exists>t record accounts. get row ''manifest'' = Some (JStr t) \<and> json_parse L t = Some record \<and>
      canonical_accounts L (index record ''accounts'') = Inr accounts \<and>
      (set accounts \<inter> set selected \<noteq> {} \<longrightarrow>
        (\<exists>m. uint (index (index record ''header'') ''number'') = Inr m \<and> unat before \<le> unat m + 1))) \<and>
    (unat before + unat keep_blocks \<le> unat tip + 1 \<or> before = 0) \<and>
    partitions_before L client before w3 = (Inr (index plan ''partitions''), w4)"
proof -
  from assms obtain selected progress tip floor0 floor protected rs w1 w2 w3 w4 partitions where
    d: "0 < keep_blocks" "canonical_accounts L (index (index (sw_run owner) ''identity'') ''accounts'') = Inr selected"
      "position_number progress = Inr tip" "rows_vec L (sw_checkpoints owner) retained_sql [] w1 = (Inr rs, w2)"
      "fold_res (protect_row L selected) rs (floor0, []) = Inr (floor, protected)"
      "partitions_before L client (remove_before floor tip keep_blocks) w3 = (Inr partitions, w4)"
      "plan = jobj [(''source'', sw_source owner), (''checkpoint'', JStr snapshot_id),
       (''protected_checkpoints'', JArr (map JStr (sort protected))), (''remove_before'', jnum (remove_before floor tip keep_blocks)), (''keep_blocks'', jnum keep_blocks),
       (''durable_block'', index (index progress ''position'') ''block''), (''partitions'', partitions)]"
    unfolding history_plan_def
    by (auto simp: Let_def bind_Inr_iff on_db_Inr each_row_Inr split: prod.splits if_splits)
  note rb = remove_before_bounds [OF d(1), of floor tip]
  have rows: "\<exists>t record accounts. get row ''manifest'' = Some (JStr t) \<and> json_parse L t = Some record \<and>
      canonical_accounts L (index record ''accounts'') = Inr accounts \<and>
      (set accounts \<inter> set selected \<noteq> {} \<longrightarrow>
        (\<exists>m. uint (index (index record ''header'') ''number'') = Inr m \<and> unat (remove_before floor tip keep_blocks) \<le> unat m + 1))"
    if "row \<in> set rs" for row
    using protect_rows_Inr [OF d(5)] that rb(1) by (fastforce simp: word_le_nat_alt)
  have plan: "index plan ''remove_before'' = jnum (remove_before floor tip keep_blocks)"
      "uint (index (index plan ''durable_block'') ''number'') = Inr tip" "index plan ''partitions'' = partitions"
    using d(3) by (simp_all add: d(7) index_jobj position_number_def)
  show ?thesis using plan d(2,4,6) rows rb(2) by blast
qed

definition ex_writer :: SourceWriter where
  "ex_writer = \<lparr>sw_directory = ''/d'', sw_run = ex_native, sw_source = JObj [], sw_checkpoints = ex_db, sw_control_path = ''/h/u''\<rparr>"

lemma ex_accounts: "canonical_accounts ex_lib (JArr [JStr ex_address]) = Inr [ex_address]"
  by (simp add: canonical_accounts_def account_texts_def as_str_def as_object_def as_array_def ex_address_eq)

lemma ex_decoded_here: "cursor_decode ex_lib ex_token = Inr ex_position"
  using ex_decoded by (simp add: cursor_decode_def ex_nodelib_simps)

lemma ex_validated: "cursor_validate ex_lib ex_db ex_native ex_token () = (Inr ex_position, ())"
proof -
  have ps: "params (jobj [(''number'', jnum (br_number (po_block ex_position)))]) = Inr [(''number'', jnum 100)]"
    by (simp add: params_def jobj_def as_object_def bt_of_list_def ex_position_def ex_ref_def)
  have r: "rows_vec ex_lib ex_db ''SELECT hash,accounts,schema_version,producer_version FROM state_blocks FINAL WHERE number={number:UInt64}''
      [(''number'', jnum 100)] () = (Inr (text_rows (map_of run_texts) ''R''), ())"
    "rows_vec ex_lib ex_db ''SELECT hash FROM _blocks_ FINAL WHERE number={number:UInt64}''
      [(''number'', jnum 100)] () = (Inr (text_rows (map_of run_texts) ''K''), ())"
    by (rule run_rows; simp add: run_table_def jnum_def param_text_def)+
  have id: "uint (index (index ex_native ''identity'') ''start_block'') = Inr 7"
      "filter_accounts (index ex_native ''identity'') = Inr ex_address"
    by (simp_all add: ex_native_def index_def filter_accounts_def as_array_def as_str_def)
  have "trim_start_0x (CHR ''a'' # s) = CHR ''a'' # s" for s by (cases s) simp_all
  moreover have "replicate 64 (CHR ''a'') = CHR ''a'' # replicate 63 (CHR ''a'')" using replicate_Suc [of 63 "CHR ''a''"] by simp
  ultimately have trim: "trim_start_0x (replicate 64 (CHR ''a'')) = replicate 64 (CHR ''a'')" by metis
  have m: "row_matches ex_position ex_address (text_rows (map_of run_texts) ''R'') (text_rows (map_of run_texts) ''K'') = Inr True"
    by (simp add: row_matches_def text_rows_def run_texts_def index_def jstr_eq_def ex_position_def ex_ref_def string_field_def trim)
  have le: "(7 :: u64) \<le> br_number (po_block ex_position)" by (simp add: ex_position_def ex_ref_def)
  show ?thesis
    by (simp add: cursor_validate_def ex_decoded_here lift_def bind_def Let_def id le check_def ps r m ret_def)
qed

lemma ex_progress_read:
  assumes "quiet n" "fs_files (nd_fs n) = ex_files"
  shows "load_progress ex_lib ex_db ex_native ''/d'' (n :: unit node) = (Inr ex_progress, n)"
proof -
  have f: "on_fs (with_msg (fs_read (progress_path ''/d'')) g) n = (Inr ''G'', n)" for g
    using quiet_read [OF assms(1), of "progress_path ''/d''" "''G''"] assms(2)
    by (auto simp: on_fs_Inr with_msg_Inr_iff ex_files_def progress_path_def path_join_def)
  have p: "json_parse ex_lib ''G'' = Some ex_progress" by (simp add: run_texts_def)
  have b: "\<exists>e. binding ex_lib ex_native = Inr e \<and> bound_to e ex_progress"
    by (simp add: binding_def ex_native_def string_field_def jobj_def bt_of_list_def less_eq_char_def bound_to_def ex_progress_def
        ex_evm_simps ref_encode_def)
  have c: "string_field ex_progress ''cursor'' = Inr ex_token" "index ex_progress ''position'' = position_json ex_position"
    by (simp_all add: ex_progress_def string_field_def index_def)
  from b show ?thesis
    by (auto simp: load_progress_def bind_def f p [simplified] lift_def c check_def quiet_db ex_validated ret_def)
qed

lemma ex_partitions: "\<exists>p. partitions_before ex_lib ex_db before () = (Inr p, ())"
proof -
  have ps: "params (jobj [(''db'', JStr (ch_database ex_db))]) = Inr [(''db'', JStr ''db'')]"
      "params (jobj [(''before'', jnum before)]) = Inr [(''before'', jnum before)]"
    by (simp_all add: params_def jobj_def as_object_def bt_of_list_def ex_db_def)
  have schema: "rows_vec ex_lib ex_db (''SELECT name,partition_key FROM system.tables WHERE database={db:String} AND name IN ('' @ quoted ''state_blocks'' @ CHR '','' # quoted ''_blocks_'' @ '')'')
      [(''db'', JStr ''db'')] () = (Inr (text_rows (map_of run_texts) ''XY''), ())"
    by (rule run_rows) (simp_all add: run_table_def quoted_def param_text_def)
  have rs: "fold_res schema_row (text_rows (map_of run_texts) ''XY'') [] = Inr [(''_blocks_'', JStr ''toYYYYMM(timestamp)''), (''state_blocks'', JStr ''toDate(_block_timestamp_)'')]"
    by (simp add: text_rows_def run_texts_def schema_row_def string_field_def index_def less_eq_char_def)
  have "each_row ex_lib ex_db (''SELECT name,partition_key FROM system.tables WHERE database={db:String} AND name IN ('' @ quoted ''state_blocks'' @ CHR '','' # quoted ''_blocks_'' @ '')'')
      [(''db'', JStr ''db'')] schema_row [] () = (Inr [(''_blocks_'', JStr ''toYYYYMM(timestamp)''), (''state_blocks'', JStr ''toDate(_block_timestamp_)'')], ())"
    unfolding each_row_Inr using schema rs by blast
  moreover have "\<exists>p. fold_tables (\<lambda>table. bind (rows_vec ex_lib ex_db (partition_sql table) [(''before'', jnum before)]) (\<lambda>rs. ret (JArr rs)))
       (map fst PARTITIONS) (JObj []) () = (Inr p, ())"
  proof -
    have "rows_vec ex_lib ex_db (partition_sql t) [(''before'', jnum before)] () = (Inr [], ())" if "t \<in> {''state_blocks'', ''_blocks_''}" for t
      using run_rows [of "partition_sql t" "[]" "[(''before'', jnum before)]" ex_db] that
      by (auto simp: run_table_def partition_sql_def text_ok_def text_rows_def jnum_def param_text_def)
    then show ?thesis by (simp add: PARTITIONS_def bind_def ret_def)
  qed
  moreover have "JObj [(''_blocks_'', JStr ''toYYYYMM(timestamp)''), (''state_blocks'', JStr ''toDate(_block_timestamp_)'')] =
      jobj (map (\<lambda>(t, k). (t, JStr k)) PARTITIONS)"
    by (simp add: PARTITIONS_def jobj_def bt_of_list_def less_eq_char_def)
  ultimately show ?thesis
    by (simp only: partitions_before_def ps bind_lift bind_def) (simp add: check_def)
qed

lemma ex_history: "\<exists>plan. history_plan ex_lib ex_db ex_writer ex_snapshot 5 ex_machine = (Inr plan, ex_machine)"
proof -
  have a: "canonical_accounts ex_lib (index (index (sw_run ex_writer) ''identity'') ''accounts'') = Inr [ex_address]"
      "canonical_accounts ex_lib (index ex_manifest ''accounts'') = Inr [ex_address]"
    using ex_accounts by (simp_all add: ex_writer_def ex_native_def ex_manifest_def index_def)
  have c: "covers_source ex_writer ex_manifest = Inr True"
    by (simp add: covers_source_def ex_manifest_def ex_writer_def ex_native_def index_def as_array_def source_keys_def)
  have d: "dropWhile is_whitespace s = s" if "set s \<subseteq> set ex_token" for s
  proof (cases s)
    case (Cons c cs)
    with that have "c \<in> set ex_token" by simp
    then have "\<not> is_whitespace c" unfolding ex_token_def
      by (auto dest!: ref_codec.set_enc simp: is_lower_hex_def is_digit_def less_eq_char_def is_whitespace_def)
    with Cons show ?thesis by simp
  qed simp
  have t: "trim ex_token = ex_token" by (simp add: trim_def d)
  have w: "writer_progress ex_lib ex_db ex_writer ex_machine = (Inr ex_progress, ex_machine)"
    using ex_progress_read [of ex_machine] quiet_read [of ex_machine "''/d/cursor.txt''" ex_token]
    by (simp add: writer_progress_def ex_writer_def bind_def path_join_def ex_files_def string_field_def ex_progress_def lift_def check_def t ret_def)
  have n: "position_number ex_progress = Inr 100" "uint (index (index ex_manifest ''header'') ''number'') = Inr 90"
    by (simp_all add: position_number_def ex_progress_def position_json_def ref_json_def index_def get_jobj ex_position_def ex_ref_def ex_manifest_def)
  have r: "rows_vec ex_lib ex_db retained_sql [] () = (Inr (text_rows (map_of run_texts) ''M''), ())"
    by (rule run_rows) (simp_all add: run_table_def retained_sql_def)
  have p: "fold_res (protect_row ex_lib [ex_address]) (text_rows (map_of run_texts) ''M'') (90, []) = Inr (90, [ex_snapshot])"
    by (simp add: text_rows_def protect_row_def run_texts_def string_field_def a [unfolded ex_manifest_def] ex_manifest_def)
      (simp add: index_def jstr_eq_def ex_accounts)
  have e: "each_row ex_lib ex_db retained_sql [] (protect_row ex_lib [ex_address]) (90, []) () = (Inr (90, [ex_snapshot]), ())"
    unfolding each_row_Inr using r p by blast
  obtain q where q: "partitions_before ex_lib ex_db (remove_before 90 100 5) () = (Inr q, ())" using ex_partitions by blast
  have m: "manifest ex_lib (sw_checkpoints ex_writer) ex_snapshot ex_machine = (Inr ex_manifest, ex_machine)"
      "sw_checkpoints ex_writer = ex_db"
    using ex_manifest_open [of ex_machine] by (simp_all add: ex_writer_def)
  show ?thesis
    by (simp add: history_plan_def bind_def check_def a c w n m(1) lift_def)
      (simp add: bind_def check_def n m(2) quiet_db e q lift_def Let_def ret_def)
qed

theorem history_plan_bound_witness:
  "\<exists>plan before (tip :: u64). history_plan ex_lib ex_db ex_writer ex_snapshot 5 ex_machine = (Inr plan, ex_machine) \<and>
     index plan ''remove_before'' = jnum before \<and> (unat before + 5 \<le> unat tip + 1 \<or> before = 0)"
proof -
  obtain plan where p: "history_plan ex_lib ex_db ex_writer ex_snapshot 5 ex_machine = (Inr plan, ex_machine)" using ex_history by blast
  with history_plan_bound [OF p] show ?thesis by auto
qed

end
