(* ===== verification/Capacity.thy ===== *)
theory Capacity
  imports Reader Example_Run
begin

text \<open>
  Sampled capacity guards, \<open>crates/evm-state/src/capacity.rs\<close>: the disjoint roots of a set of paths,
  the walk that measures them, the admission rule, the retries of transient scans, the validation of
  a policy and the guard at an operation boundary.  A path is the list of its names below the
  root.  The file system seen by a walk, Docker and the free space are parameters; the supervised
  process of \<open>supervise\<close> is not modelled.
\<close>

section \<open>Roots and usage\<close>

type_synonym path = "string list"

definition starts_with :: "path \<Rightarrow> path \<Rightarrow> bool" where
  "starts_with p parent \<longleftrightarrow> prefix parent p"

fun remdups_adj_from :: "path list \<Rightarrow> path list \<Rightarrow> path list" where
  "remdups_adj_from result [] = result"
| "remdups_adj_from result (p # ps) =
     remdups_adj_from (if list_ex (starts_with p) result then result else result @ [p]) ps"

definition roots :: "path list \<Rightarrow> path list" where
  "roots paths = remdups_adj_from [] (remdups_adj (sort_key (\<lambda>p. (length p, p)) paths))"

datatype kind = Directory | File | Symlink | Special

record metadata =
  md_dev :: u64
  md_ino :: u64
  md_blocks :: u64
  md_len :: u64
  md_kind :: kind

text \<open>
  Entries as a walk meets them: the metadata of an entry and, for a directory, what reading it
  yields.  An entry that cannot be read is an error.
\<close>

datatype entry = Entry metadata "(io_error + entry list)" | Lost io_error
  and io_error = NotFound | PermissionDenied | OtherIo nat

datatype cap_error =
  Refused string
| IoError io_error
| DockerError string bool bool  \<comment> \<open>operation, timed out, directory changed\<close>

record stats =
  st_seen :: "(u64 \<times> u64) list"
  st_allocated :: u64
  st_logical :: u64
  st_files :: u64

definition checked_mul :: "u64 \<Rightarrow> u64 \<Rightarrow> u64 option" where
  "checked_mul a b = (if unat a * unat b < 2 ^ 64 then Some (a * b) else None)"

definition visit :: "bool \<Rightarrow> metadata \<Rightarrow> stats \<Rightarrow> (cap_error + (bool \<times> stats))" where
  "visit data_directory m s =
     (if \<not> data_directory \<and> md_kind m = Symlink
      then Inl (Refused ''capacity roots contain a symlink; declare its target as a separate root'')
      else if (md_dev m, md_ino m) \<in> set (st_seen s) then Inr (False, s)
      else let s = s\<lparr>st_seen := (md_dev m, md_ino m) # st_seen s\<rparr> in
        (case Option.bind (checked_mul (md_blocks m) 512) (checked_add (st_allocated s)) of
           None \<Rightarrow> Inl (Refused ''allocated byte count overflow'')
         | Some allocated \<Rightarrow>
             let s = s\<lparr>st_allocated := allocated\<rparr> in
             if md_kind m = Directory then Inr (True, s)
             else if md_kind m = File \<or> data_directory then
               (case checked_add (st_logical s) (md_len m) of
                  None \<Rightarrow> Inl (Refused ''logical byte count overflow'')
                | Some logical \<Rightarrow> Inr (False, s\<lparr>st_logical := logical, st_files := st_files s + 1\<rparr>))
             else Inl (Refused ''capacity roots contain an unsupported special file'')))"

text \<open>
  The open directory iterators form a stack, the innermost first; an entry is measured as soon as its
  directory yields it.
\<close>

function directories_loop :: "bool \<Rightarrow> entry list list \<Rightarrow> stats \<Rightarrow> (cap_error + stats)" where
  "directories_loop d [] s = Inr s"
| "directories_loop d ([] # ds) s = directories_loop d ds s"
| "directories_loop d ((Lost e # es) # ds) s = Inl (IoError e)"
| "directories_loop d ((Entry m children # es) # ds) s =
     (case visit d m s of
        Inl e \<Rightarrow> Inl e
      | Inr (enter, s) \<Rightarrow>
          if enter then (case children of Inl e \<Rightarrow> Inl (IoError e) | Inr cs \<Rightarrow> directories_loop d (cs # es # ds) s)
          else directories_loop d (es # ds) s)"
  by pat_completeness auto

termination
  by (relation "measure (\<lambda>(d, st, s). sum_list (map (\<lambda>es. Suc (size_list size es)) st))") auto

fun measure_roots :: "bool \<Rightarrow> entry list \<Rightarrow> stats \<Rightarrow> (cap_error + stats)" where
  "measure_roots d [] s = Inr s"
| "measure_roots d (Lost e # rs) s = Inl (IoError e)"
| "measure_roots d (Entry m children # rs) s =
     (case visit d m s of
        Inl e \<Rightarrow> Inl e
      | Inr (enter, s) \<Rightarrow>
          if enter then (case children of Inl e \<Rightarrow> Inl (IoError e)
            | Inr cs \<Rightarrow> (case directories_loop d [cs] s of Inl e \<Rightarrow> Inl e | Inr s \<Rightarrow> measure_roots d rs s))
          else measure_roots d rs s)"

definition no_stats :: stats where
  "no_stats = \<lparr>st_seen = [], st_allocated = 0, st_logical = 0, st_files = 0\<rparr>"

definition usage_json :: "stats \<Rightarrow> json" where
  "usage_json s = jobj [(''allocated_bytes'', jnum (st_allocated s)), (''logical_bytes'', jnum (st_logical s)), (''files'', jnum (st_files s))]"

section \<open>Errors and the environment\<close>

text \<open>An error carries the measurement stage it was given, if any, and its cause.\<close>

type_synonym cap_err = "string option \<times> cap_error"
type_synonym ('w, 'a) cio = "'w \<Rightarrow> (cap_err + 'a) \<times> 'w"

definition cret :: "'a \<Rightarrow> ('w, 'a) cio" where "cret v w = (Inr v, w)"
definition craise :: "cap_error \<Rightarrow> ('w, 'a) cio" where "craise e w = (Inl (None, e), w)"

definition cbind :: "('w, 'a) cio \<Rightarrow> ('a \<Rightarrow> ('w, 'b) cio) \<Rightarrow> ('w, 'b) cio" where
  "cbind m f w = (case m w of (Inl e, w') \<Rightarrow> (Inl e, w') | (Inr v, w') \<Rightarrow> f v w')"

definition plain :: "('w, 'a) io \<Rightarrow> ('w, 'a) cio" where
  "plain m w = (case m w of (Inl e, w') \<Rightarrow> (Inl (None, Refused e), w') | (Inr v, w') \<Rightarrow> (Inr v, w'))"

definition at_stage :: "string \<Rightarrow> ('w, 'a) cio \<Rightarrow> ('w, 'a) cio" where
  "at_stage stage m w = (case m w of (Inl (_, e), w') \<Rightarrow> (Inl (Some stage, e), w') | r \<Rightarrow> r)"

definition cok :: "(cap_error + 'a) \<Rightarrow> ('w, 'a) cio" where
  "cok r w = (case r of Inl e \<Rightarrow> (Inl (None, e), w) | Inr v \<Rightarrow> (Inr v, w))"

record docker_output =
  do_success :: bool
  do_code :: "nat option"
  do_stdout :: bytes
  do_stderr :: string

record url =
  ul_scheme :: string
  ul_host :: "string option"
  ul_username :: string
  ul_password :: "string option"
  ul_port :: "nat option"

record capenv =
  ce_canonical :: "path \<Rightarrow> io_error + path"
  ce_entry :: "nat \<Rightarrow> path \<Rightarrow> entry"  \<comment> \<open>the tree at a path when a walk starts\<close>
  ce_exists :: "nat \<Rightarrow> path \<Rightarrow> io_error + bool"
  ce_is_dir :: "path \<Rightarrow> bool"
  ce_docker :: "nat \<Rightarrow> string list \<Rightarrow> docker_output option"
  ce_url :: "string \<Rightarrow> url option"
  ce_free :: "nat \<Rightarrow> path \<Rightarrow> io_error + u64"
  ce_host_scan :: "nat \<Rightarrow> json \<Rightarrow> path list \<Rightarrow> cap_error + json"  \<comment> \<open>capacity\_host::sample\<close>

fun map_canonical :: "capenv \<Rightarrow> path list \<Rightarrow> cap_error + path list" where
  "map_canonical E [] = Inr []"
| "map_canonical E (p # ps) = (case ce_canonical E p of Inl e \<Rightarrow> Inl (IoError e) | Inr q \<Rightarrow>
     (case map_canonical E ps of Inl e \<Rightarrow> Inl e | Inr qs \<Rightarrow> Inr (q # qs)))"

definition usage :: "capenv \<Rightarrow> nat \<Rightarrow> path list \<Rightarrow> bool \<Rightarrow> cap_error + json" where
  "usage E t paths data_directory = (case map_canonical E paths of Inl e \<Rightarrow> Inl e | Inr ps \<Rightarrow>
     (case measure_roots data_directory (map (ce_entry E t) (roots ps)) no_stats of Inl e \<Rightarrow> Inl e | Inr s \<Rightarrow> Inr (usage_json s)))"

definition local_usage :: "capenv \<Rightarrow> nat \<Rightarrow> path list \<Rightarrow> cap_error + json" where
  "local_usage E t paths = usage E t paths False"

definition decode_docker_output :: "string \<Rightarrow> docker_output option \<Rightarrow> cap_error + bytes" where
  "decode_docker_output operation output = (case output of
     None \<Rightarrow> Inl (DockerError operation True False)
   | Some out \<Rightarrow>
       if do_success out then Inr (do_stdout out)
       else Inl (DockerError operation
         ((operation = ''data-directory scan'' \<or> operation = ''host-bind verification'') \<and> do_code out = Some 124)
         (operation = ''data-directory scan'' \<and> do_code out = Some 1 \<and>
           contains ''No such file or directory'' (do_stderr out) \<and> \<not> contains ''Permission denied'' (do_stderr out))))"

definition docker :: "capenv \<Rightarrow> string list \<Rightarrow> ('w node, bytes) cio" where
  "docker E args = cbind (plain (draw (\<lambda>t. ce_docker E t args))) (\<lambda>out.
     cok (decode_docker_output (if hd args = ''inspect'' then ''container inspection'' else ''data-directory scan'') out))"

section \<open>Retries and readings\<close>

fun retry :: "(cap_error \<Rightarrow> bool) \<Rightarrow> ('w, 'a) cio \<Rightarrow> nat \<Rightarrow> ('w, 'a) cio" where
  "retry transient scan 0 w = scan w"
| "retry transient scan (Suc n) w = (case scan w of
     (Inl (st, e), w') \<Rightarrow> if transient e then retry transient scan n w' else (Inl (st, e), w')
   | r \<Rightarrow> r)"

definition changed_directory :: "cap_error \<Rightarrow> bool" where
  "changed_directory e = (case e of DockerError _ _ changed \<Rightarrow> changed | _ \<Rightarrow> False)"

definition not_found :: "cap_error \<Rightarrow> bool" where
  "not_found e = (case e of IoError NotFound \<Rightarrow> True | _ \<Rightarrow> False)"

definition retry_scan :: "('w, 'a) cio \<Rightarrow> ('w, 'a) cio" where
  "retry_scan scan = retry changed_directory scan 4"

definition retry_local :: "('w, 'a) cio \<Rightarrow> ('w, 'a) cio" where
  "retry_local scan = retry not_found scan 4"

fun split_once :: "char \<Rightarrow> string \<Rightarrow> (string \<times> string) option" where
  "split_once c [] = None"
| "split_once c (x # xs) = (if x = c then Some ([], xs) else map_option (\<lambda>(a, b). (x # a, b)) (split_once c xs))"

definition du_total :: "bytes \<Rightarrow> u64 res" where
  "du_total output =
     (let last_part = rev (takeWhile (\<lambda>b. b \<noteq> 0) (dropWhile (\<lambda>b. b = 0) (rev output))) in
      ensure (utf8_valid (map unat last_part)) ''invalid utf-8 sequence''
      (bnd (context_res (split_once (CHR 0x09) (bytes_text last_part)) ''invalid ClickHouse data-directory measurement'') (\<lambda>(bytes, label).
       ensure (label = ''total'' \<and> bytes \<noteq> [] \<and> list_all is_digit bytes) ''invalid ClickHouse data-directory measurement''
       (context_res (parse_u64 bytes) ''invalid ClickHouse data-directory measurement''))))"

definition admission_reasons :: "u64 \<Rightarrow> u64 \<Rightarrow> u64 \<Rightarrow> u64 \<Rightarrow> u64 \<Rightarrow> string list" where
  "admission_reasons used headroom budget available min_free =
     (if unat budget \<le> unat used + unat headroom then [''budget_headroom_exhausted''] else []) @
     (if available < min_free then [''filesystem_free_space_below_floor''] else [])"

definition normal_path :: "string \<Rightarrow> path" where
  "normal_path s = concat (map (\<lambda>c. case c of Normal w \<Rightarrow> [w] | _ \<Rightarrow> []) (path_components s))"

definition data_disk :: "json \<Rightarrow> u64 \<times> path list \<Rightarrow> (u64 \<times> path list) res" where
  "data_disk disk s = (case s of (available, disk_paths) \<Rightarrow>
     bnd (if jstr_eq (index disk ''type'') ''Local'' then bnd (uint (index disk ''is_remote'')) (\<lambda>r. Inr (r = 0)) else Inr False) (\<lambda>here.
     ensure here ''complete capacity measurement requires local ClickHouse data disks''
     (bnd (uint (index disk ''total_space'')) (\<lambda>total.
      bnd (uint (index disk ''free_space'')) (\<lambda>free.
      bnd (uint (index disk ''unreserved_space'')) (\<lambda>unreserved.
      ensure (0 < total \<and> free \<le> total \<and> unreserved \<le> total) ''invalid ClickHouse disk capacity counters''
      (bnd (string_field disk ''path'') (\<lambda>path.
       ensure (prefix ''/'' path \<and> ParentDir \<notin> set (path_components path))
         ''ClickHouse data disks must be on declared persistent container mounts''
       (Inr (min (min available free) unreserved, disk_paths @ [normal_path path]))))))))))"

definition mount_destinations :: "json \<Rightarrow> path list res" where
  "mount_destinations info =
     bnd (context_res (as_array (index info ''Mounts'')) ''invalid container mounts'') (\<lambda>ms.
     map_res (\<lambda>m. bnd (string_field m ''Destination'') (\<lambda>d. Inr (normal_path d)))
       (filter (\<lambda>m. as_str (index m ''Type'') = Some ''bind'' \<or> as_str (index m ''Type'') = Some ''volume'') ms))"

definition data_disks :: "json \<Rightarrow> json list \<Rightarrow> (u64 \<times> path list) res" where
  "data_disks info disks =
     ensure (disks \<noteq> []) ''complete capacity measurement requires local ClickHouse data disks''
     (bnd (fold_res data_disk disks (u64_max, [])) (\<lambda>(available, disk_paths).
      let disk_paths = roots disk_paths in
      bnd (mount_destinations info) (\<lambda>mounts.
      ensure (list_all (\<lambda>p. list_ex (starts_with p) mounts) disk_paths)
        ''ClickHouse data disks must be on declared persistent container mounts''
      (Inr (available, disk_paths)))))"

definition verify_container :: "capenv \<Rightarrow> json \<Rightarrow> string \<Rightarrow> string option \<Rightarrow> string res" where
  "verify_container E info endpoint previous =
     bnd (string_field info ''Id'') (\<lambda>id'.
     ensure (case previous of None \<Rightarrow> True | Some p \<Rightarrow> p = id') ''ClickHouse capacity container was replaced''
     (bnd (context_res (ce_url E endpoint) ''invalid local capacity endpoint'') (\<lambda>url.
      ensure (ul_scheme url = ''http'' \<and> (ul_host url = Some ''localhost'' \<or> ul_host url = Some ''127.0.0.1'') \<and>
          ul_username url = [] \<and> ul_password url = None)
        ''Docker capacity measurement requires a local published HTTP endpoint''
      (let port = show_nat (case ul_port url of Some p \<Rightarrow> p | None \<Rightarrow> 80);
           bindings = as_array (index (index (index info ''NetworkSettings'') ''Ports'') ''8123/tcp'') in
       ensure (index (index info ''State'') ''Running'' = JBool True \<and>
           (case bindings of None \<Rightarrow> False | Some es \<Rightarrow> list_ex (\<lambda>b. jstr_eq (index b ''HostPort'') port \<and>
              (case as_str (index b ''HostIp'') of Some ip \<Rightarrow> ip = ''127.0.0.1'' \<or> ip = ''0.0.0.0'' \<or> ip = [] | None \<Rightarrow> False)) es))
         ''capacity container does not own the configured ClickHouse HTTP endpoint''
       (Inr id')))))"

section \<open>A validated policy\<close>

definition cap_integer :: "json \<Rightarrow> string \<Rightarrow> u64 \<Rightarrow> u64 res" where
  "cap_integer config key minimum =
     (let msg = key @ '' must be an integer >= '' @ show_u64 minimum in
      bnd (context_res (as_u64 (index config key)) msg) (\<lambda>v. ensure (minimum \<le> v) msg (Inr v)))"

record Meter =
  mt_client :: ClickHouse
  mt_config :: json
  mt_paths :: "path list"
  mt_budget :: u64
  mt_headroom :: u64
  mt_min_free :: u64
  mt_container :: string
  mt_container_id :: "string option"
  mt_databases :: "string list"
  mt_components :: "(string, path list) btree"

definition allowed_options :: "string list" where
  "allowed_options = [''format_version'', ''clickhouse_container'', ''local_paths'', ''databases'', ''components'',
     ''budget_bytes'', ''headroom_bytes'', ''min_free_bytes'', ''data_scan_mode'']"

definition scan_mode_ok :: "json \<Rightarrow> bool" where
  "scan_mode_ok config = (case get config ''data_scan_mode'' of None \<Rightarrow> True
     | Some v \<Rightarrow> as_str v = Some ''container'' \<or> as_str v = Some ''host_bind'')"

definition container_name_ok :: "string \<Rightarrow> bool" where
  "container_name_ok s \<longleftrightarrow> s \<noteq> [] \<and> (\<forall>i < length s. is_ascii_alphanumeric (s ! i) \<or>
     0 < i \<and> (s ! i = CHR ''_'' \<or> s ! i = CHR ''.'' \<or> s ! i = CHR ''-''))"

definition component_name_ok :: "string \<Rightarrow> bool" where
  "component_name_ok s \<longleftrightarrow> s \<noteq> [] \<and> length s \<le> 31 \<and> (\<forall>i < length s. is_ascii_lowercase (s ! i) \<or>
     0 < i \<and> (is_digit (s ! i) \<or> s ! i = CHR ''_'' \<or> s ! i = CHR ''-''))"

definition declared_path :: "capenv \<Rightarrow> json \<Rightarrow> path res" where
  "declared_path E v =
     bnd (context_res (as_str v) ''invalid capacity path'') (\<lambda>p.
     ensure (prefix ''/'' p) ''capacity local paths must be absolute''
     (bnd (case ce_canonical E (normal_path p) of Inl _ \<Rightarrow> Inl ''input/output error'' | Inr q \<Rightarrow> Inr q) (\<lambda>q.
      ensure (ce_is_dir E q) ''capacity local paths must be existing directories'' (Inr q))))"

definition local_paths :: "capenv \<Rightarrow> json \<Rightarrow> path list res" where
  "local_paths E config =
     bnd (context_res (as_array (index config ''local_paths'')) ''declare the local run, control, verification and export directories'') (\<lambda>declared.
     ensure (declared \<noteq> []) ''declare the local run, control, verification and export directories''
     (bnd (map_res (declared_path E) declared) (\<lambda>paths. Inr (roots paths))))"

definition meter_databases :: "ClickHouse \<Rightarrow> json \<Rightarrow> string list res" where
  "meter_databases client config =
     bnd (context_res (as_array (case get config ''databases'' of Some v \<Rightarrow> v | None \<Rightarrow> JArr [JStr (ch_database client)]))
       ''capacity databases must be a nonempty list'') (\<lambda>vs.
     ensure (vs \<noteq> []) ''capacity databases must be a nonempty list''
     (bnd (map_res (\<lambda>v. bnd (context_res (as_str v) ''invalid capacity database'') ch_identifier) vs) (\<lambda>names.
      Inr (sort (remdups names)))))"

definition component_path :: "('w, 'x) nodelib_scheme \<Rightarrow> path list \<Rightarrow> json \<Rightarrow> path res" where
  "component_path L paths v =
     bnd (context_res (as_str v) ''invalid component path'') (\<lambda>p.
     ensure (prefix ''/'' p) ''capacity component paths must be absolute''
     (bnd (resolve_path L p) (\<lambda>q.
      ensure (list_ex (starts_with (normal_path q)) paths) ''capacity component is outside declared local roots''
      (Inr (normal_path q)))))"

definition meter_component :: "('w, 'x) nodelib_scheme \<Rightarrow> path list \<Rightarrow> string \<times> json \<Rightarrow> (string, path list) btree \<Rightarrow> (string, path list) btree res" where
  "meter_component L paths e components = (case e of (name, values) \<Rightarrow>
     ensure (component_name_ok name) ''invalid capacity component declaration''
     (bnd (context_res (as_array values) ''invalid capacity component declaration'') (\<lambda>vs.
      bnd (map_res (component_path L paths) vs) (\<lambda>entries. Inr (bt_insert name entries components)))))"

definition meter_config :: "('w, 'x) nodelib_scheme \<Rightarrow> capenv \<Rightarrow> ClickHouse \<Rightarrow> json \<Rightarrow> Meter res" where
  "meter_config L E client config =
     ensure (as_object config \<noteq> None \<and> jnum_eq (index config ''format_version'') 1) ''unsupported capacity configuration''
     (ensure (case as_object config of None \<Rightarrow> False | Some fs \<Rightarrow> list_all (\<lambda>(k, _). k \<in> set allowed_options) fs)
        ''unknown capacity configuration option''
     (bnd (cap_integer config ''budget_bytes'' 1) (\<lambda>budget.
      bnd (cap_integer config ''headroom_bytes'' 1) (\<lambda>headroom.
      bnd (cap_integer config ''min_free_bytes'' 0) (\<lambda>min_free.
      ensure (scan_mode_ok config) ''data_scan_mode must be container or host_bind''
      (ensure (headroom < budget) ''headroom must be smaller than the capacity budget''
      (bnd (string_field config ''clickhouse_container'') (\<lambda>container.
       ensure (container_name_ok container) ''invalid ClickHouse container name or ID''
       (bnd (local_paths E config) (\<lambda>paths.
        bnd (meter_databases client config) (\<lambda>databases.
        bnd (case get config ''components'' of None \<Rightarrow> Inr []
             | Some declared \<Rightarrow> bnd (context_res (as_object declared) ''capacity components must be an object'')
                 (\<lambda>fs. fold_res (meter_component L paths) fs [])) (\<lambda>components.
        bnd (with_database client ''default'') (\<lambda>c.
        Inr \<lparr>mt_client = c, mt_config = config, mt_paths = paths, mt_budget = budget, mt_headroom = headroom, mt_min_free = min_free,
          mt_container = container, mt_container_id = None, mt_databases = databases, mt_components = components\<rparr>)))))))))))))"

definition meter_inspect :: "('w, 'x) nodelib_scheme \<Rightarrow> capenv \<Rightarrow> Meter \<Rightarrow> ('w node, json \<times> Meter) cio" where
  "meter_inspect L E meter =
     cbind (docker E [''inspect'', mt_container meter]) (\<lambda>out.
     cbind (plain (lift (context_res (json_parse L (bytes_text out)) ''invalid JSON''))) (\<lambda>v.
     cbind (plain (lift (context_res (Option.bind (as_array v) (\<lambda>vs. if vs = [] then None else Some (hd vs))) ''invalid container inspection''))) (\<lambda>info.
     cbind (plain (lift (verify_container E info (ch_url (mt_client meter)) (mt_container_id meter)))) (\<lambda>id'.
     cret (info, meter\<lparr>mt_container_id := Some id'\<rparr>)))))"

definition meter_new :: "('w, 'x) nodelib_scheme \<Rightarrow> capenv \<Rightarrow> ClickHouse \<Rightarrow> json \<Rightarrow> ('w node, Meter) cio" where
  "meter_new L E client config =
     cbind (plain (lift (meter_config L E client config))) (\<lambda>meter.
     cbind (meter_inspect L E meter) (\<lambda>(_, meter). cret meter))"

definition meter_contains :: "('w, 'x) nodelib_scheme \<Rightarrow> Meter \<Rightarrow> string \<Rightarrow> bool res" where
  "meter_contains L meter p =
     bnd (resolve_path L p) (\<lambda>q. Inr (list_ex (starts_with (normal_path q)) (mt_paths meter)))"

section \<open>One sample\<close>

definition show_int :: "int \<Rightarrow> string" where
  "show_int i = (if i < 0 then CHR ''-'' # show_nat (nat (- i)) else show_nat (nat i))"

definition paths_json :: "path list \<Rightarrow> json" where
  "paths_json ps = JArr (map (\<lambda>p. JStr (show_path p)) ps)"

definition scan_arguments :: "string \<Rightarrow> path list \<Rightarrow> string list" where
  "scan_arguments container disk_paths =
     [''exec'', container, ''timeout'', ''--signal=TERM'', ''--kill-after=2s'', ''25s'', ''du'', ''-s'', ''-c'', ''-B1'', ''--null'', ''--''] @
     map show_path disk_paths"

definition scan_usage :: "capenv \<Rightarrow> path list \<Rightarrow> ('w node, json) cio" where
  "scan_usage E paths = cbind (plain (draw (\<lambda>t. local_usage E t paths))) cok"

fun existing_paths :: "capenv \<Rightarrow> nat \<Rightarrow> path list \<Rightarrow> cap_error + path list" where
  "existing_paths E t [] = Inr []"
| "existing_paths E t (p # ps) = (case ce_exists E t p of Inl e \<Rightarrow> Inl (IoError e)
     | Inr there \<Rightarrow> (case existing_paths E t ps of Inl e \<Rightarrow> Inl e | Inr qs \<Rightarrow> Inr (if there then p # qs else qs)))"

definition component_usage :: "capenv \<Rightarrow> path list \<Rightarrow> ('w node, json) cio" where
  "component_usage E paths =
     cbind (plain (draw (\<lambda>t. existing_paths E t paths))) (\<lambda>r. cbind (cok r) (scan_usage E))"

fun component_usages :: "capenv \<Rightarrow> (string, path list) btree \<Rightarrow> ('w node, (string \<times> json) list) cio" where
  "component_usages E [] = cret []"
| "component_usages E ((name, paths) # cs) =
     cbind (at_stage ''component directory scan'' (retry_local (component_usage E paths))) (\<lambda>v.
     cbind (component_usages E cs) (\<lambda>vs. cret ((name, v) # vs)))"

definition selected_rows :: "('w, 'x) nodelib_scheme \<Rightarrow> Meter \<Rightarrow> string \<Rightarrow> string \<Rightarrow> ('w node, json list) cio" where
  "selected_rows L meter stage sql =
     at_stage stage (cbind (plain (on_db (rows_vec L (mt_client meter) sql []))) (\<lambda>rs.
       cret (filter (\<lambda>row. case as_str (index row ''database'') of Some name \<Rightarrow> name \<in> set (mt_databases meter) | None \<Rightarrow> False) rs)))"

fun free_spaces :: "capenv \<Rightarrow> path list \<Rightarrow> u64 \<Rightarrow> ('w node, u64 \<times> json list) cio" where
  "free_spaces E [] available = cret (available, [])"
| "free_spaces E (p # ps) available =
     cbind (at_stage ''runtime filesystem free space'' (cbind (plain (draw (\<lambda>t. ce_free E t p)))
       (\<lambda>r. cok (case r of Inl e \<Rightarrow> Inl (IoError e) | Inr v \<Rightarrow> Inr v)))) (\<lambda>free.
     cbind (free_spaces E ps (min available free)) (\<lambda>(available, ds).
     cret (available, jobj [(''path'', JStr (show_path p)), (''available_bytes'', jnum free)] # ds)))"

definition server_scan :: "('w, 'x) nodelib_scheme \<Rightarrow> capenv \<Rightarrow> Meter \<Rightarrow> json \<Rightarrow> path list \<Rightarrow> u64 \<Rightarrow> ('w node, u64 \<times> u64 \<times> json option) cio" where
  "server_scan L E meter info disk_paths available =
     (if jstr_eq (index (mt_config meter) ''data_scan_mode'') ''host_bind''
      then cbind (plain (draw (\<lambda>t. ce_host_scan E t info disk_paths))) (\<lambda>r.
           cbind (cok r) (\<lambda>scan.
           cbind (plain (lift (uint (index scan ''available_bytes'')))) (\<lambda>free.
           cbind (plain (lift (uint (index scan ''allocated_bytes'')))) (\<lambda>used.
           cret (used, min available free, Some scan)))))
      else cbind (at_stage ''container data-directory scan''
             (cbind (retry_scan (docker E (scan_arguments (case mt_container_id meter of Some i \<Rightarrow> i | None \<Rightarrow> []) disk_paths))) (\<lambda>out.
              plain (lift (du_total out))))) (\<lambda>used.
           cret (used, available, None)))"

definition sample_json :: "Meter \<Rightarrow> u64 \<Rightarrow> u64 \<Rightarrow> json option \<Rightarrow> path list \<Rightarrow> u64 \<Rightarrow> json \<Rightarrow> (string \<times> json) list \<Rightarrow> u64 \<Rightarrow>
    json list \<Rightarrow> json list \<Rightarrow> json list \<Rightarrow> json list \<Rightarrow> json list \<Rightarrow> string list \<Rightarrow> json" where
  "sample_json meter started finished host_scan disk_paths server_bytes loc components used disks local_disks parts detached merges reasons =
     jobj [(''format_version'', JNum ''1''), (''sample_started_ns'', jnum started), (''sample_finished_ns'', jnum finished),
       (''container_id'', case mt_container_id meter of Some i \<Rightarrow> JStr i | None \<Rightarrow> JNull),
       (''data_scan_mode'', JStr (if host_scan \<noteq> None then ''host_bind'' else ''container'')),
       (''host_bind_scan'', case host_scan of Some v \<Rightarrow> v | None \<Rightarrow> JNull),
       (''server_data_roots'', paths_json disk_paths), (''server_data_allocated_bytes'', jnum server_bytes),
       (''local_roots'', paths_json (mt_paths meter)), (''local'', loc), (''local_components'', JObj components),
       (''accounted_allocated_bytes'', jnum used), (''budget_bytes'', jnum (mt_budget meter)), (''headroom_bytes'', jnum (mt_headroom meter)),
       (''available_above_headroom_bytes'', JNum (show_int (int (unat (mt_budget meter)) - int (unat (mt_headroom meter)) - int (unat used)))),
       (''min_free_bytes'', jnum (mt_min_free meter)), (''server_disks'', JArr disks), (''local_filesystems'', JArr local_disks),
       (''selected_database_parts'', JArr parts), (''selected_database_detached_parts'', JArr detached), (''selected_database_merges'', JArr merges),
       (''admitted'', JBool (reasons = [])), (''reasons'', JArr (map JStr reasons)),
       (''coverage'', JStr ''entire local ClickHouse data disks plus declared local roots; shared data may overcount''),
       (''limit_kind'', JStr ''sampled operating guard, not a filesystem quota'')]"

definition meter_sample :: "('w, 'x) nodelib_scheme \<Rightarrow> capenv \<Rightarrow> Meter \<Rightarrow> ('w node, json) cio" where
  "meter_sample L E meter =
     cbind (plain (now_ns L)) (\<lambda>started.
     cbind (at_stage ''container inspection'' (meter_inspect L E meter)) (\<lambda>(info, meter).
     cbind (at_stage ''ClickHouse disk query'' (plain (on_db (rows_vec L (mt_client meter)
       ''SELECT name,path,type,is_remote,total_space,free_space,unreserved_space FROM system.disks ORDER BY name'' [])))) (\<lambda>disks.
     cbind (at_stage ''data disk mapping and counters'' (plain (lift (data_disks info disks)))) (\<lambda>(available, disk_paths).
     cbind (server_scan L E meter info disk_paths available) (\<lambda>(server_bytes, available, host_scan).
     cbind (at_stage ''runtime directory scan'' (retry_local (scan_usage E (mt_paths meter)))) (\<lambda>loc.
     cbind (plain (lift (bnd (uint (index loc ''allocated_bytes'')) (\<lambda>b.
       context_res (checked_add server_bytes b) ''accounted byte count overflow'')))) (\<lambda>used.
     cbind (component_usages E (mt_components meter)) (\<lambda>components.
     cbind (selected_rows L meter ''ClickHouse part accounting''
       ''SELECT database,active,sum(bytes_on_disk) AS bytes FROM system.parts GROUP BY database,active ORDER BY database,active'') (\<lambda>parts.
     cbind (selected_rows L meter ''ClickHouse detached-part accounting''
       ''SELECT database,sum(bytes_on_disk) AS bytes FROM system.detached_parts GROUP BY database ORDER BY database'') (\<lambda>detached.
     cbind (selected_rows L meter ''ClickHouse merge accounting''
       ''SELECT database,total_size_bytes_compressed AS input_bytes FROM system.merges'') (\<lambda>merges.
     cbind (free_spaces E (mt_paths meter) available) (\<lambda>(available, local_disks).
     cbind (plain (now_ns L)) (\<lambda>finished.
     cret (sample_json meter started finished host_scan disk_paths server_bytes loc components used disks local_disks parts detached merges
       (admission_reasons used (mt_headroom meter) (mt_budget meter) available (mt_min_free meter))))))))))))))))"

section \<open>The guard of an operation\<close>

definition io_kind :: "io_error \<Rightarrow> string" where
  "io_kind e = (case e of NotFound \<Rightarrow> ''NotFound'' | PermissionDenied \<Rightarrow> ''PermissionDenied'' | OtherIo _ \<Rightarrow> ''Other'')"

definition io_code :: "io_error \<Rightarrow> nat" where
  "io_code e = (case e of NotFound \<Rightarrow> 2 | PermissionDenied \<Rightarrow> 13 | OtherIo n \<Rightarrow> n)"

definition failure :: "('w, 'x) nodelib_scheme \<Rightarrow> cap_err \<Rightarrow> u64 \<Rightarrow> ('w node, json) io" where
  "failure L err started =
     bind (now_ns L) (\<lambda>finished.
     let v = jobj [(''format_version'', JNum ''1''), (''sample_started_ns'', jnum started), (''sample_finished_ns'', jnum finished),
           (''admitted'', JBool False), (''reasons'', JArr [JStr ''incomplete_capacity_sample'']), (''error_type'', JStr ''CapacityError'')];
         v = (case fst err of Some stage \<Rightarrow> jset v ''measurement_stage'' (JStr stage) | None \<Rightarrow> v);
         v = (case snd err of IoError e \<Rightarrow> jset (jset v ''io_error_kind'' (JStr (io_kind e))) ''io_error_code'' (JNum (show_nat (io_code e))) | _ \<Rightarrow> v);
         v = (case snd err of DockerError operation timed_out directory_changed \<Rightarrow>
               jset (jset (jset (jset v ''error_type'' (JStr ''DockerCapacityError'')) ''inspection_operation'' (JStr operation))
                 ''directory_changed'' (JBool directory_changed)) ''timed_out'' (JBool timed_out) | _ \<Rightarrow> v) in
     ret v)"

definition write_event :: "('w, 'x) nodelib_scheme \<Rightarrow> string option \<Rightarrow> string \<Rightarrow> json \<Rightarrow> ('w node, unit) io" where
  "write_event L destination stage v = (case destination of None \<Rightarrow> ret ()
     | Some d \<Rightarrow> bind (new_id L) (\<lambda>id'.
         on_fs (atomic_json (json_pretty L) (fs_temp L d) (Some d) (path_join d (id' @ ''.json'')) (jset v ''stage'' (JStr stage)) False)))"

fun contain_all :: "('w, 'x) nodelib_scheme \<Rightarrow> Meter \<Rightarrow> string list \<Rightarrow> string \<Rightarrow> unit res" where
  "contain_all L meter [] msg = Inr ()"
| "contain_all L meter (p # ps) msg = bnd (meter_contains L meter p) (\<lambda>c. ensure c msg (contain_all L meter ps msg))"

definition cap_guard :: "('w, 'x) nodelib_scheme \<Rightarrow> capenv \<Rightarrow> Meter \<Rightarrow> string list \<Rightarrow> string \<Rightarrow> string option \<Rightarrow> ('w node, json) cio" where
  "cap_guard L E meter required stage destination =
     cbind (plain (lift (contain_all L meter required ''operation uses a directory outside the declared capacity roots''))) (\<lambda>_.
     cbind (plain (lift (contain_all L meter (case destination of None \<Rightarrow> [] | Some d \<Rightarrow> [d]) ''capacity events directory is outside declared roots''))) (\<lambda>_.
     cbind (plain (now_ns L)) (\<lambda>started n.
       case meter_sample L E meter n of
         (Inl err, n') \<Rightarrow>
           cbind (plain (if destination = None then ret () else bind (failure L err started) (write_event L destination stage)))
             (\<lambda>_ m. (Inl err, m)) n'
       | (Inr measured, n') \<Rightarrow>
           cbind (plain (write_event L destination stage measured)) (\<lambda>_.
           cbind (plain (check (index measured ''admitted'' = JBool True)
             (''capacity guard rejected operation: '' @ json_print L (index measured ''reasons'')))) (\<lambda>_.
           cret measured)) n')))"

definition capacity_check :: "('w, 'x) nodelib_scheme \<Rightarrow> capenv \<Rightarrow> (string \<Rightarrow> unit res) option \<Rightarrow> string option \<Rightarrow> string option \<Rightarrow>
    ClickHouse \<Rightarrow> string list \<Rightarrow> string \<Rightarrow> ('w node, json option) cio" where
  "capacity_check L E additional policy events client required stage =
     cbind (plain (lift (case additional of None \<Rightarrow> Inr () | Some g \<Rightarrow> g stage))) (\<lambda>_.
     case policy of None \<Rightarrow> cret None
     | Some file \<Rightarrow>
         cbind (plain (on_fs (read_json L file))) (\<lambda>config.
         cbind (meter_new L E client config) (\<lambda>meter.
         cbind (plain (lift (case events of None \<Rightarrow> Inr None | Some d \<Rightarrow> bnd (resolve_path L d) (\<lambda>p. Inr (Some p))))) (\<lambda>destination.
         cbind (cap_guard L E meter required stage destination) (\<lambda>v. cret (Some v))))))"

section \<open>Statistics of a supervised run\<close>

record Stats =
  sa_samples :: u64
  sa_failures :: u64
  sa_peak :: u64
  sa_max_gap :: u64
  sa_last :: "u64 option"

definition stats_add :: "json \<Rightarrow> Stats \<Rightarrow> Stats res" where
  "stats_add v s =
     (let s = s\<lparr>sa_samples := sa_samples s + 1\<rparr> in
      bnd (uint (index v ''accounted_allocated_bytes'')) (\<lambda>used.
      let s = s\<lparr>sa_peak := max (sa_peak s) used\<rparr> in
      bnd (uint (index v ''sample_finished_ns'')) (\<lambda>now.
      Inr (s\<lparr>sa_max_gap := (case sa_last s of None \<Rightarrow> sa_max_gap s | Some t \<Rightarrow> max (sa_max_gap s) (saturating_sub now t)),
        sa_last := Some now\<rparr>))))"

section \<open>Every path lies under one root\<close>

lemma starts_with_trans: "starts_with q p \<Longrightarrow> starts_with r q \<Longrightarrow> starts_with r p"
  by (auto simp: starts_with_def)

lemma starts_with_refl [simp]: "starts_with p p"
  by (simp add: starts_with_def)

lemma remdups_adj_from_set:
  "set result \<subseteq> set (remdups_adj_from result ps)" (is ?keeps) "set (remdups_adj_from result ps) \<subseteq> set result \<union> set ps" (is ?only)
proof -
  have "?keeps \<and> ?only"
  proof (induction ps arbitrary: result)
    case (Cons p ps)
    show ?case using Cons.IH [of result] Cons.IH [of "result @ [p]"] by (cases "list_ex (starts_with p) result") (simp_all, blast)
  qed simp
  then show ?keeps ?only by simp_all
qed

lemma remdups_adj_from_cover: "p \<in> set ps \<Longrightarrow> \<exists>r \<in> set (remdups_adj_from result ps). starts_with p r"
proof (induction ps arbitrary: result)
  case (Cons q ps)
  let ?result = "if list_ex (starts_with q) result then result else result @ [q]"
  have "\<exists>r \<in> set ?result. starts_with q r" by (auto simp: list_ex_iff)
  then have "\<exists>r \<in> set (remdups_adj_from ?result ps). starts_with q r" using remdups_adj_from_set(1) [of ?result ps] by blast
  with Cons.IH [of ?result] Cons.prems show ?case by (cases "p = q") simp_all
qed simp

lemma remdups_adj_from_apart:
  assumes "sorted (map length ps)" "\<forall>r \<in> set result. \<forall>p \<in> set ps. length r \<le> length p"
    and "distinct result" "\<forall>r \<in> set result. \<forall>q \<in> set result. starts_with r q \<longrightarrow> r = q"
  shows "distinct (remdups_adj_from result ps) \<and>
    (\<forall>r \<in> set (remdups_adj_from result ps). \<forall>q \<in> set (remdups_adj_from result ps). starts_with r q \<longrightarrow> r = q)"
  using assms
proof (induction ps arbitrary: result)
  case (Cons p ps)
  have below: "r = p" if "starts_with r p" "length r \<le> length p" for r
    using that by (auto simp: starts_with_def prefix_def)
  show ?case
  proof (cases "list_ex (starts_with p) result")
    case True
    then show ?thesis using Cons.IH [of result] Cons.prems by simp
  next
    case False
    then have new: "\<forall>r \<in> set result. \<not> starts_with p r" by (simp add: list_ex_iff)
    have "p \<notin> set result" using new by auto
    moreover have "\<forall>r \<in> set result. starts_with r p \<longrightarrow> r = p" using below Cons.prems(2) by simp
    ultimately show ?thesis
      using Cons.IH [of "result @ [p]"] Cons.prems new False by auto
  qed
qed simp

lemma sorted_wrt_remdups_adj: "sorted_wrt P xs \<Longrightarrow> sorted_wrt P (remdups_adj xs)"
  by (induction xs rule: remdups_adj.induct) auto

lemma roots_sorted: "sorted (map length (remdups_adj (sort_key (\<lambda>p. (length p, p)) (paths :: path list))))"
proof -
  let ?ps = "sort_key (\<lambda>p. (length p, p)) paths"
  have "sorted (map (\<lambda>p. (length p, p)) ?ps)" by simp
  then have "sorted_wrt (\<lambda>x y. length x \<le> length y) ?ps"
    unfolding sorted_wrt_map by (rule sorted_wrt_mono_rel [rotated]) (auto simp: less_eq_prod_def)
  then show ?thesis by (simp add: sorted_wrt_map sorted_wrt_remdups_adj)
qed

text \<open>
  The roots of a set of paths are among them, every path lies under exactly one root, and no root
  lies under another.
\<close>

lemma roots_partition:
  "set (roots paths) \<subseteq> set paths \<and> distinct (roots paths) \<and>
   (\<forall>p \<in> set paths. \<exists>!r. r \<in> set (roots paths) \<and> starts_with p r) \<and>
   (\<forall>r \<in> set (roots paths). \<forall>q \<in> set (roots paths). starts_with r q \<longrightarrow> r = q)"
proof -
  let ?ps = "remdups_adj (sort_key (\<lambda>p. (length p, p)) paths)"
  have apart: "distinct (roots paths)" "\<forall>r \<in> set (roots paths). \<forall>q \<in> set (roots paths). starts_with r q \<longrightarrow> r = q"
    using remdups_adj_from_apart [of ?ps "[]"] roots_sorted [of paths] by (simp_all add: roots_def)
  have cover: "set (roots paths) \<subseteq> set paths" "\<forall>p \<in> set paths. \<exists>r \<in> set (roots paths). starts_with p r"
    using remdups_adj_from_set(2) [of "[]" ?ps] remdups_adj_from_cover [of _ ?ps "[]"] by (simp_all add: roots_def)
  have "r = q" if "r \<in> set (roots paths)" "q \<in> set (roots paths)" "starts_with p r" "starts_with p q" for p r q
    using that apart(2) prefix_same_cases [of r p q] by (auto simp: starts_with_def)
  with apart cover show ?thesis by blast
qed

section \<open>A measurement counts every inode once\<close>

text \<open>The walk as a recursion over the tree, and the metadata of all entries below one.\<close>

fun walk :: "bool \<Rightarrow> entry \<Rightarrow> stats \<Rightarrow> (cap_error + stats)"
  and walk_all :: "bool \<Rightarrow> entry list \<Rightarrow> stats \<Rightarrow> (cap_error + stats)" where
  "walk d (Lost e) s = Inl (IoError e)"
| "walk d (Entry m children) s =
     (case visit d m s of
        Inl e \<Rightarrow> Inl e
      | Inr (enter, s) \<Rightarrow>
          if enter then (case children of Inl e \<Rightarrow> Inl (IoError e) | Inr es \<Rightarrow> walk_all d es s)
          else Inr s)"
| "walk_all d [] s = Inr s"
| "walk_all d (e # es) s = (case walk d e s of Inl x \<Rightarrow> Inl x | Inr s \<Rightarrow> walk_all d es s)"

fun metas :: "entry \<Rightarrow> metadata list" and metas_all :: "entry list \<Rightarrow> metadata list" where
  "metas (Lost e) = []"
| "metas (Entry m children) = m # (case children of Inl e \<Rightarrow> [] | Inr es \<Rightarrow> if md_kind m = Directory then metas_all es else [])"
| "metas_all [] = []"
| "metas_all (e # es) = metas e @ metas_all es"

lemma loop_walk:
  "directories_loop d ((e # es) # st) s = (case walk d e s of Inl x \<Rightarrow> Inl x | Inr s \<Rightarrow> directories_loop d (es # st) s)"
  "directories_loop d (cs # st) s = (case walk_all d cs s of Inl x \<Rightarrow> Inl x | Inr s \<Rightarrow> directories_loop d st s)"
proof (induction d e s and d cs s arbitrary: es st and st rule: walk_walk_all.induct)
  case (2 d m children s)
  then show ?case by (cases "visit d m s") (auto split: prod.splits sum.splits)
next
  case (4 d e cs s)
  show ?case using 4 by (cases "walk d e s") simp_all
qed simp_all

lemma measure_roots_walk: "measure_roots d es s = walk_all d es s"
  by (induction d es s rule: measure_roots.induct) (auto simp: loop_walk split: sum.splits prod.splits)

abbreviation inode :: "metadata \<Rightarrow> u64 \<times> u64" where
  "inode m \<equiv> (md_dev m, md_ino m)"

abbreviation directory_inodes :: "metadata list \<Rightarrow> (u64 \<times> u64) list" where
  "directory_inodes ms \<equiv> map inode (filter (\<lambda>m. md_kind m = Directory) ms)"

definition new_metas :: "metadata list \<Rightarrow> stats \<Rightarrow> metadata set" where
  "new_metas ms s = {m \<in> set ms. inode m \<notin> set (st_seen s)}"

text \<open>What a walk over entries with the given metadata adds to the statistics.\<close>

definition adds :: "metadata list \<Rightarrow> stats \<Rightarrow> stats \<Rightarrow> bool" where
  "adds ms s s' \<longleftrightarrow> set (st_seen s') = set (st_seen s) \<union> inode ` set ms \<and>
     unat (st_allocated s') = unat (st_allocated s) + (\<Sum>m \<in> new_metas ms s. 512 * unat (md_blocks m)) \<and>
     unat (st_logical s') = unat (st_logical s) + (\<Sum>m \<in> {m \<in> new_metas ms s. md_kind m \<noteq> Directory}. unat (md_len m)) \<and>
     st_files s' = st_files s + of_nat (card {m \<in> new_metas ms s. md_kind m \<noteq> Directory})"

definition tree_ok :: "metadata list \<Rightarrow> bool" where
  "tree_ok ms \<longleftrightarrow> inj_on inode (set ms) \<and> distinct (directory_inodes ms)"

lemma new_metas_append:
  assumes "adds xs s t" "inj_on inode (set (xs @ ys))"
  shows "new_metas (xs @ ys) s = new_metas xs s \<union> new_metas ys t" "new_metas xs s \<inter> new_metas ys t = {}"
proof -
  have seen: "set (st_seen t) = set (st_seen s) \<union> inode ` set xs" using assms(1) by (simp add: adds_def)
  have "m \<in> set xs" if m: "m \<in> set ys" "inode m \<in> inode ` set xs" for m
  proof -
    from m(2) obtain x where "x \<in> set xs" "inode m = inode x" by (rule imageE)
    with m(1) inj_onD [OF assms(2), of m x] show ?thesis by simp
  qed
  then show "new_metas (xs @ ys) s = new_metas xs s \<union> new_metas ys t" unfolding new_metas_def seen by auto
  show "new_metas xs s \<inter> new_metas ys t = {}" unfolding new_metas_def seen by auto
qed

lemma adds_append:
  assumes "adds xs s t" "adds ys t u" "inj_on inode (set (xs @ ys))"
  shows "adds (xs @ ys) s u"
proof -
  note new = new_metas_append [OF assms(1,3)]
  have fin: "finite (new_metas ms r)" for ms r by (simp add: new_metas_def)
  have sums: "sum g (new_metas (xs @ ys) s) = sum g (new_metas xs s) + sum g (new_metas ys t)" for g :: "metadata \<Rightarrow> nat"
    unfolding new(1) by (rule sum.union_disjoint) (use fin new in auto)
  have split: "{m \<in> new_metas (xs @ ys) s. P m} = {m \<in> new_metas xs s. P m} \<union> {m \<in> new_metas ys t. P m}"
      "{m \<in> new_metas xs s. P m} \<inter> {m \<in> new_metas ys t. P m} = {}" for P using new by auto
  have part: "sum g {m \<in> new_metas (xs @ ys) s. P m} = sum g {m \<in> new_metas xs s. P m} + sum g {m \<in> new_metas ys t. P m}"
    for g :: "metadata \<Rightarrow> nat" and P unfolding split(1) by (rule sum.union_disjoint) (use fin split(2) in auto)
  have "card {m \<in> new_metas (xs @ ys) s. P m} = card {m \<in> new_metas xs s. P m} + card {m \<in> new_metas ys t. P m}" for P
    using part [of "\<lambda>_. 1"] by simp
  note card = this
  have "set (st_seen u) = set (st_seen s) \<union> inode ` set (xs @ ys)" using assms(1,2) unfolding adds_def by auto
  moreover have "unat (st_allocated u) = unat (st_allocated s) + (\<Sum>m \<in> new_metas (xs @ ys) s. 512 * unat (md_blocks m))"
    using assms(1,2) unfolding adds_def sums by linarith
  moreover have "unat (st_logical u) = unat (st_logical s) + (\<Sum>m \<in> {m \<in> new_metas (xs @ ys) s. md_kind m \<noteq> Directory}. unat (md_len m))"
    using assms(1,2) unfolding adds_def part by linarith
  moreover have "st_files u = st_files s + of_nat (card {m \<in> new_metas (xs @ ys) s. md_kind m \<noteq> Directory})"
    using assms(1,2) unfolding adds_def card by simp
  ultimately show ?thesis unfolding adds_def by blast
qed

lemma checked_mul_Some: "checked_mul a b = Some c \<Longrightarrow> unat c = unat a * unat b"
  by (auto simp: checked_mul_def unat_word_ariths split: if_splits)

lemma visit_adds:
  assumes "visit d m s = Inr (enter, s')"
  shows "adds [m] s s'" "enter \<longleftrightarrow> md_kind m = Directory \<and> inode m \<notin> set (st_seen s)"
proof -
  have new: "new_metas [m] s = (if inode m \<in> set (st_seen s) then {} else {m})" by (auto simp: new_metas_def)
  show "adds [m] s s'"
  proof (cases "inode m \<in> set (st_seen s)")
    case True
    then have "new_metas [m] s = {}" "s' = s" using assms by (auto simp: new visit_def split: if_splits)
    with True show ?thesis by (auto simp: adds_def)
  next
    case False
    have files: "{x \<in> {m}. md_kind x \<noteq> Directory} = (if md_kind m = Directory then {} else {m})" by auto
    from False have new: "new_metas [m] s = {m}" by (simp add: new)
    show ?thesis using assms False unfolding adds_def new files
      by (auto simp: visit_def Let_def checked_add_Some_iff dest!: checked_mul_Some split: if_splits option.splits Option.bind_splits)
  qed
  show "enter \<longleftrightarrow> md_kind m = Directory \<and> inode m \<notin> set (st_seen s)" using assms
    by (auto simp: visit_def Let_def split: if_splits option.splits)
qed

lemma tree_ok_append:
  assumes "tree_ok (xs @ ys)"
  shows "tree_ok xs" "tree_ok ys" "set (directory_inodes ys) \<inter> inode ` set xs = {}"
proof -
  show "tree_ok xs" "tree_ok ys" using assms by (auto simp: tree_ok_def inj_on_Un)
  have "False" if "i \<in> set (directory_inodes ys)" "i \<in> inode ` set xs" for i
  proof -
    from that obtain y x where y: "y \<in> set ys" "md_kind y = Directory" "i = inode y" and x: "x \<in> set xs" "i = inode x" by auto
    then have "x = y" using assms inj_onD [of inode "set (xs @ ys)" x y] by (simp add: tree_ok_def)
    then have "i \<in> set (directory_inodes xs)" using x y by auto
    moreover have "set (directory_inodes xs) \<inter> set (directory_inodes ys) = {}" using assms by (simp add: tree_ok_def)
    ultimately show False using that(1) by blast
  qed
  then show "set (directory_inodes ys) \<inter> inode ` set xs = {}" by blast
qed

lemma adds_seen: "adds ms s s' \<Longrightarrow> set (st_seen s') = set (st_seen s) \<union> inode ` set ms"
  by (simp add: adds_def)

lemma walk_adds:
  "walk d e s = Inr s' \<Longrightarrow> tree_ok (metas e) \<Longrightarrow> set (directory_inodes (metas e)) \<inter> set (st_seen s) = {} \<Longrightarrow> adds (metas e) s s'"
  "walk_all d es s = Inr s' \<Longrightarrow> tree_ok (metas_all es) \<Longrightarrow> set (directory_inodes (metas_all es)) \<inter> set (st_seen s) = {} \<Longrightarrow> adds (metas_all es) s s'"
proof (induction d e s and d es s arbitrary: s' and s' rule: walk_walk_all.induct)
  case (2 d m children s)
  from 2(2) obtain enter t where v: "visit d m s = Inr (enter, t)" by (auto split: sum.splits prod.splits)
  note a = visit_adds [OF v]
  have new: "inode m \<notin> set (st_seen s)" if "md_kind m = Directory" using 2(4) that by simp
  show ?case
  proof (cases "md_kind m = Directory")
    case False
    then have "s' = t" using 2(2) v a(2) by simp
    with a(1) False show ?thesis by (simp split: sum.splits)
  next
    case True
    with a(2) new have enter by simp
    with 2(2) v obtain cs where cs: "children = Inr cs" "walk_all d cs t = Inr s'" by (auto split: sum.splits)
    with True have ms: "metas (Entry m children) = [m] @ metas_all cs" by simp
    note ok = tree_ok_append [OF 2(3) [unfolded ms]]
    have "set (directory_inodes (metas_all cs)) \<inter> set (st_seen t) = {}"
      unfolding adds_seen [OF a(1)] using ok(3) 2(4) unfolding ms by (auto simp: True)
    then have "adds (metas_all cs) t s'" using 2(1) [OF v refl \<open>enter\<close> cs(1) cs(2) ok(2)] by simp
    then show ?thesis unfolding ms using adds_append [OF a(1)] 2(3) [unfolded ms tree_ok_def] by blast
  qed
next
  case (4 d e es s)
  from 4(3) obtain t where t: "walk d e s = Inr t" "walk_all d es t = Inr s'" by (auto split: sum.splits)
  note ok = tree_ok_append [OF 4(4) [unfolded metas_all.simps]]
  have a: "adds (metas e) s t" using 4(1) [OF t(1) ok(1)] 4(5) by auto
  have "set (directory_inodes (metas_all es)) \<inter> set (st_seen t) = {}"
    unfolding adds_seen [OF a] using ok(3) 4(5) by auto
  then have "adds (metas_all es) t s'" using 4(2) [OF t(1) t(2) ok(2)] by simp
  then show ?case using adds_append [OF a] 4(4) by (simp add: tree_ok_def)
qed (simp_all add: adds_def new_metas_def)


definition ex_dir :: metadata where
  "ex_dir = \<lparr>md_dev = 1, md_ino = 2, md_blocks = 8, md_len = 4096, md_kind = Directory\<rparr>"

definition ex_file :: metadata where
  "ex_file = \<lparr>md_dev = 1, md_ino = 3, md_blocks = 16, md_len = 5000, md_kind = File\<rparr>"

text \<open>One directory declared twice, with two names of one file.\<close>

definition ex_capenv :: capenv where
  "ex_capenv = \<lparr>ce_canonical = Inr, ce_entry = \<lambda>_ _. Entry ex_dir (Inr [Entry ex_file (Inr []), Entry ex_file (Inr [])]),
     ce_exists = \<lambda>_ _. Inr True, ce_is_dir = \<lambda>_. True, ce_docker = \<lambda>_ _. None, ce_url = \<lambda>_. None,
     ce_free = \<lambda>_ _. Inr 0, ce_host_scan = \<lambda>_ _ _. Inl (Refused [])\<rparr>"


section \<open>What an admitted operation may rely on\<close>

named_theorems cio_simps

lemma cbind_Inr [cio_simps]: "cbind m f w = (Inr v, w') \<longleftrightarrow> (\<exists>x u. m w = (Inr x, u) \<and> f x u = (Inr v, w'))"
  by (auto simp: cbind_def split: prod.splits sum.splits)

lemma plain_Inr [cio_simps]: "plain m w = (Inr v, w') \<longleftrightarrow> m w = (Inr v, w')"
  by (auto simp: plain_def split: prod.splits sum.splits)

lemma at_stage_Inr [cio_simps]: "at_stage st m w = (Inr v, w') \<longleftrightarrow> m w = (Inr v, w')"
  by (auto simp: at_stage_def split: prod.splits sum.splits)

lemma cok_Inr [cio_simps]: "cok r w = (Inr v, w') \<longleftrightarrow> r = Inr v \<and> w' = w"
  by (auto simp: cok_def split: sum.splits)

lemma cret_Inr [cio_simps]: "cret x w = (Inr v, w') \<longleftrightarrow> x = v \<and> w' = w"
  by (auto simp: cret_def)

lemma lift_Inr [cio_simps]: "lift r w = (Inr v, w') \<longleftrightarrow> r = Inr v \<and> w' = w"
  by (auto simp: lift_def)

lemma contain_all_Inr:
  "contain_all L meter ps msg = Inr () \<longleftrightarrow> (\<forall>p \<in> set ps. meter_contains L meter p = Inr True)"
  by (induction ps) (auto simp: bnd_def ensure_def split: sum.splits)

lemma meter_contains_Inr:
  "meter_contains L meter p = Inr True \<longleftrightarrow> (\<exists>q. resolve_path L p = Inr q \<and> (\<exists>r \<in> set (mt_paths meter). starts_with (normal_path q) r))"
  by (auto simp: meter_contains_def bnd_def list_ex_iff split: sum.splits)

lemma free_spaces_Inr:
  "free_spaces E ps available n = (Inr (a, ds), n') \<Longrightarrow>
   a \<le> available \<and> (\<forall>x \<in> set ds. \<exists>free. uint (index x ''available_bytes'') = Inr free \<and> a \<le> free) \<and> length ds = length ps"
proof (induction ps arbitrary: available ds n)
  case (Cons p ps)
  then obtain free ds' n1 where f: "free_spaces E ps (min available free) n1 = (Inr (a, ds'), n')"
      "ds = jobj [(''path'', JStr (show_path p)), (''available_bytes'', jnum free)] # ds'"
    by (auto simp: cio_simps split: prod.splits)
  from Cons.IH [OF f(1)] show ?case by (auto simp: f(2) index_jobj)
qed (simp add: cio_simps)

definition disk_spare :: "u64 \<Rightarrow> json \<Rightarrow> bool" where
  "disk_spare a disk \<longleftrightarrow> (\<exists>free unreserved. uint (index disk ''free_space'') = Inr free \<and>
     uint (index disk ''unreserved_space'') = Inr unreserved \<and> a \<le> free \<and> a \<le> unreserved)"

lemma disk_spare_le: "disk_spare b x \<Longrightarrow> a \<le> b \<Longrightarrow> disk_spare a x"
  unfolding disk_spare_def by (meson order_trans)

lemma data_disk_Inr: "data_disk x (available, ps) = Inr (a, qs) \<Longrightarrow> a \<le> available \<and> disk_spare a x"
  by (auto simp: data_disk_def disk_spare_def bnd_def ensure_def min_le_iff_disj split: sum.splits if_splits)

lemma data_disk_fold: "fold_res data_disk xs (available, ps) = Inr (a, qs) \<Longrightarrow> a \<le> available \<and> (\<forall>x \<in> set xs. disk_spare a x)"
proof (induction xs arbitrary: available ps)
  case (Cons x xs)
  then obtain b rs where b: "data_disk x (available, ps) = Inr (b, rs)" "fold_res data_disk xs (b, rs) = Inr (a, qs)"
    by (auto simp: bnd_def split: sum.splits)
  from data_disk_Inr [OF b(1)] Cons.IH [OF b(2)] disk_spare_le show ?case by fastforce
qed simp

lemma data_disks_Inr: "data_disks info disks = Inr (a, qs) \<Longrightarrow> x \<in> set disks \<Longrightarrow> disk_spare a x"
  by (auto simp: data_disks_def bnd_def ensure_def Let_def dest!: data_disk_fold split: sum.splits if_splits)

lemma meter_inspect_Inr:
  "meter_inspect L E meter n = (Inr (info, m), n') \<Longrightarrow> \<exists>i. m = meter\<lparr>mt_container_id := Some i\<rparr>"
  by (auto simp: meter_inspect_def cio_simps)

lemma server_scan_le: "server_scan L E meter info ps available n = (Inr (used, a, h), n') \<Longrightarrow> a \<le> available"
  by (auto simp: server_scan_def cio_simps split: if_splits)

lemma admission_reasons_empty:
  "admission_reasons used headroom budget available min_free = [] \<longleftrightarrow>
     unat used + unat headroom < unat budget \<and> min_free \<le> available"
  by (simp add: admission_reasons_def not_le not_less)

text \<open>
  The fields of a sample a decision rests on: the bytes counted are those of the server's data disks
  and of the local roots, and every disk and file system the sample lists has the room the meter asks
  for.
\<close>

definition within_budget :: "Meter \<Rightarrow> json \<Rightarrow> bool" where
  "within_budget meter v \<longleftrightarrow> (\<exists>server local used.
     uint (index v ''server_data_allocated_bytes'') = Inr server \<and> uint (index (index v ''local'') ''allocated_bytes'') = Inr local \<and>
     uint (index v ''accounted_allocated_bytes'') = Inr used \<and> unat used = unat server + unat local \<and>
     unat used + unat (mt_headroom meter) < unat (mt_budget meter))"

definition room_left :: "Meter \<Rightarrow> json \<Rightarrow> bool" where
  "room_left meter v \<longleftrightarrow> (\<exists>disks filesystems. index v ''server_disks'' = JArr disks \<and> index v ''local_filesystems'' = JArr filesystems \<and>
     list_all (disk_spare (mt_min_free meter)) disks \<and> length filesystems = length (mt_paths meter) \<and>
     list_all (\<lambda>x. \<exists>free. uint (index x ''available_bytes'') = Inr free \<and> mt_min_free meter \<le> free) filesystems)"

lemma meter_sample_admitted:
  fixes n :: "'w node"
  assumes "meter_sample L E meter n = (Inr v, n')"
  shows "index v ''admitted'' = JBool True \<longrightarrow> within_budget meter v \<and> room_left meter v"
proof -
  from assms obtain started finished info m disks a0 disk_paths server a1 host loc lb used comps parts detached merges a2 fss n1 n2 n3 n4 and n5 n6 :: "'w node" where
    d: "meter_inspect L E meter n1 = (Inr (info, m), n2)" "data_disks info disks = Inr (a0, disk_paths)"
      "server_scan L E m info disk_paths a0 n3 = (Inr (server, a1, host), n4)" "uint (index loc ''allocated_bytes'') = Inr lb"
      "checked_add server lb = Some used" "free_spaces E (mt_paths m) a1 n5 = (Inr (a2, fss), n6)"
    and v: "v = sample_json m started finished host disk_paths server loc comps used disks fss parts detached merges
       (admission_reasons used (mt_headroom m) (mt_budget m) a2 (mt_min_free m))"
    unfolding meter_sample_def
    by (clarsimp simp: cio_simps bnd_Inr_iff context_res_Inr_iff split: prod.splits)
  from meter_inspect_Inr [OF d(1)] have m: "mt_headroom m = mt_headroom meter" "mt_budget m = mt_budget meter"
      "mt_min_free m = mt_min_free meter" "mt_paths m = mt_paths meter" by auto
  have fields: "index v ''admitted'' = JBool (admission_reasons used (mt_headroom m) (mt_budget m) a2 (mt_min_free m) = [])"
      "index v ''server_data_allocated_bytes'' = jnum server" "index v ''local'' = loc" "index v ''accounted_allocated_bytes'' = jnum used"
      "index v ''server_disks'' = JArr disks" "index v ''local_filesystems'' = JArr fss"
    unfolding v sample_json_def by (simp_all add: index_jobj)
  note le = server_scan_le [OF d(3)] and fs = free_spaces_Inr [OF d(6)]
  have "disk_spare a2 x" if "x \<in> set disks" for x using data_disks_Inr [OF d(2) that] le fs disk_spare_le by blast
  then show ?thesis
    using d(4,5) fs unfolding within_budget_def room_left_def fields
    by (auto simp: m admission_reasons_empty checked_add_Some_iff list_all_iff intro: disk_spare_le order_trans)
qed

text \<open>
  C35: The guard of an operation lets it go on only when every directory it uses, the directory of its
  events included, resolves below a declared root, the bytes counted plus the headroom stay below the
  budget as numbers, without wrap-around, and every data disk and every file system of a declared root
  has at least the required free space.
\<close>

theorem guard_admits:
  assumes "cap_guard L E meter required stage destination n = (Inr v, n')"
  shows "(\<forall>p \<in> set required \<union> set_option destination.
      \<exists>q. resolve_path L p = Inr q \<and> (\<exists>r \<in> set (mt_paths meter). starts_with (normal_path q) r)) \<and>
    within_budget meter v \<and> room_left meter v"
proof -
  from assms obtain started n1 where c: "contain_all L meter required ''operation uses a directory outside the declared capacity roots'' = Inr ()"
      "contain_all L meter (case destination of None \<Rightarrow> [] | Some d \<Rightarrow> [d]) ''capacity events directory is outside declared roots'' = Inr ()"
    and r: "(case meter_sample L E meter n1 of
         (Inl err, n') \<Rightarrow>
           cbind (plain (if destination = None then ret () else bind (failure L err started) (write_event L destination stage)))
             (\<lambda>_ m. (Inl err, m)) n'
       | (Inr measured, n') \<Rightarrow>
           cbind (plain (write_event L destination stage measured)) (\<lambda>_.
           cbind (plain (check (index measured ''admitted'' = JBool True)
             (''capacity guard rejected operation: '' @ json_print L (index measured ''reasons'')))) (\<lambda>_.
           cret measured)) n') = (Inr v, n')"
    unfolding cap_guard_def by (auto simp: cbind_Inr plain_Inr lift_Inr)
  from r obtain n2 where s: "meter_sample L E meter n1 = (Inr v, n2)" "index v ''admitted'' = JBool True"
    by (cases "meter_sample L E meter n1"; cases "fst (meter_sample L E meter n1)")
      (auto simp: cio_simps check_def split: if_splits)
  have "\<forall>p \<in> set required \<union> set_option destination. meter_contains L meter p = Inr True"
    using c unfolding contain_all_Inr by (cases destination) auto
  with meter_sample_admitted [OF s(1)] s(2) show ?thesis by (auto simp: meter_contains_Inr)
qed

section \<open>A concrete admitted operation\<close>

definition ex_disk :: json where
  "ex_disk = JObj [(''free_space'', jnum 900), (''is_remote'', jnum 0), (''path'', JStr ''/c''), (''total_space'', jnum 1000),
     (''type'', JStr ''Local''), (''unreserved_space'', jnum 800)]"

definition ex_container :: json where
  "ex_container = JObj [(''Id'', JStr ''i''), (''Mounts'', JArr [JObj [(''Destination'', JStr ''/c''), (''Type'', JStr ''bind'')]]),
     (''NetworkSettings'', JObj [(''Ports'', JObj [(''8123/tcp'', JArr [JObj [(''HostIp'', JStr []), (''HostPort'', JStr ''80'')]])])]),
     (''State'', JObj [(''Running'', JBool True)])]"

definition cap_lib :: "unit nodelib" where
  "cap_lib = scripted (\<lambda>_ _. lines ''D'') (map_of [(''D'', ex_disk), (''I'', JArr [ex_container])])"

definition cap_env :: capenv where
  "cap_env = ex_capenv\<lparr>ce_docker := \<lambda>_ _. Some \<lparr>do_success = True, do_code = Some 0, do_stdout = text_bytes ''I'', do_stderr = []\<rparr>,
     ce_url := \<lambda>_. Some \<lparr>ul_scheme = ''http'', ul_host = Some ''localhost'', ul_username = [], ul_password = None, ul_port = None\<rparr>,
     ce_free := \<lambda>_ _. Inr 700,
     ce_host_scan := \<lambda>_ _ _. Inr (JObj [(''allocated_bytes'', jnum 40), (''available_bytes'', jnum 600)])\<rparr>"

definition cap_meter :: Meter where
  "cap_meter = \<lparr>mt_client = ex_db, mt_config = JObj [(''data_scan_mode'', JStr ''host_bind'')], mt_paths = [[''d'']], mt_budget = 20000,
     mt_headroom = 100, mt_min_free = 500, mt_container = ''c'', mt_container_id = None, mt_databases = [], mt_components = []\<rparr>"

lemma cap_lib_simps [simp]:
  "json_parse cap_lib = map_of [(''D'', ex_disk), (''I'', JArr [ex_container])]" "http_post cap_lib = script_post (\<lambda>_ _. lines ''D'')"
  "nl_clock cap_lib = Inr" "nl_lstat cap_lib = (\<lambda>_. NotLink)" "nl_cwd cap_lib = Inr [RootDir]"
  by (simp_all add: cap_lib_def scripted_def ex_nodelib_def)

lemma cap_rows: "rows_vec cap_lib c sql [] w = (Inr [ex_disk], w)"
  using script_rows_vec [of cap_lib "\<lambda>_ _. lines ''D''" sql "[]" "''D''" c w]
  by (simp add: text_ok_def text_rows_def is_whitespace_def ex_disk_def)

lemma cap_path: "path_components ''/c'' = [RootDir, Normal ''c'']"
  by (simp add: path_components_def)

lemma cap_data_disks: "data_disks ex_container [ex_disk] = Inr (800, [[''c'']])"
  by (simp add: data_disks_def data_disk_def ex_disk_def ex_container_def index_def jstr_eq_def string_field_def cap_path
      normal_path_def mount_destinations_def as_array_def roots_def sort_key_def starts_with_def u64_max_def)

lemma cap_inspect: "meter_inspect cap_lib cap_env cap_meter (n :: unit node) =
    (Inr (ex_container, cap_meter\<lparr>mt_container_id := Some ''i''\<rparr>), n\<lparr>nd_tick := Suc (nd_tick n)\<rparr>)"
proof -
  have "docker cap_env [''inspect'', ''c''] n = (Inr (text_bytes ''I''), n\<lparr>nd_tick := Suc (nd_tick n)\<rparr>)"
    by (simp add: docker_def cbind_def plain_def draw_def cok_def decode_docker_output_def cap_env_def)
  moreover have port: "show_nat 80 = ''80''" by code_simp
  moreover have "verify_container cap_env ex_container (ch_url (mt_client cap_meter)) None = Inr ''i''"
    by (simp add: verify_container_def ex_container_def cap_env_def string_field_def index_def as_array_def jstr_eq_def Let_def port)
  ultimately show ?thesis
    by (simp add: meter_inspect_def cbind_def plain_def lift_def cap_meter_def as_array_def cret_def)
qed

lemma cap_usage: "\<exists>v. local_usage cap_env t [[''d'']] = Inr v \<and> uint (index v ''allocated_bytes'') = Inr 12288"
  by (simp add: local_usage_def usage_def cap_env_def ex_capenv_def roots_def sort_key_def visit_def ex_dir_def ex_file_def no_stats_def
      checked_mul_def checked_add_def usage_json_def index_jobj)

lemma cap_scan: "\<exists>v. retry_local (scan_usage cap_env [[''d'']]) n = (Inr v, n\<lparr>nd_tick := Suc (nd_tick n)\<rparr>) \<and>
    uint (index v ''allocated_bytes'') = Inr 12288"
  using cap_usage [of "nd_tick n"]
  by (auto simp: retry_local_def scan_usage_def cbind_def plain_def draw_def cok_def numeral_eq_Suc)

lemma cap_server: "server_scan cap_lib cap_env (cap_meter\<lparr>mt_container_id := i\<rparr>) info ps 800 (n :: unit node) =
    (Inr (40, 600, Some (JObj [(''allocated_bytes'', jnum 40), (''available_bytes'', jnum 600)])), n\<lparr>nd_tick := Suc (nd_tick n)\<rparr>)"
  by (simp add: server_scan_def cap_meter_def index_def jstr_eq_def cbind_def plain_def draw_def cok_def cap_env_def lift_def cret_def)

lemma cap_free: "\<exists>ds. free_spaces cap_env [[''d'']] 600 n = (Inr (600, ds), n\<lparr>nd_tick := Suc (nd_tick n)\<rparr>)"
  by (simp add: cbind_def plain_def draw_def cok_def cap_env_def at_stage_def cret_def)

lemma cap_clock: "nd_tick n < 100 \<Longrightarrow> \<exists>t. now_ns cap_lib n = (Inr t, n\<lparr>nd_tick := Suc (nd_tick n)\<rparr>)"
  by (simp add: now_ns_def bind_def draw_def lift_def ensure_def)

lemma cap_selected: "\<exists>rs. selected_rows cap_lib (cap_meter\<lparr>mt_container_id := i\<rparr>) stage sql (n :: unit node) = (Inr rs, n)"
  by (simp add: selected_rows_def at_stage_def cbind_def plain_def quiet_db cap_rows cret_def)

lemma cap_sample: "nd_tick n < 50 \<Longrightarrow> \<exists>v n'. meter_sample cap_lib cap_env cap_meter (n :: unit node) = (Inr v, n') \<and> index v ''admitted'' = JBool True"
proof -
  assume t: "nd_tick n < 50"
  let ?m = "cap_meter\<lparr>mt_container_id := Some ''i''\<rparr>" and ?n = "\<lambda>k. n\<lparr>nd_tick := k + nd_tick n\<rparr>"
  obtain s0 where s0: "now_ns cap_lib n = (Inr s0, ?n 1)" using cap_clock [of n] t by auto
  obtain loc where loc: "retry_local (scan_usage cap_env [[''d'']]) (?n 3) = (Inr loc, ?n 4)" "uint (index loc ''allocated_bytes'') = Inr 12288"
    using cap_scan [of "?n 3"] by (auto simp: numeral_eq_Suc)
  obtain p d g where sel: "selected_rows cap_lib ?m ''ClickHouse part accounting''
       ''SELECT database,active,sum(bytes_on_disk) AS bytes FROM system.parts GROUP BY database,active ORDER BY database,active'' (?n 4) = (Inr p, ?n 4)"
      "selected_rows cap_lib ?m ''ClickHouse detached-part accounting''
       ''SELECT database,sum(bytes_on_disk) AS bytes FROM system.detached_parts GROUP BY database ORDER BY database'' (?n 4) = (Inr d, ?n 4)"
      "selected_rows cap_lib ?m ''ClickHouse merge accounting''
       ''SELECT database,total_size_bytes_compressed AS input_bytes FROM system.merges'' (?n 4) = (Inr g, ?n 4)"
    using cap_selected by metis
  obtain ds where ds: "free_spaces cap_env [[''d'']] 600 (?n 4) = (Inr (600, ds), ?n 5)" using cap_free [of "?n 4"] by auto
  obtain s1 where s1: "now_ns cap_lib (?n 5) = (Inr s1, ?n 6)" using cap_clock [of "?n 5"] t by auto
  have m: "mt_paths ?m = [[''d'']]" "mt_components ?m = []" "mt_client ?m = ex_db" "mt_headroom ?m = 100" "mt_budget ?m = 20000" "mt_min_free ?m = 500"
    by (simp_all add: cap_meter_def)
  have i: "meter_inspect cap_lib cap_env cap_meter (?n 1) = (Inr (ex_container, ?m), ?n 2)" using cap_inspect [of "?n 1"] by (simp add: numeral_eq_Suc)
  have w: "server_scan cap_lib cap_env ?m info ps 800 (?n 2) = (Inr (40, 600, Some (JObj [(''allocated_bytes'', jnum 40), (''available_bytes'', jnum 600)])), ?n 3)" for info ps
    using cap_server [of "Some ''i''" info ps "?n 2"] by (simp add: numeral_eq_Suc)
  have ca: "checked_add 40 12288 = Some 12328" by (simp add: checked_add_def)
  show ?thesis
    unfolding meter_sample_def
    by (simp only: cbind_def plain_def at_stage_def s0 i quiet_db cap_rows lift_def cap_data_disks w m loc fst_conv
        prod.case sum.case bnd_simps context_res_def ca option.case sel ds s1 component_usages.simps cret_def)
      (simp add: admission_reasons_def sample_json_def index_jobj)
qed

theorem guard_admits_witness:
  "\<exists>v n'. cap_guard cap_lib cap_env cap_meter [''/d/x''] ''stage'' None ex_machine = (Inr v, n') \<and>
     within_budget cap_meter v \<and> room_left cap_meter v"
proof -
  have r: "resolve_path cap_lib ''/d/x'' = Inr ''/d/x''"
    by (simp add: resolve_path_def resolve_def path_components_def is_absolute_def push_def show_path_def)
  have c: "contain_all cap_lib cap_meter [''/d/x''] msg = Inr ()" for msg
    by (simp add: meter_contains_def r normal_path_def path_components_def cap_meter_def starts_with_def)
  obtain t where t: "now_ns cap_lib ex_machine = (Inr t, ex_machine\<lparr>nd_tick := 1\<rparr>)" using cap_clock [of ex_machine] by (auto simp: ex_machine_def)
  obtain v n' where v: "meter_sample cap_lib cap_env cap_meter (ex_machine\<lparr>nd_tick := 1\<rparr>) = (Inr v, n')" "index v ''admitted'' = JBool True"
    using cap_sample [of "ex_machine\<lparr>nd_tick := 1\<rparr>"] by auto
  have "cap_guard cap_lib cap_env cap_meter [''/d/x''] ''stage'' None ex_machine = (Inr v, n')"
    by (simp only: cap_guard_def cbind_def plain_def lift_def c contain_all.simps(1) option.case t v prod.case sum.case write_event_def ret_def check_def simp_thms if_True cret_def)
  with guard_admits [OF this] show ?thesis by blast
qed

end
