(* ===== verification/Bootstrap.thy ===== *)
theory Bootstrap
  imports History Capacity
begin

text \<open>
  Private replay prefixes, \<open>crates/evm-state/src/bootstrap.rs\<close>: the digest of a stored generation, the
  pointer that names it, its use as the start of an input range, and the compaction of native
  history into a new generation.  History is discarded only after the pointer has been replaced and
  the generation it names has been read back.
\<close>

section \<open>Capacity at an operation boundary\<close>

record capcfg =
  cf_env :: capenv
  cf_additional :: "(string \<Rightarrow> unit res) option"
  cf_policy :: "string option"  \<comment> \<open>EVM\_STATE\_CAPACITY\_CONFIG\<close>
  cf_events :: "string option"  \<comment> \<open>EVM\_STATE\_CAPACITY\_EVENTS\<close>

definition cap_message :: "cap_err \<Rightarrow> string" where
  "cap_message e = (case fst e of
     Some stage \<Rightarrow> ''capacity measurement failed at '' @ stage
   | None \<Rightarrow> (case snd e of Refused m \<Rightarrow> m | IoError k \<Rightarrow> io_kind k
       | DockerError operation timed_out changed \<Rightarrow> ''Docker capacity '' @ operation @ '' '' @
           (if timed_out then ''timed out'' else ''failed'') @ ''; the sample is incomplete''))"

definition capacity_ok :: "('w, 'x) nodelib_scheme \<Rightarrow> capcfg \<Rightarrow> ClickHouse \<Rightarrow> string list \<Rightarrow> string \<Rightarrow> ('w node, unit) io" where
  "capacity_ok L C client paths stage n =
     (case capacity_check L (cf_env C) (cf_additional C) (cf_policy C) (cf_events C) client paths stage n of
        (Inl e, n') \<Rightarrow> (Inl (cap_message e), n') | (Inr _, n') \<Rightarrow> (Inr (), n'))"

section \<open>The digest of a generation\<close>

type_synonym digesting = "string \<times> (string \<times> string) option \<times> u64"

definition digest_row :: "('w, 'x) nodelib_scheme \<Rightarrow> string list \<Rightarrow> json \<Rightarrow> digesting \<Rightarrow> digesting res" where
  "digest_row L accounts row s = (case s of (text', previous, n) \<Rightarrow>
     bnd (string_field row ''address'') (\<lambda>account.
     bnd (string_field row ''slot'') (\<lambda>slot.
     bnd (string_field row ''value'') (\<lambda>value.
     ensure (account \<in> set accounts \<and> (case previous of None \<Rightarrow> True | Some p \<Rightarrow> p < (account, slot)))
       ''bootstrap storage has unexpected accounts or duplicate keys''
     (bnd (fixed (nl_evm L) 32 slot) (\<lambda>_.
      bnd (fixed (nl_evm L) 32 value) (\<lambda>bytes.
      ensure (list_ex (\<lambda>b. b \<noteq> 0) bytes) ''bootstrap contains a noncanonical zero slot''
      (Inr (text' @ account @ slot @ value, Some (account, slot), n + 1)))))))))"

definition generation_sql :: string where
  "generation_sql = ''SELECT address,slot,value FROM bootstrap_storage WHERE generation={id:String} ORDER BY address,slot''"

definition bootstrap_digest :: "('w, 'x) nodelib_scheme \<Rightarrow> ClickHouse \<Rightarrow> string \<Rightarrow> json \<Rightarrow> json \<Rightarrow> ('w, json) io" where
  "bootstrap_digest L client generation fs accounts =
     bind (lift (bnd (context_res (as_array accounts) ''invalid bootstrap accounts'')
       (map_res (\<lambda>a. context_res (as_str a) ''invalid account'')))) (\<lambda>accounts.
     bind (lift (context_res (as_object fs) ''invalid bootstrap fields'')) (\<lambda>keys.
     bind (check (list_all (\<lambda>(a, _). a \<in> set accounts) keys) ''bootstrap has account fields outside its filter'') (\<lambda>_.
     bind (lift (bnd (object_id generation) (\<lambda>id'. params (jobj [(''id'', JStr id')])))) (\<lambda>ps.
     bind (each_row L client generation_sql ps (digest_row L accounts) (node_canonical L fs, None, 0)) (\<lambda>(t, _, n).
     ret (jobj [(''state_sha256'', JStr (hex_encode (nl_evm L) (sha256 L t))), (''nonzero_slots'', jnum n)]))))))"

section \<open>The committed prefix\<close>

definition prefix_pointer :: "string \<Rightarrow> string" where
  "prefix_pointer directory = path_join directory ''bootstrap.json''"

definition prefix_bound :: "('w, 'x) nodelib_scheme \<Rightarrow> json \<Rightarrow> json \<Rightarrow> bool res" where
  "prefix_bound L run v =
     (if jnum_eq (index v ''format_version'') 1 \<and> jstr_eq (index v ''status'') ''unverified-bootstrap''
      then bnd (binding L run) (\<lambda>b. Inr (index v ''binding'' = b \<and>
        index v ''start_block'' = index (index run ''identity'') ''start_block'' \<and>
        index v ''accounts'' = index (index run ''identity'') ''accounts''))
      else Inr False)"

definition load_prefix :: "('w, 'x) nodelib_scheme \<Rightarrow> ClickHouse \<Rightarrow> string \<Rightarrow> json option \<Rightarrow> ('w node, json option) io" where
  "load_prefix L client directory run =
     bind (on_fs (fs_exists (prefix_pointer directory))) (\<lambda>there.
     if \<not> there then ret None else
     bind (case run of Some r \<Rightarrow> ret r | None \<Rightarrow> on_fs (read_json L (path_join directory ''run.json''))) (\<lambda>run.
     bind (on_fs (read_json L (prefix_pointer directory))) (\<lambda>v.
     bind (lift (prefix_bound L run v)) (\<lambda>bound.
     bind (check bound ''bootstrap prefix belongs to another source or is corrupt'') (\<lambda>_.
     bind (lift (bnd (string_field v ''generation'') object_id)) (\<lambda>generation.
     bind (lift (params (jobj [(''id'', JStr generation)]))) (\<lambda>ps.
     bind (on_db (one L client ''SELECT manifest FROM bootstrap_generations WHERE generation={id:String}'' ps)) (\<lambda>stored.
     bind (lift (bnd (string_field stored ''manifest'') (\<lambda>t. context_res (json_parse L t) ''invalid JSON''))) (\<lambda>m.
     bind (check (m = v) ''bootstrap pointer and stored manifest differ'') (\<lambda>_.
     bind (lift (uint (index (index v ''header'') ''number''))) (\<lambda>number.
     bind (lift (uint (index v ''start_block''))) (\<lambda>start.
     bind (check (start \<le> number) ''bootstrap prefix range is invalid'') (\<lambda>_.
     bind (on_db (bootstrap_digest L client generation (index v ''fields'') (index v ''accounts''))) (\<lambda>measured.
     bind (check (case measured of JObj fs \<Rightarrow> list_all (\<lambda>(k, actual). get v k = Some actual) fs | _ \<Rightarrow> False)
       ''bootstrap generation checksum or count differs'') (\<lambda>_.
     ret (Some v))))))))))))))))"

definition without_prefix :: "(string \<times> json) list \<Rightarrow> json" where
  "without_prefix fs = JObj (filter (\<lambda>(k, _). k \<noteq> ''bootstrap'' \<and> k \<noteq> ''delta_start'') fs)"

definition attach_prefix :: "json \<Rightarrow> json option \<Rightarrow> json res" where
  "attach_prefix source found = (case found of None \<Rightarrow> Inr source
     | Some pre \<Rightarrow>
         bnd (uint (index (index pre ''header'') ''number'')) (\<lambda>number.
         bnd (uint (index source ''start_block'')) (\<lambda>start.
         if start \<le> number then
           ensure (index source ''start_block'' = index pre ''start_block'')
             ''requested range begins inside a compacted bootstrap prefix''
           (bnd (context_res (checked_add number 1) ''bootstrap block overflow'') (\<lambda>next_block.
            Inr (jset (jset source ''delta_start'' (jnum next_block)) ''bootstrap'' pre)))
         else Inr source)))"

definition select_prefix :: "('w, 'x) nodelib_scheme \<Rightarrow> ClickHouse \<Rightarrow> json \<Rightarrow> ('w node, json) io" where
  "select_prefix L client source =
     bind (lift (context_res (as_object source) ''invalid source'')) (\<lambda>fs.
     bind (lift (string_field (without_prefix fs) ''state_directory'')) (\<lambda>directory.
     bind (load_prefix L client directory None) (\<lambda>found.
     lift (attach_prefix (without_prefix fs) found))))"

section \<open>Compaction\<close>

definition old_generations_sql :: "string \<Rightarrow> string" where
  "old_generations_sql table = ''SELECT DISTINCT generation FROM '' @ table @ '' WHERE generation != {id:String}''"

definition drop_generation_sql :: "string \<Rightarrow> string" where
  "drop_generation_sql table = ''ALTER TABLE '' @ table @ '' DROP PARTITION {id:String}''"

definition drop_old_generations :: "('w, 'x) nodelib_scheme \<Rightarrow> ClickHouse \<Rightarrow> string \<Rightarrow> ('w, unit) io" where
  "drop_old_generations L client keep =
     for_each (\<lambda>table.
       bind (lift (params (jobj [(''id'', JStr keep)]))) (\<lambda>ps.
       bind (rows_vec L client (old_generations_sql table) ps) (\<lambda>old.
       for_each (\<lambda>row.
         bind (lift (bnd (bnd (string_field row ''generation'') object_id) (\<lambda>id'. params (jobj [(''id'', JStr id')])))) (\<lambda>ps.
         bind (execute L client (drop_generation_sql table) ps) (\<lambda>_. ret ()))) old)))
       [''bootstrap_generations'', ''bootstrap_storage'']"

definition bootstrap_cleanup :: "('w, 'x) nodelib_scheme \<Rightarrow> ClickHouse \<Rightarrow> json \<Rightarrow> ('w, json) io" where
  "bootstrap_cleanup L client pre =
     bind (lift (uint (index (index pre ''header'') ''number''))) (\<lambda>number.
     bind (partitions_before L client number) (\<lambda>partitions.
     bind (drop_partitions L client partitions) (\<lambda>_.
     bind (lift (string_field pre ''generation'')) (\<lambda>generation.
     bind (drop_old_generations L client generation) (\<lambda>_.
     ret partitions)))))"

definition initial_row :: "('w, 'x) nodelib_scheme \<Rightarrow> string list \<Rightarrow> json \<Rightarrow> unit \<Rightarrow> unit res" where
  "initial_row L accounts row u =
     bnd (bnd (string_field row ''manifest'') (\<lambda>t. context_res (json_parse L t) ''invalid JSON'')) (\<lambda>m.
     bnd (canonical_accounts L (index m ''accounts'')) (\<lambda>own.
     ensure (\<not> list_ex (\<lambda>a. a \<in> set accounts) own)
       ''accounts already have a checkpoint; use checkpoint continuation and source retention'' (Inr ())))"

definition require_initial :: "('w, 'x) nodelib_scheme \<Rightarrow> ClickHouse \<Rightarrow> json \<Rightarrow> ('w, unit) io" where
  "require_initial L checkpoints accounts =
     bind (lift (canonical_accounts L accounts)) (\<lambda>accounts.
     each_row L checkpoints ''SELECT manifest FROM checkpoints FINAL'' [] (initial_row L accounts) ())"

definition combined_usage :: "('w, 'x) nodelib_scheme \<Rightarrow> ClickHouse \<Rightarrow> ClickHouse \<Rightarrow> ('w, u64) io" where
  "combined_usage L client checkpoints =
     bind (disk_usage L client) (\<lambda>a.
     bind (if ch_database client = ch_database checkpoints then ret 0 else disk_usage L checkpoints) (\<lambda>b.
     lift (context_res (checked_add a b) ''database size overflow'')))"

definition candidate_sql :: "string \<Rightarrow> string" where
  "candidate_sql changes = ''INSERT INTO bootstrap_storage SELECT {id:String},address,slot,argMax(value,position) AS final_value FROM ('' @ changes @
     '') GROUP BY address,slot HAVING final_value != '' @ quoted ZERO"

definition end_header :: "('w, 'x) nodelib_scheme \<Rightarrow> ClickHouse \<Rightarrow> u64 \<Rightarrow> ('w, json) io" where
  "end_header L client end_block =
     bind (lift (params (jobj [(''end'', jnum end_block)]))) (\<lambda>ps.
     bind (one L client ''SELECT number,hash,parent_hash,state_root,timestamp FROM state_blocks FINAL WHERE number={end:UInt64}'' ps) (\<lambda>header.
     lift (fold_res (\<lambda>f h. bnd (uint (index h f)) (\<lambda>v. Inr (jset h f (jnum v)))) [''number'', ''timestamp''] header)))"

definition prefix_record :: "json \<Rightarrow> json \<Rightarrow> string \<Rightarrow> json \<Rightarrow> json \<Rightarrow> json \<Rightarrow> json" where
  "prefix_record bound run generation header fs measured =
     jobj [(''format_version'', JNum ''1''), (''status'', JStr ''unverified-bootstrap''), (''binding'', bound), (''generation'', JStr generation),
       (''start_block'', index (index run ''identity'') ''start_block''), (''header'', header),
       (''accounts'', index (index run ''identity'') ''accounts''), (''fields'', fs),
       (''state_sha256'', index measured ''state_sha256''), (''nonzero_slots'', index measured ''nonzero_slots'')]"

definition write_candidate :: "('w, 'x) nodelib_scheme \<Rightarrow> ClickHouse \<Rightarrow> SourceWriter \<Rightarrow> json \<Rightarrow> u64 \<Rightarrow> u64 \<Rightarrow> string \<Rightarrow> ('w, json \<times> json) io" where
  "write_candidate L client owner source end_block budget_bytes generation =
     bind (lift (bnd (params (jobj [(''id'', JStr generation), (''end'', jnum end_block)])) (union_storage [source] None))) (\<lambda>(changes, arguments).
     bind (execute L client (candidate_sql changes) arguments) (\<lambda>_.
     bind (observed_fields L client [source] None arguments) (\<lambda>fs.
     bind (bootstrap_digest L client generation fs (index (index (sw_run owner) ''identity'') ''accounts'')) (\<lambda>measured.
     bind (combined_usage L client (sw_checkpoints owner)) (\<lambda>used.
     bind (check (used < budget_bytes) ''bootstrap candidate exceeds database budget; previous prefix and source retained'') (\<lambda>_.
     ret (fs, measured)))))))"

definition commit_prefix :: "('w, 'x) nodelib_scheme \<Rightarrow> capcfg \<Rightarrow> ClickHouse \<Rightarrow> SourceWriter \<Rightarrow> json \<Rightarrow> ('w node, unit) io" where
  "commit_prefix L C client owner record' =
     bind (lift (string_field record' ''generation'')) (\<lambda>generation.
     bind (on_db (insert_values L client ''bootstrap_generations''
       [jobj [(''generation'', JStr generation), (''manifest'', JStr (node_canonical L record'))]])) (\<lambda>_.
     bind (capacity_ok L C client [sw_directory owner, sw_control_path owner] ''bootstrap-commit'') (\<lambda>_.
     bind (on_fs (atomic_json (json_pretty L) (fs_temp L (sw_directory owner)) (Some (sw_directory owner))
       (prefix_pointer (sw_directory owner)) record' True)) (\<lambda>_.
     bind (load_prefix L client (sw_directory owner) (Some (sw_run owner))) (\<lambda>found.
     check (found \<noteq> None) ''bootstrap pointer disappeared'')))))"

definition discard_compacted :: "('w, 'x) nodelib_scheme \<Rightarrow> ClickHouse \<Rightarrow> SourceWriter \<Rightarrow> json \<Rightarrow> ('w node, json) io" where
  "discard_compacted L client owner pre =
     bind (on_db (bootstrap_cleanup L client pre)) (\<lambda>removed.
     bind (writer_progress L client owner) (\<lambda>_.
     ret (jset pre ''removed_partitions'' removed)))"

definition already_compacted :: "json option \<Rightarrow> u64 \<Rightarrow> json option" where
  "already_compacted previous end_block = Option.bind previous (\<lambda>p. if jnum_eq (index (index p ''header'') ''number'') end_block then Some p else None)"

definition compact_new :: "('w, 'x) nodelib_scheme \<Rightarrow> capcfg \<Rightarrow> string \<Rightarrow> ClickHouse \<Rightarrow> SourceWriter \<Rightarrow> json \<Rightarrow> json \<Rightarrow> u64 \<Rightarrow> u64 \<Rightarrow> ('w node, json) io" where
  "compact_new L C bootstrap_sql client owner source header end_block budget_bytes =
     bind (on_db (for_each (\<lambda>statement. bind (execute L client statement []) (\<lambda>_. ret ()))
       (filter (\<lambda>v. trim v \<noteq> []) (split_on (\<lambda>c. c = CHR '';'') bootstrap_sql)))) (\<lambda>_.
     bind (lift (case get source ''bootstrap'' of None \<Rightarrow> Inr [] | Some p \<Rightarrow> string_field p ''generation'')) (\<lambda>old.
     bind (on_db (drop_old_generations L client old)) (\<lambda>_.
     bind (on_db (combined_usage L client (sw_checkpoints owner))) (\<lambda>used.
     bind (check (used < budget_bytes) ''bootstrap database budget already exhausted'') (\<lambda>_.
     bind (new_id L) (\<lambda>generation.
     bind (on_db (write_candidate L client owner source end_block budget_bytes generation)) (\<lambda>(fs, measured).
     bind (lift (binding L (sw_run owner))) (\<lambda>bound.
     let record' = prefix_record bound (sw_run owner) generation header fs measured in
     bind (commit_prefix L C client owner record') (\<lambda>_.
     bind (discard_compacted L client owner record') (\<lambda>result.
     bind (on_db (disk_usage L client)) (\<lambda>bytes.
     ret (jset result ''database_bytes'' (jnum bytes)))))))))))))"

definition compact_locked :: "('w, 'x) nodelib_scheme \<Rightarrow> capcfg \<Rightarrow> string \<Rightarrow> ClickHouse \<Rightarrow> SourceWriter \<Rightarrow> u64 option \<Rightarrow> u64 \<Rightarrow> ('w node, json) io" where
  "compact_locked L C bootstrap_sql client owner end_block budget_bytes =
     bind (capacity_ok L C client [sw_directory owner, sw_control_path owner] ''bootstrap-start'') (\<lambda>_.
     bind (on_db (require_initial L (sw_checkpoints owner) (index (index (sw_run owner) ''identity'') ''accounts''))) (\<lambda>_.
     bind (writer_progress L client owner) (\<lambda>progress.
     bind (lift (position_number progress)) (\<lambda>tip.
     let end_block = (case end_block of Some e \<Rightarrow> e | None \<Rightarrow> tip) in
     bind (lift (uint (index (index (sw_run owner) ''identity'') ''start_block''))) (\<lambda>start.
     bind (check (start \<le> end_block \<and> end_block \<le> tip) ''bootstrap end must be within durable native progress'') (\<lambda>_.
     bind (on_db (end_header L client end_block)) (\<lambda>header.
     bind (select_prefix L client (sw_source owner)) (\<lambda>source.
     bind (on_db (validate_interval L client source header)) (\<lambda>_.
     case already_compacted (get source ''bootstrap'') end_block of
       Some p \<Rightarrow> bind (discard_compacted L client owner p) (\<lambda>result. ret (jset result ''already_compacted'' (JBool True)))
     | None \<Rightarrow> compact_new L C bootstrap_sql client owner source header end_block budget_bytes)))))))))"

definition compact :: "('w, 'x) nodelib_scheme \<Rightarrow> capcfg \<Rightarrow> string \<Rightarrow> string \<Rightarrow> ClickHouse \<Rightarrow> string \<Rightarrow> u64 option \<Rightarrow> u64 \<Rightarrow> ('w node, json) io" where
  "compact L C checkpoints_sql bootstrap_sql client directory end_block budget_bytes =
     bind (check (0 < budget_bytes) ''bootstrap budget must be a positive integer'') (\<lambda>_.
     source_writer L checkpoints_sql client directory True (\<lambda>owner.
       compact_locked L C bootstrap_sql client owner end_block budget_bytes))"

end
