(* ===== verification/Footprint.thy ===== *)
theory Footprint
  imports Bootstrap Server
begin

text \<open>
  What the shared steps of the native tools leave unchanged: progress records, verified sources,
  input ranges, committed prefixes and capacity checks only read the database, and those that read
  the run directory leave its files as they are.
\<close>

named_theorems kept

lemmas [kept] = keeps_simple keeps_on_fs

section \<open>The database\<close>

lemma keeps_if: "keeps p a \<Longrightarrow> keeps p b \<Longrightarrow> keeps p (if c then a else b)"
  by simp

lemma keeps_draws [kept]: "keeps_node parts (new_id L)" "keeps_node parts (now_ns L)" "keeps_node parts (acquire L f x)"
  unfolding new_id_def now_ns_def acquire_def by (intro keeps_bind kept)+

lemma keeps_cursor_validate: "observed L ok parts \<Longrightarrow> keeps parts (cursor_validate L client run token)"
  unfolding cursor_validate_def Let_def by (intro keeps_bind kept keeps_reads) simp_all

lemma keeps_load_progress: "observed L ok parts \<Longrightarrow> keeps_node parts (load_progress L client run directory)"
  unfolding load_progress_def by (intro keeps_bind kept keeps_on_db keeps_cursor_validate)

lemma keeps_writer_progress: "observed L ok parts \<Longrightarrow> keeps_node parts (writer_progress L client owner)"
  unfolding writer_progress_def by (intro keeps_bind kept keeps_load_progress)

lemma keeps_manifest_unlocked: "observed L ok parts \<Longrightarrow> keeps parts (manifest_unlocked L client snapshot_id)"
  unfolding manifest_unlocked_def by (intro keeps_bind kept keeps_reads) simp_all

lemma keeps_validate_interval: "observed L ok parts \<Longrightarrow> keeps parts (validate_interval L client source header)"
  unfolding validate_interval_def blocks_sql_def by (intro keeps_bind kept keeps_reads) simp_all

lemma keeps_source_identity: "observed L ok parts \<Longrightarrow> keeps parts (source_identity L client checkpoints)"
  unfolding source_identity_def run_recorded_def by (intro keeps_bind kept keeps_reads) simp_all

lemma keeps_source_validate: "observed L ok parts \<Longrightarrow> keeps_node parts (source_validate L client source identity run_id directory)"
  unfolding source_validate_def bound_here_def recorded_run_def
  by (auto intro!: keeps_bind kept keeps_on_db keeps_host keeps_reads split: prod.split)

lemma keeps_reached: "observed L ok parts \<Longrightarrow> keeps_node parts (reached L client directory end_block checked)"
  unfolding reached_def by (auto intro!: keeps_bind kept keeps_load_progress split: option.split)

lemma keeps_verified_source:
  assumes "observed L ok parts" "\<And>v. keeps_node parts (k v)"
  shows "keeps_node parts (verified_source L client source checkpoints end_block k)"
  unfolding verified_source_def
  by (auto intro!: keeps_bind kept keeps_on_db keeps_source_identity [OF assms(1)] keeps_host keeps_holding
      keeps_source_validate [OF assms(1)] keeps_reached [OF assms(1)] assms(2) split: prod.split)

lemma keeps_digest: "observed L ok parts \<Longrightarrow> keeps parts (bootstrap_digest L client generation fs accounts)"
  unfolding bootstrap_digest_def generation_sql_def
  by (auto intro!: keeps_bind kept keeps_reads split: prod.split)

lemma keeps_load_prefix: "observed L ok parts \<Longrightarrow> keeps_node parts (load_prefix L client directory run)"
  unfolding load_prefix_def by (auto intro!: keeps_bind kept keeps_on_db keeps_reads keeps_digest split: option.split)

lemma keeps_select_prefix: "observed L ok parts \<Longrightarrow> keeps_node parts (select_prefix L client source)"
  unfolding select_prefix_def by (intro keeps_bind kept keeps_load_prefix)

lemma keeps_fold_io: "(\<And>x s. x \<in> set xs \<Longrightarrow> keeps p (f x s)) \<Longrightarrow> keeps p (fold_io f xs s)"
  by (induction xs arbitrary: s) (simp_all add: keeps_bind)

lemma keeps_observed_fields: "observed L ok parts \<Longrightarrow> keeps parts (observed_fields L client sources base ps)"
  unfolding observed_fields_def source_fields_def group_sql_def
  by (auto intro!: keeps_bind keeps_if kept keeps_fold_io keeps_reads split: prod.split)

lemma keeps_owned_source: "observed L ok parts \<Longrightarrow> keeps_node parts (owned_source L client checkpoints directory run)"
  unfolding owned_source_def by (intro keeps_bind kept keeps_verified_source)

lemma keeps_combined_usage: "observed L ok parts \<Longrightarrow> keeps parts (combined_usage L client checkpoints)"
  unfolding combined_usage_def by (intro keeps_bind kept keeps_disk_usage keeps_if)

lemma keeps_require_initial: "observed L ok parts \<Longrightarrow> keeps parts (require_initial L checkpoints accounts)"
  unfolding require_initial_def by (intro keeps_bind kept keeps_reads) simp_all

lemma keeps_end_header: "observed L ok parts \<Longrightarrow> keeps parts (end_header L client e)"
  unfolding end_header_def by (intro keeps_bind kept keeps_reads) simp_all

lemma keeps_execute: "observed L ok parts \<Longrightarrow> ok sql \<Longrightarrow> keeps parts (execute L c sql ps)"
  unfolding execute_def by (intro keeps_bind kept keeps_request)

lemma keeps_insert_values:
  "observed L ok parts \<Longrightarrow> ok (''INSERT INTO '' @ table @ '' FORMAT JSONEachRow'') \<Longrightarrow> keeps parts (insert_values L c table vs)"
  unfolding insert_values_def ch_insert_def by (intro keeps_bind kept keeps_insert_loop)

section \<open>Capacity checks\<close>

lemma keeps_cio [kept]: "keeps p (cret v)" "keeps p (cok r)"
  by (auto simp: keeps_def cret_def cok_def split: sum.split)

lemma keeps_cbind: "keeps p m \<Longrightarrow> (\<And>v. keeps p (f v)) \<Longrightarrow> keeps p (cbind m f)"
  by (auto simp: keeps_def cbind_def split: prod.splits sum.splits) (metis snd_conv)+

lemma keeps_plain: "keeps p m \<Longrightarrow> keeps p (plain m)"
  by (auto simp: keeps_def plain_def split: prod.splits sum.splits) (metis snd_conv)+

lemma keeps_at_stage: "keeps p m \<Longrightarrow> keeps p (at_stage st m)"
  by (auto simp: keeps_def at_stage_def split: prod.splits sum.splits) (metis snd_conv)+

lemma keeps_handle:
  assumes "keeps p m" "\<And>e. keeps p (f e)" "\<And>v. keeps p (g v)"
  shows "keeps p (\<lambda>n. case m n of (Inl e, n') \<Rightarrow> f e n' | (Inr v, n') \<Rightarrow> g v n')"
  unfolding keeps_def
proof
  fix w
  obtain r u where r: "m w = (r, u)" by fastforce
  show "p (snd (case m w of (Inl e, n') \<Rightarrow> f e n' | (Inr v, n') \<Rightarrow> g v n')) = p w"
    using keepsD [OF assms(1) r] assms(2,3) by (cases r) (simp_all add: r keeps_def)
qed

lemma keeps_Pair [kept]: "keeps p (Pair r)" "keeps p (\<lambda>m. (r, m))"
  by (simp_all add: keeps_def)

lemma keeps_retry: "keeps p m \<Longrightarrow> keeps p (retry t m k)"
proof (induction k)
  case (Suc k)
  then show ?case by (auto simp: keeps_def split: prod.splits sum.splits) (metis snd_conv)+
qed (simp add: keeps_def)

lemmas keeps_capacity = keeps_cbind keeps_plain keeps_at_stage keeps_retry

lemma keeps_docker: "keeps_node parts (docker E args)"
  unfolding docker_def by (intro keeps_capacity kept)

lemma keeps_meter_inspect: "keeps_node parts (meter_inspect L E meter)"
  unfolding meter_inspect_def by (intro keeps_capacity kept keeps_docker)

lemma keeps_scan_usage: "keeps_node parts (scan_usage E paths)" "keeps_node parts (component_usage E paths)"
  unfolding component_usage_def scan_usage_def by (intro keeps_capacity kept)+

lemma keeps_component_usages: "keeps_node parts (component_usages E cs)"
  unfolding retry_local_def
  by (induction E cs rule: component_usages.induct) (auto simp: retry_local_def intro!: keeps_capacity kept keeps_scan_usage)

lemma keeps_free_spaces: "keeps_node parts (free_spaces E ps a)"
  by (induction E ps a rule: free_spaces.induct) (auto intro!: keeps_capacity kept split: prod.split)

lemma keeps_meter_sample:
  assumes "observed L ok parts"
  shows "keeps_node parts (meter_sample L E meter)"
proof -
  have "keeps_node parts (server_scan L E m info ps a)" for m info ps a
    unfolding server_scan_def retry_scan_def by (auto intro!: keeps_capacity kept keeps_docker)
  moreover have "keeps_node parts (selected_rows L m st sql)" if "prefix ''SELECT '' sql" for m st sql
    unfolding selected_rows_def by (intro keeps_capacity kept keeps_on_db keeps_reads [OF assms that])
  moreover have "keeps_node parts (retry_local (scan_usage E ps))" for ps
    unfolding retry_local_def by (intro keeps_capacity keeps_scan_usage)
  ultimately show ?thesis
    unfolding meter_sample_def
    by (auto intro!: keeps_capacity kept keeps_on_db keeps_reads [OF assms] keeps_meter_inspect keeps_component_usages keeps_free_spaces
        split: prod.split)
qed

lemma keeps_capacity_ok:
  assumes "observed L ok parts"
  shows "keeps_node parts (capacity_ok L C client paths stage)"
proof -
  have e: "keeps_node parts (write_event L d st v)" "keeps_node parts (failure L err t)" for d st v err t
    unfolding write_event_def failure_def Let_def by (auto intro!: keeps_bind kept split: option.split)
  have "keeps_node parts (cap_guard L E meter required st d)" for E meter required st d
    unfolding cap_guard_def
    by (intro keeps_capacity keeps_handle keeps_meter_sample [OF assms] keeps_if keeps_bind kept e)
  then have "keeps_node parts (capacity_check L E additional policy events client required st)" for E additional policy events required st
    unfolding capacity_check_def meter_new_def
    by (auto intro!: keeps_capacity kept keeps_meter_inspect split: option.split prod.split)
  then show ?thesis unfolding capacity_ok_def by (intro keeps_handle kept)
qed

end
