(* ===== verification/Compaction.thy ===== *)
theory Compaction
  imports Footprint
begin

text \<open>
  Compaction discards native history only after it is committed: the pointer that names the new
  prefix has been replaced, read back, compared with its stored copy and its generation digested
  again; and only partitions that end before the last block of that prefix are dropped.
\<close>

definition history_drop_sql :: "string \<Rightarrow> string" where
  "history_drop_sql t = ''ALTER TABLE '' @ t @ '' DROP PARTITION ID {id:String}''"

definition drops_history :: "string \<Rightarrow> bool" where
  "drops_history sql \<longleftrightarrow> list_ex (\<lambda>(t, _). sql = history_drop_sql t) PARTITIONS"

text \<open>
  What is relied on of the server: only the statements that drop a history partition change the
  stored partitions, and such a statement removes at most the one it names.
\<close>

definition history_server :: "('w, 'x) chlib_scheme \<Rightarrow> ('w \<Rightarrow> (string \<times> string) set) \<Rightarrow> bool" where
  "history_server L history \<longleftrightarrow> observed L (\<lambda>sql. \<not> drops_history sql) history \<and>
     (\<forall>c db t x body w. t \<in> fst ` set PARTITIONS \<longrightarrow>
        history (snd (http_post L c [(''database'', db), (''query'', history_drop_sql t), (''param_id'', x)] body w))
          \<in> {history w, history w - {(t, x)}})"

definition script_ok :: "string \<Rightarrow> bool" where
  "script_ok sql \<longleftrightarrow> list_all (\<lambda>s. \<not> drops_history s) (split_on (\<lambda>c. c = CHR '';'') sql)"

definition expired :: "json \<Rightarrow> (string \<times> string) set" where
  "expired partitions = {(t, x). \<exists>ps p. index partitions t = JArr ps \<and> p \<in> set ps \<and> get p ''id'' = Some (JStr x)}"

section \<open>Dropping the expired partitions\<close>

lemma snd_bind_reads: "(\<And>v. reads (f v)) \<Longrightarrow> snd (bind m f w) = snd (m w)"
  by (auto simp: reads_def bind_def split: prod.splits sum.splits)

lemma drop_partition_effect:
  assumes "history_server L history" "t \<in> fst ` set PARTITIONS"
  shows "history (snd (drop_partition L c t p w)) = history w \<or>
    (\<exists>x. get p ''id'' = Some (JStr x) \<and> history (snd (drop_partition L c t p w)) = history w - {(t, x)})"
proof (cases "string_field p ''id''")
  case (Inl e)
  then show ?thesis by (simp add: drop_partition_def bind_def lift_def)
next
  case (Inr x)
  define q where "q = [(''database'', ch_database c), (''query'', history_drop_sql t), (''param_id'', x)]"
  obtain a u where h: "http_post L c q [] w = (a, u)" by fastforce
  have u: "history u \<in> {history w, history w - {(t, x)}}"
    using assms h unfolding history_server_def q_def by (metis snd_conv)
  have ps: "params (jobj [(''id'', JStr x)]) = Inr [(''id'', JStr x)]"
    by (simp add: params_def jobj_def as_object_def bt_of_list_def)
  have rq: "snd (request L c (history_drop_sql t) [(''id'', JStr x)] [] w) = u"
    using h by (cases a) (simp_all add: request_def query_pairs_def param_text_def bind_def lift_def q_def split: http_error.split)
  have "snd (drop_partition L c t p w) = u"
    unfolding drop_partition_def history_drop_sql_def [symmetric] Inr bind_lift ps execute_def
    using rq by (simp add: snd_bind_reads reads_bind)
  with u Inr show ?thesis by (auto simp: string_field_Inr)
qed

definition only_listed :: "json \<Rightarrow> (string \<times> string) set \<Rightarrow> (string \<times> string) set \<Rightarrow> bool" where
  "only_listed partitions before after \<longleftrightarrow> after \<subseteq> before \<and> before - after \<subseteq> expired partitions"

lemma drop_partitions_effect:
  assumes "history_server L history"
  shows "only_listed partitions (history w) (history (snd (drop_partitions L c partitions w)))"
  unfolding drop_partitions_def
proof (rule for_each_invariant [where P = "\<lambda>u. only_listed partitions (history w) (history u)"])
  fix e :: "string \<times> string" and u assume e: "e \<in> set PARTITIONS" and u: "only_listed partitions (history w) (history u)"
  obtain t k where t: "e = (t, k)" by fastforce
  have step: "only_listed partitions (history w) (history (snd (drop_partition L c t p v)))"
    if "index partitions t = JArr ps" "p \<in> set ps" "only_listed partitions (history w) (history v)" for ps p v
    using drop_partition_effect [OF assms, of t c p v] that e t unfolding only_listed_def expired_def by auto force+
  show "only_listed partitions (history w) (history (snd ((\<lambda>(table, _). bind (lift (context_res (as_array (index partitions table)) ''invalid partition plan''))
       (for_each (drop_partition L c table))) e u)))"
  proof (cases "as_array (index partitions t)")
    case None
    with u show ?thesis by (simp add: t bind_def lift_def context_res_def)
  next
    case (Some ps)
    then have ps: "index partitions t = JArr ps" by (auto simp: as_array_def split: json.splits)
    have "only_listed partitions (history w) (history (snd (for_each (drop_partition L c t) ps u)))"
      by (rule for_each_invariant [where P = "\<lambda>u. only_listed partitions (history w) (history u)"]) (use step [OF ps] u in auto)
    with Some show ?thesis by (simp add: t bind_def lift_def context_res_def)
  qed
qed (simp add: only_listed_def)

section \<open>Files that are only read\<close>

abbreviation files_of :: "'w node \<Rightarrow> string \<rightharpoonup> string" where
  "files_of n \<equiv> fs_files (nd_fs n)"

lemma keeps_fs_try: "keeps fs_files fs_try"
  by (simp add: keeps_def fs_try_files)

lemma keeps_with_msg: "keeps p m \<Longrightarrow> keeps p (with_msg m g)"
  by (simp add: keeps_def with_msg_def case_prod_unfold)

lemma keeps_fs_reads: "keeps fs_files (fs_read p)" "keeps fs_files (fs_exists p)" "keeps fs_files (read_json L p)"
proof -
  have g: "keeps fs_files (fs_get p)" by (simp add: keeps_def fs_get_def)
  show r: "keeps fs_files (fs_read p)" "keeps fs_files (fs_exists p)"
    unfolding fs_read_def fs_exists_def by (auto intro!: keeps_bind keeps_fs_try g split: option.split)
  show "keeps fs_files (read_json L p)" unfolding read_json_def by (intro keeps_bind r kept)
qed

lemma keeps_files_node:
  "keeps files_of (on_db m)" "keeps fs_files q \<Longrightarrow> keeps files_of (on_fs q)"
  by (simp_all add: keeps_def on_db_def on_fs_def case_prod_unfold)

lemmas keeps_files = keeps_files_node keeps_fs_reads keeps_with_msg keeps_bind keeps_simple

lemma keeps_files_progress: "keeps files_of (writer_progress L client owner)"
  unfolding writer_progress_def load_progress_def by (intro keeps_files)

lemma keeps_files_load_prefix: "keeps files_of (load_prefix L client directory run)"
  unfolding load_prefix_def by (auto intro!: keeps_files split: option.split)

section \<open>Cleanup\<close>

lemma keeps_fold_tables: "(\<And>t. keeps p (f t)) \<Longrightarrow> keeps p (fold_tables f ts v)"
  by (induction f ts v rule: fold_tables.induct) (auto intro!: keeps_bind kept)

lemma keeps_partitions_before: "observed L ok parts \<Longrightarrow> keeps parts (partitions_before L client number)"
  unfolding partitions_before_def partition_sql_def
  by (intro keeps_bind kept keeps_fold_tables keeps_reads) simp_all

lemma keeps_drop_old:
  assumes "observed L (\<lambda>sql. \<not> drops_history sql) history"
  shows "keeps history (drop_old_generations L client keep)"
proof -
  have "\<not> drops_history (drop_generation_sql t)" if "t \<in> {''bootstrap_generations'', ''bootstrap_storage''}" for t
    using that by (auto simp: drops_history_def history_drop_sql_def drop_generation_sql_def PARTITIONS_def)
  then show ?thesis unfolding drop_old_generations_def old_generations_sql_def
    by (intro keeps_for_each keeps_bind kept keeps_reads [OF assms] keeps_execute [OF assms]) auto
qed

text \<open>The end state of a run that may discard history: a committed prefix covers what is gone.\<close>

definition committed :: "('w, 'x) nodelib_scheme \<Rightarrow> ClickHouse \<Rightarrow> ('w \<Rightarrow> (string \<times> string) set) \<Rightarrow> (string \<times> string) set \<Rightarrow> string \<Rightarrow> 'w node \<Rightarrow> bool" where
  "committed L client history h directory n' \<longleftrightarrow> (\<exists>v run m m' number ps w w'.
     load_prefix L client directory run m = (Inr (Some v), m') \<and> history (nd_db m') = h \<and>
     files_of n' (prefix_pointer directory) = files_of m' (prefix_pointer directory) \<and>
     uint (index (index v ''header'') ''number'') = Inr number \<and>
     partitions_before L client number w = (Inr ps, w') \<and> history w = h \<and> only_listed ps h (history (nd_db n')))"

lemma cleanup_effect:
  assumes "history_server L history" "bootstrap_cleanup L client pre w = (r, w')"
  shows "history w' = history w \<and> \<not> is_ok r \<or> (\<exists>number ps u u'. uint (index (index pre ''header'') ''number'') = Inr number \<and>
    partitions_before L client number u = (Inr ps, u') \<and> history u = history w \<and> only_listed ps (history w) (history w'))"
proof -
  have o: "observed L (\<lambda>sql. \<not> drops_history sql) history" using assms(1) by (simp add: history_server_def)
  let ?P = "\<lambda>w'. \<exists>number ps u u'. uint (index (index pre ''header'') ''number'') = Inr number \<and>
    partitions_before L client number u = (Inr ps, u') \<and> history u = history w \<and> only_listed ps (history w) (history w')"
  have step: "only_after history (history w) ?P (bind (drop_partitions L client ps) (\<lambda>_. bind (lift (string_field pre ''generation'')) (\<lambda>g.
      bind (drop_old_generations L client g) (\<lambda>_. ret ps)))) u"
    if s: "uint (index (index pre ''header'') ''number'') = Inr number" "partitions_before L client number w = (Inr ps, u)" "history u = history w" for number ps u
  proof (rule only_after_all)
    fix r u' assume b: "bind (drop_partitions L client ps) (\<lambda>_. bind (lift (string_field pre ''generation'')) (\<lambda>g. bind (drop_old_generations L client g) (\<lambda>_. ret ps))) u = (r, u')"
    have k: "keeps history (bind (lift (string_field pre ''generation'')) (\<lambda>g. bind (drop_old_generations L client g) (\<lambda>_. ret ps)))"
      by (intro keeps_bind kept keeps_drop_old [OF o])
    obtain a x where a: "drop_partitions L client ps u = (a, x)" by fastforce
    have "history u' = history x" using b a k by (cases a) (auto simp: bind_def dest: keepsD)
    with drop_partitions_effect [OF assms(1), of ps u client] a s(3) have "only_listed ps (history w) (history u')" by simp
    with s show "?P u'" by blast
  qed
  have "only_after history (history w) ?P (bootstrap_cleanup L client pre) w"
    unfolding bootstrap_cleanup_def
    by (rule only_after_lift [OF _ refl], rule only_after_bind [OF keeps_partitions_before [OF o] refl], rule step)
  with assms(2) show ?thesis unfolding only_after_def by blast
qed

section \<open>Commit before discard\<close>

lemma discard_committed:
  assumes "history_server L history" "load_prefix L client directory run m = (Inr (Some v), m')" "history (nd_db m') = h"
    and "history (nd_db n) = h" "files_of n (prefix_pointer directory) = files_of m' (prefix_pointer directory)"
    and "\<And>x. keeps_node history (f x)" "\<And>x. keeps files_of (f x)"
  shows "only_after (\<lambda>n. history (nd_db n)) h (committed L client history h directory)
    (bind (on_db (bootstrap_cleanup L client v)) f) n"
  unfolding only_after_def
proof (intro allI impI)
  fix r n' assume b: "bind (on_db (bootstrap_cleanup L client v)) f n = (r, n')"
  obtain a w where a: "bootstrap_cleanup L client v (nd_db n) = (a, w)" by fastforce
  then have a': "on_db (bootstrap_cleanup L client v) n = (a, n\<lparr>nd_db := w\<rparr>)" by (simp add: on_db_def)
  have same: "history (nd_db n') = history w \<and> files_of n' = files_of n \<and> (is_ok r \<longrightarrow> is_ok a)"
  proof (cases a)
    case (Inl e)
    with a' b show ?thesis by (auto simp: bind_def)
  next
    case (Inr x)
    with a' b have "f x (n\<lparr>nd_db := w\<rparr>) = (r, n')" by (simp add: bind_def)
    from keepsD [OF assms(6) this] keepsD [OF assms(7) this] Inr show ?thesis by simp
  qed
  have "history (nd_db n) = h" by (rule assms(4))
  from cleanup_effect [OF assms(1) a, unfolded this] show "history (nd_db n') = h \<and> \<not> is_ok r \<or> committed L client history h directory n'"
  proof
    assume "history w = h \<and> \<not> is_ok a"
    with same show ?thesis by blast
  next
    assume "\<exists>number ps u u'. uint (index (index v ''header'') ''number'') = Inr number \<and> partitions_before L client number u = (Inr ps, u') \<and>
      history u = h \<and> only_listed ps h (history w)"
    then obtain number ps u u' where p: "uint (index (index v ''header'') ''number'') = Inr number"
        "partitions_before L client number u = (Inr ps, u')" "history u = h" "only_listed ps h (history w)" by blast
    have "only_listed ps h (history (nd_db n'))" "files_of n' (prefix_pointer directory) = files_of m' (prefix_pointer directory)"
      using p(4) same assms(5) by simp_all
    with p(1-3) assms(2,3) have "committed L client history h directory n'" unfolding committed_def by blast
    then show ?thesis ..
  qed
qed

lemma load_prefix_pointer:
  "load_prefix L client directory run m = (Inr (Some v), m') \<Longrightarrow> \<exists>t. files_of m (prefix_pointer directory) = Some t \<and> json_parse L t = Some v"
proof -
  assume l: "load_prefix L client directory run m = (Inr (Some v), m')"
  then obtain m1 m2 m3 m4 rr where x: "on_fs (fs_exists (prefix_pointer directory)) m = (Inr True, m1)"
      "(case run of Some r \<Rightarrow> ret r | None \<Rightarrow> on_fs (read_json L (path_join directory ''run.json''))) m1 = (Inr rr, m2)"
      "on_fs (read_json L (prefix_pointer directory)) m2 = (Inr v, m3)"
    by (auto simp: load_prefix_def bind_Inr_iff split: if_splits)
  have k: "keeps files_of (on_fs (fs_exists (prefix_pointer directory)))"
      "keeps files_of (case run of Some r \<Rightarrow> ret r | None \<Rightarrow> on_fs (read_json L (path_join directory ''run.json'')))"
    by (auto intro!: keeps_files split: option.split)
  have "files_of m2 = files_of m" using keepsD [OF k(1) x(1)] keepsD [OF k(2) x(2)] by simp
  moreover from x(3) have "\<exists>t. files_of m2 (prefix_pointer directory) = Some t \<and> json_parse L t = Some v"
    by (auto simp: read_json_def on_fs_Inr bind_Inr_iff fs_read_def fs_get_def context_res_Inr_iff split: option.splits) (metis fs_try_Inr)
  ultimately show ?thesis by simp
qed

text \<open>A printed document that parses gives back the value that was printed.\<close>

definition reparses :: "('w, 'x) nodelib_scheme \<Rightarrow> bool" where
  "reparses L \<longleftrightarrow> (\<forall>v. json_parse L (ascii_json (json_pretty L v) @ [CHR 0x0A]) \<in> {None, Some v})"

definition temp_names :: "('w, 'x) nodelib_scheme \<Rightarrow> bool" where
  "temp_names L \<longleftrightarrow> (\<forall>d x. fs_temp L d x \<noteq> prefix_pointer d)"

lemma reloaded:
  assumes "reparses L" "temp_names L"
    and "on_fs (atomic_json (json_pretty L) (fs_temp L d) (Some d) (prefix_pointer d) v True) n = (Inr u, m)"
    and "load_prefix L client d run m = (Inr (Some v'), m')"
  shows "v' = v"
proof -
  let ?t = "ascii_json (json_pretty L v) @ [CHR 0x0A]"
  have "\<forall>x. fs_temp L d x \<noteq> prefix_pointer d" using assms(2) by (simp add: temp_names_def)
  from atomic_write_effect [OF this, of "Some d" ?t True "nd_fs n"] assms(3)
  have "files_of m (prefix_pointer d) = Some ?t" by (auto simp: on_fs_def atomic_json_def split: prod.splits)
  with load_prefix_pointer [OF assms(4)] have "json_parse L ?t = Some v'" by simp
  moreover have "json_parse L ?t \<in> {None, Some v}" using assms(1) unfolding reparses_def by blast
  ultimately show ?thesis by simp
qed

lemma keeps_write_candidate:
  assumes "observed L (\<lambda>sql. \<not> drops_history sql) history"
  shows "keeps history (write_candidate L client owner source e budget generation)"
proof -
  have "\<not> drops_history (candidate_sql changes)" for changes
    by (simp add: drops_history_def history_drop_sql_def candidate_sql_def PARTITIONS_def)
  then show ?thesis unfolding write_candidate_def
    by (auto intro!: keeps_bind kept keeps_execute [OF assms] keeps_observed_fields [OF assms] keeps_digest [OF assms]
        keeps_combined_usage [OF assms] split: prod.split)
qed

lemma keeps_script:
  assumes "observed L (\<lambda>sql. \<not> drops_history sql) history" "script_ok sql"
  shows "keeps history (for_each (\<lambda>st. bind (execute L c st []) (\<lambda>_. ret ())) (filter (\<lambda>v. trim v \<noteq> []) (split_on (\<lambda>c. c = CHR '';'') sql)))"
  using assms(2) unfolding script_ok_def list_all_iff
  by (intro keeps_for_each keeps_bind kept keeps_execute [OF assms(1)]) auto

lemma only_after_prod: "(\<And>a b. v = (a, b) \<Longrightarrow> only_after p h P (f a b) w) \<Longrightarrow> only_after p h P (case v of (a, b) \<Rightarrow> f a b) w"
  by (cases v) simp

lemma only_after_bind2:
  "keeps p m \<Longrightarrow> p w = h \<Longrightarrow> (\<And>a b u. m w = (Inr (a, b), u) \<Longrightarrow> p u = h \<Longrightarrow> only_after p h P (f a b) u) \<Longrightarrow>
     only_after p h P (bind m (\<lambda>(a, b). f a b)) w"
  by (rule only_after_bind) (auto intro: only_after_prod)

lemma only_after_lift2:
  "(\<And>a b. r = Inr (a, b) \<Longrightarrow> only_after p h P (f a b) w) \<Longrightarrow> p w = h \<Longrightarrow> only_after p h P (bind (lift r) (\<lambda>(a, b). f a b)) w"
  by (rule only_after_lift) (auto intro: only_after_prod)

lemma compact_new_committed:
  assumes "history_server L history" "reparses L" "temp_names L" "script_ok bootstrap_sql" "history (nd_db n) = h"
  shows "only_after (\<lambda>n. history (nd_db n)) h (committed L client history h (sw_directory owner))
    (compact_new L C bootstrap_sql client owner source header e budget) n"
proof -
  have o: "observed L (\<lambda>sql. \<not> drops_history sql) history" using assms(1) by (simp add: history_server_def)
  have ins: "keeps history (insert_values L client ''bootstrap_generations'' vs)" for vs
    by (rule keeps_insert_values [OF o]) (simp add: drops_history_def history_drop_sql_def PARTITIONS_def)
  have discard: "only_after (\<lambda>n. history (nd_db n)) h (committed L client history h (sw_directory owner))
      (bind (on_db (bootstrap_cleanup L client v)) (\<lambda>x. bind (writer_progress L client owner) (\<lambda>_. bind (ret (jset v ''removed_partitions'' x)) (\<lambda>y.
        bind (on_db (disk_usage L client)) (\<lambda>b. ret (jset y ''database_bytes'' (jnum b))))))) m'"
    if d: "on_fs (atomic_json (json_pretty L) (fs_temp L (sw_directory owner)) (Some (sw_directory owner)) (prefix_pointer (sw_directory owner)) v True) k = (Inr u, m)"
      "load_prefix L client (sw_directory owner) (Some (sw_run owner)) m = (Inr found, m')" "history (nd_db m') = h" "found \<noteq> None"
    for v k m m' u found
  proof -
    from d(4) reloaded [OF assms(2,3) d(1), of client "Some (sw_run owner)"] d(2)
    have l: "load_prefix L client (sw_directory owner) (Some (sw_run owner)) m = (Inr (Some v), m')" by auto
    show ?thesis
      by (rule discard_committed [OF assms(1) l d(3) d(3) refl]) (intro keeps_bind kept keeps_writer_progress [OF o] keeps_on_db keeps_disk_usage [OF o] keeps_files keeps_files_progress)+
  qed
  show ?thesis
    unfolding compact_new_def commit_prefix_def discard_compacted_def Let_def bind_assoc
    by (intro only_after_lift only_after_check only_after_prod assms(5) only_after_bind [OF keeps_on_db [OF keeps_script [OF o assms(4)]]]
        only_after_bind [OF keeps_on_db [OF keeps_drop_old [OF o]]] only_after_bind [OF keeps_on_db [OF keeps_combined_usage [OF o]]]
        only_after_bind [OF keeps_draws(1)] only_after_bind [OF keeps_on_db [OF keeps_write_candidate [OF o]]] only_after_bind [OF keeps_on_db [OF ins]]
        only_after_bind [OF keeps_capacity_ok [OF o]] only_after_bind [OF keeps_on_fs(1)] only_after_bind [OF keeps_load_prefix [OF o]])
      (assumption | rule discard)+
qed

lemma select_prefix_source:
  assumes "select_prefix L client source n = (Inr s, n')" "get s ''bootstrap'' = Some p" "string_field source ''state_directory'' = Inr d"
  shows "load_prefix L client d None n = (Inr (Some p), n')"
proof -
  from assms(3) obtain fs where fs: "source = JObj fs" by (cases source) (auto simp: string_field_Inr get_def)
  have get: "get (without_prefix fs) k = (if k \<noteq> ''bootstrap'' \<and> k \<noteq> ''delta_start'' then get source k else None)" for k
    by (simp add: without_prefix_def fs map_of_filter_keys)
  have "string_field (without_prefix fs) ''state_directory'' = Inr d" using assms(3) by (simp add: string_field_Inr get)
  with assms(1) obtain found where l: "load_prefix L client d None n = (Inr found, n')" and c: "attach_prefix (without_prefix fs) found = Inr s"
    by (auto simp: select_prefix_def fs as_object_def context_res_def bind_Inr_iff)
  have "found = Some p" using c assms(2)
    by (cases found) (auto simp: attach_prefix_def bnd_Inr_iff ensure_Inr_iff get_jset get split: if_splits)
  with l show ?thesis by simp
qed

lemma compact_locked_committed:
  assumes "history_server L history" "reparses L" "temp_names L" "script_ok bootstrap_sql" "history (nd_db n) = h"
    and dir: "index (sw_source owner) ''state_directory'' = JStr (sw_directory owner)"
  shows "only_after (\<lambda>n. history (nd_db n)) h (committed L client history h (sw_directory owner))
    (compact_locked L C bootstrap_sql client owner end_block budget) n"
proof -
  have o: "observed L (\<lambda>sql. \<not> drops_history sql) history" using assms(1) by (simp add: history_server_def)
  have f: "string_field (sw_source owner) ''state_directory'' = Inr (sw_directory owner)"
    using dir by (auto simp: string_field_Inr index_def split: option.splits)
  have rest: "only_after (\<lambda>n. history (nd_db n)) h (committed L client history h (sw_directory owner))
      (case already_compacted (get source ''bootstrap'') e of
       Some p \<Rightarrow> bind (discard_compacted L client owner p) (\<lambda>result. ret (jset result ''already_compacted'' (JBool True)))
     | None \<Rightarrow> compact_new L C bootstrap_sql client owner source header e budget) m2"
    if d: "select_prefix L client (sw_source owner) m = (Inr source, m1)" "history (nd_db m1) = h"
      "on_db (validate_interval L client source header) m1 = (Inr k, m2)" "history (nd_db m2) = h" for source m m1 m2 k e header
  proof (cases "already_compacted (get source ''bootstrap'') e")
    case None
    with compact_new_committed [OF assms(1-4) d(4)] show ?thesis by simp
  next
    case (Some p)
    then have p: "get source ''bootstrap'' = Some p" by (auto simp: already_compacted_def bind_eq_Some_conv split: if_splits)
    note l = select_prefix_source [OF d(1) p f]
    have "files_of m2 = files_of m1" using d(3) by (rule keepsD [OF keeps_files_node(1)])
    then have "files_of m2 (prefix_pointer (sw_directory owner)) = files_of m1 (prefix_pointer (sw_directory owner))" by simp
    note disc = discard_committed [OF assms(1) l d(2) d(4) this]
    show ?thesis unfolding Some option.case discard_compacted_def bind_assoc
      by (rule disc) (intro keeps_bind kept keeps_writer_progress [OF o] keeps_on_db keeps_files keeps_files_progress)+
  qed
  show ?thesis unfolding compact_locked_def Let_def
    by (intro only_after_lift only_after_check assms(5) only_after_bind [OF keeps_capacity_ok [OF o]]
        only_after_bind [OF keeps_on_db [OF keeps_require_initial [OF o]]] only_after_bind [OF keeps_writer_progress [OF o]]
        only_after_bind [OF keeps_on_db [OF keeps_end_header [OF o]]] only_after_bind [OF keeps_select_prefix [OF o]]
        only_after_bind [OF keeps_on_db [OF keeps_validate_interval [OF o]]])
      (assumption | rule rest)+
qed

section \<open>The whole operation\<close>

lemma only_after_holding:
  fixes n :: "'w node"
  assumes "\<And>n1. p (nd_db n1) = h \<Longrightarrow> only_after (\<lambda>n. p (nd_db n)) h P m n1" "p (nd_db n) = h"
    and "\<And>n1 ls. P n1 \<Longrightarrow> P (n1\<lparr>nd_locks := ls\<rparr>)"
  shows "only_after (\<lambda>n. p (nd_db n)) h P (holding L path x m) n"
  unfolding holding_def
proof (rule only_after_bind [OF keeps_draws(3)])
  fix u and n1 :: "'w node" assume "p (nd_db n1) = h"
  then have "only_after (\<lambda>n. p (nd_db n)) h P m n1" by (rule assms(1))
  then show "only_after (\<lambda>n. p (nd_db n)) h P (\<lambda>n. case m n of (r, n') \<Rightarrow> (r, release L path x n')) n1"
    using assms(3) unfolding only_after_def by (cases "m n1") (auto simp: release_def)
qed (rule assms(2))

lemma only_after_publisher:
  fixes n :: "'w node"
  assumes "\<And>n1. p (nd_db n1) = h \<Longrightarrow> only_after (\<lambda>n. p (nd_db n)) h P m n1" "p (nd_db n) = h"
    and "\<And>n1 ls. P n1 \<Longrightarrow> P (n1\<lparr>nd_locks := ls\<rparr>)"
  shows "only_after (\<lambda>n. p (nd_db n)) h P (control_publisher L control m) n"
  unfolding control_publisher_def two_locks_def
proof (rule only_after_bind [OF keeps_draws(3)])
  fix u and n1 :: "'w node" assume n1: "p (nd_db n1) = h"
  obtain a n2 where a: "acquire L (readers_lock (co_path control)) False n1 = (a, n2)" by fastforce
  have n2: "p (nd_db n2) = h" using keepsD [OF keeps_draws(3) a, of p] n1 by simp
  show "only_after (\<lambda>n. p (nd_db n)) h P (\<lambda>n. case acquire L (readers_lock (co_path control)) False n of
         (Inl e, n') \<Rightarrow> (Inl e, release L (writer_lock (co_path control)) True n')
       | (Inr _, n') \<Rightarrow> (case m n' of (r, n'') \<Rightarrow> (r, release L (readers_lock (co_path control)) False (release L (writer_lock (co_path control)) True n'')))) n1"
    using assms(1) [OF n2] assms(3) n2 a unfolding only_after_def
    by (cases a) (auto simp: release_def split: prod.splits)
qed (rule assms(2))

lemma owned_source_directory:
  "owned_source L client checkpoints directory run n = (Inr source, n') \<Longrightarrow> index source ''state_directory'' = JStr directory"
  unfolding owned_source_def verified_source_def
  by (auto simp: bind_Inr_iff holding_Inr jstr_eq_def check_def split: prod.splits if_splits)

lemma committed_locks: "committed L client history h d n1 \<Longrightarrow> committed L client history h d (n1\<lparr>nd_locks := ls\<rparr>)"
  unfolding committed_def by simp

lemma compact_committed:
  assumes "history_server L history" "reparses L" "temp_names L" "script_ok bootstrap_sql" "script_ok checkpoints_sql"
    and "history (nd_db n) = h"
  shows "only_after (\<lambda>n. history (nd_db n)) h (\<lambda>n'. \<exists>d. resolve_path L directory = Inr d \<and> committed L client history h d n')
    (compact L C checkpoints_sql bootstrap_sql client directory end_block budget) n"
proof -
  have o: "observed L (\<lambda>sql. \<not> drops_history sql) history" using assms(1) by (simp add: history_server_def)
  have "\<not> drops_history (''CREATE DATABASE IF NOT EXISTS '' @ x)" for x
    by (simp add: drops_history_def history_drop_sql_def PARTITIONS_def)
  then have created: "keeps history (checkpoint_setup L checkpoints checkpoints_sql)" for checkpoints
    unfolding checkpoint_setup_def by (intro keeps_bind kept keeps_execute [OF o] keeps_script [OF o assms(5)])
  have run: "only_after (\<lambda>n. history (nd_db n)) h (\<lambda>n'. \<exists>d. resolve_path L directory = Inr d \<and> committed L client history h d n')
      (compact_locked L C bootstrap_sql client \<lparr>sw_directory = d, sw_run = run, sw_source = source, sw_checkpoints = checkpoints, sw_control_path = cp\<rparr> end_block budget) n1"
    if "resolve_path L directory = Inr d" "owned_source L client checkpoints' d run m = (Inr source, m')" "history (nd_db n1) = h"
    for d run source checkpoints checkpoints' cp n1 m m'
    using compact_locked_committed [OF assms(1-4) that(3), of "\<lparr>sw_directory = d, sw_run = run, sw_source = source, sw_checkpoints = checkpoints, sw_control_path = cp\<rparr>"
        client C end_block budget] owned_source_directory [OF that(2)] that(1)
    unfolding only_after_def by simp
  have c: "keeps_node history (if True then on_db (checkpoint_setup L checkpoints checkpoints_sql) else ret ())" for checkpoints
    by (simp add: keeps_on_db created)
  show ?thesis
    unfolding compact_def source_writer_def
    by (intro only_after_lift only_after_check assms(6) only_after_bind [OF keeps_on_fs(1)] only_after_bind [OF c]
        only_after_bind [OF keeps_control_open [OF o]] only_after_bind [OF keeps_owned_source [OF o]] only_after_publisher only_after_holding)
      (assumption | rule run | blast intro: committed_locks)+
qed


section \<open>A concrete server\<close>

definition ex_history_post :: "ClickHouse \<Rightarrow> (string \<times> string) list \<Rightarrow> string \<Rightarrow> (string \<times> string) set \<Rightarrow> (http_error + Response) \<times> (string \<times> string) set" where
  "ex_history_post c q body w = (Inr \<lparr>rs_code = 200, rs_success = True, rs_exception = None, rs_body = [], rs_broken = False\<rparr>,
     case filter (\<lambda>(t, _). snd (q ! 1) = history_drop_sql t) PARTITIONS of [] \<Rightarrow> w | (t, _) # _ \<Rightarrow> w - {(t, snd (q ! 2))})"

definition ex_history_lib :: "(string \<times> string) set nodelib" where
  "ex_history_lib = \<lparr>url_ok = (\<lambda>_. True), http_post = ex_history_post, json_parse = (\<lambda>_. None), json_print = (\<lambda>_. []),
     nl_evm = ex_evm, sha256 = (\<lambda>_. []), b64_decode = ex_b64d, b64_encode = ref_encode,
     cursor_decrypt = ex_decrypt, cursor_encrypt = ex_encrypt, json_text = (\<lambda>_. []), json_pretty = (\<lambda>_. []),
     fs_temp = (\<lambda>d s. d @ ''/.tmp''),
     nl_read_dir = (\<lambda>_ _. []), nl_is_dir = (\<lambda>_. True), nl_lstat = (\<lambda>_. NotLink), nl_cwd = Inr [RootDir], nl_hostname = Inr ''h'',
     nl_uuid = (\<lambda>_. None), nl_new_id = (\<lambda>_. []), nl_clock = (\<lambda>k. Inr k), nl_pid = 1\<rparr>"

lemma ex_history_server: "history_server ex_history_lib (\<lambda>w. w)"
proof -
  have "\<not> drops_history sql" if "harmless sql" for sql
    using that by (auto simp: harmless_def drops_history_def history_drop_sql_def control_create_def PARTITIONS_def)
  moreover have "history_drop_sql t = history_drop_sql u \<longleftrightarrow> t = u" for t u by (simp add: history_drop_sql_def)
  ultimately show ?thesis
    by (auto simp: history_server_def observed_def ex_history_lib_def ex_history_post_def drops_history_def PARTITIONS_def split: list.splits)
qed

definition ex_history_node :: "(string \<times> string) set node" where
  "ex_history_node = \<lparr>nd_db = {(''state_blocks'', ''p''), (''_blocks_'', ''q'')},
     nd_fs = \<lparr>fs_files = [''/d/run.json'' \<mapsto> ''R'', ''/d/bootstrap.json'' \<mapsto> ''P''], fs_plan = [Done]\<rparr>, nd_locks = [], nd_tick = 0\<rparr>"

definition ex_capcfg :: capcfg where
  "ex_capcfg = \<lparr>cf_env = ex_capenv, cf_additional = None, cf_policy = None, cf_events = None\<rparr>"


end
