(* ===== verification/Header.thy ===== *)
theory Header
  imports Proof
begin

text \<open>
  Block headers, \<open>crates/evm-state/src/header.rs\<close>: the canonical encoding of an RPC header and the
  verification of an encoded header against a checkpoint's summary and an expected hash.
\<close>

definition FIELDS :: "(string \<times> nat option \<times> nat option) list" where
  "FIELDS =
    [(''parentHash'', Some 32, None), (''sha3Uncles'', Some 32, None), (''miner'', Some 20, None),
     (''stateRoot'', Some 32, None), (''transactionsRoot'', Some 32, None), (''receiptsRoot'', Some 32, None),
     (''logsBloom'', Some 256, None), (''difficulty'', None, Some 256), (''number'', None, Some 64),
     (''gasLimit'', None, Some 64), (''gasUsed'', None, Some 64), (''timestamp'', None, Some 64),
     (''extraData'', None, None), (''mixHash'', Some 32, None), (''nonce'', Some 8, None),
     (''baseFeePerGas'', None, Some 256), (''withdrawalsRoot'', Some 32, None),
     (''blobGasUsed'', None, Some 64), (''excessBlobGas'', None, Some 64),
     (''parentBeaconBlockRoot'', Some 32, None), (''requestsHash'', Some 32, None),
     (''balHash'', Some 32, None), (''slotNumber'', None, Some 64)]"

type_synonym field_spec = "nat \<times> string \<times> nat option \<times> nat option"

definition last_field :: "json \<Rightarrow> nat" where
  "last_field header =
     fst (List.last (filter (\<lambda>(i, name, _, _). i < 15 \<or> \<not> is_null (index header name)) (enumerate 0 FIELDS)))"

definition encode_field :: "'x evmlib_scheme \<Rightarrow> json \<Rightarrow> field_spec \<Rightarrow> bytes res" where
  "encode_field X header f = (case f of (i, name, length', bits) \<Rightarrow>
     if is_null (index header name)
     then ensure (15 \<le> i) (''RPC header missing '' @ name) (Inr (rlp_bytes X []))
     else (case bits of
         Some b \<Rightarrow>
           bnd (string_field header name) (\<lambda>s. bnd (quantity X s b) (\<lambda>n. Inr (rlp_uint X n)))
       | None \<Rightarrow>
           bnd (string_field header name) (\<lambda>s. bnd (unhex X s) (\<lambda>bs.
           ensure (case length' of None \<Rightarrow> True | Some n \<Rightarrow> length bs = n)
             (''invalid header field length for '' @ name) (Inr (rlp_bytes X bs))))))"

definition encode_rpc_header :: "'x evmlib_scheme \<Rightarrow> json \<Rightarrow> string res" where
  "encode_rpc_header X header =
     bnd (map_res (encode_field X header) (take (Suc (last_field header)) (enumerate 0 FIELDS))) (\<lambda>fs.
     let encoded = rlp_list X fs in
     bnd (bnd (string_field header ''hash'') (fixed X 32)) (\<lambda>hash.
     ensure (keccak256 X encoded = hash) ''encoded RPC header does not match its block hash''
       (Inr (''0x'' @ hex_encode X encoded))))"

function decode_fields :: "'x evmlib_scheme \<Rightarrow> bytes \<Rightarrow> bytes list \<Rightarrow> bytes list res" where
  "decode_fields X payload fs =
     (if payload = [] then Inr fs
      else case rlp_decode X False payload of
        None \<Rightarrow> Inl ''header field must be bytes''
      | Some (f, rest) \<Rightarrow>
          if length (fs @ [f]) \<le> length FIELDS then decode_fields X rest (fs @ [f])
          else Inl ''unsupported header field count'')"
  by pat_completeness auto
termination
  by (relation "measure (\<lambda>(X, payload, fs). Suc (length FIELDS) - length fs)") auto

declare decode_fields.simps [simp del]

definition check_field :: "bytes \<times> field_spec \<Rightarrow> unit res" where
  "check_field vf = (case vf of (v, i, name, length', bits) \<Rightarrow>
     ensure (case bits of None \<Rightarrow> True | Some b \<Rightarrow> \<not> prefix [0] v \<and> length v \<le> b div 8) ''invalid header integer''
     (ensure (case length' of None \<Rightarrow> True | Some n \<Rightarrow> length v = n \<or> 15 \<le> i \<and> v = [])
       ''invalid header field length'' (Inr ())))"

definition expected_ok :: "'x hexlib_scheme \<Rightarrow> bytes \<Rightarrow> string option \<Rightarrow> unit res" where
  "expected_ok X digest expected_hash = (case expected_hash of None \<Rightarrow> Inr ()
     | Some e \<Rightarrow> bnd (fixed X 32 e) (\<lambda>h. ensure (digest = h) ''encoded header differs from expected hash'' (Inr ())))"

definition summary_matches :: "'x hexlib_scheme \<Rightarrow> bytes list \<Rightarrow> json \<Rightarrow> bool res" where
  "summary_matches X fs summary =
     bnd (bnd (string_field summary ''parent_hash'') (fixed X 32)) (\<lambda>ph.
     if fs ! 0 \<noteq> ph then Inr False else
     bnd (bnd (string_field summary ''state_root'') (fixed X 32)) (\<lambda>sr.
     if fs ! 3 \<noteq> sr then Inr False else
     bnd (context_res (as_u64 (index summary ''number'')) ''invalid header number'') (\<lambda>n.
     if be_val (fs ! 8) \<noteq> unat n then Inr False else
     bnd (context_res (as_u64 (index summary ''timestamp'')) ''invalid header timestamp'') (\<lambda>t.
     Inr (be_val (fs ! 11) = unat t)))))"

definition verify_header :: "'x evmlib_scheme \<Rightarrow> string \<Rightarrow> json \<Rightarrow> string option \<Rightarrow> bytes res" where
  "verify_header X encoded_hex summary expected_hash =
     bnd (unhex X encoded_hex) (\<lambda>encoded.
     ensure (length encoded \<le> 104448) ''oversized block header''
     (bnd (context_res (rlp_decode X True encoded) ''invalid RLP block header'') (\<lambda>(payload, input).
     ensure (input = []) ''trailing bytes after RLP header''
     (bnd (decode_fields X payload []) (\<lambda>fs.
     ensure (15 \<le> length fs) ''unsupported header field count''
     (bnd (fold_res (\<lambda>vf _. check_field vf) (zip fs (enumerate 0 FIELDS)) ()) (\<lambda>_.
     let digest = keccak256 X encoded in
     bnd (bnd (string_field summary ''hash'') (fixed X 32)) (\<lambda>hash.
     ensure (digest = hash) ''encoded header differs from checkpoint block hash''
     (bnd (expected_ok X digest expected_hash) (\<lambda>_.
     bnd (summary_matches X fs summary) (\<lambda>same.
     ensure same ''checkpoint metadata differs from encoded header'' (Inr digest))))))))))))"

section \<open>Decoding what was encoded\<close>

lemma length_FIELDS [simp]: "length FIELDS = 23"
  by (simp add: FIELDS_def)

lemma decode_fields_items:
  assumes "rlp_ok X" "\<forall>b \<in> set bs. length b < usize_max" "length acc + length bs \<le> 23"
  shows "decode_fields X (concat (map (rlp_bytes X) bs)) acc = Inr (acc @ bs)"
  using assms(2,3)
proof (induction bs arbitrary: "acc")
  case Nil
  then show ?case by (simp add: decode_fields.simps)
next
  case (Cons b bs)
  have c: "rlp_codec (rlp_uint X) (rlp_bytes X) (rlp_list_header X) (rlp_decode X)"
    using assms(1) by (simp add: rlp_ok_def)
  have "rlp_decode X False (rlp_bytes X b @ concat (map (rlp_bytes X) bs)) = Some (b, concat (map (rlp_bytes X) bs))"
    using Cons.prems(1) by (intro rlp_codec.dec_bytes [OF c]) simp
  with Cons rlp_codec.enc_nonempty [OF c, of b] show ?case
    by (subst decode_fields.simps) simp
qed

lemma sorted_le_last: "sorted xs \<Longrightarrow> x \<in> set xs \<Longrightarrow> x \<le> List.last xs"
  by (induction xs) (auto split: if_splits)

lemma last_enumerate_filter:
  assumes "k < length xs" "P (k, xs ! k)"
  shows "k \<le> fst (List.last (filter P (enumerate 0 xs))) \<and>
    fst (List.last (filter P (enumerate 0 xs))) < length xs"
proof -
  let ?F = "filter P (enumerate 0 xs)"
  have k: "(k, xs ! k) \<in> set ?F" using assms by (auto simp: in_set_enumerate_eq)
  then have ne: "?F \<noteq> []" by (metis empty_iff list.set(1))
  have "sorted (map fst (enumerate 0 xs))" by simp
  then have "sorted (map fst ?F)" by (rule sorted_filter)
  moreover have "k \<in> set (map fst ?F)" using k by force
  ultimately have "k \<le> List.last (map fst ?F)" by (rule sorted_le_last)
  moreover have "List.last ?F \<in> set (enumerate 0 xs)" using last_in_set [OF ne] by auto
  ultimately show ?thesis using ne by (auto simp: last_map in_set_enumerate_eq)
qed

lemma last_field_range: "14 \<le> last_field header \<and> last_field header < 23"
  using last_enumerate_filter [of 14 FIELDS "\<lambda>(i, name, _, _). i < 15 \<or> \<not> is_null (index header name)"]
  by (simp add: last_field_def split: prod.splits)

lemma field_spec_bits:
  "(i, name, l, Some b) \<in> set (enumerate 0 FIELDS) \<Longrightarrow> l = None \<and> (b = 64 \<or> b = 256)"
  by (auto simp: FIELDS_def)

text \<open>Every item of an accepted header is the encoding of bytes that pass the field check.\<close>

lemma encode_field_check:
  assumes "rlp_ok X" "f \<in> set (enumerate 0 FIELDS)" "encode_field X header f = Inr item"
  shows "\<exists>b. item = rlp_bytes X b \<and> check_field (b, f) = Inr ()"
proof -
  have c: "rlp_codec (rlp_uint X) (rlp_bytes X) (rlp_list_header X) (rlp_decode X)"
    using assms(1) by (simp add: rlp_ok_def)
  obtain i name l bits where f: "f = (i, name, l, bits)" by (cases f)
  show ?thesis
  proof (cases "is_null (index header name)")
    case True
    with assms(3) f have "15 \<le> i" "item = rlp_bytes X []" by (auto simp: encode_field_def res_simps)
    then show ?thesis
      by (intro exI [of _ "[]"]) (simp add: check_field_def f split: option.splits)
  next
    case False
    show ?thesis
    proof (cases bits)
      case (Some b)
      with assms(3) f False obtain n s where n: "quantity X s b = Inr n" "item = rlp_uint X n"
        by (auto simp: encode_field_def res_simps)
      have lb: "l = None" "b = 64 \<or> b = 256" using field_spec_bits [of i name l b] assms(2) f Some by auto
      have "n < 2 ^ b" using quantity_bound [OF n(1)] .
      then have "length (be_bytes n) \<le> b div 8" using lb(2) by (intro length_be_bytes_le) auto
      moreover have "\<not> prefix [0] (be_bytes n)"
        using trimmed_be_bytes [of n] by (cases "be_bytes n") (auto simp: trimmed_def)
      ultimately show ?thesis using n(2) lb(1) Some f
        by (intro exI [of _ "be_bytes n"]) (simp add: check_field_def rlp_codec.enc_uint [OF c])
    next
      case None
      with assms(3) f False obtain bs where
        "item = rlp_bytes X bs" "case l of None \<Rightarrow> True | Some n \<Rightarrow> length bs = n"
        by (auto simp: encode_field_def res_simps)
      with None f show ?thesis
        by (intro exI [of _ bs]) (auto simp: check_field_def split: option.splits)
    qed
  qed
qed

lemma encode_fields_items:
  assumes "rlp_ok X" "map_res (encode_field X header) specs = Inr items" "set specs \<subseteq> set (enumerate 0 FIELDS)"
  shows "\<exists>bs. items = map (rlp_bytes X) bs \<and> length bs = length specs \<and>
    (\<forall>p \<in> set (zip bs specs). check_field p = Inr ())"
  using assms(2,3)
proof (induction specs arbitrary: items)
  case (Cons f specs)
  then obtain item items' where i: "encode_field X header f = Inr item"
    "map_res (encode_field X header) specs = Inr items'" "items = item # items'"
    by (auto simp: res_simps)
  obtain b where "item = rlp_bytes X b" "check_field (b, f) = Inr ()"
    using encode_field_check [OF assms(1) _ i(1)] Cons.prems(2) by auto
  moreover obtain bs where "items' = map (rlp_bytes X) bs" "length bs = length specs"
    "\<forall>p \<in> set (zip bs specs). check_field p = Inr ()"
    using Cons.IH [OF i(2)] Cons.prems(2) by auto
  ultimately show ?case using i(3) by (intro exI [of _ "b # bs"]) auto
qed simp

lemma check_fields_ok:
  "\<forall>p \<in> set ps. check_field p = Inr () \<Longrightarrow> fold_res (\<lambda>vf _. check_field vf) ps () = Inr ()"
  by (induction ps) simp_all

lemma zip_take_right: "length xs = n \<Longrightarrow> zip xs (take n ys) = zip xs ys"
  by (metis take_zip take_all_iff length_zip min.cobounded1 take_all order_refl)

text \<open>What an accepted header fixes: the raw fields, their encoding and the hash.\<close>

lemma encode_rpc_header_Inr:
  assumes "rlp_ok X" "encode_rpc_header X header = Inr enc"
  obtains bs where
    "enc = ''0x'' @ hex_encode X (rlp_list_header X (length (concat (map (rlp_bytes X) bs))) @ concat (map (rlp_bytes X) bs))"
    "15 \<le> length bs" "length bs \<le> 23"
    "\<forall>p \<in> set (zip bs (enumerate 0 FIELDS)). check_field p = Inr ()"
    "\<forall>k < length bs. encode_field X header (enumerate 0 FIELDS ! k) = Inr (rlp_bytes X (bs ! k))"
    "\<exists>h. string_field header ''hash'' = Inr h \<and>
      fixed X 32 h = Inr (keccak256 X (rlp_list_header X (length (concat (map (rlp_bytes X) bs))) @ concat (map (rlp_bytes X) bs)))"
proof -
  let ?specs = "take (Suc (last_field header)) (enumerate 0 FIELDS)"
  obtain items h where i: "map_res (encode_field X header) ?specs = Inr items"
    "string_field header ''hash'' = Inr h" "fixed X 32 h = Inr (keccak256 X (rlp_list X items))"
    "enc = ''0x'' @ hex_encode X (rlp_list X items)"
    using assms(2) unfolding encode_rpc_header_def Let_def bnd_Inr_iff ensure_Inr_iff by fastforce
  obtain bs where bs: "items = map (rlp_bytes X) bs" "length bs = length ?specs"
    "\<forall>p \<in> set (zip bs ?specs). check_field p = Inr ()"
    using encode_fields_items [OF assms(1) i(1)] set_take_subset by metis
  have len: "length bs = Suc (last_field header)" using bs(2) last_field_range [of header] by simp
  have rl: "rlp_list X items = rlp_list_header X (length (concat (map (rlp_bytes X) bs))) @ concat (map (rlp_bytes X) bs)"
    by (simp add: rlp_list_def bs(1) length_concat o_def)
  have zip: "zip bs ?specs = zip bs (enumerate 0 FIELDS)" using len by (rule zip_take_right)
  have nth: "\<forall>k < length bs. encode_field X header (enumerate 0 FIELDS ! k) = Inr (rlp_bytes X (bs ! k))"
  proof (intro allI impI)
    fix k assume k: "k < length bs"
    then have "encode_field X header (?specs ! k) = Inr (items ! k)"
      using i(1) bs(1,2) by (simp add: map_res_Inr_iff list_all2_conv_all_nth del: nth_take)
    with k len show "encode_field X header (enumerate 0 FIELDS ! k) = Inr (rlp_bytes X (bs ! k))"
      by (simp add: bs(1))
  qed
  show thesis
    using i rl bs(3) zip nth len last_field_range [of header] that [of bs] by auto
qed

end
