(* ===== verification/Build.thy ===== *)
theory Build
  imports Compaction Header
begin

text \<open>
  Building a checkpoint, the writing half of \<open>crates/evm-state/src/checkpoint.rs\<close>: the inputs are
  qualified and held, the candidate's storage is computed in the database, every account is verified
  against its proof, and the manifest that publishes the candidate is written last.
\<close>

section \<open>The proof bundle and the base\<close>

definition check_bundle :: "('w, 'x) nodelib_scheme \<Rightarrow> json \<Rightarrow> u64 res" where
  "check_bundle L bundle =
     ensure (jnum_eq (index bundle ''format_version'') 1 \<and> jnum_eq (index bundle ''chain_id'') 56)
       ''v0.1 qualification requires a BSC proof bundle''
     (let header = index bundle ''header'' in
      bnd (uint (index header ''number'')) (\<lambda>target.
      bnd (bnd (string_field header ''hash'') (fixed (nl_evm L) 32)) (\<lambda>_.
      bnd (bnd (string_field header ''state_root'') (fixed (nl_evm L) 32)) (\<lambda>_.
      ensure (as_str (index bundle ''header_trust'') = Some ''provider-finalized-header'' \<or>
          as_str (index bundle ''header_trust'') = Some ''operator-pinned-hash'')
        ''unrecognized header trust source''
      (bnd (case Option.bind (as_str (index bundle ''header_rlp'')) (\<lambda>t. if t = [] then None else Some t) of
              Some encoded \<Rightarrow> bnd (verify_header (nl_evm L) encoded header None) (\<lambda>_. Inr ())
            | None \<Rightarrow> ensure (\<not> jstr_eq (index bundle ''header_trust'') ''operator-pinned-hash'')
                ''a pinned block hash requires its encoded header'' (Inr ())) (\<lambda>_.
       Inr target))))))"

definition check_base :: "u64 \<Rightarrow> string list \<Rightarrow> json option \<Rightarrow> string list \<Rightarrow> unit res" where
  "check_base target selected base base_accounts = (case base of None \<Rightarrow> Inr ()
     | Some b \<Rightarrow> bnd (uint (index (index b ''header'') ''number'')) (\<lambda>number.
         ensure (number < target \<and> set base_accounts \<subseteq> set selected)
           ''checkpoint must advance its base and preserve all base accounts'' (Inr ())))"

definition base_checkpoint :: "('w, 'x) nodelib_scheme \<Rightarrow> ClickHouse \<Rightarrow> string option \<Rightarrow> ('w, json option \<times> string list) io" where
  "base_checkpoint L client base_id = (case base_id of None \<Rightarrow> ret (None, [])
     | Some i \<Rightarrow>
         bind (manifest_unlocked L client i) (\<lambda>base.
         bind (lift (canonical_accounts L (index base ''accounts''))) (\<lambda>accounts.
         ret (Some base, accounts))))"

section \<open>The sources\<close>

record cohorts =
  ch_sources :: "json list"
  ch_seen :: "string list"
  ch_bytes :: u64

definition continue_base :: "json option \<Rightarrow> string list \<Rightarrow> string list \<Rightarrow> json \<Rightarrow> json res" where
  "continue_base base base_accounts cohort source = (case base of None \<Rightarrow> Inr source
     | Some b \<Rightarrow>
         if set cohort \<inter> set base_accounts = {} then Inr source
         else bnd (uint (index source ''start_block'')) (\<lambda>start.
           bnd (uint (index (index b ''header'') ''number'')) (\<lambda>number.
           ensure (start = number + 1) ''existing accounts must continue immediately after the base checkpoint''
           (Inr (jset source ''parent_hash'' (index (index b ''header'') ''hash''))))))"

definition build_source :: "('w, 'x) nodelib_scheme \<Rightarrow> ClickHouse \<Rightarrow> json \<Rightarrow> json option \<Rightarrow> string list \<Rightarrow> json \<Rightarrow> cohorts \<Rightarrow> ('w, cohorts) io" where
  "build_source L client header base base_accounts source s =
     bind (lift (canonical_accounts L (index source ''accounts''))) (\<lambda>cohort.
     bind (check (set cohort \<inter> set (ch_seen s) = {}) ''source cohorts overlap'') (\<lambda>_.
     bind (lift (continue_base base base_accounts cohort source)) (\<lambda>source.
     bind (lift (bnd (string_field source ''database'') (with_database client))) (\<lambda>db.
     bind (validate_interval L db source header) (\<lambda>_.
     bind (if ch_database db = ch_database client then ret (ch_bytes s)
           else bind (disk_usage L db) (\<lambda>u. lift (context_res (checked_add (ch_bytes s) u) ''source byte count overflow''))) (\<lambda>total.
     ret \<lparr>ch_sources = ch_sources s @ [source], ch_seen = ch_seen s @ cohort, ch_bytes = total\<rparr>))))))"

fun select_prefixes :: "('w, 'x) nodelib_scheme \<Rightarrow> ClickHouse \<Rightarrow> json list \<Rightarrow> ('w node, json list) io" where
  "select_prefixes L client [] = ret []"
| "select_prefixes L client (s # ss) =
     bind (lift (bnd (string_field s ''database'') (with_database client))) (\<lambda>db.
     bind (select_prefix L db s) (\<lambda>t.
     bind (select_prefixes L client ss) (\<lambda>ts. ret (t # ts))))"

definition within :: "('w, 'x) nodelib_scheme \<Rightarrow> ClickHouse \<Rightarrow> u64 \<Rightarrow> u64 \<Rightarrow> string \<Rightarrow> ('w, unit) io" where
  "within L client source_bytes budget_bytes msg =
     bind (disk_usage L client) (\<lambda>used. check (unat used + unat source_bytes < unat budget_bytes) msg)"

section \<open>The accounts\<close>

record building =
  bu_query :: "(string \<times> json) list"
  bu_digest :: string
  bu_rows :: "json list"
  bu_verification :: json
  bu_slots :: u64

definition slots_sql :: string where
  "slots_sql = ''SELECT slot,value FROM checkpoint_storage FINAL WHERE snapshot_id={id:String} AND address={address:String} ORDER BY slot''"

definition slot_row :: "json res \<Rightarrow> (string \<times> string) res" where
  "slot_row r = bnd r (\<lambda>row. bnd (string_field row ''slot'') (\<lambda>slot. bnd (string_field row ''value'') (\<lambda>value. Inr (slot, value))))"

definition hashed_slot :: "string \<Rightarrow> (string \<times> string) res \<Rightarrow> string" where
  "hashed_slot account r = (case r of Inr (slot, value) \<Rightarrow> account @ slot @ value | Inl _ \<Rightarrow> [])"

definition observed_metadata :: "json \<Rightarrow> json \<Rightarrow> string \<Rightarrow> json res" where
  "observed_metadata metadata known account = (case get known account of None \<Rightarrow> Inr metadata
     | Some fs \<Rightarrow> bnd (context_res (as_object fs) ''invalid known account fields'') (Manifest.extend metadata))"

definition account_code :: "json \<Rightarrow> json \<Rightarrow> string res" where
  "account_code metadata evidence =
     context_res (as_str (case get metadata ''code'' of Some c \<Rightarrow> c | None \<Rightarrow> index evidence ''code'')) ''invalid account bytecode''"

definition built_row :: "('w, 'x) nodelib_scheme \<Rightarrow> Account \<Rightarrow> string \<Rightarrow> u64 \<Rightarrow> json" where
  "built_row L proven code n = jset (jset (account_json (nl_evm L) proven) ''code'' (JStr code)) ''nonzero_slots'' (jnum n)"

definition account_evidence :: "('w, 'x) nodelib_scheme \<Rightarrow> json \<Rightarrow> json \<Rightarrow> string \<Rightarrow> (Account \<times> json \<times> string) res" where
  "account_evidence L bundle known account =
     (let evidence = index (index bundle ''accounts'') account in
      bnd (bnd (string_field (index bundle ''header'') ''state_root'') (\<lambda>root. verify_account (nl_evm L) root account (index evidence ''proof''))) (\<lambda>proven.
      bnd (observed_metadata (account_json (nl_evm L) proven) known account) (\<lambda>metadata.
      bnd (account_code metadata evidence) (\<lambda>code.
      Inr (proven, metadata, code)))))"

definition build_account :: "('w, 'x) nodelib_scheme \<Rightarrow> capcfg \<Rightarrow> (string \<Rightarrow> string option list) \<Rightarrow> ClickHouse \<Rightarrow> json \<Rightarrow> json \<Rightarrow> string list \<Rightarrow> string \<Rightarrow>
    u64 \<Rightarrow> u64 \<Rightarrow> string \<Rightarrow> building \<Rightarrow> ('w node, building) io" where
  "build_account L C sqlite client bundle known paths snapshot_id source_bytes budget_bytes account s =
     (let query = bt_insert ''address'' (JStr account) (bu_query s) in
      bind (lift (account_evidence L bundle known account)) (\<lambda>(proven, metadata, code).
      bind (on_db (rows L client slots_sql query)) (\<lambda>rs.
      let slots = map slot_row (collect_rows L rs) in
      bind (on_fs fs_try) (\<lambda>_.
      bind (lift (verify_complete (nl_evm L) (sqlite account) proven slots code metadata)) (\<lambda>n.
      bind (capacity_ok L C client paths ''checkpoint-trie'') (\<lambda>_.
      let row = built_row L proven code n in
      bind (lift (context_res (checked_add (bu_slots s) n) ''checkpoint slot count overflow'')) (\<lambda>total.
      bind (on_db (within L client source_bytes budget_bytes ''checkpoint exceeds retained-data budget; candidate remains unpublished'')) (\<lambda>_.
      bind (capacity_ok L C client paths ''checkpoint-account'') (\<lambda>_.
      ret \<lparr>bu_query = query, bu_digest = bu_digest s @ concat (map (hashed_slot account) slots) @ node_canonical L row,
        bu_rows = bu_rows s @ [jset row ''snapshot_id'' (JStr snapshot_id)],
        bu_verification = jset (bu_verification s) account
          (jobj [(''nonzero_slots'', jnum n), (''account_proof'', JStr ''verified''), (''storage_root'', JStr ''verified'')]),
        bu_slots = total\<rparr>)))))))))"

section \<open>Publication\<close>

definition storage_sql :: "string \<Rightarrow> string" where
  "storage_sql changes = ''INSERT INTO checkpoint_storage SELECT {id:String}, address, slot, argMax(value, position) AS final_value FROM ('' @ changes @
     '') GROUP BY address, slot HAVING final_value != '' @ quoted ZERO"

definition ready_manifest :: "('w, 'x) nodelib_scheme \<Rightarrow> json \<Rightarrow> string \<Rightarrow> string list \<Rightarrow> string option \<Rightarrow> json list \<Rightarrow> building \<Rightarrow> u64 \<Rightarrow> u64 \<Rightarrow> json" where
  "ready_manifest L bundle snapshot_id accounts base_id sources s created budget_bytes =
     jobj [(''format_version'', JNum ''1''), (''snapshot_id'', JStr snapshot_id), (''status'', JStr ''ready''), (''chain_id'', index bundle ''chain_id''),
       (''header'', index bundle ''header''), (''header_trust'', index bundle ''header_trust''), (''accounts'', JArr (map JStr accounts)),
       (''base_snapshot'', case base_id of None \<Rightarrow> JNull | Some i \<Rightarrow> JStr i), (''sources'', JArr sources), (''verification'', bu_verification s),
       (''state_sha256'', JStr (hex_encode (nl_evm L) (sha256 L (bu_digest s)))), (''proof_bundle'', bundle), (''created_at'', jnum created),
       (''retained_budget_bytes'', jnum budget_bytes), (''account_count'', JNum (show_nat (length accounts))), (''nonzero_slots'', jnum (bu_slots s))]"

definition publication_row :: "('w, 'x) nodelib_scheme \<Rightarrow> u64 \<Rightarrow> json \<Rightarrow> string \<Rightarrow> json" where
  "publication_row L target manifest' snapshot_id =
     jobj [(''snapshot_id'', JStr snapshot_id), (''block_number'', jnum target), (''block_hash'', index (index manifest' ''header'') ''hash''),
       (''created_at'', index manifest' ''created_at''), (''manifest'', JStr (node_canonical L manifest'))]"

definition check_total :: "('w, 'x) nodelib_scheme \<Rightarrow> ClickHouse \<Rightarrow> building \<Rightarrow> ('w, unit) io" where
  "check_total L client s =
     bind (one L client ''SELECT count() AS count FROM checkpoint_storage FINAL WHERE snapshot_id={id:String}'' (bu_query s)) (\<lambda>row.
     bind (lift (uint (index row ''count''))) (\<lambda>n.
     check (n = bu_slots s) ''checkpoint contains unverified or unexpected storage accounts''))"

definition build_paths :: "string \<Rightarrow> string \<Rightarrow> json list \<Rightarrow> string list res" where
  "build_paths control_path work_dir sources =
     bnd (map_res (\<lambda>s. string_field s ''state_directory'') sources) (\<lambda>ds. Inr (control_path # work_dir # ds))"

definition publish :: "('w, 'x) nodelib_scheme \<Rightarrow> capcfg \<Rightarrow> ClickHouse \<Rightarrow> json \<Rightarrow> u64 \<Rightarrow> string \<Rightarrow> string list \<Rightarrow> string option \<Rightarrow> json list \<Rightarrow>
    string list \<Rightarrow> u64 \<Rightarrow> ('w node, unit) io \<Rightarrow> building \<Rightarrow> ('w node, json) io" where
  "publish L C client bundle target snapshot_id accounts base_id sources paths budget_bytes after_accounts s =
     bind (on_db (insert_values L client ''checkpoint_accounts'' (bu_rows s))) (\<lambda>_.
     bind after_accounts (\<lambda>_.
     bind (now_ns L) (\<lambda>created.
     let manifest' = ready_manifest L bundle snapshot_id accounts base_id sources s created budget_bytes in
     bind (capacity_ok L C client paths ''checkpoint-publish'') (\<lambda>_.
     bind (on_db (insert_values L client ''checkpoints'' [publication_row L target manifest' snapshot_id])) (\<lambda>_.
     ret manifest')))))"

definition build_unlocked :: "('w, 'x) nodelib_scheme \<Rightarrow> capcfg \<Rightarrow> (string \<Rightarrow> string option list) \<Rightarrow> ClickHouse \<Rightarrow> json \<Rightarrow> json list \<Rightarrow> string option \<Rightarrow>
    u64 \<Rightarrow> string \<Rightarrow> string \<Rightarrow> ('w node, unit) io \<Rightarrow> ('w node, json) io" where
  "build_unlocked L C sqlite client bundle sources base_id budget_bytes work_dir control_path after_accounts =
     bind (lift (check_bundle L bundle)) (\<lambda>target.
     bind (lift (canonical_accounts L (index bundle ''accounts''))) (\<lambda>accounts.
     bind (on_db (base_checkpoint L client base_id)) (\<lambda>(base, base_accounts).
     bind (lift (check_base target accounts base base_accounts)) (\<lambda>_.
     bind (select_prefixes L client sources) (\<lambda>sources.
     bind (on_db (fold_io (build_source L client (index bundle ''header'') base base_accounts) sources
       \<lparr>ch_sources = [], ch_seen = [], ch_bytes = 0\<rparr>)) (\<lambda>cs.
     bind (check (set (ch_seen cs) = set accounts) ''source account coverage differs from proof bundle'') (\<lambda>_.
     bind (lift (build_paths control_path work_dir (ch_sources cs))) (\<lambda>paths.
     bind (capacity_ok L C client paths ''checkpoint-start'') (\<lambda>_.
     bind (on_db (within L client (ch_bytes cs) budget_bytes ''retained-data budget already exhausted'')) (\<lambda>_.
     bind (new_id L) (\<lambda>snapshot_id.
     bind (lift (bnd (params (jobj [(''id'', JStr snapshot_id), (''end'', jnum target)])) (union_storage (ch_sources cs) base))) (\<lambda>(changes, query).
     bind (on_db (execute L client (storage_sql changes) query)) (\<lambda>_.
     bind (on_db (observed_fields L client (ch_sources cs) base query)) (\<lambda>fs.
     bind (on_fs fs_try) (\<lambda>_.
     bind (fold_io (build_account L C sqlite client bundle fs paths snapshot_id (ch_bytes cs) budget_bytes) accounts
       \<lparr>bu_query = query, bu_digest = [], bu_rows = [], bu_verification = JObj [], bu_slots = 0\<rparr>) (\<lambda>s.
     bind (on_db (check_total L client s)) (\<lambda>_.
     bind (check (case fs of JObj kvs \<Rightarrow> list_all (\<lambda>(a, _). a \<in> set accounts) kvs | _ \<Rightarrow> False)
       ''stream contains account metadata outside its declared filter'') (\<lambda>_.
     publish L C client bundle target snapshot_id accounts base_id (ch_sources cs) paths budget_bytes after_accounts s))))))))))))))))))"

text \<open>Every qualified source stays locked until the build ends.\<close>

fun with_sources :: "('w, 'x) nodelib_scheme \<Rightarrow> ClickHouse \<Rightarrow> u64 \<Rightarrow> json list \<Rightarrow> json list \<Rightarrow> (json list \<Rightarrow> ('w node, 'a) io) \<Rightarrow> ('w node, 'a) io" where
  "with_sources L client end_block [] checked k = k checked"
| "with_sources L client end_block (s # ss) checked k =
     bind (lift (bnd (string_field s ''database'') (with_database client))) (\<lambda>db.
     verified_source L db s (Some client) (Some end_block) (\<lambda>c. with_sources L client end_block ss (checked @ [c]) k))"

definition build_observed :: "('w, 'x) nodelib_scheme \<Rightarrow> capcfg \<Rightarrow> (string \<Rightarrow> string option list) \<Rightarrow> string \<Rightarrow> ClickHouse \<Rightarrow> json \<Rightarrow> json list \<Rightarrow> string option \<Rightarrow>
    u64 \<Rightarrow> string \<Rightarrow> ('w node, unit) io \<Rightarrow> ('w node, json) io" where
  "build_observed L C sqlite checkpoints_sql client bundle sources base_id budget_bytes work_dir after_accounts =
     bind (on_db (checkpoint_setup L client checkpoints_sql)) (\<lambda>_.
     bind (control_open L client) (\<lambda>owner.
     control_publisher L owner (
       bind (lift (uint (index (index bundle ''header'') ''number''))) (\<lambda>end_block.
       with_sources L client end_block sources [] (\<lambda>checked.
         build_unlocked L C sqlite client bundle checked base_id budget_bytes work_dir (co_path owner) after_accounts)))))"

definition build :: "('w, 'x) nodelib_scheme \<Rightarrow> capcfg \<Rightarrow> (string \<Rightarrow> string option list) \<Rightarrow> string \<Rightarrow> ClickHouse \<Rightarrow> json \<Rightarrow> json list \<Rightarrow> string option \<Rightarrow>
    u64 \<Rightarrow> string \<Rightarrow> ('w node, json) io" where
  "build L C sqlite checkpoints_sql client bundle sources base_id budget_bytes work_dir =
     build_observed L C sqlite checkpoints_sql client bundle sources base_id budget_bytes work_dir (ret ())"

section \<open>Nothing is published before everything is verified\<close>

definition publish_sql :: string where
  "publish_sql = ''INSERT INTO checkpoints FORMAT JSONEachRow''"

text \<open>
  An account of the candidate is verified: its proof fits the header's state root, and the storage
  rows read back for it from the candidate, all of them, hash to the proven root.
\<close>

definition verified_account :: "('w, 'x) nodelib_scheme \<Rightarrow> (string \<Rightarrow> string option list) \<Rightarrow> ClickHouse \<Rightarrow> json \<Rightarrow> json \<Rightarrow> string \<Rightarrow> string \<Rightarrow> u64 \<Rightarrow> bool" where
  "verified_account L sqlite client bundle known snapshot_id account n \<longleftrightarrow> (\<exists>proven metadata code query rs w w'.
     account_evidence L bundle known account = Inr (proven, metadata, code) \<and>
     map_of query ''id'' = Some (JStr snapshot_id) \<and> map_of query ''address'' = Some (JStr account) \<and>
     rows L client slots_sql query w = (Inr rs, w') \<and>
     verify_complete (nl_evm L) (sqlite account) proven (map slot_row (collect_rows L rs)) code metadata = Inr n)"

lemma build_account_Inr:
  assumes "build_account L C sqlite client bundle known paths snapshot_id sb bb account s n = (Inr t, n')"
    "map_of (bu_query s) ''id'' = Some (JStr snapshot_id)"
  shows "\<exists>k. verified_account L sqlite client bundle known snapshot_id account k \<and> unat (bu_slots t) = unat (bu_slots s) + unat k"
    "map_of (bu_query t) ''id'' = Some (JStr snapshot_id)"
proof -
  from assms(1) obtain proven metadata code rs w w' k where
    d: "account_evidence L bundle known account = Inr (proven, metadata, code)"
      "rows L client slots_sql (bt_insert ''address'' (JStr account) (bu_query s)) w = (Inr rs, w')"
      "verify_complete (nl_evm L) (sqlite account) proven (map slot_row (collect_rows L rs)) code metadata = Inr k"
      "checked_add (bu_slots s) k = Some (bu_slots t)" "bu_query t = bt_insert ''address'' (JStr account) (bu_query s)"
    unfolding build_account_def Let_def
    by (auto simp: bind_Inr_iff on_db_Inr context_res_Inr_iff split: prod.splits)
  show "\<exists>k. verified_account L sqlite client bundle known snapshot_id account k \<and> unat (bu_slots t) = unat (bu_slots s) + unat k"
  proof (intro exI conjI)
    have q: "map_of (bt_insert ''address'' (JStr account) (bu_query s)) ''id'' = Some (JStr snapshot_id)"
        "map_of (bt_insert ''address'' (JStr account) (bu_query s)) ''address'' = Some (JStr account)" using assms(2) by simp_all
    show "verified_account L sqlite client bundle known snapshot_id account k"
      unfolding verified_account_def by (intro exI conjI) (rule d(1) q d(2) d(3))+
    show "unat (bu_slots t) = unat (bu_slots s) + unat k" using d(4) by (simp add: checked_add_Some_iff)
  qed
  show "map_of (bu_query t) ''id'' = Some (JStr snapshot_id)" using d(5) assms(2) by simp
qed

lemma build_accounts_Inr:
  assumes "fold_io (build_account L C sqlite client bundle known paths snapshot_id sb bb) accounts s n = (Inr t, n')"
    "map_of (bu_query s) ''id'' = Some (JStr snapshot_id)"
  shows "\<exists>ks. list_all2 (verified_account L sqlite client bundle known snapshot_id) accounts ks \<and>
    unat (bu_slots t) = unat (bu_slots s) + sum_list (map unat ks) \<and> map_of (bu_query t) ''id'' = Some (JStr snapshot_id)"
  using assms
proof (induction accounts arbitrary: s n)
  case Nil
  then show ?case by simp
next
  case (Cons a as)
  from Cons.prems(1) obtain u m where u: "build_account L C sqlite client bundle known paths snapshot_id sb bb a s n = (Inr u, m)"
      "fold_io (build_account L C sqlite client bundle known paths snapshot_id sb bb) as u m = (Inr t, n')"
    by (auto simp: bind_Inr_iff)
  note b = build_account_Inr [OF u(1) Cons.prems(2)]
  from b(1) obtain k where k: "verified_account L sqlite client bundle known snapshot_id a k" "unat (bu_slots u) = unat (bu_slots s) + unat k" by blast
  from Cons.IH [OF u(2) b(2)] obtain ks where "list_all2 (verified_account L sqlite client bundle known snapshot_id) as ks"
      "unat (bu_slots t) = unat (bu_slots u) + sum_list (map unat ks)" "map_of (bu_query t) ''id'' = Some (JStr snapshot_id)" by blast
  with k show ?case by (intro exI [of _ "k # ks"]) simp
qed

lemma union_storage_id:
  assumes "union_storage sources base ps = Inr (changes, query)" "map_of ps ''id'' = Some v"
  shows "map_of query ''id'' = Some v"
proof -
  have step: "map_of (qs_params t) ''id'' = map_of (qs_params s) ''id''" if "source_query e s = Inr t" for e s t
    using that by (auto simp: source_query_def Let_def bnd_Inr_iff split: prod.splits option.splits)
  have "map_of (qs_params t) ''id'' = map_of (qs_params s) ''id''" if "fold_res source_query es s = Inr t" for es s t
    using that by (induction es arbitrary: s) (auto simp: bnd_Inr_iff dest!: step)
  with assms show ?thesis
    by (auto simp: union_storage_def Let_def bnd_Inr_iff ensure_Inr_iff split: option.splits if_splits)
qed

definition verified_candidate :: "('w, 'x) nodelib_scheme \<Rightarrow> (string \<Rightarrow> string option list) \<Rightarrow> ClickHouse \<Rightarrow> json \<Rightarrow> string option \<Rightarrow> bool" where
  "verified_candidate L sqlite client bundle base_id \<longleftrightarrow> (\<exists>target accounts base base_accounts sources cs known snapshot_id ks s w1 w2 w3 w4 w5 w6.
     check_bundle L bundle = Inr target \<and> canonical_accounts L (index bundle ''accounts'') = Inr accounts \<and>
     base_checkpoint L client base_id w1 = (Inr (base, base_accounts), w2) \<and> check_base target accounts base base_accounts = Inr () \<and>
     fold_io (build_source L client (index bundle ''header'') base base_accounts) sources \<lparr>ch_sources = [], ch_seen = [], ch_bytes = 0\<rparr> w3 = (Inr cs, w4) \<and>
     set (ch_seen cs) = set accounts \<and>
     list_all2 (verified_account L sqlite client bundle known snapshot_id) accounts ks \<and>
     check_total L client s w5 = (Inr (), w6) \<and> map_of (bu_query s) ''id'' = Some (JStr snapshot_id) \<and> unat (bu_slots s) = sum_list (map unat ks))"

lemma keeps_base_checkpoint: "observed L ok parts \<Longrightarrow> keeps parts (base_checkpoint L client base_id)"
  unfolding base_checkpoint_def by (auto intro!: keeps_bind kept keeps_manifest_unlocked split: option.split)

lemma keeps_select_prefixes: "observed L ok parts \<Longrightarrow> keeps_node parts (select_prefixes L client sources)"
  by (induction sources) (auto intro!: keeps_bind kept keeps_select_prefix)

lemma keeps_build_source: "observed L ok parts \<Longrightarrow> keeps parts (build_source L client header base base_accounts source s)"
  unfolding build_source_def by (intro keeps_bind kept keeps_validate_interval keeps_if keeps_disk_usage)

lemma keeps_within: "observed L ok parts \<Longrightarrow> keeps parts (within L client sb bb msg)"
  unfolding within_def by (intro keeps_bind kept keeps_disk_usage)

lemma keeps_check_total: "observed L ok parts \<Longrightarrow> keeps parts (check_total L client s)"
  unfolding check_total_def by (intro keeps_bind kept keeps_reads) simp_all

lemma keeps_build_account:
  assumes "observed L ok parts"
  shows "keeps_node parts (build_account L C sqlite client bundle known paths snapshot_id sb bb account s)"
proof -
  have "keeps parts (rows L client slots_sql q)" for q by (rule keeps_reads [OF assms]) (simp add: slots_sql_def)
  then show ?thesis unfolding build_account_def Let_def
    by (auto intro!: keeps_bind kept keeps_on_db keeps_capacity_ok [OF assms] keeps_within [OF assms] split: prod.split)
qed

text \<open>Only the insertion into the table of checkpoints changes what is published.\<close>

definition publishing_server :: "('w, 'x) chlib_scheme \<Rightarrow> ('w \<Rightarrow> 'p) \<Rightarrow> bool" where
  "publishing_server L published \<longleftrightarrow> observed L (\<lambda>sql. sql \<noteq> publish_sql) published"

lemma build_unlocked_verified:
  assumes "publishing_server L published" "keeps_node published after_accounts" "published (nd_db n) = h"
  shows "only_after (\<lambda>n. published (nd_db n)) h (\<lambda>_. verified_candidate L sqlite client bundle base_id)
    (build_unlocked L C sqlite client bundle sources base_id budget work_dir control_path after_accounts) n"
proof -
  have o: "observed L (\<lambda>sql. sql \<noteq> publish_sql) published" using assms(1) by (simp add: publishing_server_def)
  have ins: "keeps published (insert_values L client ''checkpoint_accounts'' vs)" for vs
    by (rule keeps_insert_values [OF o]) (simp add: publish_sql_def)
  have ex: "keeps published (execute L client (storage_sql changes) q)" for changes q
    by (rule keeps_execute [OF o]) (simp add: publish_sql_def storage_sql_def)
  have bs: "keeps published (fold_io (build_source L client header base ba) ss s)" for header base ba ss s
    by (intro keeps_fold_io keeps_build_source [OF o])
  have ba: "keeps_node published (fold_io (build_account L C sqlite client bundle known paths i sb bb) as s)" for known paths i sb bb as s
    by (intro keeps_fold_io keeps_build_account [OF o])
  have final: "only_after (\<lambda>n. published (nd_db n)) h (\<lambda>_. verified_candidate L sqlite client bundle base_id)
      (bind (on_db (insert_values L client ''checkpoints'' vs)) (\<lambda>_. ret v)) m"
    if d: "check_bundle L bundle = Inr target" "canonical_accounts L (index bundle ''accounts'') = Inr accounts"
      "on_db (base_checkpoint L client base_id) m1 = (Inr (base, bas), m2)" "check_base target accounts base bas = Inr u"
      "on_db (fold_io (build_source L client (index bundle ''header'') base bas) ss \<lparr>ch_sources = [], ch_seen = [], ch_bytes = 0\<rparr>) m3 = (Inr cs, m4)"
      "set (ch_seen cs) = set accounts"
      "bnd (params (jobj [(''id'', JStr i), (''end'', jnum target)])) (union_storage (ch_sources cs) base) = Inr (changes, q)"
      "fold_io (build_account L C sqlite client bundle known paths i sb bb) accounts \<lparr>bu_query = q, bu_digest = [], bu_rows = [], bu_verification = JObj [], bu_slots = 0\<rparr> m5 = (Inr s, m6)"
      "on_db (check_total L client s) m7 = (Inr u', m8)"
    for target accounts m1 base bas m2 u ss m3 cs m4 i changes q known paths sb bb m5 s m6 m7 u' m8 vs v m
  proof (rule only_after_all)
    from d(7) have "map_of q ''id'' = Some (JStr i)"
      by (auto simp: bnd_Inr_iff params_def jobj_def bt_of_list_def as_object_def split: if_splits dest!: union_storage_id)
    then obtain ks where ks: "list_all2 (verified_account L sqlite client bundle known i) accounts ks" "unat (bu_slots s) = sum_list (map unat ks)"
        "map_of (bu_query s) ''id'' = Some (JStr i)"
      using build_accounts_Inr [OF d(8)] by auto
    have p: "base_checkpoint L client base_id (nd_db m1) = (Inr (base, bas), nd_db m2)"
        "fold_io (build_source L client (index bundle ''header'') base bas) ss \<lparr>ch_sources = [], ch_seen = [], ch_bytes = 0\<rparr> (nd_db m3) = (Inr cs, nd_db m4)"
        "check_total L client s (nd_db m7) = (Inr (), nd_db m8)" "check_base target accounts base bas = Inr ()"
      using d(3,4,5,9) by (auto simp: on_db_Inr)
    show "verified_candidate L sqlite client bundle base_id"
      unfolding verified_candidate_def by (intro exI conjI) (rule d(1,2) p(1) p(4) p(2) d(6) ks(1) p(3) ks(3) ks(2))+
  qed
  show ?thesis
    unfolding build_unlocked_def publish_def Let_def
    by (intro only_after_bind2 [OF keeps_on_db [OF keeps_base_checkpoint [OF o]]] only_after_lift2 only_after_lift only_after_check assms(3)
        only_after_bind [OF keeps_select_prefixes [OF o]] only_after_bind [OF keeps_on_db [OF bs]] only_after_bind [OF keeps_capacity_ok [OF o]]
        only_after_bind [OF keeps_on_db [OF keeps_within [OF o]]] only_after_bind [OF keeps_draws(1)] only_after_bind [OF keeps_draws(2)]
        only_after_bind [OF keeps_on_db [OF ex]] only_after_bind [OF keeps_on_db [OF keeps_observed_fields [OF o]]] only_after_bind [OF keeps_on_fs(1)]
        only_after_bind [OF ba] only_after_bind [OF keeps_on_db [OF keeps_check_total [OF o]]] only_after_bind [OF keeps_on_db [OF ins]]
        only_after_bind [OF assms(2)])
      (assumption | rule final)+
qed

lemma only_after_verified_source:
  assumes "observed L ok published" "published (nd_db n) = h"
    "\<And>v n1. published (nd_db n1) = h \<Longrightarrow> only_after (\<lambda>n. published (nd_db n)) h (\<lambda>_. Q) (k v) n1"
  shows "only_after (\<lambda>n. published (nd_db n)) h (\<lambda>_. Q) (verified_source L client source checkpoints end_block k) n"
proof -
  have here: "keeps_node published (if c then host_matches L identity d else ret False)" for c identity d
    by (simp add: keeps_host)
  show ?thesis
    unfolding verified_source_def
    by (intro only_after_bind2 [OF keeps_on_db [OF keeps_source_identity [OF assms(1)]]] only_after_lift only_after_bind [OF here] only_after_check
        only_after_holding only_after_bind [OF keeps_source_validate [OF assms(1)]] only_after_bind [OF keeps_reached [OF assms(1)]] assms(2,3))
      assumption+
qed

lemma only_after_with_sources:
  assumes "observed L ok published" "\<And>v n1. published (nd_db n1) = h \<Longrightarrow> only_after (\<lambda>n. published (nd_db n)) h (\<lambda>_. Q) (k v) n1"
  shows "published (nd_db n) = h \<Longrightarrow> only_after (\<lambda>n. published (nd_db n)) h (\<lambda>_. Q) (with_sources L client e sources checked k) n"
proof (induction sources arbitrary: checked n)
  case Nil
  then show ?case by (simp add: assms(2))
next
  case (Cons s ss)
  show ?case unfolding with_sources.simps
    by (intro only_after_lift only_after_verified_source [OF assms(1)] Cons) assumption
qed

lemma keeps_checkpoint_setup:
  assumes "observed L (\<lambda>sql. sql \<noteq> publish_sql) published"
    and "list_all (\<lambda>s. s \<noteq> publish_sql) (split_on (\<lambda>c. c = CHR '';'') checkpoints_sql)"
  shows "keeps published (checkpoint_setup L client checkpoints_sql)"
  unfolding checkpoint_setup_def
  by (intro keeps_bind kept keeps_execute [OF assms(1)] keeps_for_each) (use assms(2) in \<open>auto simp: list_all_iff publish_sql_def\<close>)

lemma build_verified:
  assumes "publishing_server L published" "keeps_node published after_accounts"
    and "list_all (\<lambda>s. s \<noteq> publish_sql) (split_on (\<lambda>c. c = CHR '';'') checkpoints_sql)" "published (nd_db n) = h"
  shows "only_after (\<lambda>n. published (nd_db n)) h (\<lambda>_. verified_candidate L sqlite client bundle base_id)
    (build_observed L C sqlite checkpoints_sql client bundle sources base_id budget work_dir after_accounts) n"
proof -
  have o: "observed L (\<lambda>sql. sql \<noteq> publish_sql) published" using assms(1) by (simp add: publishing_server_def)
  note created = keeps_checkpoint_setup [OF o assms(3)]
  show ?thesis
    unfolding build_observed_def
    by (intro only_after_bind [OF keeps_on_db [OF created]] only_after_bind [OF keeps_control_open [OF o]] only_after_publisher only_after_lift
        only_after_with_sources [OF o] build_unlocked_verified [OF assms(1,2)] assms(4)) assumption+
qed


section \<open>A concrete server\<close>

text \<open>A server that keeps the texts inserted into the table of checkpoints.\<close>

definition ex_publish_post :: "ClickHouse \<Rightarrow> (string \<times> string) list \<Rightarrow> string \<Rightarrow> string list \<Rightarrow> (http_error + Response) \<times> string list" where
  "ex_publish_post c q body w = (Inr \<lparr>rs_code = 200, rs_success = True, rs_exception = None, rs_body = [], rs_broken = False\<rparr>,
     if snd (q ! 1) = publish_sql then w @ [body] else w)"

definition ex_publish_lib :: "string list nodelib" where
  "ex_publish_lib = \<lparr>url_ok = (\<lambda>_. True), http_post = ex_publish_post, json_parse = (\<lambda>_. None), json_print = (\<lambda>_. []),
     nl_evm = ex_evm, sha256 = (\<lambda>_. []), b64_decode = ex_b64d, b64_encode = ref_encode,
     cursor_decrypt = ex_decrypt, cursor_encrypt = ex_encrypt, json_text = (\<lambda>_. []), json_pretty = (\<lambda>_. []),
     fs_temp = (\<lambda>d s. d @ ''/.tmp''),
     nl_read_dir = (\<lambda>_ _. []), nl_is_dir = (\<lambda>_. True), nl_lstat = (\<lambda>_. NotLink), nl_cwd = Inr [RootDir], nl_hostname = Inr ''h'',
     nl_uuid = (\<lambda>_. None), nl_new_id = (\<lambda>_. []), nl_clock = (\<lambda>k. Inr k), nl_pid = 1\<rparr>"

lemma ex_publishing: "publishing_server ex_publish_lib (\<lambda>w. w)"
  by (auto simp: publishing_server_def observed_def ex_publish_lib_def ex_publish_post_def harmless_def control_create_def publish_sql_def)

definition ex_publish_node :: "string list node" where
  "ex_publish_node = \<lparr>nd_db = [''old''], nd_fs = \<lparr>fs_files = Map.empty, fs_plan = []\<rparr>, nd_locks = [], nd_tick = 0\<rparr>"


end
