(* ===== verification/Export.thy ===== *)
theory Export
  imports Build
begin

text \<open>
  Portable checkpoint files, \<open>crates/evm-state/src/export.rs\<close>: the files of an export, the offline
  verification of its layout, and the export of a published checkpoint, whose manifest is written
  last.  Compression and the existence of directories are parameters.
\<close>

record portlib =
  gz_pack :: "string \<Rightarrow> string"
  gz_unpack :: "string \<Rightarrow> string \<times> bool"  \<comment> \<open>what can be decoded, and whether the stream is broken there\<close>
  dir_there :: "string \<Rightarrow> fsys \<Rightarrow> bool"

definition FORMAT :: string where
  "FORMAT = ''evm-state-checkpoint-v1''"

definition ACCOUNT_FIELDS :: "string list" where
  "ACCOUNT_FIELDS = [''address'', ''exists'', ''nonce'', ''balance'', ''code_hash'', ''code'', ''storage_root'', ''nonzero_slots'']"

definition MAX_JSON_BYTES :: nat where
  "MAX_JSON_BYTES = 64 * 1024 * 1024"

section \<open>Files\<close>

definition export_json :: "('w, 'x) nodelib_scheme \<Rightarrow> string \<Rightarrow> (fsys, json) io" where
  "export_json L path =
     bind (fs_read path) (\<lambda>c.
     bind (check (length c \<le> MAX_JSON_BYTES) ''export metadata exceeds its size limit'') (\<lambda>_.
     lift (context_res (json_parse L c) ''invalid export metadata'')))"

definition strip_suffix :: "string \<Rightarrow> string \<Rightarrow> string option" where
  "strip_suffix suf s = map_option rev (strip_prefix (rev suf) (rev s))"

definition export_name_ok :: "string \<Rightarrow> bool" where
  "export_name_ok name \<longleftrightarrow> name = ''accounts.json'' \<or>
     (case Option.bind (strip_prefix ''storage-'' name) (strip_suffix ''.jsonl.gz'') of
        None \<Rightarrow> False | Some n \<Rightarrow> length n = 6 \<and> list_all is_digit n)"

definition file_hash :: "('w, 'x) nodelib_scheme \<Rightarrow> string \<Rightarrow> (fsys, string) io" where
  "file_hash L path = bind (fs_read path) (\<lambda>c. ret (hex_encode (nl_evm L) (sha256 L c)))"

definition check_file :: "('w, 'x) nodelib_scheme \<Rightarrow> string \<Rightarrow> json \<Rightarrow> (fsys, string) io" where
  "check_file L directory item =
     bind (lift (string_field item ''file'')) (\<lambda>name.
     bind (check (export_name_ok name) ''invalid checkpoint export filename'') (\<lambda>_.
     let path = path_join directory name in
     bind (fs_read path) (\<lambda>c.
     bind (check (as_u64 (index item ''bytes'') = Some (of_nat (length c))) ''export file size or checksum mismatch'') (\<lambda>_.
     bind (lift (string_field item ''sha256'')) (\<lambda>h.
     bind (check (hex_encode (nl_evm L) (sha256 L c) = h) ''export file size or checksum mismatch'') (\<lambda>_.
     ret path))))))"

definition validate_account_fields :: "json \<Rightarrow> unit res" where
  "validate_account_fields metadata =
     bnd (context_res (as_object metadata) ''invalid exported account metadata'') (\<lambda>fs.
     ensure (length fs = length ACCOUNT_FIELDS \<and> list_all (\<lambda>f. map_of fs f \<noteq> None) ACCOUNT_FIELDS \<and>
         (case index metadata ''exists'' of JBool _ \<Rightarrow> True | _ \<Rightarrow> False))
       ''invalid exported account metadata'' (Inr ()))"

definition exact_nonce :: "json \<Rightarrow> u64 res" where
  "exact_nonce v =
     bnd (context_res (as_str v) ''export nonce must be exact decimal text'') (\<lambda>t.
     ensure (exact_decimal t) ''export nonce must be exact decimal text''
     (context_res (parse_u64 t) ''export nonce exceeds uint64''))"

section \<open>Pages\<close>

record PageRows =
  pg_rest :: string
  pg_broken :: bool
  pg_item :: json
  pg_count :: u64
  pg_first :: "string option"
  pg_last :: "string option"
  pg_finished :: bool

text \<open>At most 1025 bytes, through the next newline.\<close>

fun read_until :: "nat \<Rightarrow> string \<Rightarrow> string \<times> string" where
  "read_until 0 s = ([], s)"
| "read_until (Suc n) [] = ([], [])"
| "read_until (Suc n) (c # s) = (if c = CHR 0x0A then ([c], s) else (case read_until n s of (a, b) \<Rightarrow> (c # a, b)))"

definition read_line :: "string \<Rightarrow> bool \<Rightarrow> (string \<times> string) res" where
  "read_line s broken = (case read_until 1025 s of (line, rest) \<Rightarrow>
     if broken \<and> rest = [] \<and> length line < 1025 \<and> (line = [] \<or> List.last line \<noteq> CHR 0x0A)
     then Inl ''corrupt deflate stream'' else Inr (line, rest))"

definition page_row_ok :: "json \<Rightarrow> json \<Rightarrow> bool" where
  "page_row_ok item row \<longleftrightarrow> (case row of JObj fs \<Rightarrow> length fs = 3 \<and> list_all (\<lambda>f. map_of fs f \<noteq> None) [''address'', ''slot'', ''value''] | _ \<Rightarrow> False) \<and>
     index row ''address'' = index item ''address''"

definition read_next :: "('w, 'x) nodelib_scheme \<Rightarrow> PageRows \<Rightarrow> json option res \<times> PageRows" where
  "read_next L p = (case read_line (pg_rest p) (pg_broken p) of
     Inl e \<Rightarrow> (Inl e, p)
   | Inr (line, rest) \<Rightarrow>
       let p = p\<lparr>pg_rest := rest\<rparr> in
       if line = [] then
         let p = p\<lparr>pg_finished := True\<rparr> in
         (if Some (pg_count p) = as_u64 (index (pg_item p) ''rows'') \<and> pg_first p = as_str (index (pg_item p) ''first_slot'') \<and>
             pg_last p = as_str (index (pg_item p) ''last_slot'')
          then Inr None else Inl ''export page count or boundary mismatch'', p)
       else if \<not> (length line \<le> 1024 \<and> List.last line = CHR 0x0A) then (Inl ''oversized or truncated export storage row'', p)
       else (case json_parse L line of
         None \<Rightarrow> (Inl ''invalid JSON'', p)
       | Some row \<Rightarrow>
           if \<not> page_row_ok (pg_item p) row then (Inl ''export row has unexpected fields or account'', p)
           else (case string_field row ''slot'' of Inl e \<Rightarrow> (Inl e, p) | Inr slot \<Rightarrow>
             (case bnd (fixed (nl_evm L) 32 slot) (\<lambda>_. bnd (string_field row ''value'') (fixed (nl_evm L) 32)) of Inl e \<Rightarrow> (Inl e, p) | Inr _ \<Rightarrow>
              if \<not> (case pg_last p of None \<Rightarrow> True | Some l \<Rightarrow> l < slot) then (Inl ''export page contains duplicate or unordered slots'', p)
              else let p = p\<lparr>pg_first := (case pg_first p of None \<Rightarrow> Some slot | Some f \<Rightarrow> Some f), pg_last := Some slot, pg_count := pg_count p + 1\<rparr> in
                (case as_u64 (index (pg_item p) ''rows'') of
                   Some n \<Rightarrow> if pg_count p \<le> n then (Inr (Some row), p) else (Inl ''export page exceeds its declared row count'', p)
                 | None \<Rightarrow> (Inl ''called Option::unwrap() on a None value'', p))))))"

definition page_next :: "('w, 'x) nodelib_scheme \<Rightarrow> PageRows \<Rightarrow> json res option \<times> PageRows" where
  "page_next L p = (if pg_finished p then (None, p) else (case read_next L p of
     (Inr (Some row), p) \<Rightarrow> (Some (Inr row), p)
   | (Inr None, p) \<Rightarrow> (None, p)
   | (Inl e, p) \<Rightarrow> (Some (Inl e), p\<lparr>pg_finished := True\<rparr>)))"

lemma read_until_length: "read_until n s = (a, b) \<Longrightarrow> length a + length b = length s"
  by (induction n s arbitrary: a b rule: read_until.induct) (auto split: if_splits prod.splits)

lemma read_until_empty: "read_until n s = ([], b) \<Longrightarrow> 0 < n \<Longrightarrow> s = []"
  by (cases n; cases s) (auto split: if_splits prod.splits)

lemma page_next_rest: "page_next L p = (Some (Inr row), p') \<Longrightarrow> length (pg_rest p') < length (pg_rest p)"
proof -
  assume "page_next L p = (Some (Inr row), p')"
  then have n: "read_next L p = (Inr (Some row), p')" by (auto simp: page_next_def split: if_splits prod.splits sum.splits option.splits)
  then obtain line rest where l: "read_line (pg_rest p) (pg_broken p) = Inr (line, rest)" "line \<noteq> []" "pg_rest p' = rest"
    by (auto simp: read_next_def Let_def split: sum.splits prod.splits if_splits option.splits)
  from l(1) have "read_until 1025 (pg_rest p) = (line, rest)" by (auto simp: read_line_def split: prod.splits if_splits)
  from read_until_length [OF this] l(2,3) show ?thesis by (cases line) auto
qed

text \<open>The rows an iteration over a page yields, up to and including the first error.\<close>

function page_items :: "('w, 'x) nodelib_scheme \<Rightarrow> PageRows \<Rightarrow> json res list" where
  "page_items L p = (case page_next L p of
     (None, _) \<Rightarrow> [] | (Some (Inl e), _) \<Rightarrow> [Inl e] | (Some (Inr row), p') \<Rightarrow> Inr row # page_items L p')"
  by pat_completeness auto

termination
  by (relation "measure (\<lambda>(L, p). length (pg_rest p))") (auto dest: page_next_rest [OF sym])

declare page_items.simps [simp del]

definition page_rows :: "('w, 'x) nodelib_scheme \<Rightarrow> portlib \<Rightarrow> string \<Rightarrow> json \<Rightarrow> (fsys, PageRows) io" where
  "page_rows L G directory item =
     bind (check_file L directory item) (\<lambda>path.
     bind (lift (context_res (as_u64 (index item ''rows'')) ''invalid export page row count'')) (\<lambda>expected.
     bind (check (1 \<le> expected \<and> expected \<le> 10000) ''invalid export page row count'') (\<lambda>_.
     bind (fs_read path) (\<lambda>c.
     ret \<lparr>pg_rest = fst (gz_unpack G c), pg_broken = snd (gz_unpack G c), pg_item = item, pg_count = 0, pg_first = None, pg_last = None, pg_finished = False\<rparr>))))"

section \<open>Writing a page\<close>

definition create_new :: "string \<Rightarrow> (fsys, unit) io" where
  "create_new p = bind fs_try (\<lambda>_. bind (fs_get p) (\<lambda>old.
     if old \<noteq> None then fail ''File exists'' else fs_set p (Some [])))"

definition pad6 :: "nat \<Rightarrow> string" where
  "pad6 n = replicate (6 - length (show_nat n)) CHR ''0'' @ show_nat n"

definition page_name :: "nat \<Rightarrow> string" where
  "page_name i = ''storage-'' @ pad6 i @ ''.jsonl.gz''"

definition page_text :: "('w, 'x) nodelib_scheme \<Rightarrow> json list \<Rightarrow> string" where
  "page_text L rs = concat (map (\<lambda>row. node_canonical L row @ [CHR 0x0A]) rs)"

definition page_entry :: "string \<Rightarrow> string \<Rightarrow> json list \<Rightarrow> nat \<Rightarrow> string \<Rightarrow> json" where
  "page_entry name account rs bytes hash =
     jobj [(''file'', JStr name), (''address'', JStr account), (''rows'', JNum (show_nat (length rs))), (''bytes'', JNum (show_nat bytes)),
       (''sha256'', JStr hash), (''first_slot'', index (hd rs) ''slot''), (''last_slot'', index (List.last rs) ''slot'')]"

definition write_page :: "('w, 'x) nodelib_scheme \<Rightarrow> portlib \<Rightarrow> string \<Rightarrow> nat \<Rightarrow> string \<Rightarrow> json list \<Rightarrow> (fsys, json) io" where
  "write_page L G directory i account rs =
     bind (check (i < 1000000 \<and> rs \<noteq> []) ''invalid export page index or empty page'') (\<lambda>_.
     let name = page_name i; path = path_join directory name in
     bind (create_new path) (\<lambda>_.
     bind (write_all path (gz_pack G (page_text L rs))) (\<lambda>_.
     bind fs_try (\<lambda>_.
     bind (fs_read path) (\<lambda>c.
     bind (file_hash L path) (\<lambda>hash.
     ret (page_entry name account rs (length c) hash)))))))"

section \<open>Pages read back as they were written\<close>

definition row_slot :: "json \<Rightarrow> string" where
  "row_slot row = (case index row ''slot'' of JStr s \<Rightarrow> s | _ \<Rightarrow> [])"

text \<open>
  A storage row that a page can hold: an address, a slot and a value of 32 bytes, whose canonical
  text is one line of at most 1023 bytes that the parser reads back.
\<close>

definition storable :: "('w, 'x) nodelib_scheme \<Rightarrow> string \<Rightarrow> json \<Rightarrow> bool" where
  "storable L account row \<longleftrightarrow> (case row of JObj fs \<Rightarrow> length fs = 3 \<and> map_of fs ''address'' = Some (JStr account) \<and>
       (case (map_of fs ''slot'', map_of fs ''value'') of
          (Some (JStr slot), Some (JStr value)) \<Rightarrow> is_ok (fixed (nl_evm L) 32 slot) \<and> is_ok (fixed (nl_evm L) 32 value) | _ \<Rightarrow> False) | _ \<Rightarrow> False) \<and>
     CHR 0x0A \<notin> set (node_canonical L row) \<and> length (node_canonical L row) \<le> 1023 \<and>
     json_parse L (node_canonical L row @ [CHR 0x0A]) = Some row"

lemma read_until_line: "CHR 0x0A \<notin> set t \<Longrightarrow> length t < n \<Longrightarrow> read_until n (t @ CHR 0x0A # r) = (t @ [CHR 0x0A], r)"
proof (induction t arbitrary: n)
  case Nil
  then show ?case by (cases n) simp_all
next
  case (Cons c t)
  then show ?case by (cases n) auto
qed

lemma read_until_Nil [simp]: "read_until n [] = ([], [])"
  by (cases n) simp_all

lemma storable_row:
  assumes "storable L account row"
  obtains slot val where "index row ''address'' = JStr account" "index row ''slot'' = JStr slot" "row_slot row = slot"
    "string_field row ''slot'' = Inr slot" "string_field row ''value'' = Inr val"
    "is_ok (fixed (nl_evm L) 32 slot)" "is_ok (fixed (nl_evm L) 32 val)"
    "\<And>item. index item ''address'' = JStr account \<Longrightarrow> page_row_ok item row"
proof -
  from assms obtain fs slot val where "row = JObj fs" "length fs = 3" "map_of fs ''address'' = Some (JStr account)"
      "map_of fs ''slot'' = Some (JStr slot)" "map_of fs ''value'' = Some (JStr val)"
      "is_ok (fixed (nl_evm L) 32 slot)" "is_ok (fixed (nl_evm L) 32 val)"
    by (auto simp: storable_def split: json.splits option.splits)
  then show thesis
    by (intro that [of slot val]) (simp_all add: index_def row_slot_def string_field_def page_row_ok_def)
qed

lemma page_next_row:
  assumes st: "storable L account row" and p: "pg_rest p = node_canonical L row @ CHR 0x0A # rest" "\<not> pg_finished p"
    and item: "index (pg_item p) ''address'' = JStr account" "as_u64 (index (pg_item p) ''rows'') = Some n" "pg_count p + 1 \<le> n"
    and above: "case pg_last p of None \<Rightarrow> True | Some l \<Rightarrow> l < row_slot row"
  shows "page_next L p = (Some (Inr row), p\<lparr>pg_rest := rest, pg_first := (case pg_first p of None \<Rightarrow> Some (row_slot row) | Some f \<Rightarrow> Some f),
    pg_last := Some (row_slot row), pg_count := pg_count p + 1\<rparr>)"
proof -
  obtain slot val where r: "row_slot row = slot" "string_field row ''slot'' = Inr slot" "string_field row ''value'' = Inr val"
      "is_ok (fixed (nl_evm L) 32 slot)" "is_ok (fixed (nl_evm L) 32 val)" "page_row_ok (pg_item p) row"
    using storable_row [OF st] item(1) by metis
  obtain a b where f: "fixed (nl_evm L) 32 slot = Inr a" "fixed (nl_evm L) 32 val = Inr b"
    using r(4,5) by (auto simp: is_ok_def split: sum.splits)
  have t: "CHR 0x0A \<notin> set (node_canonical L row)" "length (node_canonical L row) \<le> 1023"
      "json_parse L (node_canonical L row @ [CHR 0x0A]) = Some row" using st by (simp_all add: storable_def)
  have l: "read_line (pg_rest p) (pg_broken p) = Inr (node_canonical L row @ [CHR 0x0A], rest)"
    using t(2) by (simp add: read_line_def p(1) read_until_line [OF t(1)])
  have "read_next L p = (Inr (Some row), p\<lparr>pg_rest := rest, pg_first := (case pg_first p of None \<Rightarrow> Some slot | Some f \<Rightarrow> Some f),
      pg_last := Some slot, pg_count := pg_count p + 1\<rparr>)"
    using t(2) above [unfolded r(1)] by (simp add: read_next_def l Let_def t(3) r f item(2,3))
  then show ?thesis unfolding r(1) by (simp add: page_next_def p(2))
qed

lemma page_items_rows:
  assumes "list_all (storable L account) rs" "sorted_wrt (<) (map row_slot rs)"
    and "pg_rest p = page_text L rs" "\<not> pg_broken p" "\<not> pg_finished p"
    and "index (pg_item p) ''address'' = JStr account" "as_u64 (index (pg_item p) ''rows'') = Some n" "unat (pg_count p) + length rs = unat n"
    and "\<forall>l r. pg_last p = Some l \<longrightarrow> r \<in> set rs \<longrightarrow> l < row_slot r"
    and "as_str (index (pg_item p) ''first_slot'') = (case pg_first p of Some f \<Rightarrow> Some f | None \<Rightarrow> if rs = [] then None else Some (row_slot (hd rs)))"
    and "as_str (index (pg_item p) ''last_slot'') = (if rs = [] then pg_last p else Some (row_slot (List.last rs)))"
  shows "page_items L p = map Inr rs"
  using assms
proof (induction rs arbitrary: p)
  case Nil
  then have "pg_count p = n" by (simp add: word_unat_eq_iff)
  with Nil have "page_next L p = (None, p\<lparr>pg_finished := True\<rparr>)"
    by (simp add: page_next_def read_next_def read_line_def page_text_def Let_def split: option.splits)
  then show ?case by (simp add: page_items.simps)
next
  case (Cons row rs)
  let ?p = "p\<lparr>pg_rest := page_text L rs, pg_first := (case pg_first p of None \<Rightarrow> Some (row_slot row) | Some f \<Rightarrow> Some f),
    pg_last := Some (row_slot row), pg_count := pg_count p + 1\<rparr>"
  have below: "unat (pg_count p) + 1 \<le> unat n" using Cons.prems(8) by simp
  have up: "unat (pg_count p + 1) = unat (pg_count p) + 1"
    using below u64_bound [of n] by (simp add: unat_plus_if')
  have "page_next L p = (Some (Inr row), ?p)"
    by (rule page_next_row [where account = account and n = n]) (use Cons.prems below up in \<open>auto simp: page_text_def word_le_nat_alt split: option.split\<close>)
  moreover have "page_items L ?p = map Inr rs"
    by (rule Cons.IH) (use Cons.prems up in \<open>auto split: option.splits\<close>)
  ultimately show ?case by (simp add: page_items.simps)
qed

lemma page_name_ok: "i < 1000000 \<Longrightarrow> export_name_ok (page_name i)"
proof -
  assume "i < 1000000"
  then have "length (show_nat i) \<le> 6" using length_show_nat [of i 6] by simp
  then have "length (pad6 i) = 6" by (simp add: pad6_def)
  moreover have "list_all is_digit (pad6 i)" using show_nat_digits [of i] by (auto simp: pad6_def list_all_iff is_digit_def less_eq_char_def split: if_splits)
  ultimately show ?thesis
    by (simp add: export_name_ok_def page_name_def strip_suffix_def strip_prefix_def)
qed

lemma fs_read_clean: "fs_plan s = [] \<Longrightarrow> fs_files s p = Some c \<Longrightarrow> fs_read p s = (Inr c, s)"
  by (simp add: fs_read_def fs_try_def fs_step_def fs_get_def bind_def ret_def)

lemma fs_read_Inr: "fs_read p s = (Inr c, s') \<Longrightarrow> fs_files s p = Some c \<and> fs_files s' = fs_files s"
  by (auto simp: fs_read_def bind_Inr_iff fs_get_def dest!: fs_try_Inr split: option.splits)

lemma as_u64_show_nat: "n < 2 ^ 64 \<Longrightarrow> as_u64 (JNum (show_nat n)) = Some (of_nat n)"
  using as_u64_jnum [of "of_nat n"] by (simp add: jnum_def show_u64_def unat_of_nat)

lemma page_entry_fields:
  "index (page_entry name account rs b h) ''file'' = JStr name" "index (page_entry name account rs b h) ''address'' = JStr account"
  "index (page_entry name account rs b h) ''rows'' = JNum (show_nat (length rs))" "index (page_entry name account rs b h) ''bytes'' = JNum (show_nat b)"
  "index (page_entry name account rs b h) ''sha256'' = JStr h" "index (page_entry name account rs b h) ''first_slot'' = index (hd rs) ''slot''"
  "index (page_entry name account rs b h) ''last_slot'' = index (List.last rs) ''slot''"
  by (simp_all add: page_entry_def index_jobj)

lemma string_field_index: "index v f = JStr t \<Longrightarrow> string_field v f = Inr t"
  by (auto simp: index_def string_field_def split: option.splits)

lemma write_page_Inr:
  assumes "write_page L G directory i account rs s = (Inr item, s')"
  shows "i < 1000000" "rs \<noteq> []" "fs_files s' (path_join directory (page_name i)) = Some (gz_pack G (page_text L rs))"
    "item = page_entry (page_name i) account rs (length (gz_pack G (page_text L rs))) (hex_encode (nl_evm L) (sha256 L (gz_pack G (page_text L rs))))"
proof -
  let ?path = "path_join directory (page_name i)" and ?c = "gz_pack G (page_text L rs)"
  from assms obtain s1 s2 s3 s4 c h where d: "i < 1000000" "rs \<noteq> []" "write_all ?path ?c s1 = (Inr (), s2)" "fs_try s2 = (Inr (), s3)"
      "fs_read ?path s3 = (Inr c, s4)" "file_hash L ?path s4 = (Inr h, s')" "item = page_entry (page_name i) account rs (length c) h"
    unfolding write_page_def Let_def by (auto simp: bind_Inr_iff split: if_splits)
  have w: "fs_files s3 ?path = Some ?c" using write_all_Inr [OF d(3)] fs_try_Inr [OF d(4)] by simp
  from d(6) obtain c' where h: "fs_read ?path s4 = (Inr c', s')" "h = hex_encode (nl_evm L) (sha256 L c')"
    by (auto simp: file_hash_def bind_Inr_iff)
  show "i < 1000000" "rs \<noteq> []" by (fact d)+
  show "fs_files s' ?path = Some ?c" using w fs_read_Inr [OF d(5)] fs_read_Inr [OF h(1)] by simp
  show "item = page_entry (page_name i) account rs (length ?c) (hex_encode (nl_evm L) (sha256 L ?c))"
    using w fs_read_Inr [OF d(5)] fs_read_Inr [OF h(1)] d(7) h(2) by simp
qed

text \<open>
  C39: a page of storage rows that was written is read back as the same rows in the same order: while
  the file is unchanged and no I/O error occurs, the entry recorded for the page is accepted, and
  iterating over the page yields exactly the rows and ends without an error.
\<close>

theorem page_roundtrip:
  assumes "\<forall>t. gz_unpack G (gz_pack G t) = (t, False)"
    and "list_all (storable L account) rs" "sorted_wrt (<) (map row_slot rs)" "length rs \<le> 10000"
    and "length (gz_pack G (page_text L rs)) < 2 ^ 64"
    and "write_page L G directory i account rs s = (Inr item, s')"
    and "fs_files s'' (path_join directory (page_name i)) = fs_files s' (path_join directory (page_name i))" "fs_plan s'' = []"
  shows "\<exists>p. page_rows L G directory item s'' = (Inr p, s'') \<and> page_items L p = map Inr rs"
proof -
  note w = write_page_Inr [OF assms(6)]
  let ?c = "gz_pack G (page_text L rs)"
  let ?p = "\<lparr>pg_rest = page_text L rs, pg_broken = False, pg_item = item, pg_count = 0, pg_first = None, pg_last = None, pg_finished = False\<rparr>"
  note f = page_entry_fields [of "page_name i" account rs "length ?c" "hex_encode (nl_evm L) (sha256 L ?c)", folded w(4)]
  have n: "as_u64 (index item ''rows'') = Some (of_nat (length rs))"
    using assms(4) by (simp add: f as_u64_show_nat)
  have read: "fs_read (path_join directory (page_name i)) s'' = (Inr ?c, s'')"
    using fs_read_clean assms(7,8) w(3) by simp
  have "check_file L directory item s'' = (Inr (path_join directory (page_name i)), s'')"
    using string_field_index [OF f(1)] string_field_index [OF f(5)] f(4) as_u64_show_nat [OF assms(5)]
    by (simp add: check_file_def bind_def lift_def Let_def check_def page_name_ok [OF w(1)] read ret_def)
  moreover have "1 \<le> (of_nat (length rs) :: u64)" "of_nat (length rs) \<le> (10000 :: u64)"
    using assms(4) w(2) by (simp_all add: word_le_nat_alt unat_of_nat Suc_leI)
  ultimately have "page_rows L G directory item s'' = (Inr ?p, s'')"
    by (simp add: page_rows_def bind_def lift_def n check_def read ret_def assms(1))
  moreover have "page_items L ?p = map Inr rs"
  proof (rule page_items_rows [OF assms(2,3), where n = "of_nat (length rs)"])
    have s: "as_str (index r ''slot'') = Some (row_slot r)" if "r \<in> set rs" for r
      using storable_row [of L account r] that assms(2) by (metis as_str_JStr list_all_iff)
    show "as_str (index (pg_item ?p) ''first_slot'') = (case pg_first ?p of Some f \<Rightarrow> Some f | None \<Rightarrow> if rs = [] then None else Some (row_slot (hd rs)))"
        "as_str (index (pg_item ?p) ''last_slot'') = (if rs = [] then pg_last ?p else Some (row_slot (List.last rs)))"
      using w(2) s [OF hd_in_set [OF w(2)]] s [OF last_in_set [OF w(2)]] by (simp_all add: f)
  qed (use f n assms(4) in \<open>simp_all add: unat_of_nat\<close>)
  ultimately show ?thesis by blast
qed

definition ex_page_row :: json where
  "ex_page_row = JObj [(''address'', JStr ex_address), (''slot'', JStr (hex32 7)), (''value'', JStr (hex32 1))]"

definition ex_page_lib :: "unit nodelib" where
  "ex_page_lib = (scripted (\<lambda>_ _. []) (\<lambda>t. if t = [CHR ''A'', CHR 0x0A] then Some ex_page_row else None))\<lparr>json_text := (\<lambda>_. [65])\<rparr>"

definition ex_port :: portlib where
  "ex_port = \<lparr>gz_pack = (\<lambda>t. t), gz_unpack = (\<lambda>t. (t, False)), dir_there = (\<lambda>_ _. False)\<rparr>"

definition ex_page_fs :: fsys where
  "ex_page_fs = \<lparr>fs_files = Map.empty, fs_plan = []\<rparr>"

lemma ex_page_text: "node_canonical ex_page_lib v = ''A''"
proof -
  have "char_of (65 :: nat) = CHR ''A''" by code_simp
  then show ?thesis by (simp add: node_canonical_def canonical_json_def spaced_json_def ascii_json_def ex_page_lib_def)
qed

lemma ex_page_storable: "storable ex_page_lib ex_address ex_page_row"
  using ex_fixed32
  by (simp add: storable_def ex_page_text) (simp add: ex_page_row_def ex_page_lib_def is_ok_def)

theorem page_roundtrip_witness:
  "\<exists>item p. write_page ex_page_lib ex_port ''/x'' 3 ex_address [ex_page_row] ex_page_fs = (Inr item, ex_page_fs\<lparr>fs_files := [''/x/storage-000003.jsonl.gz'' \<mapsto> [CHR ''A'', CHR 0x0A]]\<rparr>) \<and>
     page_rows ex_page_lib ex_port ''/x'' item (ex_page_fs\<lparr>fs_files := [''/x/storage-000003.jsonl.gz'' \<mapsto> [CHR ''A'', CHR 0x0A]]\<rparr>) =
       (Inr p, ex_page_fs\<lparr>fs_files := [''/x/storage-000003.jsonl.gz'' \<mapsto> [CHR ''A'', CHR 0x0A]]\<rparr>) \<and>
     page_items ex_page_lib p = [Inr ex_page_row]"
proof -
  let ?s = "ex_page_fs\<lparr>fs_files := [''/x/storage-000003.jsonl.gz'' \<mapsto> [CHR ''A'', CHR 0x0A]]\<rparr>"
  have g: "\<forall>t. gz_unpack ex_port (gz_pack ex_port t) = (t, False)" by (simp add: ex_port_def)
  have t: "gz_pack ex_port (page_text ex_page_lib [ex_page_row]) = [CHR ''A'', CHR 0x0A]" by (simp add: page_text_def ex_page_text ex_port_def)
  have n: "path_join ''/x'' (page_name 3) = ''/x/storage-000003.jsonl.gz''" by code_simp
  obtain item where w: "write_page ex_page_lib ex_port ''/x'' 3 ex_address [ex_page_row] ex_page_fs = (Inr item, ?s)"
    by (simp add: write_page_def check_def Let_def n t create_new_def write_all_def fs_try_def fs_step_def fs_get_def fs_set_def
        fs_read_def file_hash_def bind_def ret_def ex_page_fs_def)
  have "\<exists>p. page_rows ex_page_lib ex_port ''/x'' item ?s = (Inr p, ?s) \<and> page_items ex_page_lib p = map Inr [ex_page_row]"
    by (rule page_roundtrip [OF g _ _ _ _ w]) (simp_all add: ex_page_storable t ex_page_fs_def)
  with w show ?thesis by auto
qed

section \<open>Offline verification\<close>

definition check_snapshot :: "('w, 'x) nodelib_scheme \<Rightarrow> json \<Rightarrow> string option \<Rightarrow> (json \<times> json \<times> string list) res" where
  "check_snapshot L layout expected_hash =
     ensure (jstr_eq (index layout ''format'') FORMAT \<and> jstr_eq (index layout ''status'') ''ready'')
       ''unsupported or incomplete checkpoint export''
     (let snapshot = index layout ''checkpoint'' in
      ensure (jstr_eq (index snapshot ''status'') ''ready'' \<and> jnum_eq (index snapshot ''format_version'') 1 \<and> jnum_eq (index snapshot ''chain_id'') 56)
        ''invalid BSC checkpoint manifest''
      (bnd (bnd (string_field snapshot ''snapshot_id'') object_id) (\<lambda>_.
       let bundle' = index snapshot ''proof_bundle'' in
       ensure (jnum_eq (index bundle' ''chain_id'') 56 \<and> jnum_eq (index bundle' ''format_version'') 1 \<and>
           index bundle' ''header'' = index snapshot ''header'')
         ''checkpoint and proof bundle identities differ''
       (ensure ((as_str (index bundle' ''header_trust'') = Some ''operator-pinned-hash'' \<or>
             as_str (index bundle' ''header_trust'') = Some ''provider-finalized-header'') \<and>
           index bundle' ''header_trust'' = index snapshot ''header_trust'')
         ''checkpoint header trust record is inconsistent''
       (bnd (case string_field bundle' ''header_rlp'' of Inl _ \<Rightarrow> Inl ''portable exports require the encoded block header'' | Inr t \<Rightarrow> Inr t) (\<lambda>encoded.
        bnd (verify_header (nl_evm L) encoded (index snapshot ''header'') expected_hash) (\<lambda>_.
        bnd (canonical_accounts L (index snapshot ''accounts'')) (\<lambda>selected.
        bnd (if JArr (map JStr selected) = index snapshot ''accounts''
             then bnd (context_res (as_object (index bundle' ''accounts'')) ''invalid account proofs'') (\<lambda>ps. Inr (selected = map fst ps))
             else Inr False) (\<lambda>covered.
        ensure covered ''checkpoint account coverage differs from its proofs''
        (Inr (snapshot, bundle', selected)))))))))))"

type_synonym grouping = "(string \<times> json list) list \<times> string"

definition group_page :: "nat \<times> json \<Rightarrow> grouping \<Rightarrow> grouping res" where
  "group_page ii g = (case ii of (i, item) \<Rightarrow> case g of (pages, last_account) \<Rightarrow>
     bnd (string_field item ''address'') (\<lambda>account.
     case (if jstr_eq (index item ''file'') (page_name i) \<and> last_account \<le> account then map_of pages account else None) of
       None \<Rightarrow> Inl ''export page sequence or account is invalid''
     | Some items \<Rightarrow> Inr (bt_insert account (items @ [item]) pages, account)))"

definition group_pages :: "string list \<Rightarrow> json \<Rightarrow> (string \<times> json list) list res" where
  "group_pages selected layout =
     bnd (context_res (as_array (index layout ''storage_pages'')) ''invalid storage pages'') (\<lambda>items.
     bnd (fold_res group_page (enumerate 0 items) (bt_of_list (map (\<lambda>a. (a, [])) selected), [])) (\<lambda>(pages, _). Inr pages))"

text \<open>A page that cannot be opened is one failed row; the pages are read after the sort is prepared.\<close>

definition page_source :: "('w, 'x) nodelib_scheme \<Rightarrow> portlib \<Rightarrow> string \<Rightarrow> json \<Rightarrow> (fsys, json res list) io" where
  "page_source L G directory item s = (case page_rows L G directory item s of
     (Inl e, s') \<Rightarrow> (Inr [Inl e], s') | (Inr p, s') \<Rightarrow> (Inr (page_items L p), s'))"

fun across_pages :: "string option \<Rightarrow> json res list \<Rightarrow> (string \<times> string) res list" where
  "across_pages previous [] = []"
| "across_pages previous (r # rs) = (case slot_row r of
     Inl e \<Rightarrow> Inl e # across_pages previous rs
   | Inr (slot, value) \<Rightarrow>
       if (case previous of None \<Rightarrow> True | Some p \<Rightarrow> p < slot) then Inr (slot, value) # across_pages (Some slot) rs
       else Inl ''duplicate or unordered slots across export pages'' # across_pages previous rs)"

definition exported_evidence :: "('w, 'x) nodelib_scheme \<Rightarrow> json \<Rightarrow> json \<Rightarrow> json \<Rightarrow> (string \<times> json \<times> Account) res" where
  "exported_evidence L snapshot bundle' row =
     bnd (validate_account_fields row) (\<lambda>_.
     bnd (exact_nonce (index row ''nonce'')) (\<lambda>nonce.
     let metadata = jset row ''nonce'' (jnum nonce) in
     bnd (bnd (string_field metadata ''address'') (address (nl_evm L))) (\<lambda>account.
     let evidence = index (index bundle' ''accounts'') account in
     bnd (bnd (string_field (index snapshot ''header'') ''state_root'') (\<lambda>root. verify_account (nl_evm L) root account (index evidence ''proof''))) (\<lambda>proven.
     bnd (if index metadata ''exists'' = JBool (ac_exists proven)
          then bnd (bnd (string_field metadata ''storage_root'') (fixed (nl_evm L) 32)) (\<lambda>root.
            Inr (root = ac_storage_root proven \<and> index metadata ''code'' = index evidence ''code''))
          else Inr False) (\<lambda>same.
     ensure same ''exported metadata differs from its proven account'' (Inr (account, metadata, proven)))))))"

definition verify_exported :: "('w, 'x) nodelib_scheme \<Rightarrow> capcfg \<Rightarrow> portlib \<Rightarrow> (string \<Rightarrow> string option list) \<Rightarrow> ClickHouse \<Rightarrow> string \<Rightarrow> string list \<Rightarrow>
    json \<Rightarrow> json \<Rightarrow> (string \<times> json list) list \<Rightarrow> json \<Rightarrow> string \<times> u64 \<Rightarrow> ('w node, string \<times> u64) io" where
  "verify_exported L C G sqlite client directory paths snapshot bundle' pages row s =
     bind (lift (exported_evidence L snapshot bundle' row)) (\<lambda>(account, metadata, proven).
     bind (lift (context_res (map_of pages account) ''no entry found for key'')) (\<lambda>items.
     bind (on_fs fs_try) (\<lambda>_.
     bind (lift (string_field metadata ''code'')) (\<lambda>code.
     bind (on_fs (map_io (page_source L G directory) items)) (\<lambda>rs.
     let slots = across_pages None (concat rs) in
     bind (lift (verify_complete (nl_evm L) (sqlite account) proven slots code metadata)) (\<lambda>n.
     bind (capacity_ok L C client paths ''export-verify-trie'') (\<lambda>_.
     bind (check (Some n = as_u64 (index metadata ''nonzero_slots'')) ''exported account storage count mismatch'') (\<lambda>_.
     bind (lift (context_res (checked_add (snd s) n) ''export slot count overflow'')) (\<lambda>total.
     ret (fst s @ concat (map (hashed_slot account) slots) @ node_canonical L metadata, total))))))))))"

definition verify_layout :: "('w, 'x) nodelib_scheme \<Rightarrow> capcfg \<Rightarrow> portlib \<Rightarrow> (string \<Rightarrow> string option list) \<Rightarrow> ClickHouse \<Rightarrow> string \<Rightarrow> json \<Rightarrow>
    string option \<Rightarrow> string \<Rightarrow> ('w node, json) io" where
  "verify_layout L C G sqlite client directory layout expected_hash work_dir =
     (let paths = [directory, work_dir] in
      bind (capacity_ok L C client paths ''export-verify-start'') (\<lambda>_.
      bind (lift (check_snapshot L layout expected_hash)) (\<lambda>(snapshot, bundle', selected).
      bind (on_fs (check_file L directory (index layout ''account_file''))) (\<lambda>file.
      bind (on_fs (export_json L file)) (\<lambda>v.
      bind (lift (context_res (as_array v) ''invalid exported accounts'')) (\<lambda>accounts.
      bind (lift (map_res (\<lambda>row. string_field row ''address'') accounts)) (\<lambda>addresses.
      bind (check (addresses = selected) ''export account coverage is missing, duplicated or unordered'') (\<lambda>_.
      bind (check (Some (of_nat (length accounts)) = as_u64 (index snapshot ''account_count'')) ''export account count mismatch'') (\<lambda>_.
      bind (lift (group_pages selected layout)) (\<lambda>pages.
      bind (on_fs fs_try) (\<lambda>_.
      bind (fold_io (verify_exported L C G sqlite client directory paths snapshot bundle' pages) accounts ([], 0)) (\<lambda>(t, total).
      let digest = hex_encode (nl_evm L) (sha256 L t) in
      bind (check (Some total = as_u64 (index snapshot ''nonzero_slots'') \<and> jstr_eq (index snapshot ''state_sha256'') digest)
        ''exported checkpoint count or state checksum mismatch'') (\<lambda>_.
      ret (jobj [(''snapshot_id'', index snapshot ''snapshot_id''), (''header'', index snapshot ''header''),
        (''header_trust'', index snapshot ''header_trust''), (''accounts'', JArr (map JStr selected)), (''nonzero_slots'', jnum total),
        (''state_sha256'', JStr digest),
        (''verification'', JStr ''account proofs, complete storage, code and header hash verified'')]))))))))))))))"

definition verify_export :: "('w, 'x) nodelib_scheme \<Rightarrow> capcfg \<Rightarrow> portlib \<Rightarrow> (string \<Rightarrow> string option list) \<Rightarrow> (string \<Rightarrow> ClickHouse res) \<Rightarrow> string \<Rightarrow>
    string option \<Rightarrow> string \<Rightarrow> ('w node, json) io" where
  "verify_export L C G sqlite connect directory expected_hash work_dir =
     bind (lift (resolve_path L directory)) (\<lambda>directory.
     bind (lift (connect ''default'')) (\<lambda>client.
     bind (on_fs (export_json L (path_join directory ''manifest.json''))) (\<lambda>layout.
     verify_layout L C G sqlite client directory layout expected_hash work_dir)))"

section \<open>Export\<close>

definition accounts_sql :: string where
  "accounts_sql = ''SELECT address,exists,nonce,balance,code_hash,code,storage_root,nonzero_slots FROM checkpoint_accounts FINAL WHERE snapshot_id={id:String} ORDER BY address''"

definition export_slots_sql :: string where
  "export_slots_sql = ''SELECT address,slot,value FROM checkpoint_storage FINAL WHERE snapshot_id={id:String} AND address={address:String} ORDER BY slot''"

definition exported_account :: "json \<Rightarrow> json res" where
  "exported_account a =
     bnd (uint (index a ''nonce'')) (\<lambda>nonce.
     let a = jset a ''nonce'' (JStr (show_u64 nonce)) in
     bnd (uint (index a ''nonzero_slots'')) (\<lambda>n. Inr (jset a ''nonzero_slots'' (jnum n))))"

type_synonym paging = "json list \<times> json list"

definition export_row :: "('w, 'x) nodelib_scheme \<Rightarrow> portlib \<Rightarrow> string \<Rightarrow> nat \<Rightarrow> string \<Rightarrow> json res \<Rightarrow> paging \<Rightarrow> (fsys, paging) io" where
  "export_row L G directory page_size account r s = (case s of (pages, pending) \<Rightarrow>
     bind (lift r) (\<lambda>row.
     let pending = pending @ [row] in
     if length pending = page_size
     then bind (write_page L G directory (length pages) account pending) (\<lambda>entry. ret (pages @ [entry], []))
     else ret (pages, pending)))"

definition export_account :: "('w, 'x) nodelib_scheme \<Rightarrow> portlib \<Rightarrow> ClickHouse \<Rightarrow> string \<Rightarrow> string \<Rightarrow> nat \<Rightarrow> json \<Rightarrow> json list \<Rightarrow> ('w node, json list) io" where
  "export_account L G client snapshot_id directory page_size a pages =
     bind (lift (context_res (as_str a) ''invalid checkpoint account'')) (\<lambda>account.
     bind (lift (params (jobj [(''id'', JStr snapshot_id), (''address'', JStr account)]))) (\<lambda>ps.
     bind (on_db (rows L client export_slots_sql ps)) (\<lambda>rs.
     bind (on_fs (fold_io (export_row L G directory page_size account) (collect_rows L rs) (pages, []))) (\<lambda>(pages, pending).
     if pending = [] then ret pages
     else bind (on_fs (write_page L G directory (length pages) account pending)) (\<lambda>entry. ret (pages @ [entry]))))))"

definition make_dir :: "portlib \<Rightarrow> string \<Rightarrow> (fsys, unit) io" where
  "make_dir G directory = bind fs_try (\<lambda>_ s. check (\<not> dir_there G directory s) ''File exists'' s)"

definition directory_bytes :: "('w, 'x) nodelib_scheme \<Rightarrow> string \<Rightarrow> (fsys, u64) io" where
  "directory_bytes L directory =
     bind (read_dir L directory) (\<lambda>names.
     fold_io (\<lambda>name total. bind fs_try (\<lambda>_. bind (fs_get (path_join directory name)) (\<lambda>v. case v of None \<Rightarrow> ret total
       | Some c \<Rightarrow> lift (context_res (checked_add total (of_nat (length c))) ''export byte count overflow'')))) names 0)"

definition export_layout :: "json \<Rightarrow> nat \<Rightarrow> string \<Rightarrow> json list \<Rightarrow> json" where
  "export_layout snapshot bytes hash pages =
     jobj [(''format'', JStr FORMAT), (''status'', JStr ''ready''), (''checkpoint'', snapshot),
       (''account_file'', jobj [(''file'', JStr ''accounts.json''), (''bytes'', JNum (show_nat bytes)), (''sha256'', JStr hash)]),
       (''storage_pages'', JArr pages)]"

definition export_parts :: "('w, 'x) nodelib_scheme \<Rightarrow> portlib \<Rightarrow> ClickHouse \<Rightarrow> string \<Rightarrow> string \<Rightarrow> nat \<Rightarrow> json \<Rightarrow> ('w node, json \<times> nat) io" where
  "export_parts L G client snapshot_id directory page_size snapshot =
     bind (lift (params (jobj [(''id'', JStr snapshot_id)]))) (\<lambda>ps.
     bind (on_db (rows_vec L client accounts_sql ps)) (\<lambda>rs.
     bind (lift (map_res exported_account rs)) (\<lambda>accounts.
     let metadata = path_join directory ''accounts.json'' in
     bind (on_fs (atomic_json (json_pretty L) (fs_temp L directory) (Some directory) metadata (JArr accounts) False)) (\<lambda>_.
     bind (on_fs (fs_read metadata)) (\<lambda>c.
     bind (on_fs (file_hash L metadata)) (\<lambda>hash.
     bind (lift (context_res (as_array (index snapshot ''accounts'')) ''invalid checkpoint accounts'')) (\<lambda>selected.
     bind (fold_io (export_account L G client snapshot_id directory page_size) selected []) (\<lambda>pages.
     ret (export_layout snapshot (length c) hash pages, length pages)))))))))"

definition export_checkpoint :: "('w, 'x) nodelib_scheme \<Rightarrow> capcfg \<Rightarrow> portlib \<Rightarrow> (string \<Rightarrow> string option list) \<Rightarrow> ClickHouse \<Rightarrow> string \<Rightarrow> string \<Rightarrow> nat \<Rightarrow>
    string \<Rightarrow> ('w node, json) io" where
  "export_checkpoint L C G sqlite client snapshot_id directory page_size work_dir =
     bind (check (1 \<le> page_size \<and> page_size \<le> 10000) ''export page_size must be between 1 and 10000'') (\<lambda>_.
     bind (lift (resolve_path L directory)) (\<lambda>directory.
     bind (control_open L client) (\<lambda>owner.
     control_reader L owner (
       let paths = [directory, work_dir, co_path owner] in
       bind (capacity_ok L C client paths ''export-start'') (\<lambda>_.
       bind (on_db (manifest_unlocked L client snapshot_id)) (\<lambda>snapshot.
       bind (lift (case string_field (index snapshot ''proof_bundle'') ''header_rlp'' of
         Inl _ \<Rightarrow> Inl ''portable exports require the encoded block header'' | Inr t \<Rightarrow> Inr ())) (\<lambda>_.
       bind (check (directory \<noteq> ''/'') ''export has no parent'') (\<lambda>_.
       bind (on_fs fs_try) (\<lambda>_.
       bind (on_fs (make_dir G directory)) (\<lambda>_.
       bind (export_parts L G client snapshot_id directory page_size snapshot) (\<lambda>(layout, page_count).
       bind (verify_layout L C G sqlite client directory layout None work_dir) (\<lambda>result.
       bind (capacity_ok L C client paths ''export-publish'') (\<lambda>_.
       bind (on_fs (atomic_json (json_pretty L) (fs_temp L directory) (Some directory) (path_join directory ''manifest.json'') layout False)) (\<lambda>_.
       bind (on_fs (directory_bytes L directory)) (\<lambda>bytes.
       ret (jset (jset (jset result ''directory'' (JStr directory)) ''pages'' (JNum (show_nat page_count))) ''bytes'' (jnum bytes)))))))))))))))))"

end
