(* ===== verification/Import.thy ===== *)
theory Import
  imports Export Retention
begin

text \<open>
  Import of a portable checkpoint, \<open>crates/evm-state/src/importer.rs\<close>: the files are verified, a new
  generation is inserted, what the database then holds is verified again, and only then published.
\<close>

section \<open>The stored generation\<close>

definition stored_evidence :: "('w, 'x) nodelib_scheme \<Rightarrow> json \<Rightarrow> json \<Rightarrow> (string \<times> json \<times> Account) res" where
  "stored_evidence L record' row =
     bnd (string_field row ''address'') (\<lambda>account.
     bnd (uint (index row ''nonce'')) (\<lambda>nonce.
     let metadata = jset row ''nonce'' (jnum nonce) in
     bnd (uint (index metadata ''nonzero_slots'')) (\<lambda>n.
     let metadata = jset metadata ''nonzero_slots'' (jnum n);
         evidence = index (index (index record' ''proof_bundle'') ''accounts'') account in
     bnd (bnd (string_field (index record' ''header'') ''state_root'') (\<lambda>root. verify_account (nl_evm L) root account (index evidence ''proof''))) (\<lambda>proven.
     bnd (if index metadata ''exists'' = JBool (ac_exists proven)
          then bnd (bnd (string_field metadata ''storage_root'') (fixed (nl_evm L) 32)) (\<lambda>root.
            Inr (root = ac_storage_root proven \<and> index metadata ''code'' = index evidence ''code''))
          else Inr False) (\<lambda>same.
     ensure same ''restored metadata differs from its proven account'' (Inr (account, metadata, proven)))))))"

definition stored_account :: "('w, 'x) nodelib_scheme \<Rightarrow> capcfg \<Rightarrow> (string \<Rightarrow> string option list) \<Rightarrow> ClickHouse \<Rightarrow> string \<Rightarrow> json \<Rightarrow> string list \<Rightarrow>
    json \<Rightarrow> string \<times> u64 \<Rightarrow> ('w node, string \<times> u64) io" where
  "stored_account L C sqlite client snapshot_id record' paths row s =
     bind (lift (stored_evidence L record' row)) (\<lambda>(account, metadata, proven).
     bind (lift (params (jobj [(''id'', JStr snapshot_id), (''address'', JStr account)]))) (\<lambda>ps.
     bind (on_db (rows L client slots_sql ps)) (\<lambda>rs.
     let slots = map slot_row (collect_rows L rs) in
     bind (on_fs fs_try) (\<lambda>_.
     bind (lift (string_field metadata ''code'')) (\<lambda>code.
     bind (lift (verify_complete (nl_evm L) (sqlite account) proven slots code metadata)) (\<lambda>n.
     bind (capacity_ok L C client paths ''import-trie'') (\<lambda>_.
     bind (check (Some n = as_u64 (index metadata ''nonzero_slots'')) ''restored storage count differs from account metadata'') (\<lambda>_.
     bind (lift (context_res (checked_add (snd s) n) ''restored slot count overflow'')) (\<lambda>total.
     ret (fst s @ concat (map (hashed_slot account) slots) @ node_canonical L metadata, total))))))))))"

definition stored_count_sql :: string where
  "stored_count_sql = ''SELECT count() AS n FROM checkpoint_storage FINAL WHERE snapshot_id={id:String}''"

definition stored_total :: "('w, 'x) nodelib_scheme \<Rightarrow> ClickHouse \<Rightarrow> string \<Rightarrow> ('w, u64) io" where
  "stored_total L client snapshot_id =
     bind (lift (params (jobj [(''id'', JStr snapshot_id)]))) (\<lambda>ps.
     bind (one L client stored_count_sql ps) (\<lambda>row.
     lift (uint (index row ''n''))))"

definition verify_stored :: "('w, 'x) nodelib_scheme \<Rightarrow> capcfg \<Rightarrow> (string \<Rightarrow> string option list) \<Rightarrow> ClickHouse \<Rightarrow> string \<Rightarrow> json \<Rightarrow> string \<Rightarrow> string \<Rightarrow>
    ('w node, unit) io" where
  "verify_stored L C sqlite client snapshot_id record' work_dir control_path =
     bind (lift (params (jobj [(''id'', JStr snapshot_id)]))) (\<lambda>ps.
     bind (on_db (rows_vec L client accounts_sql ps)) (\<lambda>accounts.
     bind (lift (map_res (\<lambda>row. string_field row ''address'') accounts)) (\<lambda>addresses.
     bind (check (JArr (map JStr addresses) = index record' ''accounts'') ''restored account coverage differs from the checkpoint'') (\<lambda>_.
     bind (fold_io (stored_account L C sqlite client snapshot_id record' [work_dir, control_path]) accounts ([], 0)) (\<lambda>(t, total).
     bind (on_db (stored_total L client snapshot_id)) (\<lambda>actual.
     check (actual = total \<and> Some total = as_u64 (index record' ''nonzero_slots'') \<and>
         jstr_eq (index record' ''state_sha256'') (hex_encode (nl_evm L) (sha256 L t)))
       ''restored checkpoint contains missing, unexpected or altered state''))))))"

section \<open>Import\<close>

definition restored_slot :: "string \<Rightarrow> json res \<Rightarrow> json res" where
  "restored_slot snapshot_id r = bnd r (\<lambda>row. Inr (jset row ''snapshot_id'' (JStr snapshot_id)))"

definition restored_account :: "string \<Rightarrow> json \<Rightarrow> json res" where
  "restored_account snapshot_id row =
     bnd (validate_account_fields row) (\<lambda>_.
     bnd (exact_nonce (index row ''nonce'')) (\<lambda>nonce.
     Inr (jset (jset row ''nonce'' (jnum nonce)) ''snapshot_id'' (JStr snapshot_id))))"

definition below_budget :: "('w, 'x) nodelib_scheme \<Rightarrow> ClickHouse \<Rightarrow> u64 \<Rightarrow> string \<Rightarrow> ('w, unit) io" where
  "below_budget L client budget_bytes msg = bind (disk_usage L client) (\<lambda>used. check (used < budget_bytes) msg)"

definition import_page :: "('w, 'x) nodelib_scheme \<Rightarrow> capcfg \<Rightarrow> portlib \<Rightarrow> ClickHouse \<Rightarrow> string \<Rightarrow> string list \<Rightarrow> u64 \<Rightarrow> string \<Rightarrow> json \<Rightarrow> ('w node, unit) io" where
  "import_page L C G client directory paths budget_bytes snapshot_id item =
     bind (on_fs (page_rows L G directory item)) (\<lambda>p.
     bind (on_db (ch_insert L client ''checkpoint_storage'' (map (restored_slot snapshot_id) (page_items L p)) 10000)) (\<lambda>_.
     bind (on_db (below_budget L client budget_bytes ''restore exceeds retained-data budget; candidate remains unpublished'')) (\<lambda>_.
     capacity_ok L C client paths ''import-page'')))"

definition restored_manifest :: "('w, 'x) nodelib_scheme \<Rightarrow> json \<Rightarrow> string \<Rightarrow> u64 \<Rightarrow> u64 \<Rightarrow> json" where
  "restored_manifest L layout snapshot_id created budget_bytes =
     (let record' = index layout ''checkpoint'' in
      jset (jset (jset (jset (jset (jset record' ''snapshot_id'' (JStr snapshot_id)) ''base_snapshot'' JNull) ''sources'' (JArr []))
        ''created_at'' (jnum created)) ''retained_budget_bytes'' (jnum budget_bytes)) ''imported_from''
        (jobj [(''snapshot_id'', index record' ''snapshot_id''), (''sources'', index record' ''sources''),
          (''manifest_content_sha256'', JStr (hex_encode (nl_evm L) (sha256 L (node_canonical L layout))))]))"

definition restored_row :: "('w, 'x) nodelib_scheme \<Rightarrow> json \<Rightarrow> string \<Rightarrow> json" where
  "restored_row L restored snapshot_id =
     jobj [(''snapshot_id'', JStr snapshot_id), (''block_number'', index (index restored ''header'') ''number''),
       (''block_hash'', index (index restored ''header'') ''hash''), (''created_at'', index restored ''created_at''),
       (''manifest'', JStr (node_canonical L restored))]"

definition import_locked :: "('w, 'x) nodelib_scheme \<Rightarrow> capcfg \<Rightarrow> portlib \<Rightarrow> (string \<Rightarrow> string option list) \<Rightarrow> ClickHouse \<Rightarrow> string \<Rightarrow> json \<Rightarrow> string \<Rightarrow>
    u64 \<Rightarrow> string \<Rightarrow> ('w node, json) io" where
  "import_locked L C G sqlite client directory layout work_dir budget_bytes control_path =
     (let paths = [directory, work_dir, control_path] in
      bind (capacity_ok L C client paths ''import-start'') (\<lambda>_.
      bind (on_db (below_budget L client budget_bytes ''retained-data budget already exhausted'')) (\<lambda>_.
      bind (new_id L) (\<lambda>snapshot_id.
      bind (lift (context_res (as_array (index layout ''storage_pages'')) ''invalid storage pages'')) (\<lambda>items.
      bind (for_each (import_page L C G client directory paths budget_bytes snapshot_id) items) (\<lambda>_.
      bind (on_fs (check_file L directory (index layout ''account_file''))) (\<lambda>file.
      bind (on_fs (export_json L file)) (\<lambda>v.
      bind (lift (context_res (as_array v) ''invalid restored account fields'')) (\<lambda>accounts.
      bind (on_db (ch_insert L client ''checkpoint_accounts'' (map (restored_account snapshot_id) accounts) 1000)) (\<lambda>_.
      bind (verify_stored L C sqlite client snapshot_id (index layout ''checkpoint'') work_dir control_path) (\<lambda>_.
      bind (on_db (below_budget L client budget_bytes ''restore exceeds retained-data budget; candidate remains unpublished'')) (\<lambda>_.
      bind (now_ns L) (\<lambda>created.
      let restored = restored_manifest L layout snapshot_id created budget_bytes in
      bind (capacity_ok L C client paths ''import-publish'') (\<lambda>_.
      bind (on_db (insert_values L client ''checkpoints'' [restored_row L restored snapshot_id])) (\<lambda>_.
      ret restored)))))))))))))))"

definition import_checkpoint :: "('w, 'x) nodelib_scheme \<Rightarrow> capcfg \<Rightarrow> portlib \<Rightarrow> (string \<Rightarrow> string option list) \<Rightarrow> string \<Rightarrow> ClickHouse \<Rightarrow> string \<Rightarrow>
    string option \<Rightarrow> string \<Rightarrow> u64 \<Rightarrow> ('w node, json) io" where
  "import_checkpoint L C G sqlite checkpoints_sql client directory expected_hash work_dir budget_bytes =
     bind (lift (resolve_path L directory)) (\<lambda>directory.
     bind (on_fs (export_json L (path_join directory ''manifest.json''))) (\<lambda>layout.
     bind (verify_layout L C G sqlite client directory layout expected_hash work_dir) (\<lambda>_.
     bind (on_db (checkpoint_setup L client checkpoints_sql)) (\<lambda>_.
     bind (on_db (require_partitioned_schema L client)) (\<lambda>_.
     bind (on_fs fs_try) (\<lambda>_.
     bind (control_open L client) (\<lambda>owner.
     control_publisher L owner
       (import_locked L C G sqlite client directory layout work_dir budget_bytes (co_path owner)))))))))"

section \<open>Only a verified import is published\<close>

text \<open>
  The rows the database holds for an account of the new generation, all of them, hash to the storage
  root that the account's proof fixes.
\<close>

definition stored_verified :: "('w, 'x) nodelib_scheme \<Rightarrow> (string \<Rightarrow> string option list) \<Rightarrow> ClickHouse \<Rightarrow> string \<Rightarrow> json \<Rightarrow> json \<Rightarrow> u64 \<Rightarrow> bool" where
  "stored_verified L sqlite client snapshot_id record' row n \<longleftrightarrow> (\<exists>account metadata proven code query rs w w'.
     stored_evidence L record' row = Inr (account, metadata, proven) \<and>
     map_of query ''id'' = Some (JStr snapshot_id) \<and> map_of query ''address'' = Some (JStr account) \<and>
     rows L client slots_sql query w = (Inr rs, w') \<and>
     verify_complete (nl_evm L) (sqlite account) proven (map slot_row (collect_rows L rs)) code metadata = Inr n)"

lemma params_pair: "params (jobj [(''id'', JStr i), (''address'', JStr a)]) = Inr q \<Longrightarrow>
    map_of q ''id'' = Some (JStr i) \<and> map_of q ''address'' = Some (JStr a)"
  by (auto simp: params_def jobj_def bt_of_list_def as_object_def context_res_def split: if_splits)

lemma stored_account_Inr:
  assumes "stored_account L C sqlite client snapshot_id record' paths row s n = (Inr t, n')"
  shows "\<exists>k. stored_verified L sqlite client snapshot_id record' row k \<and> unat (snd t) = unat (snd s) + unat k"
proof -
  from assms obtain account metadata proven query code rs w w' k where
    d: "stored_evidence L record' row = Inr (account, metadata, proven)"
      "params (jobj [(''id'', JStr snapshot_id), (''address'', JStr account)]) = Inr query"
      "rows L client slots_sql query w = (Inr rs, w')"
      "verify_complete (nl_evm L) (sqlite account) proven (map slot_row (collect_rows L rs)) code metadata = Inr k"
      "checked_add (snd s) k = Some (snd t)"
    unfolding stored_account_def Let_def
    by (auto simp: bind_Inr_iff on_db_Inr context_res_Inr_iff split: prod.splits)
  have "stored_verified L sqlite client snapshot_id record' row k"
    unfolding stored_verified_def
    by (intro exI conjI) (rule d(1) conjunct1 [OF params_pair [OF d(2)]] conjunct2 [OF params_pair [OF d(2)]] d(3) d(4))+
  with d(5) show ?thesis by (auto simp: checked_add_Some_iff)
qed

lemma stored_accounts_Inr:
  "fold_io (stored_account L C sqlite client snapshot_id record' paths) vs s n = (Inr t, n') \<Longrightarrow>
   \<exists>ks. list_all2 (stored_verified L sqlite client snapshot_id record') vs ks \<and> unat (snd t) = unat (snd s) + sum_list (map unat ks)"
proof (induction vs arbitrary: s n)
  case (Cons r rs)
  then obtain u m where u: "stored_account L C sqlite client snapshot_id record' paths r s n = (Inr u, m)"
      "fold_io (stored_account L C sqlite client snapshot_id record' paths) rs u m = (Inr t, n')"
    by (auto simp: bind_Inr_iff)
  from stored_account_Inr [OF u(1)] obtain k where "stored_verified L sqlite client snapshot_id record' r k" "unat (snd u) = unat (snd s) + unat k" by blast
  moreover from Cons.IH [OF u(2)] obtain ks where "list_all2 (stored_verified L sqlite client snapshot_id record') rs ks"
      "unat (snd t) = unat (snd u) + sum_list (map unat ks)" by blast
  ultimately show ?case by (intro exI [of _ "k # ks"]) simp
qed simp

definition stored_state_verified :: "('w, 'x) nodelib_scheme \<Rightarrow> (string \<Rightarrow> string option list) \<Rightarrow> ClickHouse \<Rightarrow> string \<Rightarrow> json \<Rightarrow> bool" where
  "stored_state_verified L sqlite client snapshot_id record' \<longleftrightarrow> (\<exists>query vs addresses ks total w1 w2 w3 w4.
     map_of query ''id'' = Some (JStr snapshot_id) \<and> rows_vec L client accounts_sql query w1 = (Inr vs, w2) \<and>
     map_res (\<lambda>row. string_field row ''address'') vs = Inr addresses \<and> index record' ''accounts'' = JArr (map JStr addresses) \<and>
     list_all2 (stored_verified L sqlite client snapshot_id record') vs ks \<and>
     stored_total L client snapshot_id w3 = (Inr total, w4) \<and> unat total = sum_list (map unat ks) \<and>
     as_u64 (index record' ''nonzero_slots'') = Some total)"

lemma params_id: "params (jobj [(''id'', JStr i)]) = Inr q \<Longrightarrow> map_of q ''id'' = Some (JStr i)"
  by (auto simp: params_def jobj_def bt_of_list_def as_object_def context_res_def split: if_splits)

lemma verify_stored_verified:
  assumes "verify_stored L C sqlite client snapshot_id record' work_dir control_path n = (Inr u, n')"
  shows "stored_state_verified L sqlite client snapshot_id record'"
proof -
  from assms obtain query vs addresses m m' t total w1 w2 w3 w4 where
    d: "params (jobj [(''id'', JStr snapshot_id)]) = Inr query" "rows_vec L client accounts_sql query w1 = (Inr vs, w2)"
      "map_res (\<lambda>row. string_field row ''address'') vs = Inr addresses" "JArr (map JStr addresses) = index record' ''accounts''"
      "fold_io (stored_account L C sqlite client snapshot_id record' [work_dir, control_path]) vs ([], 0) m = (Inr (t, total), m')"
      "stored_total L client snapshot_id w3 = (Inr total, w4)" "Some total = as_u64 (index record' ''nonzero_slots'')"
    unfolding verify_stored_def by (auto simp: bind_Inr_iff on_db_Inr split: prod.splits if_splits)
  from stored_accounts_Inr [OF d(5)] obtain ks where ks: "list_all2 (stored_verified L sqlite client snapshot_id record') vs ks"
      "unat total = sum_list (map unat ks)" by auto
  show ?thesis unfolding stored_state_verified_def
    by (intro exI conjI) (rule params_id [OF d(1)] d(2,3) d(4) [symmetric] ks d(6) d(7) [symmetric])+
qed

section \<open>What an import leaves unchanged before that\<close>

lemma keeps_verify_exported:
  "observed L ok parts \<Longrightarrow> keeps_node parts (verify_exported L C G sqlite client directory paths snapshot bundle' pages row s)"
  unfolding verify_exported_def Let_def by (auto intro!: keeps_bind kept keeps_capacity_ok split: prod.split)

lemma keeps_verify_layout:
  assumes "observed L ok parts"
  shows "keeps_node parts (verify_layout L C G sqlite client directory layout expected_hash work_dir)"
proof -
  have "keeps_node parts (fold_io (verify_exported L C G sqlite client directory paths snapshot bundle' pages) accounts s)" for paths snapshot bundle' pages accounts s
    by (intro keeps_fold_io keeps_verify_exported [OF assms])
  then show ?thesis
    unfolding verify_layout_def Let_def by (auto intro!: keeps_bind kept keeps_capacity_ok [OF assms] split: prod.split)
qed

lemma keeps_below_budget: "observed L ok parts \<Longrightarrow> keeps parts (below_budget L client b msg)"
  unfolding below_budget_def by (intro keeps_bind kept keeps_disk_usage)

lemma keeps_ch_insert:
  "observed L ok parts \<Longrightarrow> ok (''INSERT INTO '' @ table @ '' FORMAT JSONEachRow'') \<Longrightarrow> keeps parts (ch_insert L c table vs k)"
  unfolding ch_insert_def by (intro keeps_bind kept keeps_insert_loop)

lemma keeps_import_page:
  assumes "observed L ok parts" "ok ''INSERT INTO checkpoint_storage FORMAT JSONEachRow''"
  shows "keeps_node parts (import_page L C G client directory paths b snapshot_id item)"
  unfolding import_page_def
  by (intro keeps_bind kept keeps_on_db keeps_ch_insert [OF assms(1)] keeps_below_budget [OF assms(1)] keeps_capacity_ok [OF assms(1)]) (simp add: assms(2))

lemma keeps_stored_account:
  assumes "observed L ok parts"
  shows "keeps_node parts (stored_account L C sqlite client snapshot_id record' paths row s)"
proof -
  have "keeps parts (rows L client slots_sql q)" for q by (rule keeps_reads [OF assms]) (simp add: slots_sql_def)
  then show ?thesis unfolding stored_account_def Let_def
    by (auto intro!: keeps_bind kept keeps_on_db keeps_capacity_ok [OF assms] split: prod.split)
qed

lemma keeps_verify_stored:
  assumes "observed L ok parts"
  shows "keeps_node parts (verify_stored L C sqlite client snapshot_id record' work_dir control_path)"
proof -
  have "keeps parts (rows_vec L client accounts_sql q)" for q by (rule keeps_reads [OF assms]) (simp add: accounts_sql_def)
  moreover have "keeps parts (stored_total L client snapshot_id)"
    unfolding stored_total_def by (intro keeps_bind kept keeps_reads [OF assms]) (simp add: stored_count_sql_def)
  moreover have "keeps_node parts (fold_io (stored_account L C sqlite client snapshot_id record' paths) vs s)" for paths vs s
    by (intro keeps_fold_io keeps_stored_account [OF assms])
  ultimately show ?thesis
    unfolding verify_stored_def by (auto intro!: keeps_bind kept keeps_on_db split: prod.split)
qed

lemma keeps_schema_checks:
  assumes "observed L ok parts"
  shows "keeps parts (require_partitioned_schema L client)"
  unfolding require_partitioned_schema_def by (intro keeps_bind kept keeps_reads [OF assms]) (simp add: schema_sql_def)

lemma import_locked_verified:
  assumes "publishing_server L published" "published (nd_db n) = h"
  shows "only_after (\<lambda>n. published (nd_db n)) h (\<lambda>_. \<exists>snapshot_id. stored_state_verified L sqlite client snapshot_id (index layout ''checkpoint''))
    (import_locked L C G sqlite client directory layout work_dir budget control_path) n"
proof -
  have o: "observed L (\<lambda>sql. sql \<noteq> publish_sql) published" using assms(1) by (simp add: publishing_server_def)
  have ins: "keeps published (ch_insert L client ''checkpoint_accounts'' vs k)" for vs k
    by (rule keeps_ch_insert [OF o]) (simp add: publish_sql_def)
  have pages: "keeps_node published (for_each (import_page L C G client directory paths b i) items)" for paths b i items
    by (intro keeps_for_each keeps_import_page [OF o]) (simp add: publish_sql_def)
  have final: "only_after (\<lambda>n. published (nd_db n)) h (\<lambda>_. \<exists>snapshot_id. stored_state_verified L sqlite client snapshot_id (index layout ''checkpoint''))
      (bind (on_db (insert_values L client ''checkpoints'' vs)) (\<lambda>_. ret v)) m"
    if "verify_stored L C sqlite client i (index layout ''checkpoint'') work_dir control_path m1 = (Inr u, m2)" for vs v m i m1 u m2
    by (rule only_after_all) (rule exI, rule verify_stored_verified, rule that)
  show ?thesis
    unfolding import_locked_def Let_def
    by (intro only_after_lift assms(2) only_after_bind [OF keeps_capacity_ok [OF o]] only_after_bind [OF keeps_on_db [OF keeps_below_budget [OF o]]]
        only_after_bind [OF keeps_draws(1)] only_after_bind [OF keeps_draws(2)] only_after_bind [OF pages] only_after_bind [OF keeps_on_fs(1)]
        only_after_bind [OF keeps_on_db [OF ins]] only_after_bind [OF keeps_verify_stored [OF o]])
      (assumption | rule final)+
qed

lemma import_verified:
  assumes "publishing_server L published"
    and "list_all (\<lambda>s. s \<noteq> publish_sql) (split_on (\<lambda>c. c = CHR '';'') checkpoints_sql)" "published (nd_db n) = h"
  shows "only_after (\<lambda>n. published (nd_db n)) h (\<lambda>_. \<exists>dir layout result m m' snapshot_id. resolve_path L directory = Inr dir \<and>
       verify_layout L C G sqlite client dir layout expected_hash work_dir m = (Inr result, m') \<and>
       stored_state_verified L sqlite client snapshot_id (index layout ''checkpoint''))
    (import_checkpoint L C G sqlite checkpoints_sql client directory expected_hash work_dir budget) n"
proof -
  have o: "observed L (\<lambda>sql. sql \<noteq> publish_sql) published" using assms(1) by (simp add: publishing_server_def)
  show ?thesis
    unfolding import_checkpoint_def
    by (intro only_after_lift assms(3) only_after_bind [OF keeps_on_fs(1)] only_after_bind [OF keeps_verify_layout [OF o]]
        only_after_bind [OF keeps_on_db [OF keeps_checkpoint_setup [OF o assms(2)]]] only_after_bind [OF keeps_on_db [OF keeps_schema_checks [OF o]]]
        only_after_bind [OF keeps_control_open [OF o]] only_after_publisher)
      (assumption | rule only_after_mono [OF import_locked_verified [OF assms(1)]] | blast)+
qed


section \<open>A concrete run\<close>

lemma ex_no_layout: "verify_layout ex_publish_lib C G sqlite client dir layout expected work m \<noteq> (Inr result, m')"
  by (auto simp: verify_layout_def Let_def bind_Inr_iff on_fs_Inr export_json_def ex_publish_lib_def context_res_def split: prod.splits)


end
