(* ===== verification/Export_Order.thy ===== *)
theory Export_Order
  imports Export
begin

text \<open>
  The order of an export: the file \<open>manifest.json\<close> that makes an export usable is written only after
  the exported files were verified offline.  Every step before leaves a file of that name alone,
  since it writes files of other names.
\<close>

section \<open>Files by name\<close>

lemma path_join_eq:
  assumes "path_join d f = path_join e g" "CHR ''/'' \<notin> set f" "CHR ''/'' \<notin> set g"
  shows "f = g"
proof -
  have "takeWhile (\<lambda>c. c \<noteq> CHR ''/'') (rev (path_join d f)) = rev f" if "CHR ''/'' \<notin> set f" for d f
    using that by (auto simp: path_join_def takeWhile_append2 takeWhile_tail)
  from this [OF assms(2), of d] this [OF assms(3), of e] assms(1) show ?thesis by simp
qed

definition named :: "string \<Rightarrow> string \<Rightarrow> bool" where
  "named name q \<longleftrightarrow> (\<exists>d. q = path_join d name)"

abbreviation file_at :: "string \<Rightarrow> 'w node \<Rightarrow> string option" where
  "file_at q \<equiv> (\<lambda>n. fs_files (nd_fs n) q)"

definition ids_plain :: "('w, 'x) nodelib_scheme \<Rightarrow> bool" where
  "ids_plain L \<longleftrightarrow> (\<forall>k. length (nl_new_id L k) = 32 \<and> list_all is_lower_hex (nl_new_id L k))"

lemma keeps_file_at: "keeps files_of m \<Longrightarrow> keeps (file_at q) m"
  by (simp add: keeps_def)

lemma keeps_fs_file: "keeps (\<lambda>s. fs_files s q) m \<Longrightarrow> keeps (file_at q) (on_fs m)"
  by (simp add: keeps_def on_fs_def case_prod_unfold)

lemma keeps_fs_all: "keeps fs_files m \<Longrightarrow> keeps (\<lambda>s. fs_files s q) m"
  by (simp add: keeps_def)

lemma temp_other: "temp_ok L \<Longrightarrow> \<not> prefix ''.tmp'' f \<Longrightarrow> fs_temp L d x \<noteq> path_join d f"
  by (metis path_join_inj temp_ok_def prefixI)

lemma keeps_atomic_write:
  assumes "temp_ok L" "\<not> prefix ''.tmp'' f" "named name q" "f \<noteq> name" "CHR ''/'' \<notin> set f" "CHR ''/'' \<notin> set name"
  shows "keeps (\<lambda>s. fs_files s q) (atomic_write (fs_temp L d) parent (path_join d f) bytes overwrite)"
    "keeps (\<lambda>s. fs_files s q) (atomic_json pretty (fs_temp L d) parent (path_join d f) v overwrite)"
proof -
  have "q \<noteq> path_join d f" using assms(3-6) path_join_eq unfolding named_def by metis
  then show "keeps (\<lambda>s. fs_files s q) (atomic_write (fs_temp L d) parent (path_join d f) bytes overwrite)" for bytes
    using atomic_write_effect [of "fs_temp L d" "path_join d f" parent bytes overwrite] temp_other [OF assms(1,2)]
    by (auto simp: keeps_def Let_def case_prod_unfold)
  then show "keeps (\<lambda>s. fs_files s q) (atomic_json pretty (fs_temp L d) parent (path_join d f) v overwrite)"
    by (simp add: atomic_json_def)
qed

section \<open>Steps that leave the manifest alone\<close>

lemma keeps_at_draws [kept]: "keeps (file_at q) (new_id L)" "keeps (file_at q) (now_ns L)" "keeps (file_at q) (acquire L f x)" "keeps (file_at q) (draw g)"
  unfolding new_id_def now_ns_def acquire_def
  by (intro keeps_bind kept keeps_file_at keeps_files_node keeps_fs_try | simp add: keeps_def draw_def on_locks_keeps)+

lemma keeps_at_holding: "keeps (file_at q) m \<Longrightarrow> keeps (file_at q) (holding L p x m)"
  unfolding holding_def by (intro keeps_bind kept) (simp add: keeps_def case_prod_unfold)

lemma keeps_at_reads [kept]:
  "keeps (file_at q) (on_db m)" "keeps (file_at q) (on_fs fs_try)" "keeps (file_at q) (on_fs (fs_read p))"
  "keeps (file_at q) (on_fs (fs_exists p))" "keeps (file_at q) (on_fs (read_json L p))" "keeps (file_at q) (on_fs (fs_get p))"
  by (intro keeps_file_at keeps_files_node keeps_fs_try keeps_fs_reads | simp add: keeps_def fs_get_def)+

lemma keeps_at_capacity:
  "keeps (file_at q) (docker E args)" "keeps (file_at q) (meter_inspect L E meter)"
  "keeps (file_at q) (scan_usage E paths)" "keeps (file_at q) (component_usage E paths)"
  unfolding docker_def meter_inspect_def component_usage_def scan_usage_def by (intro keeps_capacity kept)+

lemma keeps_at_component_usages: "keeps (file_at q) (component_usages E cs)"
  by (induction E cs rule: component_usages.induct) (auto simp: retry_local_def intro!: keeps_capacity kept keeps_at_capacity)

lemma keeps_at_free_spaces: "keeps (file_at q) (free_spaces E ps a)"
  by (induction E ps a rule: free_spaces.induct) (auto intro!: keeps_capacity kept split: prod.split)

lemma keeps_at_sample: "keeps (file_at q) (meter_sample L E meter)"
proof -
  have "keeps (file_at q) (server_scan L E m info ps a)" "keeps (file_at q) (selected_rows L m st sql)" "keeps (file_at q) (retry_local (scan_usage E rs))"
    for m info ps a st sql rs
    unfolding server_scan_def retry_scan_def selected_rows_def retry_local_def by (auto intro!: keeps_capacity kept keeps_at_capacity)
  then show ?thesis
    unfolding meter_sample_def
    by (auto intro!: keeps_capacity kept keeps_at_capacity keeps_at_component_usages keeps_at_free_spaces split: prod.split)
qed

lemma keeps_at_capacity_ok:
  assumes "temp_ok L" "ids_plain L" "named name q" "CHR ''/'' \<notin> set name" "length name \<noteq> 37"
  shows "keeps (file_at q) (capacity_ok L C client paths stage)"
proof -
  have i: "CHR ''/'' \<notin> set (nl_new_id L k)" "\<not> prefix ''.tmp'' (nl_new_id L k @ ''.json'')" "nl_new_id L k @ ''.json'' \<noteq> name" for k
  proof -
    have l: "length (nl_new_id L k) = 32" "list_all is_lower_hex (nl_new_id L k)" using assms(2) by (simp_all add: ids_plain_def)
    show "CHR ''/'' \<notin> set (nl_new_id L k)" using l(2) by (auto simp: list_all_iff is_lower_hex_def is_digit_def less_eq_char_def)
    obtain c cs where c: "nl_new_id L k = c # cs" using l(1) by (cases "nl_new_id L k") auto
    have "c \<noteq> CHR ''.''" using l(2) c by (auto simp: is_lower_hex_def is_digit_def less_eq_char_def)
    then show "\<not> prefix ''.tmp'' (nl_new_id L k @ ''.json'')" by (simp add: c)
    have "length (nl_new_id L k @ ''.json'') = 37" using l(1) by simp
    then show "nl_new_id L k @ ''.json'' \<noteq> name" using assms(5) by auto
  qed
  have e: "keeps (file_at q) (write_event L d st v)" for d st v
  proof (cases d)
    case (Some e)
    have k: "keeps (\<lambda>s. fs_files s q) (atomic_json (json_pretty L) (fs_temp L e) (Some e) (path_join e (nl_new_id L k @ ''.json'')) x False)" for k x
      by (rule keeps_atomic_write(2) [OF assms(1) i(2) assms(3) i(3)]) (simp_all add: i(1) assms(4))
    show ?thesis unfolding Some
      by (simp add: write_event_def keeps_def bind_def new_id_def draw_def keeps_fs_file [OF k, unfolded keeps_def, rule_format])
  qed (simp add: write_event_def)
  have f: "keeps (file_at q) (failure L err t)" for err t
    unfolding failure_def Let_def by (intro keeps_bind kept)
  have "keeps (file_at q) (cap_guard L E meter required st d)" for E meter required st d
    unfolding cap_guard_def
    by (intro keeps_capacity keeps_handle keeps_at_sample keeps_if keeps_bind kept e f)
  then have "keeps (file_at q) (capacity_check L E additional policy events client required st)" for E additional policy events required st
    unfolding capacity_check_def meter_new_def
    by (auto intro!: keeps_capacity kept keeps_at_capacity split: option.split prod.split)
  then show ?thesis unfolding capacity_ok_def by (intro keeps_handle kept)
qed

lemma keeps_at_control_open:
  assumes "temp_ok L" "named ''manifest.json'' q"
  shows "keeps (file_at q) (control_open L client)"
proof -
  have h: "keeps (file_at q) (machine_id L)" "keeps (file_at q) (host_matches L record' d)" for record' d
    unfolding host_matches_def matches_for_def machine_id_def by (auto intro!: keeps_bind kept split: option.split)
  have w: "keeps (file_at q) (on_fs (atomic_json (json_pretty L) (fs_temp L path) (Some path) (path_join path ''binding.json'') v False))"
      "keeps (file_at q) (on_fs (atomic_write (fs_temp L path) (Some path) (path_join path ''initialized'') i False))" for path v i
    by (intro keeps_fs_file keeps_atomic_write [OF assms(1) _ assms(2)], simp_all)+
  have "keeps (file_at q) (load_binding L uuid path owned)" "keeps (file_at q) (mark_initialized L path i)" "keeps (file_at q) (control_matches L rc uuid path)"
    for uuid path owned i rc
    unfolding load_binding_def mark_initialized_def control_matches_def Let_def
    by (auto intro!: keeps_bind kept h w)
  then have "keeps (file_at q) (open_binding L client uuid path)" for uuid path
    unfolding open_binding_def by (auto intro!: keeps_bind kept)
  then show ?thesis unfolding control_open_def Let_def by (intro keeps_bind kept keeps_at_holding)
qed

lemma page_name_plain: "CHR ''/'' \<notin> set (page_name i)" "page_name i \<noteq> ''manifest.json''"
proof -
  have "list_all is_digit (show_nat i)" by (rule show_nat_digits)
  then show "CHR ''/'' \<notin> set (page_name i)"
    by (auto simp: page_name_def pad6_def list_all_iff is_digit_def less_eq_char_def)
  show "page_name i \<noteq> ''manifest.json''" by (simp add: page_name_def)
qed

lemma keeps_at_write_page:
  assumes "named ''manifest.json'' q"
  shows "keeps (\<lambda>s. fs_files s q) (write_page L G directory i account rs)"
proof -
  have q: "q \<noteq> path_join directory (page_name i)"
  proof
    assume "q = path_join directory (page_name i)"
    then obtain d where "path_join directory (page_name i) = path_join d ''manifest.json''" using assms unfolding named_def by metis
    from path_join_eq [OF this page_name_plain(1)] page_name_plain(2) show False by simp
  qed
  have "keeps (\<lambda>s. fs_files s q) (create_new (path_join directory (page_name i)))"
    unfolding create_new_def by (intro keeps_bind keeps_fs_all [OF keeps_fs_try] keeps_if kept) (simp_all add: keeps_def fs_get_def fs_set_def q)
  moreover have "keeps (\<lambda>s. fs_files s q) (write_all (path_join directory (page_name i)) bytes)" for bytes
    using write_all_files [OF q] by (simp add: keeps_def)
  moreover have "keeps (\<lambda>s. fs_files s q) (file_hash L p)" for p
    unfolding file_hash_def by (intro keeps_bind keeps_fs_all [OF keeps_fs_reads(1)] kept)
  ultimately show ?thesis
    unfolding write_page_def Let_def by (intro keeps_bind kept keeps_fs_all [OF keeps_fs_try] keeps_fs_all [OF keeps_fs_reads(1)])
qed

lemma keeps_at_export_account:
  assumes "named ''manifest.json'' q"
  shows "keeps (file_at q) (export_account L G client snapshot_id directory page_size a pages)"
proof -
  have "keeps (\<lambda>s. fs_files s q) (export_row L G directory page_size account r s)" for account r s
    unfolding export_row_def Let_def by (auto intro!: keeps_bind kept keeps_at_write_page [OF assms] split: prod.split)
  then have "keeps (\<lambda>s. fs_files s q) (fold_io (export_row L G directory page_size account) rs s)" for account rs s
    by (intro keeps_fold_io)
  then show ?thesis
    unfolding export_account_def by (auto intro!: keeps_bind kept keeps_fs_file keeps_at_write_page [OF assms] split: prod.split)
qed

lemma keeps_at_export_parts:
  assumes "temp_ok L" "named ''manifest.json'' q"
  shows "keeps (file_at q) (export_parts L G client snapshot_id directory page_size snapshot)"
proof -
  have "keeps (file_at q) (on_fs (atomic_json (json_pretty L) (fs_temp L d) (Some d) (path_join d ''accounts.json'') v False))" for d v
    by (intro keeps_fs_file keeps_atomic_write [OF assms(1) _ assms(2)]) simp_all
  moreover have "keeps (file_at q) (on_fs (file_hash L p))" for p
    unfolding file_hash_def by (intro keeps_fs_file keeps_bind keeps_fs_all [OF keeps_fs_reads(1)] kept)
  moreover have "keeps (file_at q) (fold_io (export_account L G client snapshot_id directory page_size) as ps)" for as ps
    by (intro keeps_fold_io keeps_at_export_account [OF assms(2)])
  ultimately show ?thesis
    unfolding export_parts_def Let_def by (intro keeps_bind kept)
qed

lemma keeps_at_verify_layout:
  assumes "temp_ok L" "ids_plain L" "named ''manifest.json'' q"
  shows "keeps (file_at q) (verify_layout L C G sqlite client directory layout expected_hash work_dir)"
proof -
  note c = keeps_at_capacity_ok [OF assms, simplified]
  have f: "keeps fs_files (check_file L d v)" "keeps fs_files (export_json L p)" "keeps fs_files (page_rows L G d v)" for d v p
    unfolding check_file_def export_json_def page_rows_def Let_def by (auto intro!: keeps_bind keeps_fs_reads)
  have "keeps fs_files (page_source L G d v)" for d v
    using f(3) unfolding page_source_def by (intro keeps_handle kept)
  then have m: "keeps fs_files (map_io (page_source L G d) vs)" for d vs
    by (induction vs) (auto intro!: keeps_bind)
  have "keeps (file_at q) (verify_exported L C G sqlite client d paths snapshot b pages row s)" for d paths snapshot b pages row s
    unfolding verify_exported_def Let_def
    by (auto intro!: keeps_bind kept c keeps_fs_file [OF keeps_fs_all [OF m]] split: prod.split)
  then have "keeps (file_at q) (fold_io (verify_exported L C G sqlite client d paths snapshot b pages) accounts s)" for d paths snapshot b pages accounts s
    by (intro keeps_fold_io)
  then show ?thesis
    unfolding verify_layout_def Let_def
    by (auto intro!: keeps_bind kept c keeps_fs_file [OF keeps_fs_all [OF f(1)]] keeps_fs_file [OF keeps_fs_all [OF f(2)]] split: prod.split)
qed

section \<open>The manifest comes last\<close>

definition exported :: "('w, 'x) nodelib_scheme \<Rightarrow> capcfg \<Rightarrow> portlib \<Rightarrow> (string \<Rightarrow> string option list) \<Rightarrow> ClickHouse \<Rightarrow> string \<Rightarrow> string \<Rightarrow> string \<Rightarrow> 'w node \<Rightarrow> bool" where
  "exported L C G sqlite client snapshot_id dir work_dir n \<longleftrightarrow> (\<exists>layout result snapshot w w' m m'.
     fs_files (nd_fs n) (path_join dir ''manifest.json'') = Some (ascii_json (json_pretty L layout) @ [CHR 0x0A]) \<and>
     manifest_unlocked L client snapshot_id w = (Inr snapshot, w') \<and> index layout ''checkpoint'' = snapshot \<and>
     verify_layout L C G sqlite client dir layout None work_dir m = (Inr result, m'))"

lemma index_export_layout: "index (export_layout snapshot b h pages) ''checkpoint'' = snapshot"
  by (simp add: export_layout_def index_jobj)

lemma export_parts_layout:
  "export_parts L G client snapshot_id dir page_size snapshot n = (Inr (layout, k), n') \<Longrightarrow> index layout ''checkpoint'' = snapshot"
  unfolding export_parts_def Let_def by (auto simp: bind_Inr_iff index_export_layout)

lemma keeps_at_directory_bytes: "keeps (file_at q) (on_fs (directory_bytes L d))"
proof -
  have "keeps (\<lambda>s. fs_files s q) (read_dir L d)"
    unfolding read_dir_def by (intro keeps_bind keeps_fs_all [OF keeps_fs_try]) (simp add: keeps_def)
  moreover have "keeps (\<lambda>s. fs_files s q) (fold_io (\<lambda>name total. bind fs_try (\<lambda>_. bind (fs_get (path_join d name)) (\<lambda>v. case v of None \<Rightarrow> ret total
       | Some c \<Rightarrow> lift (context_res (checked_add total (of_nat (length c))) ''export byte count overflow'')))) names t)" for names t
    by (intro keeps_fold_io keeps_bind keeps_fs_all [OF keeps_fs_try]) (auto simp: keeps_def fs_get_def split: option.split)
  ultimately show ?thesis unfolding directory_bytes_def by (intro keeps_fs_file keeps_bind)
qed

lemma only_after_write:
  assumes "temp_ok L" "P0 = (\<lambda>n. fs_files (nd_fs n) (path_join dir ''manifest.json'') = Some (ascii_json (json_pretty L layout) @ [CHR 0x0A]))"
    and "file_at (path_join dir ''manifest.json'') m = h" "\<And>v. keeps (file_at (path_join dir ''manifest.json'')) (f v)" "\<And>n. P0 n \<Longrightarrow> P n"
  shows "only_after (file_at (path_join dir ''manifest.json'')) h P
    (bind (on_fs (atomic_json (json_pretty L) (fs_temp L dir) (Some dir) (path_join dir ''manifest.json'') layout False)) f) m"
  unfolding only_after_def
proof (intro allI impI)
  let ?q = "path_join dir ''manifest.json''"
  let ?w = "on_fs (atomic_json (json_pretty L) (fs_temp L dir) (Some dir) ?q layout False)"
  fix r n' assume run: "bind ?w f m = (r, n')"
  obtain a u where a: "?w m = (a, u)" by fastforce
  have t: "\<forall>x. fs_temp L dir x \<noteq> ?q" using temp_other [OF assms(1)] by simp
  have e: "file_at ?q u = h \<or> P0 u" "is_ok a \<longrightarrow> P0 u"
    using atomic_write_effect [OF t, of "Some dir" "ascii_json (json_pretty L layout) @ [CHR 0x0A]" False "nd_fs m"] a assms(2,3)
    by (auto simp: on_fs_def atomic_json_def Let_def split: prod.splits)
  show "file_at ?q n' = h \<and> \<not> is_ok r \<or> P n'"
  proof (cases a)
    case (Inl x)
    with run a e(1) assms(5) show ?thesis by (auto simp: bind_def)
  next
    case (Inr v)
    with run a have "f v u = (r, n')" by (simp add: bind_def)
    from keepsD [OF assms(4) this] e(2) Inr assms(2,5) show ?thesis by (simp add: is_ok_def)
  qed
qed

lemma only_after_at_holding:
  fixes n :: "'w node"
  assumes "\<And>n1 :: 'w node. file_at q n1 = h \<Longrightarrow> only_after (file_at q) h P m n1" "file_at q n = h" "\<And>n1 ls. P n1 \<Longrightarrow> P (n1\<lparr>nd_locks := ls\<rparr>)"
  shows "only_after (file_at q) h P (holding L p x m) n"
  unfolding holding_def
proof (rule only_after_bind [OF keeps_at_draws(3)])
  fix u and n1 :: "'w node" assume "file_at q n1 = h"
  then have "only_after (file_at q) h P m n1" by (rule assms(1))
  then show "only_after (file_at q) h P (\<lambda>n. case m n of (r, n') \<Rightarrow> (r, release L p x n')) n1"
    using assms(3) unfolding only_after_def by (cases "m n1") (auto simp: release_def)
qed (rule assms(2))

lemma export_ordered:
  fixes n :: "'w node"
  assumes "temp_ok L" "ids_plain L" "resolve_path L directory = Inr dir" "file_at (path_join dir ''manifest.json'') n = h"
  shows "only_after (file_at (path_join dir ''manifest.json'')) h (exported L C G sqlite client snapshot_id dir work_dir)
    (export_checkpoint L C G sqlite client snapshot_id directory page_size work_dir) n"
proof -
  let ?q = "path_join dir ''manifest.json''"
  have q: "named ''manifest.json'' ?q" by (auto simp: named_def)
  note c = keeps_at_capacity_ok [OF assms(1,2) q, simplified]
  have mk: "keeps (file_at ?q) (on_fs (make_dir G d))" for d
    unfolding make_dir_def by (intro keeps_fs_file keeps_bind keeps_fs_all [OF keeps_fs_try]) (simp add: keeps_def)
  have db: "keeps (file_at ?q) (on_db k)" for k :: "('w, 'r) io" by (rule kept)
  have tr: "keeps (file_at ?q) (on_fs fs_try :: ('w node, unit) io)" by (rule kept)
  have final: "only_after (file_at ?q) h (exported L C G sqlite client snapshot_id dir work_dir)
      (bind (on_fs (atomic_json (json_pretty L) (fs_temp L dir) (Some dir) ?q layout False)) (\<lambda>_.
       bind (on_fs (directory_bytes L dir)) (\<lambda>b. ret (g b)))) m"
    if "on_db (manifest_unlocked L client snapshot_id) m1 = (Inr snapshot, m2)"
      "export_parts L G client snapshot_id dir page_size snapshot m3 = (Inr (layout, k), m4)"
      "verify_layout L C G sqlite client dir layout None work_dir m5 = (Inr result, m6)" "file_at ?q m = h"
    for m1 snapshot m2 m3 layout k m4 m5 result m6 m and g :: "u64 \<Rightarrow> json"
  proof (rule only_after_write [OF assms(1) refl that(4)])
    show "keeps (file_at ?q) (bind (on_fs (directory_bytes L dir)) (\<lambda>b. ret (g b)))" by (intro keeps_bind keeps_at_directory_bytes kept)
    show "exported L C G sqlite client snapshot_id dir work_dir n" if "file_at ?q n = Some (ascii_json (json_pretty L layout) @ [CHR 0x0A])" for n
      unfolding exported_def using that \<open>on_db _ m1 = _\<close> export_parts_layout [OF \<open>export_parts _ _ _ _ _ _ _ m3 = _\<close>] \<open>verify_layout _ _ _ _ _ _ _ _ _ m5 = _\<close>
      by (auto simp: on_db_Inr)
  qed
  show ?thesis
    unfolding export_checkpoint_def control_reader_def Let_def assms(3) bind_lift
    by (intro only_after_check assms(4) only_after_bind [OF keeps_at_control_open [OF assms(1) q]] only_after_at_holding only_after_lift
        only_after_bind [OF c] only_after_bind [OF db] only_after_bind [OF tr] only_after_bind [OF mk]
        only_after_bind2 [OF keeps_at_export_parts [OF assms(1) q]] only_after_bind [OF keeps_at_verify_layout [OF assms(1,2) q]])
      ((rule final, assumption+) | simp add: exported_def)+
qed

text \<open>
  C10: However an export ends, the file \<open>manifest.json\<close> of its directory is changed, or success is
  reported, only when it then holds a complete layout for the published checkpoint that offline
  verification of the exported files accepted; whatever fails before leaves that file as it was.
\<close>

theorem export_manifest_last:
  assumes "temp_ok L" "ids_plain L" "resolve_path L directory = Inr dir"
    and "export_checkpoint L C G sqlite client snapshot_id directory page_size work_dir n = (r, n')"
  shows "fs_files (nd_fs n') (path_join dir ''manifest.json'') \<noteq> fs_files (nd_fs n) (path_join dir ''manifest.json'') \<or> is_ok r \<longrightarrow>
    (\<exists>layout result snapshot w w' m m'.
     fs_files (nd_fs n') (path_join dir ''manifest.json'') = Some (ascii_json (json_pretty L layout) @ [CHR 0x0A]) \<and>
     manifest_unlocked L client snapshot_id w = (Inr snapshot, w') \<and> index layout ''checkpoint'' = snapshot \<and>
     verify_layout L C G sqlite client dir layout None work_dir m = (Inr result, m'))"
  using only_afterD [OF export_ordered [OF assms(1-3) refl] assms(4)] unfolding exported_def by blast

definition ex_export_lib :: "string list nodelib" where
  "ex_export_lib = ex_publish_lib\<lparr>fs_temp := (\<lambda>d s. d @ ''/.tmp''), nl_new_id := (\<lambda>_. replicate 32 CHR ''a'')\<rparr>"

theorem export_manifest_last_witness:
  "fs_files (nd_fs (snd (export_checkpoint ex_export_lib ex_capcfg ex_port (\<lambda>_. []) ex_db ''s'' ''/d'' 10 ''/w'' ex_publish_node))) ''/d/manifest.json'' = None"
proof -
  let ?e = "export_checkpoint ex_export_lib ex_capcfg ex_port (\<lambda>_. []) ex_db ''s'' ''/d'' 10 ''/w'' ex_publish_node"
  have t: "temp_ok ex_export_lib" by (simp add: temp_ok_def ex_export_lib_def path_join_def)
  have i: "ids_plain ex_export_lib" by (simp add: ids_plain_def ex_export_lib_def list_all_iff is_lower_hex_def is_digit_def less_eq_char_def)
  have d: "resolve_path ex_export_lib ''/d'' = Inr ''/d''"
    by (simp add: resolve_path_def ex_export_lib_def ex_publish_lib_def resolve_def path_components_def is_absolute_def push_def show_path_def)
  have "verify_layout ex_export_lib C G sqlite client dir layout expected work m \<noteq> (Inr result, m')"
    for C G sqlite client dir layout expected work result and m m' :: "string list node"
    by (auto simp: verify_layout_def Let_def bind_Inr_iff on_fs_Inr export_json_def ex_export_lib_def ex_publish_lib_def context_res_def split: prod.splits)
  with export_manifest_last [OF t i d, of ex_capcfg ex_port "\<lambda>_. []" ex_db "''s''" 10 "''/w''" ex_publish_node "fst ?e" "snd ?e"]
  show ?thesis by (simp add: path_join_def ex_publish_node_def)
qed

end
