(* ===== verification/Ingest.thy ===== *)
theory Ingest
  imports Export_Order
begin

text \<open>
  Guarded native ingestion, \<open>crates/evm-state/src/ingest.rs\<close>: the identity of a run, its preparation,
  cursor recovery and the supervision of the native sink.  The native program, URL parsing and what
  happens while the sink runs are parameters; a supervised run is given by what each poll of the
  child process finds, and has no result while it has not ended.
\<close>

definition MODULE :: string where
  "MODULE = ''map_block_state''"

record NativeOptions =
  no_package :: string
  no_endpoint :: string
  no_accounts :: json
  no_start_block :: u64
  no_state_dir :: string
  no_dsn :: string
  no_checkpoint_database :: "string option"

record IngestOptions =
  io_stop_block :: "u64 option"
  io_max_retries :: "64 word"
  io_decode_batch_size :: "32 word"
  io_spool_max_idle_ms :: u64
  io_prometheus_addr :: "string option"
  io_parallel_workers :: "32 word option"

definition default_options :: IngestOptions where
  "default_options = \<lparr>io_stop_block = None, io_max_retries = 3, io_decode_batch_size = 1, io_spool_max_idle_ms = 100,
     io_prometheus_addr = None, io_parallel_workers = None\<rparr>"

definition options_validate :: "IngestOptions \<Rightarrow> u64 \<Rightarrow> unit res" where
  "options_validate o' start =
     ensure (case io_parallel_workers o' of None \<Rightarrow> True | Some v \<Rightarrow> 0 < v) ''parallel workers must be a positive integer or omitted''
     (ensure (case io_stop_block o' of None \<Rightarrow> True | Some stop \<Rightarrow> start < stop) ''stop block must be greater than start block (exclusive)''
     (ensure (0 < io_decode_batch_size o') ''decode batch size must be a positive integer''
     (ensure (0 < io_spool_max_idle_ms o') ''spool maximum idle milliseconds must be a positive integer'' (Inr ()))))"

section \<open>The native program\<close>

record url =
  ur_scheme :: string
  ur_path :: string
  ur_host :: "string option"
  ur_port :: "nat option"
  ur_username :: string
  ur_password :: "string option"
  ur_query :: "string option"
  ur_fragment :: "string option"

record exit_status =
  es_success :: bool
  es_code :: string

text \<open>What a captured command yields: nothing when it timed out, otherwise its status and output.\<close>

record 'w sinklib =
  sk_url :: "string \<Rightarrow> url option"
  sk_capture :: "string list \<Rightarrow> string \<Rightarrow> ('w node, (exit_status \<times> string) option) io"
  sk_spawn :: "string list \<Rightarrow> string \<Rightarrow> ('w node, unit) io"
  sk_signals :: "('w node, unit) io"
  sk_reap :: "('w node, unit) io"

definition native :: "'w sinklib \<Rightarrow> string list \<Rightarrow> string \<Rightarrow> ('w node, string) io" where
  "native S arguments dsn =
     bind (sk_capture S arguments dsn) (\<lambda>out.
     bind (lift (context_res out ''native Substreams command timed out'')) (\<lambda>(status, text').
     bind (check (es_success status) (''native Substreams command failed (status '' @ es_code status @ ''); inspect the retained native state'')) (\<lambda>_.
     bind (check (utf8_valid (map of_char text')) ''invalid native Substreams response'') (\<lambda>_.
     ret text'))))"

definition normalize :: "string option \<Rightarrow> string option" where
  "normalize = map_option (\<lambda>h. if h = ''localhost'' then ''127.0.0.1'' else h)"

definition validate_target :: "'w sinklib \<Rightarrow> ClickHouse \<Rightarrow> string \<Rightarrow> url res" where
  "validate_target S client dsn =
     bnd (context_res (sk_url S dsn) ''invalid native ClickHouse DSN'') (\<lambda>parsed.
     bnd (context_res (sk_url S (ch_url client)) ''invalid ClickHouse HTTP URL'') (\<lambda>http.
     ensure (ur_scheme parsed = ''clickhouse'' \<and> ur_path parsed = CHR ''/'' # ch_database client \<and> normalize (ur_host parsed) = normalize (ur_host http))
       ''native DSN and HTTP client must name the same ClickHouse host and database''
     (ensure (ur_username http = [] \<and> ur_password http = None \<and> ur_query http = None \<and> ur_fragment http = None)
       ''use CH_USER/CH_PASSWORD for HTTP credentials''
     (Inr parsed))))"

section \<open>The identity of a run\<close>

definition run_json :: "string \<Rightarrow> string" where
  "run_json directory = path_join directory ''run.json''"

definition native_module :: "json \<Rightarrow> json res" where
  "native_module info =
     bnd (context_res (as_array (index info ''modules'')) ''missing native module metadata'') (\<lambda>ms.
     bnd (context_res (find (\<lambda>v. jstr_eq (index v ''name'') MODULE) ms) ''native block-state module is missing'') (\<lambda>m.
     ensure (jstr_eq (index info ''network'') ''bsc'' \<and> jstr_eq (index m ''output_type'') ''proto:evm.state.v1.BlockState'')
       ''expected the BSC native block-state package'' (Inr m)))"

definition local_host :: "('w, 'x) nodelib_scheme \<Rightarrow> string \<Rightarrow> ('w node, string) io" where
  "local_host L directory =
     bind (machine_id L) (\<lambda>machine.
     bind (on_fs (fs_exists (run_json directory))) (\<lambda>there.
     if \<not> there then ret machine
     else bind (on_fs (read_json L (run_json directory))) (\<lambda>previous.
       bind (host_matches L (index previous ''identity'') directory) (\<lambda>same.
       if same then lift (string_field (index previous ''identity'') ''host'') else ret machine))))"

definition identity_json :: "('w, 'x) nodelib_scheme \<Rightarrow> ClickHouse \<Rightarrow> NativeOptions \<Rightarrow> string \<Rightarrow> url \<Rightarrow> string list \<Rightarrow> string \<Rightarrow> json \<Rightarrow> string \<Rightarrow> json res" where
  "identity_json L client options directory parsed selected package m host =
     bnd (ch_identifier (case no_checkpoint_database options of Some d \<Rightarrow> d | None \<Rightarrow> ch_database client)) (\<lambda>checkpoints.
     bnd (context_res (ur_host parsed) ''missing native database host'') (\<lambda>target.
     bnd (string_field m ''hash'') (\<lambda>hash.
     Inr (jobj [(''format_version'', JNum ''3''), (''database'', JStr (ch_database client)), (''http_url'', JStr (ch_url client)),
       (''checkpoint_database'', JStr checkpoints), (''state_directory'', JStr directory), (''host'', JStr host),
       (''native_target'', JStr (target @ CHR '':'' # show_nat (case ur_port parsed of Some p \<Rightarrow> p | None \<Rightarrow> 9000) @ CHR ''/'' # ch_database client)),
       (''endpoint'', JStr (no_endpoint options)), (''accounts'', JArr (map JStr selected)), (''start_block'', jnum (no_start_block options)),
       (''module'', JStr MODULE), (''module_hash'', JStr hash), (''package_sha256'', JStr (hex_encode (nl_evm L) (sha256 L package))),
       (''network'', JStr ''bsc''), (''schema_version'', JNum ''1''), (''final_blocks_only'', JBool True)]))))"

definition run_identity :: "('w, 'x) nodelib_scheme \<Rightarrow> 'w sinklib \<Rightarrow> ClickHouse \<Rightarrow> NativeOptions \<Rightarrow> string \<Rightarrow> ('w node, json \<times> string) io" where
  "run_identity L S client options directory =
     bind (lift (validate_target S client (no_dsn options))) (\<lambda>parsed.
     bind (lift (canonical_accounts L (no_accounts options))) (\<lambda>selected.
     bind (on_fs (fs_read (no_package options))) (\<lambda>package.
     bind (native S [''info'', no_package options, ''--json'', ''-p'', MODULE @ ''='' @ join '','' selected] (no_dsn options)) (\<lambda>text'.
     bind (lift (context_res (json_parse L text') ''invalid JSON'')) (\<lambda>info.
     bind (on_fs (fs_read (no_package options))) (\<lambda>again.
     bind (check (again = package) ''package changed during preparation; retry after the build finishes'') (\<lambda>_.
     bind (lift (native_module info)) (\<lambda>m.
     bind (local_host L directory) (\<lambda>host.
     bind (lift (identity_json L client options directory parsed selected package m host)) (\<lambda>identity.
     ret (identity, package)))))))))))"

section \<open>Preparation\<close>

definition same_intent :: "('w, 'x) nodelib_scheme \<Rightarrow> ClickHouse \<Rightarrow> NativeOptions \<Rightarrow> string \<Rightarrow> json \<Rightarrow> bool res" where
  "same_intent L client options directory previous =
     (if jstr_eq (index previous ''database'') (ch_database client) \<and> jstr_eq (index previous ''http_url'') (ch_url client) \<and>
         jstr_eq (index previous ''endpoint'') (no_endpoint options) \<and> jnum_eq (index previous ''start_block'') (no_start_block options) \<and>
         jstr_eq (index previous ''state_directory'') directory
      then bnd (canonical_accounts L (no_accounts options)) (\<lambda>selected.
        Inr (index previous ''accounts'' = JArr (map JStr selected) \<and>
          jstr_eq (index previous ''checkpoint_database'') (case no_checkpoint_database options of Some d \<Rightarrow> d | None \<Rightarrow> ch_database client)))
      else Inr False)"

definition check_intent :: "('w, 'x) nodelib_scheme \<Rightarrow> ClickHouse \<Rightarrow> NativeOptions \<Rightarrow> string \<Rightarrow> ('w node, unit) io" where
  "check_intent L client options directory =
     bind (on_fs (fs_exists (run_json directory))) (\<lambda>there.
     if \<not> there then ret ()
     else bind (on_fs (read_json L (run_json directory))) (\<lambda>previous.
       bind (lift (same_intent L client options directory (index previous ''identity''))) (\<lambda>same.
       check same ''run identity changed; use a new isolated database and state directory'')))"

definition count_of :: "('w, 'x) nodelib_scheme \<Rightarrow> ClickHouse \<Rightarrow> string \<Rightarrow> (string \<times> json) list \<Rightarrow> ('w, u64) io" where
  "count_of L client sql ps = bind (one L client sql ps) (\<lambda>row. lift (uint (index row ''n'')))"

definition databases_sql :: string where
  "databases_sql = ''SELECT count() AS n FROM system.databases WHERE name={db:String}''"

definition tables_sql :: string where
  "tables_sql = ''SELECT count() AS n FROM system.tables WHERE database={db:String}''"

definition owner_table_sql :: string where
  "owner_table_sql = tables_sql @ '' AND name='' @ quoted ''_evm_state_run''"

definition load_run :: "('w, 'x) nodelib_scheme \<Rightarrow> string \<Rightarrow> json \<Rightarrow> bool \<Rightarrow> ('w node, json) io" where
  "load_run L directory identity exists' =
     bind (on_fs (read_json L (run_json directory))) (\<lambda>record'.
     bind (check (as_str (index record' ''phase'') = Some ''preparing'' \<or> as_str (index record' ''phase'') = Some ''prepared'') ''invalid native run phase'') (\<lambda>_.
     bind (check (index record' ''identity'' = identity) ''run identity changed; use a new isolated database and state directory'') (\<lambda>_.
     bind (check (\<not> jstr_eq (index record' ''phase'') ''prepared'' \<or> exists') ''run database is missing; restore matching database and cursor metadata'') (\<lambda>_.
     ret record'))))"

definition new_run :: "('w, 'x) nodelib_scheme \<Rightarrow> ClickHouse \<Rightarrow> string \<Rightarrow> json \<Rightarrow> (string \<times> json) list \<Rightarrow> bool \<Rightarrow> ('w node, json) io" where
  "new_run L client directory identity query exists' =
     bind (if exists' then bind (on_db (count_of L client tables_sql query)) (\<lambda>n.
             check (n = 0) ''database already contains tables without this run's local identity'')
           else ret ()) (\<lambda>_.
     bind (on_fs (read_dir L directory)) (\<lambda>names.
     bind (check (list_all (\<lambda>f. f = ''run.lock'') names) ''state directory is not empty and has no run identity'') (\<lambda>_.
     bind (new_id L) (\<lambda>id'.
     let record' = jobj [(''run_id'', JStr id'), (''identity'', identity), (''phase'', JStr ''preparing'')] in
     bind (on_fs (atomic_json (json_pretty L) (fs_temp L directory) (Some directory) (run_json directory) record' False)) (\<lambda>_.
     ret record')))))"

definition freeze_package :: "('w, 'x) nodelib_scheme \<Rightarrow> string \<Rightarrow> json \<Rightarrow> json \<Rightarrow> string \<Rightarrow> (fsys, unit) io" where
  "freeze_package L directory record' identity package =
     (let frozen = path_join directory ''package.spkg'' in
      bind (fs_exists frozen) (\<lambda>there.
      if there then bind (fs_read frozen) (\<lambda>c.
        bind (lift (string_field identity ''package_sha256'')) (\<lambda>digest.
        check (hex_encode (nl_evm L) (sha256 L c) = digest) ''frozen run package was changed''))
      else bind (check (\<not> jstr_eq (index record' ''phase'') ''prepared'') ''frozen run package is missing'') (\<lambda>_.
        atomic_write (fs_temp L directory) (Some directory) frozen package False)))"

definition owner_create_sql :: string where
  "owner_create_sql = ''CREATE TABLE _evm_state_run (run_id String, identity String) ENGINE=MergeTree ORDER BY run_id SETTINGS fsync_after_insert=1, fsync_part_directory=1''"

definition claim_run :: "('w, 'x) nodelib_scheme \<Rightarrow> ClickHouse \<Rightarrow> json \<Rightarrow> json \<Rightarrow> (string \<times> json) list \<Rightarrow> ('w, unit) io" where
  "claim_run L client record' identity query =
     bind (count_of L client owner_table_sql query) (\<lambda>n.
     bind (if n \<noteq> 0 then ret ()
           else bind (check (\<not> jstr_eq (index record' ''phase'') ''prepared'') ''database run identity is missing'') (\<lambda>_.
             bind (execute L client owner_create_sql []) (\<lambda>_.
             insert_values L client ''_evm_state_run'' [jobj [(''run_id'', index record' ''run_id''), (''identity'', JStr (spaced_json (json_text L) identity))]]))) (\<lambda>_.
     bind (one L client ''SELECT run_id,identity FROM _evm_state_run'' []) (\<lambda>owner.
     bind (lift (if index owner ''run_id'' = index record' ''run_id''
                 then bnd (bnd (string_field owner ''identity'') (\<lambda>t. context_res (json_parse L t) ''invalid JSON'')) (\<lambda>v. Inr (v = identity))
                 else Inr False)) (\<lambda>same.
     check same ''database belongs to a different native run''))))"

definition schema_file :: "ClickHouse \<Rightarrow> string \<Rightarrow> string" where
  "schema_file client directory = path_join (path_join directory ''meta'') (ch_database client @ ''_schema_hash.txt'')"

definition alter_sql :: "string \<Rightarrow> string" where
  "alter_sql table = ''ALTER TABLE '' @ table @ '' MODIFY SETTING fsync_after_insert=1, fsync_part_directory=1''"

definition sync_file :: "string \<Rightarrow> (fsys, unit) io" where
  "sync_file p = bind (fs_read p) (\<lambda>_. fs_try)"

definition read_text :: "string \<Rightarrow> (fsys, string) io" where
  "read_text p = bind (fs_read p) (\<lambda>c. bind (check (utf8_valid (map of_char c)) ''stream did not contain valid UTF-8'') (\<lambda>_. ret c))"

definition finish_run :: "('w, 'x) nodelib_scheme \<Rightarrow> 'w sinklib \<Rightarrow> ClickHouse \<Rightarrow> NativeOptions \<Rightarrow> string \<Rightarrow> json \<Rightarrow> json \<Rightarrow> ('w node, json) io" where
  "finish_run L S client options directory record' uuid =
     bind (on_fs fs_try) (\<lambda>_.
     bind (native S [''sink'', ''clickhouse'', ''setup'', path_join directory ''package.spkg'', MODULE, ''--bytes-encoding'', ''0xhex'',
       ''--sink-info-folder'', path_join directory ''meta''] (no_dsn options)) (\<lambda>_.
     bind (on_db (for_each (\<lambda>t. bind (execute L client (alter_sql t) []) (\<lambda>_. ret ())) [''state_blocks'', ''_blocks_''])) (\<lambda>_.
     bind (on_fs (sync_file (schema_file client directory))) (\<lambda>_.
     bind (on_fs (read_text (schema_file client directory))) (\<lambda>hash.
     let record' = jset (jset (jset record' ''phase'' (JStr ''prepared'')) ''database_uuid'' uuid) ''schema_hash'' (JStr (trim hash)) in
     bind (on_fs (atomic_json (json_pretty L) (fs_temp L directory) (Some directory) (run_json directory) record' True)) (\<lambda>_.
     ret record'))))))"

text \<open>Whether a path is a file; an error of the file system counts as no.\<close>

definition is_file :: "string \<Rightarrow> (fsys, bool) io" where
  "is_file p = bind fs_step (\<lambda>x. bind (fs_get p) (\<lambda>v. ret (x = Done \<and> v \<noteq> None)))"

definition prepare_unlocked :: "('w, 'x) nodelib_scheme \<Rightarrow> 'w sinklib \<Rightarrow> ClickHouse \<Rightarrow> NativeOptions \<Rightarrow> string \<Rightarrow> ('w node, json) io" where
  "prepare_unlocked L S client options directory =
     bind (check_intent L client options directory) (\<lambda>_.
     bind (run_identity L S client options directory) (\<lambda>(identity, package).
     bind (lift (with_database client ''default'')) (\<lambda>admin.
     bind (lift (params (jobj [(''db'', JStr (ch_database client))]))) (\<lambda>query.
     bind (on_db (count_of L admin databases_sql query)) (\<lambda>n.
     bind (on_fs (fs_exists (run_json directory))) (\<lambda>there.
     bind (if there then load_run L directory identity (n \<noteq> 0) else new_run L client directory identity query (n \<noteq> 0)) (\<lambda>record'.
     bind (on_fs (freeze_package L directory record' identity package)) (\<lambda>_.
     bind (on_db (execute L admin (''CREATE DATABASE IF NOT EXISTS '' @ ch_database client) [])) (\<lambda>_.
     bind (on_db (one L client ''SELECT toString(uuid) AS uuid FROM system.databases WHERE name={db:String}'' query)) (\<lambda>db.
     bind (check (case get record' ''database_uuid'' of None \<Rightarrow> True | Some v \<Rightarrow> v = index db ''uuid'')
       ''database was replaced; restore matching database and run metadata'') (\<lambda>_.
     bind (on_db (claim_run L client record' identity query)) (\<lambda>_.
     bind (if jstr_eq (index record' ''phase'') ''preparing'' then finish_run L S client options directory record' (index db ''uuid'') else ret record') (\<lambda>record'.
     bind (on_fs (is_file (schema_file client directory))) (\<lambda>there.
     bind (if there then bind (on_fs (read_text (schema_file client directory))) (\<lambda>c.
             bind (lift (string_field record' ''schema_hash'')) (\<lambda>h. ret (trim c = h)))
           else ret False) (\<lambda>same.
     bind (check same ''native schema metadata is missing or changed'') (\<lambda>_.
     ret record'))))))))))))))))"

definition prepare :: "('w, 'x) nodelib_scheme \<Rightarrow> capcfg \<Rightarrow> 'w sinklib \<Rightarrow> ClickHouse \<Rightarrow> NativeOptions \<Rightarrow> ('w node, json) io" where
  "prepare L C S client options =
     bind (lift (resolve_path L (no_state_dir options))) (\<lambda>directory.
     bind (capacity_ok L C client [directory] ''native-prepare'') (\<lambda>_.
     holding L (path_join directory ''run.lock'') True (prepare_unlocked L S client options directory)))"

definition recover_cursor :: "('w, 'x) nodelib_scheme \<Rightarrow> capcfg \<Rightarrow> 'w sinklib \<Rightarrow> ClickHouse \<Rightarrow> NativeOptions \<Rightarrow> ('w node, json) io" where
  "recover_cursor L C S client options =
     bind (lift (resolve_path L (no_state_dir options))) (\<lambda>directory.
     bind (capacity_ok L C client [directory] ''native-recover'') (\<lambda>_.
     holding L (path_join directory ''run.lock'') True (
       bind (prepare_unlocked L S client options directory) (\<lambda>run.
       bind (load_progress L client run directory) (\<lambda>progress.
       let cursor = path_join directory ''cursor.txt'' in
       bind (on_fs (is_file cursor)) (\<lambda>there.
       bind (if there then bind (new_id L) (\<lambda>id'. bind (on_fs (fs_read cursor)) (\<lambda>c.
               on_fs (atomic_write (fs_temp L directory) (Some directory) (path_join directory (''cursor-before-recovery-'' @ id' @ ''.txt'')) c False)))
             else ret ()) (\<lambda>_.
       bind (lift (string_field progress ''cursor'')) (\<lambda>token.
       bind (on_fs (atomic_write (fs_temp L directory) (Some directory) cursor token True)) (\<lambda>_.
       ret (jobj [(''run_id'', index run ''run_id''), (''recovered'', JBool True), (''position'', index progress ''position'')]))))))))))"

section \<open>The sink command\<close>

definition show_i64 :: "64 word \<Rightarrow> string" where
  "show_i64 w = (if sint w < 0 then CHR ''-'' # show_nat (nat (- sint w)) else show_nat (nat (sint w)))"

definition command_args :: "NativeOptions \<Rightarrow> IngestOptions \<Rightarrow> json \<Rightarrow> string \<Rightarrow> string list res" where
  "command_args options o' record' directory =
     bnd (options_validate o' (no_start_block options)) (\<lambda>_.
     bnd (context_res (as_array (index (index record' ''identity'') ''accounts'')) ''missing native filter'') (\<lambda>vs.
     bnd (map_res (\<lambda>v. context_res (as_str v) ''invalid native filter'') vs) (\<lambda>accounts.
     Inr ([''sink'', ''clickhouse'', path_join directory ''package.spkg'', MODULE, ''-e'', no_endpoint options,
       ''-p'', MODULE @ ''='' @ join '','' accounts, ''-s'', show_u64 (no_start_block options), ''--final-blocks-only'',
       ''--bytes-encoding'', ''0xhex'', ''--sink-info-folder'', path_join directory ''meta'', ''--cursor-file-path'', path_join directory ''cursor.txt'',
       ''--spool-dir'', path_join directory ''spool'', ''--spool-max-size'', ''1GiB'', ''--spool-max-idle'', show_u64 (io_spool_max_idle_ms o') @ ''ms'',
       ''--max-retries'', show_i64 (io_max_retries o'), ''--decode-batch-size'', show_nat (unat (io_decode_batch_size o'))] @
       (case io_parallel_workers o' of None \<Rightarrow> [] | Some w \<Rightarrow> [''--header'', ''X-Substreams-Parallel-Workers:'' @ show_nat (unat w)]) @
       (case io_prometheus_addr o' of None \<Rightarrow> [] | Some a \<Rightarrow> [''--prometheus-addr'', a]) @
       (case io_stop_block o' of None \<Rightarrow> [] | Some stop \<Rightarrow> [''-t'', show_u64 stop])))))"

section \<open>Supervision\<close>

text \<open>Whether the deadline has passed and the run was cancelled, at one look.\<close>

record bound =
  bo_expired :: bool
  bo_cancelled :: bool

definition check_bound :: "bound \<Rightarrow> unit res" where
  "check_bound b =
     ensure (\<not> bo_expired b) ''bounded native ingestion timed out; retain cursor and spool''
     (ensure (\<not> bo_cancelled b) ''native qualification cancelled; retain cursor and spool'' (Inr ()))"

text \<open>
  One round of the supervision loop: the bounds before and after waiting, what happened to the
  world meanwhile, the answer of the wait and whether a stop signal has arrived.
\<close>

record 'w poll =
  pl_before :: bound
  pl_effect :: "'w node \<Rightarrow> 'w node"
  pl_wait :: "exit_status option res"
  pl_after :: bound
  pl_stopped :: bool

definition poll_step :: "('w, 'x) nodelib_scheme \<Rightarrow> capcfg \<Rightarrow> ClickHouse \<Rightarrow> json \<Rightarrow> string \<Rightarrow> 'w poll \<Rightarrow> ('w node, bool) io" where
  "poll_step L C client record' directory p =
     bind (lift (check_bound (pl_before p))) (\<lambda>_ n.
     bind (lift (pl_wait p)) (\<lambda>status.
     bind (lift (check_bound (pl_after p))) (\<lambda>_.
     case status of
       Some st \<Rightarrow> bind (check (es_success st) (''native sink exited with status '' @ es_code st @ ''; retain its cursor and spool for recovery'')) (\<lambda>_. ret True)
     | None \<Rightarrow>
         bind (check (\<not> pl_stopped p) ''native ingestion interrupted; retain its cursor and spool for recovery'') (\<lambda>_.
         bind (observe L client record' directory) (\<lambda>_.
         bind (capacity_ok L C client [directory] ''native-progress'') (\<lambda>_.
         ret False))))) (pl_effect p n))"

fun supervise :: "('w, 'x) nodelib_scheme \<Rightarrow> capcfg \<Rightarrow> ClickHouse \<Rightarrow> json \<Rightarrow> string \<Rightarrow> 'w poll list \<Rightarrow> 'w node \<Rightarrow> (unit res \<times> 'w node) option" where
  "supervise L C client record' directory [] n = None"
| "supervise L C client record' directory (p # ps) n = (case poll_step L C client record' directory p n of
     (Inl e, n') \<Rightarrow> Some (Inl e, n')
   | (Inr finished, n') \<Rightarrow> if finished then Some (Inr (), n') else supervise L C client record' directory ps n')"

definition sink_report :: "ClickHouse \<Rightarrow> NativeOptions \<Rightarrow> json \<Rightarrow> json" where
  "sink_report client options record' =
     jobj [(''run_id'', index record' ''run_id''), (''source'', jobj [(''database'', JStr (ch_database client)),
       (''accounts'', index (index record' ''identity'') ''accounts''), (''start_block'', jnum (no_start_block options)),
       (''module_hash'', index (index record' ''identity'') ''module_hash''), (''final_blocks_only'', JBool True)])]"

definition resume_check :: "('w, 'x) nodelib_scheme \<Rightarrow> ClickHouse \<Rightarrow> string \<Rightarrow> ('w node, u64) io" where
  "resume_check L client directory =
     (let cursor = path_join directory ''cursor.txt'' in
      bind (on_db (count_of L client ''SELECT count() AS n FROM state_blocks FINAL'' [])) (\<lambda>blocks.
      bind (if blocks = 0 then ret True
            else bind (on_fs (is_file cursor)) (\<lambda>there.
              if there then bind (on_fs (read_text cursor)) (\<lambda>c. ret (trim c \<noteq> [])) else ret False)) (\<lambda>resumable.
      bind (check resumable ''native cursor is missing or empty for existing data; explicit recovery is required'') (\<lambda>_.
      bind (if blocks \<noteq> 0 then ret True else bind (on_fs (fs_exists cursor)) (\<lambda>there. ret (\<not> there))) (\<lambda>matching.
      bind (check matching ''cursor exists without its block data; restore matching database and metadata'') (\<lambda>_.
      ret blocks))))))"

text \<open>The progress of a run that is resumed, and its report when nothing is left to do.\<close>

definition resume :: "('w, 'x) nodelib_scheme \<Rightarrow> ClickHouse \<Rightarrow> IngestOptions \<Rightarrow> json \<Rightarrow> string \<Rightarrow> u64 \<Rightarrow> json \<Rightarrow> ('w node, json option) io" where
  "resume L client o' record' directory blocks report =
     (if blocks \<noteq> 0
      then bind (on_fs (read_text (path_join directory ''cursor.txt''))) (\<lambda>c.
        bind (save_progress L client record' directory (trim c)) (\<lambda>progress.
        case io_stop_block o' of None \<Rightarrow> ret None
        | Some stop \<Rightarrow>
            bind (lift (position_number progress)) (\<lambda>number.
            if stop - 1 \<le> number
            then bind (check (number = stop - 1) ''requested stop precedes the already ingested cursor'') (\<lambda>_.
              ret (Some (jset (jset report ''already_complete'' (JBool True)) ''position'' (index progress ''position''))))
            else ret None)))
      else bind (on_fs (fs_exists (path_join directory ''durable_progress.json''))) (\<lambda>there.
        bind (check (\<not> there) ''durable progress exists without its block data'') (\<lambda>_. ret None)))"

definition conclude :: "('w, 'x) nodelib_scheme \<Rightarrow> 'w sinklib \<Rightarrow> ClickHouse \<Rightarrow> IngestOptions \<Rightarrow> json \<Rightarrow> string \<Rightarrow> json \<Rightarrow> unit res \<Rightarrow> ('w node, json) io" where
  "conclude L S client o' record' directory report run =
     bind (sk_reap S) (\<lambda>_.
     bind (observe L client record' directory) (\<lambda>progress.
     bind (lift run) (\<lambda>_.
     bind (lift (context_res progress ''native sink completed without a valid cursor; recover from durable progress'')) (\<lambda>progress.
     bind (case io_stop_block o' of None \<Rightarrow> ret ()
           | Some stop \<Rightarrow> bind (lift (position_number progress)) (\<lambda>number.
               check (number = stop - 1) ''native sink stopped before its requested final block'')) (\<lambda>_.
     bind (on_fs (sync_file (path_join directory ''cursor.txt''))) (\<lambda>_.
     bind (lift (string_field progress ''cursor'')) (\<lambda>token.
     bind (on_fs (atomic_write (fs_temp L directory) (Some directory) (path_join directory ''last_completed_cursor.txt'') token True)) (\<lambda>_.
     ret (jset report ''position'' (index progress ''position''))))))))))"

definition start_sink :: "('w, 'x) nodelib_scheme \<Rightarrow> capcfg \<Rightarrow> 'w sinklib \<Rightarrow> ClickHouse \<Rightarrow> NativeOptions \<Rightarrow> IngestOptions \<Rightarrow> bound \<Rightarrow> string \<Rightarrow>
    ('w node, json \<times> json \<times> json option) io" where
  "start_sink L C S client options o' second directory =
     bind (capacity_ok L C client [directory] ''native-start'') (\<lambda>_.
     bind (prepare_unlocked L S client options directory) (\<lambda>record'.
     bind (lift (check_bound second)) (\<lambda>_.
     bind (resume_check L client directory) (\<lambda>blocks.
     let report = sink_report client options record' in
     bind (resume L client o' record' directory blocks report) (\<lambda>finished.
     case finished of Some r \<Rightarrow> ret (record', report, Some r)
     | None \<Rightarrow>
         bind (lift (command_args options o' record' directory)) (\<lambda>args.
         bind (sk_spawn S args (no_dsn options)) (\<lambda>_.
         bind (sk_signals S) (\<lambda>_.
         ret (record', report, None)))))))))"

definition ingest_locked :: "('w, 'x) nodelib_scheme \<Rightarrow> capcfg \<Rightarrow> 'w sinklib \<Rightarrow> ClickHouse \<Rightarrow> NativeOptions \<Rightarrow> IngestOptions \<Rightarrow> bound \<Rightarrow> 'w poll list \<Rightarrow> string \<Rightarrow>
    'w node \<Rightarrow> (json res \<times> 'w node) option" where
  "ingest_locked L C S client options o' second polls directory n =
     (case start_sink L C S client options o' second directory n of
        (Inl e, n') \<Rightarrow> Some (Inl e, n')
      | (Inr (record', report, Some r), n') \<Rightarrow> Some (Inr r, n')
      | (Inr (record', report, None), n') \<Rightarrow>
          (case supervise L C client record' directory polls n' of
             None \<Rightarrow> None
           | Some (run, n'') \<Rightarrow> Some (conclude L S client o' record' directory report run n'')))"

definition ingest_bounded :: "('w, 'x) nodelib_scheme \<Rightarrow> capcfg \<Rightarrow> 'w sinklib \<Rightarrow> ClickHouse \<Rightarrow> NativeOptions \<Rightarrow> IngestOptions \<Rightarrow> bound \<Rightarrow> bound \<Rightarrow> 'w poll list \<Rightarrow>
    'w node \<Rightarrow> (json res \<times> 'w node) option" where
  "ingest_bounded L C S client options o' first second polls n =
     (case bind (lift (check_bound first)) (\<lambda>_. bind (lift (options_validate o' (no_start_block options))) (\<lambda>_.
        bind (lift (resolve_path L (no_state_dir options))) (\<lambda>directory.
        bind (acquire L (path_join directory ''run.lock'') True) (\<lambda>_. ret directory)))) n of
        (Inl e, n') \<Rightarrow> Some (Inl e, n')
      | (Inr directory, n') \<Rightarrow>
          map_option (\<lambda>(r, n''). (r, release L (path_join directory ''run.lock'') True n''))
            (ingest_locked L C S client options o' second polls directory n'))"

definition ingest :: "('w, 'x) nodelib_scheme \<Rightarrow> capcfg \<Rightarrow> 'w sinklib \<Rightarrow> ClickHouse \<Rightarrow> NativeOptions \<Rightarrow> IngestOptions \<Rightarrow> 'w poll list \<Rightarrow> 'w node \<Rightarrow> (json res \<times> 'w node) option" where
  "ingest L C S client options o' polls =
     (let free = \<lparr>bo_expired = False, bo_cancelled = False\<rparr> in ingest_bounded L C S client options o' free free polls)"

section \<open>The identity of a run is never replaced\<close>

text \<open>The native program leaves a file alone.\<close>

definition sink_spares :: "'w sinklib \<Rightarrow> string \<Rightarrow> bool" where
  "sink_spares S q \<longleftrightarrow> (\<forall>arguments dsn. keeps (file_at q) (sk_capture S arguments dsn))"

definition completed_run :: "json \<Rightarrow> json \<Rightarrow> string \<Rightarrow> json" where
  "completed_run record' uuid hash = jset (jset (jset record' ''phase'' (JStr ''prepared'')) ''database_uuid'' uuid) ''schema_hash'' (JStr hash)"

lemma keeps_at_text [kept]: "keeps (file_at q) (on_fs (read_text p))"
  unfolding read_text_def by (intro keeps_fs_file keeps_bind kept keeps_fs_all [OF keeps_fs_reads(1)])

lemma read_text_Inr: "read_text p s = (Inr c, s') \<Longrightarrow> fs_files s p = Some c \<and> fs_files s' = fs_files s"
  by (auto simp: read_text_def bind_Inr_iff split: if_splits dest!: fs_read_Inr)

lemma keeps_at_host: "keeps (file_at q) (machine_id L)" "keeps (file_at q) (host_matches L record' d)"
  unfolding host_matches_def matches_for_def machine_id_def by (auto intro!: keeps_bind kept split: option.split)

lemma keeps_at_native: "sink_spares S q \<Longrightarrow> keeps (file_at q) (native S arguments dsn)"
  unfolding native_def sink_spares_def by (auto intro!: keeps_bind kept split: prod.split)

lemma keeps_at_identity: "sink_spares S q \<Longrightarrow> keeps (file_at q) (run_identity L S client options directory)"
  unfolding run_identity_def local_host_def by (intro keeps_bind kept keeps_at_native keeps_if keeps_at_host)

lemma keeps_at_intent: "keeps (file_at q) (check_intent L client options directory)"
  unfolding check_intent_def by (intro keeps_bind kept keeps_if)

lemma keeps_at_is_file: "keeps (file_at q) (on_fs (is_file p))"
  unfolding is_file_def by (intro keeps_fs_file keeps_bind kept) (simp_all add: keeps_def fs_step_def fs_get_def split: list.split)

lemma keeps_at_freeze:
  assumes "temp_ok L" "named ''run.json'' q"
  shows "keeps (file_at q) (on_fs (freeze_package L directory record' identity package))"
  unfolding freeze_package_def Let_def
  by (intro keeps_fs_file keeps_bind keeps_if kept keeps_fs_all [OF keeps_fs_reads(1)] keeps_fs_all [OF keeps_fs_reads(2)] keeps_atomic_write [OF assms(1) _ assms(2)]) simp_all

definition run_written :: "('w, 'x) nodelib_scheme \<Rightarrow> string \<Rightarrow> json \<Rightarrow> string \<Rightarrow> 'w node \<Rightarrow> bool" where
  "run_written L q record' c n \<longleftrightarrow> file_at q n = Some c \<or>
     (\<exists>uuid hash. jstr_eq (index record' ''phase'') ''preparing'' \<and> file_at q n = Some (ascii_json (json_pretty L (completed_run record' uuid hash)) @ [CHR 0x0A]))"

lemma finish_run_writes:
  assumes "temp_ok L" "sink_spares S (run_json directory)" "jstr_eq (index record' ''phase'') ''preparing''" "file_at (run_json directory) n = Some c"
  shows "only_after (file_at (run_json directory)) (Some c) (run_written L (run_json directory) record' c) (finish_run L S client options directory record' uuid) n"
proof -
  let ?q = "run_json directory"
  have sf: "keeps (file_at ?q) (on_fs (sync_file p))" for p
    unfolding sync_file_def by (intro keeps_fs_file keeps_bind keeps_fs_all [OF keeps_fs_reads(1)] keeps_fs_all [OF keeps_fs_try])
  have w: "only_after (file_at ?q) (Some c) (run_written L ?q record' c)
      (bind (on_fs (atomic_json (json_pretty L) (fs_temp L directory) (Some directory) ?q (completed_run record' uuid hash) True)) (\<lambda>_. ret v)) m"
    if "file_at ?q m = Some c" for hash m and v :: json
  proof (rule only_after_all)
    fix r w' assume run: "bind (on_fs (atomic_json (json_pretty L) (fs_temp L directory) (Some directory) ?q (completed_run record' uuid hash) True)) (\<lambda>_. ret v) m = (r, w')"
    have t: "\<forall>x. fs_temp L directory x \<noteq> ?q" using temp_other [OF assms(1)] by (simp add: run_json_def)
    from atomic_write_effect [OF t, of "Some directory" "ascii_json (json_pretty L (completed_run record' uuid hash)) @ [CHR 0x0A]" True "nd_fs m"] run that assms(3)
    show "run_written L ?q record' c w'"
      by (auto simp: run_written_def atomic_json_def bind_def on_fs_def Let_def ret_def split: prod.splits sum.splits) blast+
  qed
  show ?thesis
    unfolding finish_run_def Let_def completed_run_def [symmetric]
    by (intro only_after_bind [OF keeps_at_reads(2)] only_after_bind [OF keeps_at_native [OF assms(2)]] only_after_bind [OF keeps_at_reads(1)]
        only_after_bind [OF sf] only_after_bind [OF keeps_at_text] assms(4) w)
qed

lemma load_run_Inr:
  assumes "load_run L directory identity e n = (Inr v, n')" "file_at (run_json directory) n = Some c" "json_parse L c = Some record'"
  shows "v = record'" "index record' ''identity'' = identity"
  using assms by (auto simp: load_run_def bind_Inr_iff on_fs_Inr read_json_def fs_read_def fs_get_def context_res_def dest!: fs_try_Inr split: option.splits if_splits)

lemma keeps_at_load_run: "keeps (file_at q) (load_run L directory identity e)"
  unfolding load_run_def by (intro keeps_bind kept)

lemma only_after_keeps: "keeps p m \<Longrightarrow> p w = h \<Longrightarrow> (\<And>w'. p w' = h \<Longrightarrow> P w') \<Longrightarrow> only_after p h P m w"
  unfolding only_after_def keeps_def by (metis snd_conv)

lemma only_after_then:
  assumes "only_after p h P m w" "\<And>w'. p w' = h \<Longrightarrow> P w'" "\<And>v. keeps p (f v)" "\<And>u w'. P u \<Longrightarrow> p w' = p u \<Longrightarrow> P w'"
  shows "only_after p h P (bind m f) w"
  unfolding only_after_def
proof (intro allI impI)
  fix r w' assume b: "bind m f w = (r, w')"
  obtain a u where a: "m w = (a, u)" by fastforce
  have u: "P u" using assms(1,2) a unfolding only_after_def by blast
  have "p w' = p u" using a b keepsD [OF assms(3)] by (cases a) (auto simp: bind_def)
  then show "p w' = h \<and> \<not> is_ok r \<or> P w'" using assms(4) [OF u] by blast
qed

lemma prepare_unlocked_writes:
  fixes n :: "'w node"
  assumes "temp_ok L" "sink_spares S (run_json directory)" "file_at (run_json directory) n = Some c" "json_parse L c = Some record'"
  shows "only_after (file_at (run_json directory)) (Some c) (run_written L (run_json directory) record' c) (prepare_unlocked L S client options directory) n"
proof -
  let ?q = "run_json directory"
  have q: "named ''run.json'' ?q" by (auto simp: named_def run_json_def)
  have fe: "there" if "on_fs (fs_exists ?q) m = (Inr there, m')" "file_at ?q m = Some c" for there m and m' :: "'w node"
    using that by (auto simp: on_fs_Inr fs_exists_def bind_Inr_iff fs_get_def dest!: fs_try_Inr)
  have tail: "only_after (file_at ?q) (Some c) (run_written L ?q record' c)
      (bind (if jstr_eq (index record' ''phase'') ''preparing'' then finish_run L S client options directory record' uuid else ret record') (\<lambda>record'.
       bind (on_fs (is_file (schema_file client directory))) (\<lambda>there.
       bind (if there then bind (on_fs (read_text (schema_file client directory))) (\<lambda>c.
               bind (lift (string_field record' ''schema_hash'')) (\<lambda>h. ret (trim c = h)))
             else ret False) (\<lambda>same.
       bind (check same ''native schema metadata is missing or changed'') (\<lambda>_. ret record'))))) m" if "file_at ?q m = Some c" for uuid m
    by (rule only_after_then) (auto intro!: keeps_bind kept keeps_at_is_file finish_run_writes [OF assms(1,2)] only_after_keeps that simp: run_written_def)
  have body: "only_after (file_at ?q) (Some c) (run_written L ?q record' c)
      (bind (if there then load_run L directory identity e else new_run L client directory identity query e) k) m"
    if ex: "on_fs (fs_exists ?q) m0 = (Inr there, m)" "file_at ?q m0 = Some c" and f: "file_at ?q m = Some c"
      and k: "\<And>m'. file_at ?q m' = Some c \<Longrightarrow> only_after (file_at ?q) (Some c) (run_written L ?q record' c) (k record') m'"
    for there identity e query k m0 m
    using fe [OF ex] load_run_Inr(1) [OF _ f assms(4)] k f by (auto intro!: only_after_bind [OF keeps_at_load_run])
  show ?thesis
    unfolding prepare_unlocked_def
    by (intro only_after_bind [OF keeps_at_intent] only_after_bind2 [OF keeps_at_identity [OF assms(2)]] only_after_lift only_after_check
        only_after_bind [OF keeps_at_reads(1)] only_after_bind [OF keeps_at_reads(4)] assms(3) body
        only_after_bind [OF keeps_at_freeze [OF assms(1) q]] tail) assumption+
qed

lemma finish_run_Inr:
  "finish_run L S client options directory record' uuid n = (Inr v, n') \<Longrightarrow> \<exists>hash. v = completed_run record' uuid hash"
  unfolding finish_run_def Let_def completed_run_def [symmetric] by (auto simp: bind_Inr_iff)

lemma prepare_unlocked_Inr:
  assumes "sink_spares S (run_json directory)" "file_at (run_json directory) n = Some c" "json_parse L c = Some record'"
    and "prepare_unlocked L S client options directory n = (Inr v, n')"
  shows "get v ''run_id'' = get record' ''run_id''" "get v ''identity'' = get record' ''identity''"
proof -
  let ?q = "run_json directory"
  from assms(4) obtain n1 n2 d3 n4 n5 identity package there e query rec m m' uuid where d:
      "check_intent L client options directory n = (Inr (), n1)" "run_identity L S client options directory n1 = (Inr (identity, package), n2)"
      "on_fs (fs_exists ?q) (n2\<lparr>nd_db := d3\<rparr>) = (Inr there, n4)"
      "(if there then load_run L directory identity e else new_run L client directory identity query e) n4 = (Inr rec, n5)"
      "(if jstr_eq (index rec ''phase'') ''preparing'' then finish_run L S client options directory rec uuid else ret rec) m = (Inr v, m')"
    unfolding prepare_unlocked_def by (auto simp: bind_Inr_iff on_db_Inr split: prod.splits)
  have f: "file_at ?q n2 = Some c"
    using keepsD [OF keeps_at_intent d(1), of ?q] keepsD [OF keeps_at_identity [OF assms(1)] d(2)] assms(2) by simp
  have t: "there" "file_at ?q n4 = Some c"
    using d(3) f by (auto simp: on_fs_Inr fs_exists_def bind_Inr_iff fs_get_def dest!: fs_try_Inr)
  have "rec = record'" using load_run_Inr(1) [OF _ t(2) assms(3)] d(4) t(1) by simp
  then have "v = record' \<or> (\<exists>hash. v = completed_run record' uuid hash)"
    using d(5) by (auto split: if_splits dest: finish_run_Inr)
  then show "get v ''run_id'' = get record' ''run_id''" "get v ''identity'' = get record' ''identity''"
    by (auto simp: completed_run_def get_jset)
qed

text \<open>
  C31: The identity of a native run is fixed once it is recorded: however a later preparation of the
  same directory ends, the recorded run is still there byte for byte, or a run that was being
  prepared has been marked as prepared, with the database and the schema hash added and every other
  field kept; and a preparation that succeeds returns the recorded run and identity.
\<close>

theorem run_identity_immutable:
  assumes "temp_ok L" "ids_plain L" "sink_spares S (run_json dir)" "resolve_path L (no_state_dir options) = Inr dir"
    and "fs_files (nd_fs n) (run_json dir) = Some c" "json_parse L c = Some record'" "prepare L C S client options n = (r, n')"
  shows "(fs_files (nd_fs n') (run_json dir) = Some c \<or>
      (\<exists>uuid hash. index record' ''phase'' = JStr ''preparing'' \<and>
         fs_files (nd_fs n') (run_json dir) = Some (ascii_json (json_pretty L (completed_run record' uuid hash)) @ [CHR 0x0A]))) \<and>
    (\<forall>v. r = Inr v \<longrightarrow> get v ''run_id'' = get record' ''run_id'' \<and> get v ''identity'' = get record' ''identity'')"
proof
  let ?q = "run_json dir"
  have q: "named ''run.json'' ?q" by (auto simp: named_def run_json_def)
  note cap = keeps_at_capacity_ok [OF assms(1,2) q, simplified]
  have "only_after (file_at ?q) (Some c) (run_written L ?q record' c) (prepare L C S client options) n"
    unfolding prepare_def assms(4) bind_lift
    by (intro only_after_bind [OF cap] assms(5) only_after_at_holding prepare_unlocked_writes [OF assms(1,3) _ assms(6)]) (simp_all add: run_written_def)
  then have "run_written L ?q record' c n'"
    using assms(7) unfolding only_after_def run_written_def by blast
  then show "fs_files (nd_fs n') ?q = Some c \<or> (\<exists>uuid hash. index record' ''phase'' = JStr ''preparing'' \<and>
      fs_files (nd_fs n') ?q = Some (ascii_json (json_pretty L (completed_run record' uuid hash)) @ [CHR 0x0A]))"
    unfolding run_written_def jstr_eq_def by blast
  show "\<forall>v. r = Inr v \<longrightarrow> get v ''run_id'' = get record' ''run_id'' \<and> get v ''identity'' = get record' ''identity''"
  proof (intro allI impI)
    fix v assume "r = Inr v"
    then obtain n1 n2 n3 where d: "capacity_ok L C client [dir] ''native-prepare'' n = (Inr (), n1)"
        "acquire L (path_join dir ''run.lock'') True n1 = (Inr (), n2)" "prepare_unlocked L S client options dir n2 = (Inr v, n3)"
      using assms(4,7) by (auto simp: prepare_def bind_Inr_iff holding_Inr)
    have "file_at ?q n2 = Some c"
      using keepsD [OF cap d(1)] keepsD [OF keeps_at_draws(3) d(2), of ?q] assms(5) by simp
    from prepare_unlocked_Inr [OF assms(3) this assms(6) d(3)]
    show "get v ''run_id'' = get record' ''run_id'' \<and> get v ''identity'' = get record' ''identity''" by simp
  qed
qed

definition ex_run_record :: json where
  "ex_run_record = JObj [(''phase'', JStr ''prepared''), (''run_id'', JStr ''r'')]"

definition ex_sink :: "'w sinklib" where
  "ex_sink = \<lparr>sk_url = (\<lambda>_. None), sk_capture = (\<lambda>_ _. ret None), sk_spawn = (\<lambda>_ _. ret ()), sk_signals = ret (), sk_reap = ret ()\<rparr>"

definition ex_ingest_lib :: "string list nodelib" where
  "ex_ingest_lib = ex_export_lib\<lparr>json_parse := (\<lambda>_. Some ex_run_record)\<rparr>"

definition ex_run_node :: "string list node" where
  "ex_run_node = ex_publish_node\<lparr>nd_fs := \<lparr>fs_files = [''/d/run.json'' \<mapsto> ''{}''], fs_plan = []\<rparr>\<rparr>"

definition ex_options :: NativeOptions where
  "ex_options = \<lparr>no_package = ''p'', no_endpoint = ''e'', no_accounts = JNull, no_start_block = 5, no_state_dir = ''/d'', no_dsn = ''d'', no_checkpoint_database = None\<rparr>"

lemma ex_ingest_lib_ok: "temp_ok ex_ingest_lib" "ids_plain ex_ingest_lib" "resolve_path ex_ingest_lib ''/d'' = Inr ''/d''"
proof -
  show "temp_ok ex_ingest_lib" by (simp add: temp_ok_def ex_ingest_lib_def ex_export_lib_def path_join_def)
  show "ids_plain ex_ingest_lib" by (simp add: ids_plain_def ex_ingest_lib_def ex_export_lib_def list_all_iff is_lower_hex_def is_digit_def less_eq_char_def)
  show "resolve_path ex_ingest_lib ''/d'' = Inr ''/d''"
    by (simp add: resolve_path_def ex_ingest_lib_def ex_export_lib_def ex_publish_lib_def resolve_def path_components_def is_absolute_def push_def show_path_def)
qed

theorem run_identity_immutable_witness:
  "fs_files (nd_fs (snd (prepare ex_ingest_lib ex_capcfg ex_sink ex_db ex_options ex_run_node))) ''/d/run.json'' = Some ''{}''"
proof -
  let ?p = "prepare ex_ingest_lib ex_capcfg ex_sink ex_db ex_options ex_run_node"
  have s: "sink_spares ex_sink (run_json ''/d'')" by (simp add: sink_spares_def ex_sink_def)
  have f: "fs_files (nd_fs ex_run_node) (run_json ''/d'') = Some ''{}''" by (simp add: run_json_def path_join_def ex_run_node_def)
  have o: "resolve_path ex_ingest_lib (no_state_dir ex_options) = Inr ''/d''" using ex_ingest_lib_ok(3) by (simp add: ex_options_def)
  have j: "json_parse ex_ingest_lib ''{}'' = Some ex_run_record" by (simp add: ex_ingest_lib_def)
  from run_identity_immutable [OF ex_ingest_lib_ok(1,2) s o f j, of ex_capcfg ex_db "fst ?p" "snd ?p"]
  show ?thesis by (auto simp: ex_run_record_def index_def run_json_def path_join_def)
qed

section \<open>Supervised runs\<close>

text \<open>A poll that ends the loop, whatever the run does.\<close>

definition ends :: "'w poll \<Rightarrow> bool" where
  "ends p \<longleftrightarrow> \<not> is_ok (check_bound (pl_before p)) \<or> \<not> is_ok (pl_wait p) \<or> \<not> is_ok (check_bound (pl_after p)) \<or>
     (\<exists>st. pl_wait p = Inr (Some st)) \<or> pl_stopped p"

lemma poll_step_ends: "ends p \<Longrightarrow> poll_step L C client record' directory p n \<noteq> (Inr False, n')"
  by (auto simp: ends_def poll_step_def bind_Inr_iff is_ok_iff split: option.splits)

lemma supervise_returns: "list_ex ends ps \<Longrightarrow> supervise L C client record' directory ps n \<noteq> None"
proof (induction ps arbitrary: n)
  case (Cons p ps)
  obtain r n' where r: "poll_step L C client record' directory p n = (r, n')" by fastforce
  show ?case
  proof (cases "r = Inr False")
    case True
    then have "\<not> ends p" using poll_step_ends r by blast
    then show ?thesis using Cons r True by simp
  next
    case False
    then show ?thesis using r by (auto split: sum.splits)
  qed
qed simp

text \<open>What the results of a computation satisfy.\<close>

definition yields :: "('a \<Rightarrow> bool) \<Rightarrow> ('w, 'a) io \<Rightarrow> bool" where
  "yields Q m \<longleftrightarrow> (\<forall>w v w'. m w = (Inr v, w') \<longrightarrow> Q v)"

lemma yieldsD: "yields Q m \<Longrightarrow> m w = (Inr v, w') \<Longrightarrow> Q v"
  unfolding yields_def by blast

lemma yields_bind: "yields R m \<Longrightarrow> (\<And>v. R v \<Longrightarrow> yields Q (f v)) \<Longrightarrow> yields Q (bind m f)"
  unfolding yields_def bind_Inr_iff by blast

lemma yields_any: "yields (\<lambda>_. True) m"
  by (simp add: yields_def)

lemma yields_ret: "Q v \<Longrightarrow> yields Q (ret v)"
  by (simp add: yields_def ret_def)

lemma yields_lift: "(\<And>v. r = Inr v \<Longrightarrow> Q v) \<Longrightarrow> yields Q (lift r)"
  by (simp add: yields_def lift_def)

lemma yields_check: "yields (\<lambda>_. c) (check c e)"
  by (simp add: yields_def check_def)

lemmas yields_then = yields_bind [OF yields_any]

definition validated :: "('w, 'x) nodelib_scheme \<Rightarrow> ClickHouse \<Rightarrow> json \<Rightarrow> json \<Rightarrow> bool" where
  "validated L client run progress \<longleftrightarrow> (\<exists>token position w w'. cursor_validate L client run token w = (Inr position, w') \<and>
     index progress ''position'' = position_json position)"

lemma yields_validate: "yields (\<lambda>p. \<exists>token w w'. cursor_validate L client run token w = (Inr p, w')) (on_db (cursor_validate L client run t))"
  by (auto simp: yields_def on_db_Inr)

lemma load_progress_validated: "yields (validated L client run) (load_progress L client run directory)"
  unfolding load_progress_def
  by (intro yields_then yields_bind [OF yields_validate] yields_bind [OF yields_check] yields_ret) (auto simp: validated_def)

lemma save_progress_validated: "yields (validated L client run) (save_progress L client run directory token)"
proof -
  have o: "yields (case_option True (validated L client run)) (if there
      then bind (load_progress L client run directory) (\<lambda>previous. bind (lift (position_number previous)) (\<lambda>n.
        bind (check (n \<le> k) msg) (\<lambda>_. ret (if jstr_eq (index previous ''cursor'') token then Some previous else None))))
      else ret None)" for there k msg
  proof (cases there)
    case True
    then show ?thesis by simp (rule yields_bind [OF load_progress_validated], intro yields_then yields_ret, simp)
  qed (simp add: yields_ret)
  have i: "index (progress_record b t p) ''position'' = position_json p" for b t p
    by (simp add: progress_record_def index_def get_jset)
  show ?thesis unfolding save_progress_def Let_def
  proof (rule yields_bind [OF yields_validate], rule yields_then, rule yields_bind [OF o])
    fix p there same
    assume p: "\<exists>token w w'. cursor_validate L client run token w = (Inr p, w')" "case_option True (validated L client run) same"
    then have "validated L client run (progress_record b token p)" for b unfolding validated_def i by blast
    with p(2) show "yields (validated L client run) (case same of Some previous \<Rightarrow> ret previous
        | None \<Rightarrow> bind (lift (binding L run)) (\<lambda>bound. bind (on_fs (atomic_json (json_pretty L) (fs_temp L directory) (Some directory) (progress_path directory)
            (progress_record bound token p) True)) (\<lambda>_. ret (progress_record bound token p))))"
      by (cases same) (simp_all add: yields_ret yields_then)
  qed
qed

lemma observe_validated: "yields (case_option True (validated L client run)) (observe L client run directory)"
  unfolding observe_def Let_def
  by (intro yields_then) (auto intro!: yields_then yields_ret yields_bind [OF save_progress_validated] split: option.split)

definition reached_stop :: "('w, 'x) nodelib_scheme \<Rightarrow> ClickHouse \<Rightarrow> IngestOptions \<Rightarrow> json \<Rightarrow> bool" where
  "reached_stop L client o' report \<longleftrightarrow> (\<forall>stop. io_stop_block o' = Some stop \<longrightarrow> (\<exists>record' token position w w'.
     cursor_validate L client record' token w = (Inr position, w') \<and> index report ''position'' = position_json position \<and>
     br_number (po_block position) = stop - 1))"

lemma position_number_json: "index progress ''position'' = position_json p \<Longrightarrow> position_number progress = Inr (br_number (po_block p))"
  by (simp add: position_number_def position_json_def ref_json_def index_jobj)

lemma reached_stopI:
  assumes "validated L client record' progress" "index report ''position'' = index progress ''position''"
    "\<And>stop. io_stop_block o' = Some stop \<Longrightarrow> position_number progress = Inr (stop - 1)"
  shows "reached_stop L client o' report"
  using assms position_number_json unfolding validated_def reached_stop_def by fastforce

lemma conclude_reached: "yields (reached_stop L client o' ) (conclude L S client o' record' directory report run)"
proof -
  have st: "yields (\<lambda>_. \<forall>stop. io_stop_block o' = Some stop \<longrightarrow> position_number progress = Inr (stop - 1))
      (case io_stop_block o' of None \<Rightarrow> ret ()
       | Some stop \<Rightarrow> bind (lift (position_number progress)) (\<lambda>number. check (number = stop - 1) msg))" for progress msg
    by (auto simp: yields_def bind_Inr_iff split: option.split if_splits)
  have p: "yields (validated L client record') (lift (context_res progress msg))" if "case_option True (validated L client record') progress" for progress msg
    by (rule yields_lift) (use that in \<open>auto simp: context_res_def split: option.splits\<close>)
  show ?thesis unfolding conclude_def
    by (intro yields_then [where m = "sk_reap S"] yields_bind [OF observe_validated] yields_then [where m = "lift run"] yields_bind [OF p] yields_bind [OF st])
      (auto intro!: yields_then yields_ret reached_stopI simp: index_def get_jset)
qed

lemma index_position: "index (jset report ''position'' x) ''position'' = x"
  by (simp add: index_def get_jset)

lemma resume_reached: "yields (\<lambda>v. \<forall>r. v = Some r \<longrightarrow> reached_stop L client o' r) (resume L client o' record' directory blocks report)"
proof -
  have e: "yields (\<lambda>v. \<forall>r. v = Some r \<longrightarrow> reached_stop L client o' r)
      (case io_stop_block o' of None \<Rightarrow> ret None
        | Some stop \<Rightarrow> bind (lift (position_number progress)) (\<lambda>number.
            if stop - 1 \<le> number then bind (check (number = stop - 1) msg) (\<lambda>_.
              ret (Some (jset (jset report ''already_complete'' (JBool True)) ''position'' (index progress ''position''))))
            else ret None))" if "validated L client record' progress" for progress msg
    by (auto simp: yields_def bind_Inr_iff index_position split: option.split if_splits intro!: reached_stopI [OF that])
  show ?thesis unfolding resume_def
    by (cases "blocks = 0") (simp_all, intro yields_then yields_ret, simp, rule yields_then, rule yields_bind [OF save_progress_validated], rule e)
qed

lemma start_sink_reached: "yields (\<lambda>v. \<forall>r. snd (snd v) = Some r \<longrightarrow> reached_stop L client o' r) (start_sink L C S client options o' second directory)"
  unfolding start_sink_def Let_def
  by (rule yields_then, rule yields_then, rule yields_then, rule yields_then, rule yields_bind [OF resume_reached])
    (auto intro!: yields_then yields_ret split: option.split)

text \<open>
  C32: A supervised ingestion returns once a poll finds that the native sink has exited, that waiting
  for it failed, that a bound is exceeded or that a stop was requested; and when it then reports
  success for a requested stop block, the reported position is that of a cursor validated against
  the ingested block data, and its block is exactly the last one before the stop.
\<close>

theorem ingest_reaches_stop:
  assumes "list_ex ends polls"
  shows "\<exists>r n'. ingest_bounded L C S client options o' first second polls n = Some (r, n') \<and>
    (\<forall>report stop. r = Inr report \<longrightarrow> io_stop_block o' = Some stop \<longrightarrow> (\<exists>record' token position w w'.
       cursor_validate L client record' token w = (Inr position, w') \<and> index report ''position'' = position_json position \<and>
       br_number (po_block position) = stop - 1 \<and> no_start_block options < stop))"
proof -
  let ?pre = "bind (lift (check_bound first)) (\<lambda>_. bind (lift (options_validate o' (no_start_block options))) (\<lambda>_.
        bind (lift (resolve_path L (no_state_dir options))) (\<lambda>directory.
        bind (acquire L (path_join directory ''run.lock'') True) (\<lambda>_. ret directory)))) n"
  obtain d n1 where pre: "?pre = (d, n1)" by fastforce
  show ?thesis
  proof (cases d)
    case (Inl e)
    with pre show ?thesis by (simp add: ingest_bounded_def)
  next
    case (Inr directory)
    with pre have v: "options_validate o' (no_start_block options) = Inr ()" by (auto simp: bind_Inr_iff)
    obtain a n2 where a: "start_sink L C S client options o' second directory n1 = (a, n2)" by fastforce
    have "\<exists>r n'. ingest_locked L C S client options o' second polls directory n1 = Some (r, n') \<and> (\<forall>report. r = Inr report \<longrightarrow> reached_stop L client o' report)"
    proof (cases a)
      case (Inl e)
      with a show ?thesis by (simp add: ingest_locked_def)
    next
      case (Inr x)
      obtain record' report fin where x: "x = (record', report, fin)" by (cases x)
      show ?thesis
      proof (cases fin)
        case (Some r)
        with a Inr x yieldsD [OF start_sink_reached, of L C S client options o' second directory n1 x n2] show ?thesis by (simp add: ingest_locked_def)
      next
        case None
        obtain run n3 where s: "supervise L C client record' directory polls n2 = Some (run, n3)" using supervise_returns [OF assms] by fastforce
        obtain r n4 where c: "conclude L S client o' record' directory report run n3 = (r, n4)" by fastforce
        with a Inr x None s yieldsD [OF conclude_reached, of L S client o' record' directory report run n3 _ n4] show ?thesis
          by (auto simp: ingest_locked_def)
      qed
    qed
    then obtain r n' where r: "ingest_locked L C S client options o' second polls directory n1 = Some (r, n')"
        "\<forall>report. r = Inr report \<longrightarrow> reached_stop L client o' report" by blast
    have b: "no_start_block options < stop" if "io_stop_block o' = Some stop" for stop
      using v that by (auto simp: options_validate_def ensure_Inr_iff)
    have run: "ingest_bounded L C S client options o' first second polls n = Some (r, release L (path_join directory ''run.lock'') True n')"
      using pre Inr r(1) by (simp add: ingest_bounded_def)
    show ?thesis
    proof (rule exI, rule exI, rule conjI [OF run], intro allI impI)
      fix report stop assume s: "r = Inr report" "io_stop_block o' = Some stop"
      with r(2) obtain record' token position w w' where "cursor_validate L client record' token w = (Inr position, w')"
          "index report ''position'' = position_json position" "br_number (po_block position) = stop - 1"
        unfolding reached_stop_def by blast
      with b [OF s(2)] show "\<exists>record' token position w w'. cursor_validate L client record' token w = (Inr position, w') \<and>
          index report ''position'' = position_json position \<and> br_number (po_block position) = stop - 1 \<and> no_start_block options < stop"
        by blast
    qed
  qed
qed

definition ex_poll :: "'w poll" where
  "ex_poll = \<lparr>pl_before = \<lparr>bo_expired = False, bo_cancelled = False\<rparr>, pl_effect = (\<lambda>n. n), pl_wait = Inr (Some \<lparr>es_success = True, es_code = ''0''\<rparr>),
     pl_after = \<lparr>bo_expired = False, bo_cancelled = False\<rparr>, pl_stopped = False\<rparr>"

theorem ingest_reaches_stop_witness:
  "\<exists>r n'. ingest_bounded ex_ingest_lib ex_capcfg ex_sink ex_db ex_options (default_options\<lparr>io_stop_block := Some 9\<rparr>)
     \<lparr>bo_expired = False, bo_cancelled = False\<rparr> \<lparr>bo_expired = False, bo_cancelled = False\<rparr> [ex_poll] ex_run_node = Some (r, n')"
proof -
  have "list_ex ends [ex_poll]" by (simp add: ends_def ex_poll_def)
  from ingest_reaches_stop [OF this] show ?thesis by blast
qed

end
