(* ===== verification/Replay.thy ===== *)
theory Replay
  imports Ingest
begin

text \<open>
  The bootstrap replay of \<open>crates/evm-state/src/bootstrap.rs\<close>: bounded chunks of native ingestion,
  each compacted into the private initial state of a run.  The polls of every supervised chunk are
  given in order; a replay has no result while it has not ended.  A replay returns after as many
  chunks as fit between the start and the stop.
\<close>

section \<open>The replay loop\<close>

definition cursor_file :: "string \<Rightarrow> string" where
  "cursor_file directory = path_join directory ''cursor.txt''"

definition ingested_next :: "('w, 'x) nodelib_scheme \<Rightarrow> ClickHouse \<Rightarrow> json \<Rightarrow> string \<Rightarrow> ('w node, u64) io" where
  "ingested_next L client run directory =
     holding L (path_join directory ''run.lock'') True (
       bind (on_fs (read_text (cursor_file directory))) (\<lambda>c.
       bind (save_progress L client run directory (trim c)) (\<lambda>progress.
       bind (lift (position_number progress)) (\<lambda>number.
       lift (context_res (checked_add number 1) ''bootstrap block overflow'')))))"

definition replay_report :: "json \<Rightarrow> json \<Rightarrow> json res" where
  "replay_report run pre =
     bnd (source_declaration (index run ''identity'')) (\<lambda>source.
     Inr (jobj [(''run_id'', index run ''run_id''), (''status'', JStr ''unverified-bootstrap''), (''generation'', index pre ''generation''),
       (''header'', index pre ''header''), (''nonzero_slots'', index pre ''nonzero_slots''), (''state_sha256'', index pre ''state_sha256''),
       (''source'', source)]))"

text \<open>The block to go on from, and the report when the stop has been reached.\<close>

definition replay_next :: "('w, 'x) nodelib_scheme \<Rightarrow> capcfg \<Rightarrow> string \<Rightarrow> string \<Rightarrow> ClickHouse \<Rightarrow> json \<Rightarrow> string \<Rightarrow> u64 \<Rightarrow> u64 \<Rightarrow> u64 \<Rightarrow>
    ('w node, u64 \<times> json option) io" where
  "replay_next L C checkpoints_sql bootstrap_sql client run directory start stop_block budget_bytes =
     bind (on_fs (is_file (cursor_file directory))) (\<lambda>there.
     bind (if there then bind (on_fs (read_text (cursor_file directory))) (\<lambda>c. ret (trim c \<noteq> [])) else ret False) (\<lambda>started.
     if started
     then bind (ingested_next L client run directory) (\<lambda>next'.
       bind (check (next' \<le> stop_block) ''bootstrap stop precedes the already ingested cursor'') (\<lambda>_.
       bind (compact L C checkpoints_sql bootstrap_sql client directory None budget_bytes) (\<lambda>pre.
       if next' = stop_block then bind (lift (replay_report run pre)) (\<lambda>report. ret (next', Some report)) else ret (next', None))))
     else ret (start, None)))"

text \<open>One round before its chunk: the final report, or the stop of the next chunk.\<close>

definition replay_step :: "('w, 'x) nodelib_scheme \<Rightarrow> capcfg \<Rightarrow> string \<Rightarrow> string \<Rightarrow> ClickHouse \<Rightarrow> ClickHouse \<Rightarrow> json \<Rightarrow> string \<Rightarrow> u64 \<Rightarrow> u64 \<Rightarrow> u64 \<Rightarrow> u64 \<Rightarrow>
    ('w node, json + u64) io" where
  "replay_step L C checkpoints_sql bootstrap_sql client destination run directory start stop_block chunk_blocks budget_bytes =
     bind (replay_next L C checkpoints_sql bootstrap_sql client run directory start stop_block budget_bytes) (\<lambda>(next', finished).
     case finished of Some report \<Rightarrow> ret (Inl report)
     | None \<Rightarrow>
         bind (on_db (combined_usage L client destination)) (\<lambda>used.
         bind (check (used < budget_bytes) ''bootstrap database budget already exhausted'') (\<lambda>_.
         ret (Inr (min (saturating_add next' chunk_blocks) stop_block)))))"

fun replay_loop :: "('w node, json + u64) io \<Rightarrow> (u64 \<Rightarrow> 'w poll list \<Rightarrow> 'w node \<Rightarrow> (json res \<times> 'w node) option) \<Rightarrow> 'w poll list list \<Rightarrow> 'w node \<Rightarrow>
    (json res \<times> 'w node) option" where
  "replay_loop step chunk [] n = (case step n of
     (Inl e, n') \<Rightarrow> Some (Inl e, n')
   | (Inr (Inl report), n') \<Rightarrow> Some (Inr report, n')
   | (Inr (Inr stop), n') \<Rightarrow> None)"
| "replay_loop step chunk (polls # rest) n = (case step n of
     (Inl e, n') \<Rightarrow> Some (Inl e, n')
   | (Inr (Inl report), n') \<Rightarrow> Some (Inr report, n')
   | (Inr (Inr stop), n') \<Rightarrow> (case chunk stop polls n' of
       None \<Rightarrow> None
     | Some (Inl e, n'') \<Rightarrow> Some (Inl e, n'')
     | Some (Inr _, n'') \<Rightarrow> replay_loop step chunk rest n''))"

text \<open>Everything before the loop, which leaves the replay lock held.\<close>

definition replay_start :: "('w, 'x) nodelib_scheme \<Rightarrow> capcfg \<Rightarrow> 'w sinklib \<Rightarrow> string \<Rightarrow> ClickHouse \<Rightarrow> NativeOptions \<Rightarrow> IngestOptions \<Rightarrow> u64 \<Rightarrow> u64 \<Rightarrow> u64 \<Rightarrow>
    ('w node, json \<times> string \<times> ClickHouse) io" where
  "replay_start L C S checkpoints_sql client options o' stop_block chunk_blocks budget_bytes =
     bind (check (0 < chunk_blocks \<and> 0 < budget_bytes) ''bootstrap chunk blocks and budget must be positive integers'') (\<lambda>_.
     bind (check (no_start_block options < stop_block) ''bootstrap stop block must be greater than start block (exclusive)'') (\<lambda>_.
     bind (lift (options_validate o' (no_start_block options))) (\<lambda>_.
     bind (prepare L C S client options) (\<lambda>run.
     bind (lift (resolve_path L (no_state_dir options))) (\<lambda>directory.
     bind (lift (bnd (string_field (index run ''identity'') ''checkpoint_database'') (with_database client))) (\<lambda>destination.
     bind (on_db (checkpoint_setup L destination checkpoints_sql)) (\<lambda>_.
     bind (acquire L (path_join directory ''bootstrap_replay.lock'') True) (\<lambda>_.
     ret (run, directory, destination)))))))))"

definition replay_chunk :: "('w, 'x) nodelib_scheme \<Rightarrow> capcfg \<Rightarrow> 'w sinklib \<Rightarrow> ClickHouse \<Rightarrow> NativeOptions \<Rightarrow> IngestOptions \<Rightarrow> string \<Rightarrow> u64 \<Rightarrow> 'w poll list \<Rightarrow> 'w node \<Rightarrow>
    (json res \<times> 'w node) option" where
  "replay_chunk L C S client options o' directory stop polls =
     ingest L C S client (options\<lparr>no_package := path_join directory ''package.spkg''\<rparr>) (o'\<lparr>io_stop_block := Some stop\<rparr>) polls"

definition replay :: "('w, 'x) nodelib_scheme \<Rightarrow> capcfg \<Rightarrow> 'w sinklib \<Rightarrow> string \<Rightarrow> string \<Rightarrow> ClickHouse \<Rightarrow> NativeOptions \<Rightarrow> IngestOptions \<Rightarrow> u64 \<Rightarrow> u64 \<Rightarrow> u64 \<Rightarrow>
    'w poll list list \<Rightarrow> 'w node \<Rightarrow> (json res \<times> 'w node) option" where
  "replay L C S checkpoints_sql bootstrap_sql client options o' stop_block chunk_blocks budget_bytes runs n =
     (case replay_start L C S checkpoints_sql client options o' stop_block chunk_blocks budget_bytes n of
        (Inl e, n') \<Rightarrow> Some (Inl e, n')
      | (Inr (run, directory, destination), n') \<Rightarrow>
          map_option (\<lambda>(r, n''). (r, release L (path_join directory ''bootstrap_replay.lock'') True n''))
            (case bind (control_open L destination) (\<lambda>control. control_publisher L control (
                on_db (require_initial L destination (index (index run ''identity'') ''accounts'')))) n' of
               (Inl e, n'') \<Rightarrow> Some (Inl e, n'')
             | (Inr _, n'') \<Rightarrow> replay_loop
                 (replay_step L C checkpoints_sql bootstrap_sql client destination run directory (no_start_block options) stop_block chunk_blocks budget_bytes)
                 (replay_chunk L C S client options o' directory) runs n''))"

section \<open>Durable progress\<close>

text \<open>The recorded progress, where it can be read, is at a block.\<close>

definition durable :: "('w, 'x) nodelib_scheme \<Rightarrow> string \<Rightarrow> u64 \<Rightarrow> 'w node \<Rightarrow> bool" where
  "durable L directory k n \<longleftrightarrow> (\<exists>c. file_at (progress_path directory) n = Some c \<and>
     (\<forall>v. json_parse L c = Some v \<longrightarrow> position_number v = Inr k))"

definition has_cursor :: "string \<Rightarrow> 'w node \<Rightarrow> bool" where
  "has_cursor directory n \<longleftrightarrow> (\<exists>c. file_at (cursor_file directory) n = Some c \<and> trim c \<noteq> [])"

lemma progress_text_number:
  assumes "reparses L" "json_parse L (progress_text L (progress_record bound token position)) = Some v"
  shows "position_number v = Inr (br_number (po_block position))"
proof -
  have "json_parse L (progress_text L (progress_record bound token position)) \<in> {None, Some (progress_record bound token position)}"
    using assms(1) unfolding reparses_def progress_text_def by blast
  with assms(2) have "v = progress_record bound token position" by simp
  then show ?thesis by (intro position_number_json) (simp add: progress_record_def index_position)
qed

lemma validate_number:
  assumes "cursor_validate L client run token w = (Inr position, w')" "uint (index (index run ''identity'') ''start_block'') = Inr start"
  shows "start \<le> br_number (po_block position)" "cursor_decode L token = Inr position"
  using assms unfolding cursor_validate_def Let_def by (auto simp: bind_Inr_iff split: if_splits)

lemma load_progress_number:
  assumes "load_progress L client run directory n = (Inr v, n')" "durable L directory k n"
  shows "position_number v = Inr k"
  using assms load_progress_Inr [OF assms(1)] unfolding durable_def by blast

lemma load_progress_start:
  assumes "load_progress L client run directory n = (Inr v, n')" "uint (index (index run ''identity'') ''start_block'') = Inr start" "position_number v = Inr k"
  shows "start \<le> k"
proof -
  from assms(1) obtain token m m' position where "on_db (cursor_validate L client run token) m = (Inr position, m')" "index v ''position'' = position_json position"
    unfolding load_progress_def by (auto simp: bind_Inr_iff split: if_splits)
  with validate_number(1) [OF _ assms(2)] position_number_json assms(3) show ?thesis by (fastforce simp: on_db_Inr)
qed

text \<open>Saving progress leaves the returned position as the recorded one, and never goes back.\<close>

lemma save_progress_durable:
  assumes "temp_ok L" "reparses L" "save_progress L client run directory token n = (Inr v, n')"
  shows "\<exists>k. position_number v = Inr k \<and> (\<forall>start. uint (index (index run ''identity'') ''start_block'') = Inr start \<longrightarrow> start \<le> k) \<and>
    durable L directory k n' \<and> (\<forall>j. durable L directory j n \<longrightarrow> j \<le> k)"
proof -
  let ?q = "progress_path directory"
  let ?old = "\<lambda>there position. if there
           then bind (load_progress L client run directory) (\<lambda>previous.
                bind (lift (position_number previous)) (\<lambda>n.
                bind (check (n \<le> br_number (po_block position)) ''native cursor regressed behind durable progress'') (\<lambda>_.
                ret (if jstr_eq (index previous ''cursor'') token then Some previous else None))))
           else ret None"
  obtain position there n1 n2 n3 same where d:
      "on_db (cursor_validate L client run token) n = (Inr position, n1)" "on_fs (fs_exists ?q) n1 = (Inr there, n2)"
      "?old there position n2 = (Inr same, n3)"
      "(case same of Some previous \<Rightarrow> ret previous
     | None \<Rightarrow> bind (lift (binding L run)) (\<lambda>bound.
         let record = progress_record bound token position in
         bind (on_fs (atomic_json (json_pretty L) (fs_temp L directory) (Some directory) ?q record True)) (\<lambda>_.
         ret record))) n3 = (Inr v, n')"
    using assms(3) unfolding save_progress_def bind_Inr_iff by blast
  have start: "start \<le> br_number (po_block position)" if "uint (index (index run ''identity'') ''start_block'') = Inr start" for start
    using d(1) validate_number(1) [OF _ that] by (auto simp: on_db_Inr)
  have f1: "fs_files (nd_fs n1) = fs_files (nd_fs n)" using d(1) by (auto simp: on_db_Inr)
  have f2: "fs_files (nd_fs n2) = fs_files (nd_fs n)" using keeps_filesD [OF keeps_files_read(2) d(2)] f1 by simp
  have "keeps_files (?old there position)" by (intro keeps_files_if keeps_files_bind keeps_files_load) simp_all
  from keeps_filesD [OF this d(3)] f2 have f3: "fs_files (nd_fs n3) = fs_files (nd_fs n)" by simp
  have there: "there \<longleftrightarrow> file_at ?q n \<noteq> None" using fs_exists_Inr [OF d(2)] f1 by simp
  have ld: "\<exists>previous k m. load_progress L client run directory n2 = (Inr previous, m) \<and> position_number previous = Inr k \<and> k \<le> br_number (po_block position) \<and>
      same = (if jstr_eq (index previous ''cursor'') token then Some previous else None)" if there
    using d(3) that by (auto simp: bind_Inr_iff split: if_splits)
  have mono: "j \<le> br_number (po_block position)" if "durable L directory j n" for j
  proof -
    from that have there using there by (auto simp: durable_def)
    with ld obtain previous k m where l: "load_progress L client run directory n2 = (Inr previous, m)" "position_number previous = Inr k" "k \<le> br_number (po_block position)" by blast
    moreover have "durable L directory j n2" using that f2 by (simp add: durable_def)
    ultimately show ?thesis using load_progress_number [OF l(1)] by auto
  qed
  show ?thesis
  proof (cases same)
    case (Some previous)
    with d(3) have there by (auto split: if_splits)
    with ld Some obtain k m where l: "load_progress L client run directory n2 = (Inr previous, m)" "position_number previous = Inr k" by (auto split: if_splits)
    from there \<open>there\<close> obtain c where c: "file_at ?q n = Some c" by auto
    have "json_parse L c = Some previous" using load_progress_Inr [OF l(1)] c f2 by simp
    moreover have "v = previous" "n' = n3" using d(4) Some by (auto simp: ret_def)
    ultimately have "durable L directory k n'" using c f3 l(2) by (simp add: durable_def)
    moreover have "j \<le> k" if "durable L directory j n" for j
      using load_progress_number [OF l(1), of j] that f2 l(2) by (simp add: durable_def)
    ultimately show ?thesis using l(2) load_progress_start [OF l(1) _ l(2)] \<open>v = previous\<close> by blast
  next
    case None
    then obtain bound where w: "on_fs (atomic_json (json_pretty L) (fs_temp L directory) (Some directory) ?q (progress_record bound token position) True) n3 = (Inr (), n')"
        "v = progress_record bound token position"
      using d(4) by (auto simp: bind_Inr_iff Let_def)
    have "\<forall>x. fs_temp L directory x \<noteq> ?q" using temp_other [OF assms(1)] by (simp add: progress_path_def)
    from atomic_write_effect [OF this, of "Some directory" "progress_text L (progress_record bound token position)" True "nd_fs n3"] w(1)
    have "file_at ?q n' = Some (progress_text L (progress_record bound token position))"
      by (auto simp: on_fs_Inr atomic_json_def progress_text_def)
    then have "durable L directory (br_number (po_block position)) n'"
      using progress_text_number [OF assms(2)] by (auto simp: durable_def)
    moreover have "position_number v = Inr (br_number (po_block position))"
      by (rule position_number_json) (simp add: w(2) progress_record_def index_position)
    ultimately show ?thesis using mono start by blast
  qed
qed

lemma keeps_at_save_progress:
  assumes "temp_ok L" "named name q" "name \<noteq> ''durable_progress.json''" "CHR ''/'' \<notin> set name"
  shows "keeps (file_at q) (save_progress L client run directory token)"
proof -
  have l: "keeps (file_at q) (load_progress L client run directory)"
    unfolding load_progress_def by (intro keeps_bind kept keeps_fs_file keeps_with_msg keeps_fs_all [OF keeps_fs_reads(1)])
  have w: "keeps (file_at q) (on_fs (atomic_json (json_pretty L) (fs_temp L directory) (Some directory) (progress_path directory) v True))" for v
    unfolding progress_path_def by (intro keeps_fs_file keeps_atomic_write [OF assms(1) _ assms(2)]) (use assms(3,4) in simp_all)
  show ?thesis unfolding save_progress_def Let_def
    by (intro keeps_bind keeps_if kept l) (auto intro!: keeps_bind kept w split: option.split)
qed

lemma named_files: "named ''cursor.txt'' (cursor_file d)" "named ''durable_progress.json'' (progress_path d)"
  by (auto simp: named_def cursor_file_def progress_path_def)

definition arrived :: "('w, 'x) nodelib_scheme \<Rightarrow> string \<Rightarrow> u64 \<Rightarrow> 'w node \<Rightarrow> bool" where
  "arrived L directory k n \<longleftrightarrow> durable L directory k n \<and> has_cursor directory n"

lemma arrived_keeps:
  assumes "m n = (r, n')" "arrived L directory k n" "keeps (file_at (progress_path directory)) m" "keeps (file_at (cursor_file directory)) m"
  shows "arrived L directory k n'"
  using assms(2) keepsD [OF assms(3,1)] keepsD [OF assms(4,1)] by (simp add: arrived_def durable_def has_cursor_def)

lemma save_progress_arrived:
  assumes "temp_ok L" "reparses L" "save_progress L client run directory token n = (Inr v, n')" "has_cursor directory n"
  shows "\<exists>k. position_number v = Inr k \<and> arrived L directory k n'"
proof -
  have "keeps (file_at (cursor_file directory)) (save_progress L client run directory token)"
    by (rule keeps_at_save_progress [OF assms(1) named_files(1)]) simp_all
  from keepsD [OF this assms(3)] assms(4) have "has_cursor directory n'" by (simp add: has_cursor_def)
  with save_progress_durable [OF assms(1-3)] show ?thesis by (auto simp: arrived_def)
qed

lemma trim_take: "trim (take k s) \<noteq> [] \<Longrightarrow> trim s \<noteq> []"
proof -
  have e: "trim t = [] \<longleftrightarrow> (\<forall>c \<in> set t. is_whitespace c)" for t
  proof (induction t)
    case (Cons c t)
    then show ?case by (cases "is_whitespace c") (auto simp: trim_def dropWhile_eq_Nil_conv)
  qed (simp add: trim_def)
  assume "trim (take k s) \<noteq> []"
  then show ?thesis unfolding e by (meson in_set_takeD)
qed

lemma decode_nonempty: "cursor_decode L token = Inr p \<Longrightarrow> token \<noteq> []"
  by (auto simp: cursor_decode_def check_token_def res_simps)

section \<open>A successful chunk arrives at its stop\<close>

lemma observe_arrived:
  assumes "temp_ok L" "reparses L" "observe L client run directory n = (Inr (Some v), n')"
  shows "\<exists>k. position_number v = Inr k \<and> arrived L directory k n'"
proof -
  let ?q = "path_join directory ''cursor.txt''"
  obtain n1 n2 c n3 where d: "on_fs fs_try n = (Inr (), n1)" "on_fs (fs_get ?q) n1 = (Inr (Some c), n2)" "on_fs fs_try n2 = (Inr (), n3)"
      "is_ok (cursor_decode L (trim (take 2049 c)))" "save_progress L client run directory (trim (take 2049 c)) n3 = (Inr v, n')"
    using assms(3) unfolding observe_def Let_def by (auto simp: bind_Inr_iff split: option.splits if_splits)
  have "file_at ?q n3 = Some c" using d(2) keepsD [OF keeps_at_reads(2) d(3), of ?q] by (auto simp: on_fs_Inr fs_get_def)
  moreover have "trim c \<noteq> []" using d(4) decode_nonempty trim_take unfolding is_ok_iff by blast
  ultimately have "has_cursor directory n3" by (simp add: has_cursor_def cursor_file_def)
  with save_progress_arrived [OF assms(1,2) d(5)] show ?thesis by blast
qed

lemma keeps_at_sync: "keeps (file_at q) (on_fs (sync_file p))"
  unfolding sync_file_def by (intro keeps_fs_file keeps_bind keeps_fs_all [OF keeps_fs_reads(1)] keeps_fs_all [OF keeps_fs_try])

lemma conclude_arrived:
  assumes "temp_ok L" "reparses L" "conclude L S client o' record' directory report run n = (Inr v, n')" "io_stop_block o' = Some stop"
  shows "arrived L directory (stop - 1) n'"
proof -
  let ?last = "path_join directory ''last_completed_cursor.txt''"
  obtain n1 n2 progress n3 token where d: "observe L client record' directory n1 = (Inr (Some progress), n2)" "position_number progress = Inr (stop - 1)"
      "on_fs (sync_file (path_join directory ''cursor.txt'')) n2 = (Inr (), n3)"
      "on_fs (atomic_write (fs_temp L directory) (Some directory) ?last token True) n3 = (Inr (), n')"
    using assms(3,4) unfolding conclude_def by (auto simp: bind_Inr_iff context_res_Inr_iff split: if_splits)
  have w: "keeps (file_at q) (on_fs (atomic_write (fs_temp L directory) (Some directory) ?last token True))" if "named name q" "name \<in> {''cursor.txt'', ''durable_progress.json''}" for q name
    by (intro keeps_fs_file keeps_atomic_write [OF assms(1) _ that(1)]) (use that(2) in auto)
  from observe_arrived [OF assms(1,2) d(1)] d(2) have "arrived L directory (stop - 1) n2" by auto
  from arrived_keeps [OF d(3) this keeps_at_sync keeps_at_sync] have "arrived L directory (stop - 1) n3" .
  from arrived_keeps [OF d(4) this w [OF named_files(2)] w [OF named_files(1)]] show ?thesis by simp
qed

lemma resume_arrived:
  assumes "temp_ok L" "reparses L" "resume L client o' record' directory blocks report n = (Inr (Some v), n')" "io_stop_block o' = Some stop"
  shows "arrived L directory (stop - 1) n'"
proof -
  let ?q = "path_join directory ''cursor.txt''"
  obtain n1 c progress where d: "on_fs (read_text ?q) n = (Inr c, n1)" "save_progress L client record' directory (trim c) n1 = (Inr progress, n')"
      "position_number progress = Inr (stop - 1)"
    using assms(3,4) unfolding resume_def by (auto simp: bind_Inr_iff split: if_splits)
  have "file_at ?q n1 = Some c" using d(1) by (auto simp: on_fs_Inr dest!: read_text_Inr)
  moreover have "trim c \<noteq> []"
    using d(2) decode_nonempty unfolding save_progress_def cursor_validate_def by (auto simp: bind_Inr_iff on_db_Inr Let_def)
  ultimately have "has_cursor directory n1" by (simp add: has_cursor_def cursor_file_def)
  with save_progress_arrived [OF assms(1,2) d(2)] d(3) show ?thesis by auto
qed

lemma ingest_arrived:
  assumes "temp_ok L" "reparses L" "resolve_path L (no_state_dir options) = Inr directory" "io_stop_block o' = Some stop"
    and "ingest L C S client options o' polls n = Some (Inr report, n')"
  shows "arrived L directory (stop - 1) n'"
proof -
  let ?free = "\<lparr>bo_expired = False, bo_cancelled = False\<rparr>"
  obtain n1 n2 where l: "ingest_locked L C S client options o' ?free polls directory n1 = Some (Inr report, n2)"
      "n' = release L (path_join directory ''run.lock'') True n2"
    using assms(3,5) unfolding ingest_def ingest_bounded_def Let_def
    by (auto simp: bind_Inr_iff split: sum.splits prod.splits)
  obtain record' report' fin n3 where st: "start_sink L C S client options o' ?free directory n1 = (Inr (record', report', fin), n3)"
    using l(1) unfolding ingest_locked_def by (auto split: prod.splits sum.splits)
  have "arrived L directory (stop - 1) n2"
  proof (cases fin)
    case None
    with l(1) st obtain run n4 where "conclude L S client o' record' directory report' run n4 = (Inr report, n2)"
      unfolding ingest_locked_def by (auto split: option.splits prod.splits)
    then show ?thesis by (rule conclude_arrived [OF assms(1,2) _ assms(4)])
  next
    case (Some r)
    with l(1) st have "n2 = n3" unfolding ingest_locked_def by simp
    moreover from st Some obtain m blocks where "resume L client o' record' directory blocks report' m = (Inr (Some r), n3)"
      unfolding start_sink_def Let_def by (auto simp: bind_Inr_iff split: option.splits)
    ultimately show ?thesis using resume_arrived [OF assms(1,2) _ assms(4)] by blast
  qed
  moreover have "file_at q n' = file_at q n2" for q unfolding l(2) by (simp add: release_def)
  ultimately show ?thesis by (simp add: arrived_def durable_def has_cursor_def)
qed

section \<open>The start of a prepared run\<close>

definition starts_at :: "u64 \<Rightarrow> json \<Rightarrow> bool" where
  "starts_at start run \<longleftrightarrow> uint (index (index run ''identity'') ''start_block'') = Inr start"

lemma starts_at_jset: "k \<noteq> ''identity'' \<Longrightarrow> starts_at start (jset r k v) = starts_at start r"
  by (simp add: starts_at_def index_def get_jset)

lemma identity_starts: "yields (\<lambda>(identity, _). uint (index identity ''start_block'') = Inr (no_start_block options)) (run_identity L S client options directory)"
proof -
  have i: "uint (index identity ''start_block'') = Inr (no_start_block options)" if "identity_json L client options directory parsed selected package m host = Inr identity"
    for parsed selected package m host identity
    using that by (auto simp: identity_json_def bnd_Inr_iff index_jobj)
  show ?thesis unfolding run_identity_def
    by (rule yields_then, rule yields_then, rule yields_then, rule yields_then, rule yields_then, rule yields_then, rule yields_then, rule yields_then, rule yields_then,
        rule yields_bind [OF yields_lift [where Q = "\<lambda>v. uint (index v ''start_block'') = Inr (no_start_block options)"]]) (auto intro!: yields_ret i)
qed

lemma prepare_unlocked_starts: "yields (starts_at (no_start_block options)) (prepare_unlocked L S client options directory)"
proof -
  let ?s = "starts_at (no_start_block options)"
  have f: "yields ?s (if c then finish_run L S client options directory r uuid else ret r)" if "?s r" for c r uuid
  proof -
    have "yields ?s (finish_run L S client options directory r uuid)" unfolding finish_run_def Let_def
      by (intro yields_then yields_ret) (simp add: starts_at_jset that)
    with that show ?thesis by (simp add: yields_ret)
  qed
  have r: "yields ?s (if there then load_run L directory identity e else new_run L client directory identity query e)"
    if "uint (index identity ''start_block'') = Inr (no_start_block options)" for there identity e query
    using that by (auto simp: yields_def load_run_def new_run_def bind_Inr_iff Let_def starts_at_def index_jobj split: if_splits)
  show ?thesis unfolding prepare_unlocked_def
    by (rule yields_then, rule yields_bind [OF identity_starts], clarify,
        rule yields_then, rule yields_then, rule yields_then, rule yields_then, rule yields_bind [OF r], assumption,
        rule yields_then, rule yields_then, rule yields_then, rule yields_then, rule yields_then, rule yields_bind [OF f], assumption)
      (intro yields_then yields_ret, assumption)
qed

lemma prepare_starts: "yields (starts_at (no_start_block options)) (prepare L C S client options)"
  using yieldsD [OF prepare_unlocked_starts] by (fastforce simp: yields_def prepare_def bind_Inr_iff holding_Inr)

section \<open>Every replay returns\<close>

lemma replay_loop_returns:
  fixes H :: "u64 \<Rightarrow> 'w node \<Rightarrow> bool"
  assumes step: "\<And>k m s m1. H k m \<Longrightarrow> step m = (Inr (Inr s), m1) \<Longrightarrow> \<exists>next'. k \<le> next' \<and> next' < stop_block \<and> s = min (saturating_add next' c) stop_block"
    and chunk: "\<And>k m s m1 polls. H k m \<Longrightarrow> step m = (Inr (Inr s), m1) \<Longrightarrow> polls \<in> U \<Longrightarrow> \<exists>r m2. chunk s polls m1 = Some (r, m2) \<and> (\<forall>v. r = Inr v \<longrightarrow> H s m2)"
    and "H k n" "set runs \<subseteq> U" "unat stop_block \<le> unat k + length runs * unat c"
  shows "\<exists>r n'. replay_loop step chunk runs n = Some (r, n')"
  using assms(3-5)
proof (induction runs arbitrary: k n)
  case Nil
  then have "step n \<noteq> (Inr (Inr s), n')" for s n'
    using step [OF Nil(1)] by (fastforce simp: word_le_nat_alt word_less_nat_alt)
  then show ?case by (auto split: prod.split sum.split)
next
  case (Cons polls runs)
  obtain r n1 where r: "step n = (r, n1)" by fastforce
  show ?case
  proof (cases "\<exists>s. r = Inr (Inr s)")
    case True
    then obtain s where s: "step n = (Inr (Inr s), n1)" using r by blast
    from chunk [OF Cons(2) s] Cons(3) obtain q m2 where q: "chunk s polls n1 = Some (q, m2)" "\<forall>v. q = Inr v \<longrightarrow> H s m2"
      using list.set_intros(1) by (meson subsetD)
    show ?thesis
    proof (cases q)
      case (Inr v)
      obtain next' where x: "k \<le> next'" "s = min (saturating_add next' c) stop_block" using step [OF Cons(2) s] by blast
      have b: "unat stop_block < 2 ^ 64" using unsigned_less [of stop_block] by simp
      have "min (unat k + unat c) (unat stop_block) \<le> unat s"
        using x b unat_saturating_add [of next' c] by (auto simp: word_le_nat_alt min_def split: if_splits)
      with Cons(4) have "unat stop_block \<le> unat s + length runs * unat c" by (auto simp: min_def split: if_splits)
      with Cons(1) [of s m2] q(2) Inr Cons(3) obtain r' n' where "replay_loop step chunk runs m2 = Some (r', n')" by auto
      then show ?thesis using s q(1) Inr by simp
    qed (use s q in simp)
  qed (use r in \<open>auto split: sum.split\<close>)
qed

lemma replay_loop_report:
  "replay_loop step chunk runs n = Some (Inr report, n') \<Longrightarrow> \<exists>m. step m = (Inr (Inl report), n')"
  by (induction runs arbitrary: n) (auto split: prod.splits sum.splits option.splits)

text \<open>Whether the next look at the file system works.\<close>

definition stat_works :: "'w node \<Rightarrow> bool" where
  "stat_works n \<longleftrightarrow> fst (fs_step (nd_fs n)) = Inr Done"

lemma replay_step_next:
  assumes "temp_ok L" "reparses L" "starts_at start run" "start < stop_block"
    and "replay_step L C checkpoints_sql bootstrap_sql client destination run directory start stop_block c budget n = (Inr (Inr s), n')"
  shows "\<exists>next'. start \<le> next' \<and> next' < stop_block \<and> s = min (saturating_add next' c) stop_block \<and>
    (\<forall>k. arrived L directory k n \<longrightarrow> stat_works n \<longrightarrow> k < next')"
proof -
  let ?q = "cursor_file directory"
  obtain next' m where d: "replay_next L C checkpoints_sql bootstrap_sql client run directory start stop_block budget n = (Inr (next', None), m)"
      "s = min (saturating_add next' c) stop_block"
    using assms(5) unfolding replay_step_def by (auto simp: bind_Inr_iff split: option.splits)
  obtain there n1 started n2 where e: "on_fs (is_file ?q) n = (Inr there, n1)"
      "(if there then bind (on_fs (read_text ?q)) (\<lambda>c. ret (trim c \<noteq> [])) else ret False) n1 = (Inr started, n2)"
    using d(1) unfolding replay_next_def bind_Inr_iff by blast
  show ?thesis
  proof (cases started)
    case True
    with d(1) e obtain n3 where i: "ingested_next L client run directory n2 = (Inr next', n3)" "next' \<le> stop_block" "next' \<noteq> stop_block"
      unfolding replay_next_def by (auto simp: bind_Inr_iff split: if_splits)
    then obtain n4 n5 t n6 v n7 number where g: "acquire L (path_join directory ''run.lock'') True n2 = (Inr (), n4)" "on_fs (read_text ?q) n4 = (Inr t, n5)"
        "save_progress L client run directory (trim t) n5 = (Inr v, n6)" "position_number v = Inr number" "checked_add number 1 = Some next'"
      unfolding ingested_next_def by (auto simp: bind_Inr_iff holding_Inr context_res_Inr_iff)
    from save_progress_durable [OF assms(1,2) g(3)] g(4) assms(3) have k: "start \<le> number" "\<forall>j. durable L directory j n5 \<longrightarrow> j \<le> number"
      by (auto simp: starts_at_def)
    have lt: "number < next'" using g(5) by (auto simp: checked_add_def word_less_nat_alt unat_word_ariths split: if_splits)
    have r: "keeps (file_at (progress_path directory)) (if there then bind (on_fs (read_text ?q)) (\<lambda>c. ret (trim c \<noteq> [])) else ret False)"
      by (intro keeps_if keeps_bind kept)
    have "file_at (progress_path directory) n5 = file_at (progress_path directory) n"
      using keepsD [OF keeps_at_is_file e(1)] keepsD [OF r e(2)] keepsD [OF keeps_at_draws(3) g(1)] keepsD [OF keeps_at_text g(2)] by simp
    then have "\<forall>j. durable L directory j n \<longrightarrow> j \<le> number" using k(2) by (simp add: durable_def)
    then show ?thesis using k(1) lt i(2,3) d(2) by (intro exI [of _ next']) (auto simp: arrived_def)
  next
    case False
    with d(1) e have "next' = start" unfolding replay_next_def by (auto simp: bind_Inr_iff ret_def split: if_splits)
    moreover have "\<not> (arrived L directory k n \<and> stat_works n)" for k
    proof
      assume a: "arrived L directory k n \<and> stat_works n"
      then obtain t where t: "file_at ?q n = Some t" "trim t \<noteq> []" by (auto simp: arrived_def has_cursor_def)
      have "there" using e(1) a t(1)
        by (auto simp: is_file_def on_fs_Inr bind_Inr_iff fs_get_def stat_works_def fs_step_def split: list.splits)
      with e(2) False t keepsD [OF keeps_at_is_file e(1), of ?q] show False
        by (auto simp: bind_Inr_iff on_fs_Inr dest!: read_text_Inr)
    qed
    ultimately show ?thesis using assms(4) d(2) by blast
  qed
qed

lemma replay_step_report:
  assumes "temp_ok L" "reparses L"
    and "replay_step L C checkpoints_sql bootstrap_sql client destination run directory start stop_block c budget n = (Inr (Inl report), n')"
  shows "\<exists>m m' pre. 0 < stop_block \<and> durable L directory (stop_block - 1) m \<and>
    compact L C checkpoints_sql bootstrap_sql client directory None budget m = (Inr pre, m') \<and> replay_report run pre = Inr report"
proof -
  obtain next' where "replay_next L C checkpoints_sql bootstrap_sql client run directory start stop_block budget n = (Inr (next', Some report), n')"
    using assms(3) unfolding replay_step_def by (auto simp: bind_Inr_iff ret_def split: option.splits)
  then obtain n2 n3 pre m' where i: "ingested_next L client run directory n2 = (Inr stop_block, n3)"
      "compact L C checkpoints_sql bootstrap_sql client directory None budget n3 = (Inr pre, m')" "replay_report run pre = Inr report"
    unfolding replay_next_def by (auto simp: bind_Inr_iff ret_def split: if_splits)
  then obtain n4 n5 t n6 v number where g:
      "save_progress L client run directory (trim t) n5 = (Inr v, n6)" "position_number v = Inr number" "checked_add number 1 = Some stop_block"
      "n3 = release L (path_join directory ''run.lock'') True n6"
    unfolding ingested_next_def by (auto simp: bind_Inr_iff holding_Inr context_res_Inr_iff)
  from save_progress_durable [OF assms(1,2) g(1)] g(2) have "durable L directory number n3"
    by (auto simp: durable_def g(4) release_def)
  moreover have "number = stop_block - 1" using g(3) by (auto simp: checked_add_def split: if_splits)
  moreover have "0 < stop_block" using g(3) by (simp add: checked_add_Some_iff word_less_nat_alt)
  ultimately show ?thesis using i(2,3) by blast
qed

text \<open>The nodes at which a round of the loop begins, and whether a chunk has been ingested before.\<close>

inductive replay_head for L C S checkpoints_sql bootstrap_sql client options o' stop_block chunk_blocks budget n where
  first: "replay_start L C S checkpoints_sql client options o' stop_block chunk_blocks budget n = (Inr (run, directory, destination), n1) \<Longrightarrow>
    bind (control_open L destination) (\<lambda>control. control_publisher L control (
      on_db (require_initial L destination (index (index run ''identity'') ''accounts'')))) n1 = (Inr u, n2) \<Longrightarrow>
    replay_head L C S checkpoints_sql bootstrap_sql client options o' stop_block chunk_blocks budget n run directory destination False n2"
| again: "replay_head L C S checkpoints_sql bootstrap_sql client options o' stop_block chunk_blocks budget n run directory destination b m \<Longrightarrow>
    replay_step L C checkpoints_sql bootstrap_sql client destination run directory (no_start_block options) stop_block chunk_blocks budget m = (Inr (Inr s), m1) \<Longrightarrow>
    replay_chunk L C S client options o' directory s polls m1 = Some (Inr r, m2) \<Longrightarrow>
    replay_head L C S checkpoints_sql bootstrap_sql client options o' stop_block chunk_blocks budget n run directory destination True m2"

inductive_cases replay_headE: "replay_head L C S checkpoints_sql bootstrap_sql client options o' stop_block chunk_blocks budget n run directory destination b m"

lemma replay_head_run:
  assumes "replay_head L C S checkpoints_sql bootstrap_sql client options o' stop_block chunk_blocks budget n run directory destination b m"
  shows "starts_at (no_start_block options) run" "no_start_block options < stop_block" "resolve_path L (no_state_dir options) = Inr directory" "0 < chunk_blocks"
proof -
  have "starts_at (no_start_block options) run \<and> no_start_block options < stop_block \<and> resolve_path L (no_state_dir options) = Inr directory \<and> 0 < chunk_blocks"
    using assms
  proof induction
    case (first run directory destination n1 u n2)
    then show ?case unfolding replay_start_def
      by (auto simp: bind_Inr_iff ret_def split: if_splits dest: yieldsD [OF prepare_starts])
  qed
  then show "starts_at (no_start_block options) run" "no_start_block options < stop_block" "resolve_path L (no_state_dir options) = Inr directory" "0 < chunk_blocks" by simp_all
qed

lemma ingest_returns:
  assumes "list_ex ends polls"
  shows "\<exists>r n'. ingest L C S client options o' polls n = Some (r, n')"
proof -
  have "\<exists>r n'. ingest_locked L C S client options o' second polls directory n = Some (r, n')" for second directory n
  proof -
    have "\<exists>run n''. supervise L C client record' directory polls n' = Some (run, n'')" for record' n'
      using supervise_returns [OF assms, of L C client record' directory n'] by auto
    then show ?thesis unfolding ingest_locked_def by (simp split: prod.split sum.split option.split) (metis option.distinct(1) surj_pair)
  qed
  then show ?thesis unfolding ingest_def ingest_bounded_def Let_def by (auto split: prod.split sum.split)
qed

text \<open>Where a round may begin: at the start of the run, or with a chunk ingested up to a block.\<close>

lemma replay_head_step:
  assumes "temp_ok L" "reparses L"
    and "replay_head L C S checkpoints_sql bootstrap_sql client options o' stop_block chunk_blocks budget n run directory destination b m"
    and "if b then 0 < k \<and> arrived L directory (k - 1) m \<and> stat_works m else k = no_start_block options"
    and "replay_step L C checkpoints_sql bootstrap_sql client destination run directory (no_start_block options) stop_block chunk_blocks budget m = (Inr (Inr s), m1)"
  shows "\<exists>next'. k \<le> next' \<and> next' < stop_block \<and> s = min (saturating_add next' chunk_blocks) stop_block"
proof -
  obtain next' where x: "no_start_block options \<le> next'" "next' < stop_block" "s = min (saturating_add next' chunk_blocks) stop_block"
      "arrived L directory (k - 1) m \<longrightarrow> stat_works m \<longrightarrow> k - 1 < next'"
    using replay_step_next [OF assms(1,2) replay_head_run(1,2) [OF assms(3)] assms(5)] by blast
  have "k \<le> next'" if "0 < k" "k - 1 < next'" using that unat_minus_one [of k] by (cases "k = 0") (auto simp: word_le_nat_alt word_less_nat_alt)
  then show ?thesis using x assms(4) by (auto split: if_splits)
qed

lemma replay_chunk_arrives:
  assumes "temp_ok L" "reparses L" "resolve_path L (no_state_dir options) = Inr directory" "list_ex ends polls"
  shows "\<exists>r m2. replay_chunk L C S client options o' directory s polls m1 = Some (r, m2) \<and> (\<forall>v. r = Inr v \<longrightarrow> arrived L directory (s - 1) m2)"
proof -
  obtain r m2 where r: "replay_chunk L C S client options o' directory s polls m1 = Some (r, m2)"
    using ingest_returns [OF assms(4)] unfolding replay_chunk_def by blast
  moreover have "arrived L directory (s - 1) m2" if "r = Inr v" for v
    using r that unfolding replay_chunk_def by (intro ingest_arrived [OF assms(1,2)]) (simp_all add: assms(3))
  ultimately show ?thesis by blast
qed


section \<open>A concrete replay\<close>

lemma ex_no_prepare: "prepare ex_export_lib C ex_sink client options n \<noteq> (Inr run, n')"
  by (auto simp: prepare_def bind_Inr_iff holding_Inr prepare_unlocked_def run_identity_def validate_target_def ex_sink_def context_res_def)


end
