(* ===== verification/Recovery.thy ===== *)
theory Recovery
  imports Compaction
begin

text \<open>
  Host recovery, \<open>crates/evm-state/src/host_recovery.rs\<close>: a source and its controller that are bound
  to a legacy host name are bound to this machine by two sidecar files, after all locks are held and
  every part of both identities has been checked.
\<close>

fun holding_all :: "('w, 'x) nodelib_scheme \<Rightarrow> string list \<Rightarrow> ('w node, 'a) io \<Rightarrow> ('w node, 'a) io" where
  "holding_all L [] m = m"
| "holding_all L (p # ps) m = holding L p True (holding_all L ps m)"

definition uuid_sql :: string where
  "uuid_sql = ''SELECT toString(uuid) AS id FROM system.databases WHERE name={db:String}''"

definition stored_uuid :: "('w, 'x) nodelib_scheme \<Rightarrow> ClickHouse \<Rightarrow> ('w, json) io" where
  "stored_uuid L client =
     bind (lift (params (jobj [(''db'', JStr (ch_database client))]))) (\<lambda>ps.
     bind (one L client uuid_sql ps) (\<lambda>row. ret (index row ''id'')))"

definition parsed_field :: "('w, 'x) nodelib_scheme \<Rightarrow> json \<Rightarrow> string \<Rightarrow> json res" where
  "parsed_field L v f = bnd (string_field v f) (\<lambda>t. context_res (json_parse L t) ''invalid JSON'')"

definition native_owned :: "('w, 'x) nodelib_scheme \<Rightarrow> ClickHouse \<Rightarrow> string \<Rightarrow> string \<Rightarrow> json \<Rightarrow> json \<Rightarrow> json \<Rightarrow> bool res" where
  "native_owned L client directory previous_host run owner uuid =
     (let identity = index run ''identity'' in
      if jstr_eq (index run ''phase'') ''prepared'' \<and> jnum_eq (index identity ''format_version'') 3 \<and>
         jstr_eq (index identity ''host'') previous_host \<and> jstr_eq (index identity ''state_directory'') directory \<and>
         jstr_eq (index identity ''database'') (ch_database client) \<and> jstr_eq (index identity ''http_url'') (ch_url client) \<and>
         index run ''database_uuid'' = uuid \<and> index owner ''run_id'' = index run ''run_id''
      then bnd (parsed_field L owner ''identity'') (\<lambda>v. Inr (v = identity)) else Inr False)"

definition frozen_inputs :: "('w, 'x) nodelib_scheme \<Rightarrow> ClickHouse \<Rightarrow> string \<Rightarrow> json \<Rightarrow> (fsys, bool) io" where
  "frozen_inputs L client directory run =
     bind (fs_read (path_join directory ''package.spkg'')) (\<lambda>package.
     bind (lift (string_field (index run ''identity'') ''package_sha256'')) (\<lambda>digest.
     if hex_encode (nl_evm L) (sha256 L package) = digest
     then bind (fs_read (path_join (path_join directory ''meta'') (ch_database client @ ''_schema_hash.txt''))) (\<lambda>schema.
       bind (lift (string_field run ''schema_hash'')) (\<lambda>schema_hash. ret (trim schema = schema_hash)))
     else ret False))"

definition controller_owned :: "('w, 'x) nodelib_scheme \<Rightarrow> string \<Rightarrow> string \<Rightarrow> json \<Rightarrow> json \<Rightarrow> json \<Rightarrow> (fsys, bool) io" where
  "controller_owned L control_dir previous_host binding' owner uuid =
     (if jstr_eq (index binding' ''host'') previous_host \<and> index binding' ''database_uuid'' = uuid \<and>
         jstr_eq (index binding' ''directory'') control_dir \<and> index owner ''control_id'' = index binding' ''control_id''
      then bind (lift (parsed_field L owner ''binding'')) (\<lambda>v.
        if v = binding'
        then bind (fs_read (path_join control_dir ''initialized'')) (\<lambda>c.
          bind (lift (string_field binding' ''control_id'')) (\<lambda>i. ret (c = i)))
        else ret False)
      else ret False)"

definition sidecar :: "string \<Rightarrow> string" where
  "sidecar directory = path_join directory ''host-rebinding.json''"

definition sidecar_free :: "('w, 'x) nodelib_scheme \<Rightarrow> string \<times> json \<Rightarrow> (fsys, unit) io" where
  "sidecar_free L e = (case e of (d, record') \<Rightarrow>
     bind (fs_exists (sidecar d)) (\<lambda>there.
     bind (if there then bind (read_json L (sidecar d)) (\<lambda>v. ret (v = record')) else ret True) (\<lambda>same.
     check same ''existing host recovery belongs to different state or machine'')))"

definition write_sidecar :: "('w, 'x) nodelib_scheme \<Rightarrow> string \<times> json \<Rightarrow> (fsys, unit) io" where
  "write_sidecar L e = (case e of (d, record') \<Rightarrow>
     bind (fs_exists (sidecar d)) (\<lambda>there.
     if there then ret () else atomic_json (json_pretty L) (fs_temp L d) (Some d) (sidecar d) record' False))"

definition recovery_locks :: "string \<Rightarrow> string \<Rightarrow> string list" where
  "recovery_locks directory control_dir =
     [path_join directory ''bootstrap_replay.lock'', path_join directory ''run.lock'', path_join directory ''source_readers.lock'',
      path_join control_dir ''initialize.lock'', path_join control_dir ''writer.lock'', path_join control_dir ''readers.lock'']"

definition rebind_locked :: "('w, 'x) nodelib_scheme \<Rightarrow> ClickHouse \<Rightarrow> ClickHouse \<Rightarrow> string \<Rightarrow> string \<Rightarrow> string \<Rightarrow> json \<Rightarrow> json \<Rightarrow> ('w node, json) io" where
  "rebind_locked L client checkpoints directory control_dir previous_host run checkpoint_uuid =
     (let identity = index run ''identity'' in
      bind (on_fs (read_json L (path_join directory ''run.json''))) (\<lambda>again.
      bind (check (again = run) ''run changed during host recovery'') (\<lambda>_.
      bind (on_db (one L client ''SELECT run_id,identity FROM _evm_state_run'' [])) (\<lambda>owner.
      bind (on_db (stored_uuid L client)) (\<lambda>uuid.
      bind (lift (native_owned L client directory previous_host run owner uuid)) (\<lambda>owned.
      bind (check owned ''legacy native ownership does not match'') (\<lambda>_.
      bind (on_fs (frozen_inputs L client directory run)) (\<lambda>frozen.
      bind (check frozen ''frozen package or schema differs'') (\<lambda>_.
      bind (on_fs (read_json L (path_join control_dir ''binding.json''))) (\<lambda>binding'.
      bind (on_db (one L checkpoints ''SELECT control_id,binding FROM _evm_checkpoint_control'' [])) (\<lambda>control_owner.
      bind (on_fs (controller_owned L control_dir previous_host binding' control_owner checkpoint_uuid)) (\<lambda>controlled.
      bind (check controlled ''legacy checkpoint ownership does not match'') (\<lambda>_.
      bind (load_progress L client run directory) (\<lambda>progress.
      bind (on_fs (fs_read (path_join directory ''cursor.txt''))) (\<lambda>token.
      bind (on_db (cursor_validate L client run (trim token))) (\<lambda>native.
      bind (lift (uint (index (index (index progress ''position'') ''block'') ''number''))) (\<lambda>number.
      bind (check (number \<le> br_number (po_block native)) ''native cursor regressed behind durable progress'') (\<lambda>_.
      bind (load_prefix L client directory (Some run)) (\<lambda>found.
      bind (machine_id L) (\<lambda>machine.
      bind (lift (recovery_record_for L identity directory machine)) (\<lambda>own.
      bind (lift (recovery_record_for L binding' control_dir machine)) (\<lambda>controller.
      let expected = [(directory, own), (control_dir, controller)] in
      bind (on_fs (for_each (sidecar_free L) expected)) (\<lambda>_.
      bind (on_fs (for_each (write_sidecar L) expected)) (\<lambda>_.
      ret (jobj [(''run_id'', index run ''run_id''), (''rebound'', JBool True), (''cursor_block'', ref_json (po_block native)),
        (''prefix_block'', case found of None \<Rightarrow> JNull | Some p \<Rightarrow> index p ''header''),
        (''qualification'', JStr ''Operator-confirmed original machine; original identities and state preserved.'')])))))))))))))))))))))))))"

definition rebind :: "('w, 'x) nodelib_scheme \<Rightarrow> ClickHouse \<Rightarrow> string \<Rightarrow> string \<Rightarrow> ('w node, json) io" where
  "rebind L client directory previous_host =
     bind (check (previous_host \<noteq> [] \<and> \<not> prefix ''machine-sha256:'' previous_host) ''recovery requires the exact legacy hostname'') (\<lambda>_.
     bind (lift (resolve_path L directory)) (\<lambda>directory.
     bind (on_fs (read_json L (path_join directory ''run.json''))) (\<lambda>run.
     bind (lift (bnd (string_field (index run ''identity'') ''checkpoint_database'') (with_database client))) (\<lambda>checkpoints.
     bind (on_db (stored_uuid L checkpoints)) (\<lambda>checkpoint_uuid.
     bind (lift (context_res (as_str checkpoint_uuid) ''invalid checkpoint database UUID'')) (\<lambda>id'.
     bind (lift (check_database_uuid L id')) (\<lambda>_.
     bind (lift (resolve_path L (ch_control_home client))) (\<lambda>home.
     let control_dir = path_join home id' in
     holding_all L (recovery_locks directory control_dir)
       (rebind_locked L client checkpoints directory control_dir previous_host run checkpoint_uuid)))))))))"

section \<open>Only sidecars are added\<close>

definition sidecars_only :: "(string \<rightharpoonup> string) \<Rightarrow> (string \<rightharpoonup> string) \<Rightarrow> bool" where
  "sidecars_only f f' \<longleftrightarrow> (\<forall>q. f' q = f q \<or> (\<exists>d. q = sidecar d) \<and> f q = None)"

definition adds :: "('w node, 'a) io \<Rightarrow> bool" where
  "adds m \<longleftrightarrow> (\<forall>n. sidecars_only (files_of n) (files_of (snd (m n))))"

lemma adds_keeps: "keeps files_of m \<Longrightarrow> adds m"
  by (simp add: adds_def keeps_def sidecars_only_def)

lemma sidecars_only_trans: "sidecars_only f g \<Longrightarrow> sidecars_only g h \<Longrightarrow> sidecars_only f h"
  unfolding sidecars_only_def by metis

lemma adds_bind: "adds m \<Longrightarrow> (\<And>v. adds (f v)) \<Longrightarrow> adds (bind m f)"
  by (auto simp: adds_def bind_def split: prod.splits sum.splits) (metis sidecars_only_trans snd_conv)+

lemma adds_holding: "adds m \<Longrightarrow> adds (holding L p x m)"
proof -
  assume m: "adds m"
  have "adds (acquire L p x)"
    unfolding acquire_def
    by (intro adds_keeps keeps_bind keeps_files_node keeps_fs_try) (simp add: keeps_def on_locks_keeps)
  then show ?thesis
    unfolding holding_def by (intro adds_bind) (use m in \<open>simp_all add: adds_def case_prod_unfold\<close>)
qed

lemma adds_holding_all: "adds m \<Longrightarrow> adds (holding_all L ps m)"
  by (induction ps) (simp_all add: adds_holding)

lemma write_sidecar_effect:
  assumes "temp_ok L" "write_sidecar L (d, v) s = (r, s')"
  shows "\<forall>q. q \<noteq> sidecar d \<longrightarrow> fs_files s' q = fs_files s q"
    "fs_files s' (sidecar d) = fs_files s (sidecar d) \<or> fs_files s (sidecar d) = None \<and> fs_files s' (sidecar d) = Some (ascii_json (json_pretty L v) @ [CHR 0x0A])"
    "is_ok r \<Longrightarrow> fs_files s' (sidecar d) \<noteq> None"
proof -
  have t: "\<forall>x. fs_temp L d x \<noteq> sidecar d"
  proof
    fix x
    obtain t where "fs_temp L d x = path_join d (''.tmp'' @ t)" using assms(1) unfolding temp_ok_def by blast
    then show "fs_temp L d x \<noteq> sidecar d" by (simp add: sidecar_def path_join_def)
  qed
  obtain a u where a: "fs_exists (sidecar d) s = (a, u)" by fastforce
  have u: "fs_files u = fs_files s" using keepsD [OF keeps_fs_reads(2) a] .
  have ex: "b \<longleftrightarrow> fs_files s (sidecar d) \<noteq> None" if "a = Inr b" for b
    using a that by (auto simp: fs_exists_def bind_Inr_iff fs_get_def dest!: fs_try_Inr)
  note e = atomic_write_effect [OF t, of "Some d" "ascii_json (json_pretty L v) @ [CHR 0x0A]" False u]
  consider "s' = u" "is_ok r \<longrightarrow> a = Inr True"
    | "a = Inr False" "atomic_write (fs_temp L d) (Some d) (sidecar d) (ascii_json (json_pretty L v) @ [CHR 0x0A]) False u = (r, s')"
    using assms(2) a by (auto simp: write_sidecar_def bind_def atomic_json_def ret_def split: sum.splits if_splits)
  note c = this
  show "\<forall>q. q \<noteq> sidecar d \<longrightarrow> fs_files s' q = fs_files s q"
    using c by cases (use u e in auto)
  show "fs_files s' (sidecar d) = fs_files s (sidecar d) \<or> fs_files s (sidecar d) = None \<and> fs_files s' (sidecar d) = Some (ascii_json (json_pretty L v) @ [CHR 0x0A])"
    using c by cases (use u e in auto)
  show "is_ok r \<Longrightarrow> fs_files s' (sidecar d) \<noteq> None"
    using c by cases (use u e ex in auto)
qed

lemma write_sidecars:
  assumes "temp_ok L" "for_each (write_sidecar L) [(d, v), (e, w)] s = (r, s')"
  shows "sidecars_only (fs_files s) (fs_files s')"
    "is_ok r \<Longrightarrow> \<exists>c. fs_files s' (sidecar d) = Some c \<and> (c = ascii_json (json_pretty L v) @ [CHR 0x0A] \<or> fs_files s (sidecar d) = Some c)"
    "is_ok r \<Longrightarrow> e \<noteq> d \<Longrightarrow> \<exists>c. fs_files s' (sidecar e) = Some c \<and> (c = ascii_json (json_pretty L w) @ [CHR 0x0A] \<or> fs_files s (sidecar e) = Some c)"
proof -
  obtain a u where a: "write_sidecar L (d, v) s = (a, u)" by fastforce
  note wa = write_sidecar_effect [OF assms(1) a]
  have only: "sidecars_only f g" if "\<forall>q. q \<noteq> sidecar x \<longrightarrow> g q = f q" "g (sidecar x) = f (sidecar x) \<or> f (sidecar x) = None \<and> Q" for f g x Q
    unfolding sidecars_only_def using that by metis
  have sd: "sidecar e = sidecar d \<longleftrightarrow> e = d" by (simp add: sidecar_def path_join_def)
  show "sidecars_only (fs_files s) (fs_files s')"
  proof (cases a)
    case (Inl x)
    with assms(2) a have "s' = u" by (auto simp: bind_def)
    then show ?thesis using only [OF wa(1,2)] by simp
  next
    case (Inr x)
    obtain b t where b: "write_sidecar L (e, w) u = (b, t)" by fastforce
    note wb = write_sidecar_effect [OF assms(1) b]
    have "s' = t" using assms(2) a Inr b by (auto simp: bind_def ret_def split: sum.splits)
    then show ?thesis using sidecars_only_trans [OF only [OF wa(1,2)] only [OF wb(1,2)]] by simp
  qed
  assume r: "is_ok r"
  then obtain x y where i: "a = Inr x" "write_sidecar L (e, w) u = (Inr y, s')"
    using assms(2) a by (auto simp: bind_def ret_def is_ok_iff split: sum.splits prod.splits)
  note wb = write_sidecar_effect [OF assms(1) i(2)]
  obtain c where c: "fs_files u (sidecar d) = Some c" using wa(3) i(1) by (auto simp: is_ok_iff)
  have "fs_files s' (sidecar d) = Some c" using wb(1,2) c sd by (metis option.distinct(1))
  then show "\<exists>c. fs_files s' (sidecar d) = Some c \<and> (c = ascii_json (json_pretty L v) @ [CHR 0x0A] \<or> fs_files s (sidecar d) = Some c)"
    using wa(2) c by auto
  assume "e \<noteq> d"
  then have "fs_files u (sidecar e) = fs_files s (sidecar e)" using wa(1) sd by blast
  moreover have "fs_files s' (sidecar e) \<noteq> None" using wb(3) by (simp add: is_ok_iff)
  ultimately show "\<exists>c. fs_files s' (sidecar e) = Some c \<and> (c = ascii_json (json_pretty L w) @ [CHR 0x0A] \<or> fs_files s (sidecar e) = Some c)"
    using wb(2) by auto
qed

lemma sidecars_free:
  assumes "for_each (sidecar_free L) es s = (Inr (), s')"
  shows "fs_files s' = fs_files s" "\<forall>(d, v) \<in> set es. \<forall>c. fs_files s (sidecar d) = Some c \<longrightarrow> json_parse L c = Some v"
proof -
  have k: "keeps fs_files (sidecar_free L e)" for e
    unfolding sidecar_free_def by (auto intro!: keeps_bind keeps_fs_reads split: prod.split)
  show "fs_files s' = fs_files s" by (rule keepsD [OF keeps_for_each assms]) (rule k)
  have one: "json_parse L c = Some v" if "sidecar_free L (d, v) t = (Inr (), t')" "fs_files t (sidecar d) = Some c" for d v t t' c
    using that
    by (auto simp: sidecar_free_def bind_Inr_iff fs_exists_def read_json_def fs_read_def fs_get_def context_res_def dest!: fs_try_Inr
        split: option.splits if_splits)
  show "\<forall>(d, v) \<in> set es. \<forall>c. fs_files s (sidecar d) = Some c \<longrightarrow> json_parse L c = Some v"
    using assms
  proof (induction es arbitrary: s)
    case (Cons e es)
    then obtain t where t: "sidecar_free L e s = (Inr (), t)" "for_each (sidecar_free L) es t = (Inr (), s')" by (auto simp: bind_Inr_iff)
    have "fs_files t = fs_files s" using keepsD [OF k t(1)] .
    with Cons.IH [OF t(2)] one t(1) show ?case by (auto split: prod.splits)
  qed simp
qed

lemma keeps_files_recovery:
  "keeps fs_files (frozen_inputs L client directory run)" "keeps fs_files (controller_owned L control_dir prev b owner uuid)"
  "keeps files_of (load_progress L client run directory)" "keeps files_of (machine_id L)"
  unfolding frozen_inputs_def controller_owned_def load_progress_def machine_id_def
  by (auto intro!: keeps_files)

lemma adds_rebind:
  assumes "temp_ok L"
  shows "adds (rebind L client directory previous_host)"
proof -
  have w: "adds (on_fs (for_each (write_sidecar L) [(d, v), (e, x)]))" for d v e x
    using write_sidecars(1) [OF assms] by (auto simp: adds_def on_fs_def case_prod_unfold) (metis prod.collapse)
  have f: "keeps fs_files (for_each (sidecar_free L) es)" for es
    by (rule keeps_for_each) (auto simp: sidecar_free_def intro!: keeps_bind keeps_fs_reads split: prod.split)
  have "adds (rebind_locked L client checkpoints dir control_dir prev run uuid)" for checkpoints dir control_dir prev run uuid
    unfolding rebind_locked_def Let_def
    by (intro adds_bind w) (intro adds_keeps keeps_simple keeps_files_node keeps_fs_reads keeps_files_recovery keeps_files_load_prefix f)+
  then have h: "adds (holding_all L ps (rebind_locked L client checkpoints dir control_dir prev run uuid))" for ps checkpoints dir control_dir prev run uuid
    by (rule adds_holding_all)
  show ?thesis unfolding rebind_def Let_def
    by (intro adds_bind h) (intro adds_keeps keeps_simple keeps_files_node keeps_fs_reads)+
qed

definition rebound :: "('w, 'x) nodelib_scheme \<Rightarrow> json \<Rightarrow> string \<Rightarrow> string \<Rightarrow> (string \<rightharpoonup> string) \<Rightarrow> bool" where
  "rebound L record' directory machine f \<longleftrightarrow> (\<exists>v c. recovery_record_for L record' directory machine = Inr v \<and> f (sidecar directory) = Some c \<and>
     (c = ascii_json (json_pretty L v) @ [CHR 0x0A] \<or> json_parse L c = Some v))"

lemma only_after_holding_all:
  assumes "\<And>n1. only_after (\<lambda>_. ()) () P m n1" "\<And>n1 ls. P n1 \<Longrightarrow> P (n1\<lparr>nd_locks := ls\<rparr>)"
  shows "only_after (\<lambda>_. ()) () P (holding_all L ps m) n"
proof (induction ps arbitrary: n)
  case (Cons p ps)
  show ?case
    using only_after_holding [of "\<lambda>_. ()" "()" P "holding_all L ps m" n L p True] Cons assms(2) by simp
qed (simp add: assms(1))

definition rebound_both :: "('w, 'x) nodelib_scheme \<Rightarrow> string \<Rightarrow> string \<Rightarrow> 'w node \<Rightarrow> bool" where
  "rebound_both L dir previous_host n \<longleftrightarrow> (\<exists>identity b control_dir machine.
     get identity ''host'' = Some (JStr previous_host) \<and> get identity ''state_directory'' = Some (JStr dir) \<and>
     get b ''host'' = Some (JStr previous_host) \<and> get b ''directory'' = Some (JStr control_dir) \<and>
     rebound L identity dir machine (files_of n) \<and> (control_dir \<noteq> dir \<longrightarrow> rebound L b control_dir machine (files_of n)))"

lemma rebind_locked_rebinds:
  assumes "temp_ok L"
  shows "only_after (\<lambda>_. ()) () (rebound_both L dir previous_host)
    (rebind_locked L client checkpoints dir control_dir previous_host run uuid) n"
proof -
  have db: "keeps (\<lambda>_. ()) (on_db m)" for m :: "('a, 'r) io" by (simp add: keeps_def)
  have fs: "keeps (\<lambda>_. ()) (on_fs (fs_read q))" "keeps (\<lambda>_. ()) (on_fs (read_json L q))"
    "keeps (\<lambda>_. ()) (on_fs (frozen_inputs L client dir run))" "keeps (\<lambda>_. ()) (on_fs (controller_owned L control_dir previous_host b owner uuid))"
    "keeps (\<lambda>_. ()) (load_progress L client run dir)" "keeps (\<lambda>_. ()) (load_prefix L client dir (Some run))" "keeps (\<lambda>_. ()) (machine_id L)"
    "keeps (\<lambda>_. ()) (on_fs (for_each (sidecar_free L) es))" for q b owner es
    by (simp_all add: keeps_def)
  have final: "only_after (\<lambda>_. ()) () (rebound_both L dir previous_host)
      (bind (on_fs (for_each (write_sidecar L) [(dir, own), (control_dir, controller)])) (\<lambda>_. ret v)) m"
    if d: "native_owned L client dir previous_host run owner id' = Inr owned" "owned"
      "on_fs (controller_owned L control_dir previous_host b control_owner uuid) m1 = (Inr controlled, m2)" "controlled"
      "recovery_record_for L (index run ''identity'') dir machine = Inr own" "recovery_record_for L b control_dir machine = Inr controller"
      "on_fs (for_each (sidecar_free L) [(dir, own), (control_dir, controller)]) m3 = (Inr u, m)"
    for owner id' owned b control_owner m1 controlled m2 machine own controller m3 u m v
    unfolding only_after_def
  proof (intro allI impI)
    fix r w' assume run: "bind (on_fs (for_each (write_sidecar L) [(dir, own), (control_dir, controller)])) (\<lambda>_. ret v) m = (r, w')"
    show "() = () \<and> \<not> is_ok r \<or> rebound_both L dir previous_host w'"
    proof (cases "is_ok r")
      case True
      then obtain s where w: "for_each (write_sidecar L) [(dir, own), (control_dir, controller)] (nd_fs m) = (Inr (), s)" "nd_fs w' = s"
        using run by (auto simp: is_ok_iff bind_Inr_iff on_fs_Inr)
      from d(7) have "for_each (sidecar_free L) [(dir, own), (control_dir, controller)] (nd_fs m3) = (Inr (), nd_fs m)" by (auto simp: on_fs_Inr)
      note fr = sidecars_free [OF this]
      have o: "rebound L (index run ''identity'') dir machine (files_of w')"
        unfolding rebound_def using write_sidecars(2) [OF assms w(1)] fr d(5) w(2) by (auto simp: is_ok_iff)
      have c: "control_dir \<noteq> dir \<longrightarrow> rebound L b control_dir machine (files_of w')"
        unfolding rebound_def using write_sidecars(3) [OF assms w(1)] fr d(6) w(2) by (auto simp: is_ok_iff)
      have "get (index run ''identity'') ''host'' = Some (JStr previous_host)" "get (index run ''identity'') ''state_directory'' = Some (JStr dir)"
        using d(1,2) by (auto simp: native_owned_def Let_def jstr_eq_index split: if_splits)
      moreover have "get b ''host'' = Some (JStr previous_host)" "get b ''directory'' = Some (JStr control_dir)"
        using d(3,4) by (auto simp: controller_owned_def jstr_eq_index on_fs_Inr split: if_splits)
      ultimately show ?thesis unfolding rebound_both_def using o c by blast
    qed simp
  qed
  show ?thesis
    unfolding rebind_locked_def Let_def
    by (intro only_after_bind [OF db] only_after_bind [OF fs(1)] only_after_bind [OF fs(2)] only_after_bind [OF fs(3)] only_after_bind [OF fs(4)]
        only_after_bind [OF fs(5)] only_after_bind [OF fs(6)] only_after_bind [OF fs(7)] only_after_bind [OF fs(8)] only_after_lift only_after_check refl)
      (rule final, assumption+)
qed

lemma rebind_rebinds:
  assumes "temp_ok L"
  shows "only_after (\<lambda>_. ()) () (\<lambda>n'. \<exists>dir. resolve_path L directory = Inr dir \<and> rebound_both L dir previous_host n')
    (rebind L client directory previous_host) n"
proof -
  have db: "keeps (\<lambda>_. ()) (on_db m)" "keeps (\<lambda>_. ()) (on_fs q)" for m :: "('a, 'r) io" and q :: "(fsys, 's) io" by (simp_all add: keeps_def)
  have "only_after (\<lambda>_. ()) () (\<lambda>n'. \<exists>dir. resolve_path L directory = Inr dir \<and> rebound_both L dir previous_host n')
      (holding_all L ps (rebind_locked L client checkpoints dir control_dir previous_host run uuid)) m"
    if "resolve_path L directory = Inr dir" for ps checkpoints dir control_dir run uuid m
    by (rule only_after_holding_all [OF only_after_mono [OF rebind_locked_rebinds [OF assms]]]) (use that in \<open>auto simp: rebound_both_def\<close>)
  note final = this
  show ?thesis unfolding rebind_def Let_def
    by (intro only_after_bind [OF db(1)] only_after_bind [OF db(2)] only_after_lift only_after_check refl) (rule final, assumption)
qed


definition ex_recovery_node :: "unit node" where
  "ex_recovery_node = ex_node\<lparr>nd_fs := \<lparr>fs_files = [''/d/run.json'' \<mapsto> ''{}''], fs_plan = [Done, Fault]\<rparr>\<rparr>"


end
