(* ===== verification/Commitment.thy ===== *)
theory Commitment
  imports Proof
begin

text \<open>
  What a state root commits to, the storage of all accounts, and what a complete verification of an
  account then shows: the verified slots are the account's true storage.
\<close>

section \<open>State roots\<close>

text \<open>
  A state root commits to the storage of all accounts, given as the nonzero slots of each 20-byte
  address: a proof that verifies for an account shows the root of its storage, and a proof of
  absence verifies only for accounts without storage.
\<close>

definition commits :: "'x evmlib_scheme \<Rightarrow> bytes \<Rightarrow> (bytes \<Rightarrow> (bytes \<times> nat) list) \<Rightarrow> bool" where
  "commits X root truth \<longleftrightarrow> trie_root X [] = EMPTY_ROOT_HASH X \<and>
     (\<forall>raw. distinct (map fst (truth raw)) \<and> (\<forall>e \<in> set (truth raw). length (fst e) = 32 \<and> snd e < 2 ^ 256)) \<and>
     (\<forall>raw nonce balance s h nodes. nonce < 2 ^ 64 \<and> balance < 2 ^ 256 \<and> length s = 32 \<and> length h = 32 \<and>
        verify_proof X root (keccak256 X raw) (Some (account_rlp X nonce balance s h)) nodes \<longrightarrow>
        s = trie_root X (sort_key fst (map (leaf X) (truth raw)))) \<and>
     (\<forall>raw nodes. verify_proof X root (keccak256 X raw) None nodes \<longrightarrow> truth raw = [])"

lemma proven_root:
  assumes "commits X root truth" "fixed X 32 state_root = Inr root" "verify_account X state_root a p = Inr proven"
  obtains addr raw where "address X a = Inr addr" "fixed X 20 addr = Inr raw"
    "ac_storage_root proven = trie_root X (sort_key fst (map (leaf X) (truth raw)))"
proof -
  from verify_account_Inr [OF assms(3)] assms(2) obtain raw nodes where d: "address X a = Inr (ac_address proven)"
      "fixed X 20 (ac_address proven) = Inr raw" "ac_balance proven < 2 ^ 256" "length (ac_storage_root proven) = 32" "length (ac_code_hash proven) = 32"
      "if ac_exists proven then verify_proof X root (keccak256 X raw)
         (Some (account_rlp X (unat (ac_nonce proven)) (ac_balance proven) (ac_storage_root proven) (ac_code_hash proven))) nodes
       else verify_proof X root (keccak256 X raw) None nodes \<and> ac_nonce proven = 0 \<and> ac_balance proven = 0 \<and>
         ac_storage_root proven = EMPTY_ROOT_HASH X \<and> ac_code_hash proven = keccak256 X []"
    by fastforce
  show thesis
  proof (rule that [OF d(1,2)], cases "ac_exists proven")
    case True
    with d show "ac_storage_root proven = trie_root X (sort_key fst (map (leaf X) (truth raw)))"
      using assms(1) u64_bound [of "ac_nonce proven"] unfolding commits_def by metis
  next
    case False
    with d(6) have "truth raw = []" "ac_storage_root proven = EMPTY_ROOT_HASH X" using assms(1) unfolding commits_def by auto
    then show "ac_storage_root proven = trie_root X (sort_key fst (map (leaf X) (truth raw)))"
      using assms(1) unfolding commits_def by simp
  qed
qed

text \<open>Slots that pass the complete verification of a proven account are its true storage.\<close>

lemma complete_true:
  assumes "rlp_ok X" "storage_commitment (keccak256 X) (trie_root X)" "commits X root truth" "fixed X 32 state_root = Inr root"
    and "verify_account X state_root a p = Inr proven" "verify_complete X faults proven slots code metadata = Inr n"
  shows "\<exists>addr raw svs es. address X a = Inr addr \<and> fixed X 20 addr = Inr raw \<and> slots = map Inr svs \<and>
    map_res (decode_slot X) svs = Inr es \<and> distinct (map fst es) \<and> set es = set (truth raw) \<and> n = of_nat (length (truth raw))"
proof -
  from proven_root [OF assms(3-5)] obtain addr raw where p: "address X a = Inr addr" "fixed X 20 addr = Inr raw"
      "ac_storage_root proven = trie_root X (sort_key fst (map (leaf X) (truth raw)))" by blast
  have t: "\<forall>e \<in> set (truth raw). length (fst e) = 32 \<and> snd e < 2 ^ 256" "distinct (map fst (truth raw))"
    using assms(3) unfolding commits_def by blast+
  from verify_complete_exact [OF assms(1,2) t p(3) assms(6)] obtain svs es where e: "slots = map Inr svs"
      "map_res (decode_slot X) svs = Inr es" "distinct (map fst es)" "set es = set (truth raw)" "n = of_nat (length es)" by blast
  have "length es = length (truth raw)" using e(3,4) t(2) by (metis distinct_card distinct_map)
  then have "n = of_nat (length (truth raw))" using e(5) by simp
  with p(1,2) e(1-4) show ?thesis by blast
qed

section \<open>A concrete commitment\<close>

definition ex_root :: "(bytes \<times> bytes) list \<Rightarrow> bytes" where
  "ex_root ls = (if ls = [] then replicate 32 9 else ref_root ls)"

definition ex_true_evm :: evmlib where
  "ex_true_evm = ex_evm\<lparr>trie_root := ex_root\<rparr>"

lemma ex_true_commitment: "storage_commitment ref_hash ex_root"
proof
  show "length (ref_hash b) = 32" for b by simp
  show "a = b" if "length a = 32" "length b = 32" "ref_hash a = ref_hash b" for a b
    using that by (simp add: ref_hash_word)
  show "xs = ys"
    if o: "sorted (map fst xs)" "distinct (map fst xs)" "sorted (map fst ys)" "distinct (map fst ys)"
      and b: "\<forall>(k, v) \<in> set xs \<union> set ys. length k = 32 \<and> length v \<le> 41" and r: "ex_root xs = ex_root ys" for xs ys
  proof -
    have first: "hd (ref_root zs) \<noteq> 9 \<and> ref_root zs \<noteq> []" if z: "zs \<noteq> []" "set zs \<subseteq> set xs \<union> set ys" for zs
    proof -
      obtain k v rest where zs: "zs = (k, v) # rest" using z(1) by (cases zs) auto
      then have "length k = 32" using b z(2) by auto
      then show ?thesis by (simp add: zs ref_root_def ref_rlp_bytes_def ref_rlp_header_def)
    qed
    show "xs = ys"
    proof (cases "xs = [] \<or> ys = []")
      case True
      have "hd (ex_root zs) = 9 \<longleftrightarrow> zs = []" if "set zs \<subseteq> set xs \<union> set ys" for zs
        using first [OF _ that] by (simp add: ex_root_def)
      from this [OF Un_upper1] this [OF Un_upper2] True r show ?thesis by metis
    next
      case False
      with r have "ref_root xs = ref_root ys" by (simp add: ex_root_def)
      then show ?thesis by (rule ref_storage.root_inject [OF o b])
    qed
  qed
qed

lemma ex_true_simps [simp]:
  "rlp_uint ex_true_evm = rlp_uint ex_evm" "rlp_bytes ex_true_evm = rlp_bytes ex_evm" "rlp_list_header ex_true_evm = rlp_list_header ex_evm"
  "rlp_decode ex_true_evm = rlp_decode ex_evm" "keccak256 ex_true_evm = ref_hash" "trie_root ex_true_evm = ex_root"
  "EMPTY_ROOT_HASH ex_true_evm = replicate 32 9" "verify_proof ex_true_evm = verify_proof ex_evm"
  by (simp_all add: ex_true_evm_def ex_evm_def)

lemma ex_true_rlp: "rlp_ok ex_true_evm"
  using ex_evm_rlp by (simp add: rlp_ok_def)

lemma ex_commits: "commits ex_true_evm root (\<lambda>_. [])"
  unfolding commits_def
proof (intro conjI allI impI)
  show "trie_root ex_true_evm [] = EMPTY_ROOT_HASH ex_true_evm" by (simp add: ex_root_def)
  fix raw nonce balance s h nodes
  assume a: "nonce < 2 ^ 64 \<and> balance < 2 ^ 256 \<and> length s = 32 \<and> length h = 32 \<and>
    verify_proof ex_true_evm root (keccak256 ex_true_evm raw) (Some (account_rlp ex_true_evm nonce balance s h)) nodes"
  then have "account_rlp ex_true_evm nonce balance s h = account_rlp ex_true_evm 1 2 (replicate 32 9) (replicate 32 0)"
    using ex_account_rlp by (simp add: ex_evm_simps account_rlp_def rlp_list_def)
  then have "s = replicate 32 9"
    using account_rlp_inject [OF ex_true_rlp, of nonce 1 balance 2 s "replicate 32 9" h "replicate 32 0"] a by simp
  then show "s = trie_root ex_true_evm (sort_key fst (map (leaf ex_true_evm) []))" by (simp add: ex_root_def)
qed (simp_all add: ex_evm_simps)

end
