(* ===== verification/Rpc.thy ===== *)
theory Rpc
  imports Header Effects
begin

text \<open>
  JSON-RPC access and the capture of account proofs at a finalized block,
  \<open>crates/evm-state/src/rpc.rs\<close>.  A provider is an operation on a world that may answer every call
  differently; only what the code checks can be relied on.
\<close>

type_synonym 'w provider = "string \<Rightarrow> json \<Rightarrow> ('w, json) io"

record RpcClient =
  rpc_url :: string
  rpc_key :: string

record RpcReply =
  rr_code :: nat
  rr_success :: bool
  rr_json :: "json option"

type_synonym 'w post_json = "string \<Rightarrow> json \<Rightarrow> string option \<Rightarrow> 'w \<Rightarrow> RpcReply option \<times> 'w"

definition rpc_new :: "string option \<Rightarrow> string option \<Rightarrow> (string \<Rightarrow> string option) \<Rightarrow> RpcClient" where
  "rpc_new url key env =
     \<lparr>rpc_url = (case url of Some u \<Rightarrow> u | None \<Rightarrow>
        (case env ''RPC_URL'' of Some u \<Rightarrow> u | None \<Rightarrow> ''https://bsc.rpc.pinax.network'')),
      rpc_key = (case key of Some k \<Rightarrow> k | None \<Rightarrow>
        (case env ''RPC_API_KEY'' of Some k \<Rightarrow> k | None \<Rightarrow>
          (case env ''SUBSTREAMS_API_KEY'' of Some k \<Rightarrow> k | None \<Rightarrow> [])))\<rparr>"

definition rpc_call :: "'w post_json \<Rightarrow> RpcClient \<Rightarrow> 'w provider" where
  "rpc_call H r method ps w =
     (case H (rpc_url r) (jobj [(''jsonrpc'', JStr ''2.0''), (''id'', JNum ''1''), (''method'', JStr method), (''params'', ps)])
          (if rpc_key r = [] then None else Some (rpc_key r)) w of
        (None, w') \<Rightarrow> (Inl (''RPC '' @ method @ '' transport failed''), w')
      | (Some reply, w') \<Rightarrow>
          (ensure (rr_success reply) (''RPC '' @ method @ '' failed (HTTP '' @ show_nat (rr_code reply) @ '')'')
           (bnd (context_res (rr_json reply) ''invalid RPC JSON response'') (\<lambda>result.
            ensure (get result ''error'' = None \<and> \<not> is_null (index result ''result''))
              (''RPC '' @ method @ '' returned an error or null result'') (Inr (index result ''result'')))), w'))"

fun show_hex :: "nat \<Rightarrow> string" where
  "show_hex n = (if n < 16 then [hex_digit n] else show_hex (n div 16) @ [hex_digit (n mod 16)])"

declare show_hex.simps [simp del]

definition block_param :: "nat \<Rightarrow> json" where
  "block_param n = JStr (''0x'' @ show_hex n)"

definition header_number :: "'x evmlib_scheme \<Rightarrow> json \<Rightarrow> nat res" where
  "header_number X header = bnd (string_field header ''number'') (\<lambda>s. quantity X s 64)"

definition finalized_header :: "'x evmlib_scheme \<Rightarrow> 'w provider \<Rightarrow> u64 option \<Rightarrow> ('w, json) io" where
  "finalized_header X rpc block =
     bind (rpc ''eth_getBlockByNumber'' (JArr [JStr ''finalized'', JBool False])) (\<lambda>finalized.
     bind (case block of
         Some b \<Rightarrow> rpc ''eth_getBlockByNumber'' (JArr [block_param (unat b), JBool False])
       | None \<Rightarrow> ret finalized) (\<lambda>header.
     bind (lift (header_number X header)) (\<lambda>number.
     bind (check (case block of None \<Rightarrow> True | Some b \<Rightarrow> unat b = number)
       ''RPC returned a different block number than requested'') (\<lambda>_.
     bind (lift (header_number X finalized)) (\<lambda>final.
     bind (check (number \<le> final) ''checkpoint block is not finalized'') (\<lambda>_.
     bind (lift (encode_rpc_header X header)) (\<lambda>_.
     ret header)))))))"

definition lowercase :: "string \<Rightarrow> string" where
  "lowercase s = map to_ascii_lowercase s"

definition pin_header :: "'x hexlib_scheme \<Rightarrow> json \<Rightarrow> string option \<Rightarrow> unit res" where
  "pin_header X header expected_hash = (case expected_hash of None \<Rightarrow> Inr ()
     | Some hash \<Rightarrow>
         bnd (fixed X 32 hash) (\<lambda>h.
         bnd (bnd (string_field header ''hash'') (fixed X 32)) (\<lambda>actual.
         ensure (h = actual) ''RPC header differs from the expected block hash'' (Inr ()))))"

definition header_summary :: "'x evmlib_scheme \<Rightarrow> json \<Rightarrow> nat \<Rightarrow> json res" where
  "header_summary X header number =
     bnd (string_field header ''hash'') (\<lambda>hash.
     bnd (string_field header ''parentHash'') (\<lambda>parent.
     bnd (string_field header ''stateRoot'') (\<lambda>root.
     bnd (bnd (string_field header ''timestamp'') (\<lambda>s. quantity X s 64)) (\<lambda>timestamp.
     Inr (jobj [(''number'', jnum (of_nat number)), (''hash'', JStr (lowercase hash)),
       (''parent_hash'', JStr (lowercase parent)), (''state_root'', JStr (lowercase root)),
       (''timestamp'', jnum (of_nat timestamp))])))))"

definition capture_bundle :: "'x evmlib_scheme \<Rightarrow> json \<Rightarrow> nat \<Rightarrow> nat \<Rightarrow> string option \<Rightarrow> json res" where
  "capture_bundle X header number chain expected_hash =
     bnd (header_summary X header number) (\<lambda>summary.
     bnd (encode_rpc_header X header) (\<lambda>rlp.
     Inr (jobj [(''format_version'', JNum ''1''), (''chain_id'', JNum (u256_to_string X chain)),
       (''header'', summary),
       (''header_trust'', JStr (if expected_hash \<noteq> None then ''operator-pinned-hash'' else ''provider-finalized-header'')),
       (''accounts'', JObj []), (''header_rlp'', JStr rlp)])))"

definition capture_account :: "'x evmlib_scheme \<Rightarrow> 'w provider \<Rightarrow> json \<Rightarrow> nat \<Rightarrow> string \<Rightarrow> json \<Rightarrow> ('w, json) io" where
  "capture_account X rpc header number account bundle =
     bind (rpc ''eth_getProof'' (JArr [JStr account, JArr [], block_param number])) (\<lambda>p.
     bind (lift (bnd (string_field header ''stateRoot'') (\<lambda>root. verify_account X root account p))) (\<lambda>proven.
     bind (rpc ''eth_getCode'' (JArr [JStr account, block_param number])) (\<lambda>code.
     bind (lift (context_res (as_str code) ''invalid RPC bytecode'')) (\<lambda>code.
     bind (lift (unhex X code)) (\<lambda>bytecode.
     bind (check (keccak256 X bytecode = ac_code_hash proven) ''RPC bytecode differs from the proven code hash'') (\<lambda>_.
     ret (jset bundle ''accounts'' (jset (index bundle ''accounts'') account
       (jobj [(''proof'', p), (''code'', JStr (lowercase code))])))))))))"

fun capture_accounts :: "'x evmlib_scheme \<Rightarrow> 'w provider \<Rightarrow> json \<Rightarrow> nat \<Rightarrow> string list \<Rightarrow> json \<Rightarrow> ('w, json) io" where
  "capture_accounts X rpc header number [] bundle = ret bundle"
| "capture_accounts X rpc header number (a # as) bundle =
     bind (capture_account X rpc header number a bundle) (capture_accounts X rpc header number as)"

definition account_set :: "'x hexlib_scheme \<Rightarrow> string list \<Rightarrow> string list res" where
  "account_set X accounts = bnd (map_res (address X) accounts) (\<lambda>as. Inr (sort (remdups as)))"

definition capture :: "'x evmlib_scheme \<Rightarrow> 'w provider \<Rightarrow> string list \<Rightarrow> u64 option \<Rightarrow> string option \<Rightarrow> ('w, json) io" where
  "capture X rpc accounts block expected_hash =
     bind (lift (account_set X accounts)) (\<lambda>accounts.
     bind (check (accounts \<noteq> []) ''at least one account is required'') (\<lambda>_.
     bind (finalized_header X rpc block) (\<lambda>header.
     bind (lift (header_number X header)) (\<lambda>number.
     bind (lift (pin_header X header expected_hash)) (\<lambda>_.
     bind (rpc ''eth_chainId'' (JArr [])) (\<lambda>chain.
     bind (lift (bnd (context_res (as_str chain) ''invalid chain ID'') (\<lambda>s. quantity X s 256))) (\<lambda>chain.
     bind (lift (capture_bundle X header number chain expected_hash)) (\<lambda>bundle.
     bind (lift (bnd (string_field bundle ''header_rlp'') (\<lambda>rlp.
        verify_header X rlp (index bundle ''header'') expected_hash))) (\<lambda>_.
     bind (capture_accounts X rpc header number accounts bundle) (\<lambda>bundle.
     bind (rpc ''eth_getBlockByNumber'' (JArr [block_param number, JBool False])) (\<lambda>after.
     bind (lift (header_number X after)) (\<lambda>number'.
     bind (lift (if number' = number
        then bnd (string_field after ''hash'') (\<lambda>h. bnd (string_field header ''hash'') (\<lambda>h'.
               Inr (lowercase h = lowercase h')))
        else Inr False)) (\<lambda>same.
     bind (check same ''checkpoint header changed during proof capture'') (\<lambda>_.
     ret bundle))))))))))))))"

section \<open>An encoded header verifies\<close>

lemma lowercase_idem: "to_ascii_lowercase (to_ascii_lowercase c) = to_ascii_lowercase c"
  by (auto simp: to_ascii_lowercase_def less_eq_char_def)

lemma unhex_lowercase:
  assumes "hex_ok X" "unhex X s = Inr b"
  shows "unhex X (lowercase s) = Inr b"
proof -
  obtain r where r: "s = ''0x'' @ r" "map to_ascii_lowercase r = hex_encode X b"
    using unhex_lower [OF assms] by blast
  have "lowercase s = ''0x'' @ hex_encode X b"
    using r by (simp add: lowercase_def to_ascii_lowercase_def less_eq_char_def)
  with unhex_enc [OF assms(1), of b] show ?thesis by simp
qed

lemma fixed_lowercase:
  "hex_ok X \<Longrightarrow> fixed X n s = Inr b \<Longrightarrow> fixed X n (lowercase s) = Inr b"
  using unhex_lowercase by (auto simp: fixed_def res_simps)

lemma FIELDS_nth:
  "enumerate 0 FIELDS ! 0 = (0, ''parentHash'', Some 32, None)"
  "enumerate 0 FIELDS ! 3 = (3, ''stateRoot'', Some 32, None)"
  "enumerate 0 FIELDS ! 8 = (8, ''number'', None, Some 64)"
  "enumerate 0 FIELDS ! 11 = (11, ''timestamp'', None, Some 64)"
  by (simp_all add: FIELDS_def)

lemma encode_field_word:
  assumes "rlp_ok X" "i < 15" "encode_field X header (i, name, Some 32, None) = Inr (rlp_bytes X b)" "length b < usize_max"
  shows "\<exists>s. string_field header name = Inr s \<and> fixed X 32 s = Inr b"
proof -
  have c: "rlp_codec (rlp_uint X) (rlp_bytes X) (rlp_list_header X) (rlp_decode X)"
    using assms(1) by (simp add: rlp_ok_def)
  obtain s b' where s: "string_field header name = Inr s" "unhex X s = Inr b'" "length b' = 32"
    "rlp_bytes X b' = rlp_bytes X b"
    using assms(2,3) by (auto simp: encode_field_def res_simps split: if_splits)
  then have "b' = b" using rlp_codec.enc_bytes_inject [OF c, of b' b] assms(4) by simp
  with s show ?thesis by (auto simp: fixed_def)
qed

lemma encode_field_uint:
  assumes "rlp_ok X" "i < 15" "encode_field X header (i, name, None, Some 64) = Inr (rlp_bytes X b)" "length b < usize_max"
  shows "bnd (string_field header name) (\<lambda>s. quantity X s 64) = Inr (be_val b) \<and> be_val b < 2 ^ 64"
proof -
  have c: "rlp_codec (rlp_uint X) (rlp_bytes X) (rlp_list_header X) (rlp_decode X)"
    using assms(1) by (simp add: rlp_ok_def)
  obtain s n where s: "string_field header name = Inr s" "quantity X s 64 = Inr n" "rlp_uint X n = rlp_bytes X b"
    using assms(2,3) by (auto simp: encode_field_def res_simps split: if_splits)
  have n: "n < 2 ^ 64" by (rule quantity_bound [OF s(2)])
  then have "n < 256 ^ 8" by simp
  then have "length (be_bytes n) < usize_max" using length_be_bytes_le [of n 8] by simp
  with s(3) have "be_bytes n = b"
    using rlp_codec.enc_bytes_inject [OF c, of "be_bytes n" b] assms(4) by (simp add: rlp_codec.enc_uint [OF c])
  then have "be_val b = n" by auto
  with s n show ?thesis by simp
qed

lemma summary_fields:
  assumes "header_summary X header number = Inr summary"
  obtains hash parent root ts where
    "string_field header ''hash'' = Inr hash" "string_field header ''parentHash'' = Inr parent"
    "string_field header ''stateRoot'' = Inr root"
    "bnd (string_field header ''timestamp'') (\<lambda>s. quantity X s 64) = Inr ts"
    "string_field summary ''hash'' = Inr (lowercase hash)"
    "string_field summary ''parent_hash'' = Inr (lowercase parent)"
    "string_field summary ''state_root'' = Inr (lowercase root)"
    "as_u64 (index summary ''number'') = Some (of_nat number)"
    "as_u64 (index summary ''timestamp'') = Some (of_nat ts)"
proof -
  obtain hash parent root ts where h:
    "string_field header ''hash'' = Inr hash" "string_field header ''parentHash'' = Inr parent"
    "string_field header ''stateRoot'' = Inr root"
    "bnd (string_field header ''timestamp'') (\<lambda>s. quantity X s 64) = Inr ts"
    "summary = jobj [(''number'', jnum (of_nat number)), (''hash'', JStr (lowercase hash)),
       (''parent_hash'', JStr (lowercase parent)), (''state_root'', JStr (lowercase root)),
       (''timestamp'', jnum (of_nat ts))]"
    using assms unfolding header_summary_def by (auto simp: bnd_Inr_iff)
  show thesis
    by (rule that [OF h(1-4)])
      (simp_all add: h(5) string_field_def get_jobj index_jobj)
qed

lemma header_verifies:
  assumes "hex_ok X" "rlp_ok X" and "encode_rpc_header X header = Inr enc"
    and "length enc \<le> 2 + 2 * 104448"
    and "header_number X header = Inr number" "header_summary X header number = Inr summary"
    and "pin_header X header expected = Inr ()"
  shows "\<exists>digest h. verify_header X enc summary expected = Inr digest \<and>
    string_field header ''hash'' = Inr h \<and> fixed X 32 h = Inr digest"
proof -
  have c: "rlp_codec (rlp_uint X) (rlp_bytes X) (rlp_list_header X) (rlp_decode X)"
    using assms(2) by (simp add: rlp_ok_def)
  obtain bs where bs:
    "enc = ''0x'' @ hex_encode X (rlp_list_header X (length (concat (map (rlp_bytes X) bs))) @ concat (map (rlp_bytes X) bs))"
    "15 \<le> length bs" "length bs \<le> 23"
    "\<forall>p \<in> set (zip bs (enumerate 0 FIELDS)). check_field p = Inr ()"
    "\<forall>k < length bs. encode_field X header (enumerate 0 FIELDS ! k) = Inr (rlp_bytes X (bs ! k))"
    "\<exists>h. string_field header ''hash'' = Inr h \<and>
      fixed X 32 h = Inr (keccak256 X (rlp_list_header X (length (concat (map (rlp_bytes X) bs))) @ concat (map (rlp_bytes X) bs)))"
    by (rule encode_rpc_header_Inr [OF assms(2,3)])
  define p where "p = concat (map (rlp_bytes X) bs)"
  define e where "e = rlp_list_header X (length p) @ p"
  have len: "length e \<le> 104448"
    using assms(4) bs(1) hex_codec.length_enc [OF assms(1), of e] by (simp add: e_def p_def)
  have lenb: "length b < usize_max" if "b \<in> set bs" for b
  proof -
    have "length b \<le> length (rlp_bytes X b)" by (rule rlp_codec.enc_length_ge [OF c])
    also have "\<dots> \<le> length p" using that unfolding p_def
      by (auto simp: length_concat member_le_sum_list)
    finally show ?thesis using len by (simp add: e_def)
  qed
  have dec: "rlp_decode X True e = Some (p, [])"
    using rlp_codec.dec_list [OF c, of p "[]"] len by (simp add: e_def)
  have decf: "decode_fields X p [] = Inr bs"
    using decode_fields_items [OF assms(2), of bs "[]"] lenb bs(3) by (simp add: p_def)
  have un: "unhex X enc = Inr e"
    using unhex_enc [OF assms(1), of e] bs(1) by (simp add: e_def p_def)
  obtain h where h: "string_field header ''hash'' = Inr h" "fixed X 32 h = Inr (keccak256 X e)"
    using bs(6) by (auto simp: e_def p_def)
  obtain hash parent root ts where s:
    "string_field header ''hash'' = Inr hash" "string_field header ''parentHash'' = Inr parent"
    "string_field header ''stateRoot'' = Inr root"
    "bnd (string_field header ''timestamp'') (\<lambda>s. quantity X s 64) = Inr ts"
    "string_field summary ''hash'' = Inr (lowercase hash)"
    "string_field summary ''parent_hash'' = Inr (lowercase parent)"
    "string_field summary ''state_root'' = Inr (lowercase root)"
    "as_u64 (index summary ''number'') = Some (of_nat number)"
    "as_u64 (index summary ''timestamp'') = Some (of_nat ts)"
    by (rule summary_fields [OF assms(6)])
  have k: "k < length bs" if "k < 15" for k using that bs(2) by simp
  have lk: "length (bs ! k) < usize_max" if "k < 15" for k using lenb [OF nth_mem [OF k [OF that]]] .
  have enc_k: "encode_field X header (enumerate 0 FIELDS ! k) = Inr (rlp_bytes X (bs ! k))" if "k < 15" for k
    using bs(5) k [OF that] by blast
  have "fixed X 32 parent = Inr (bs ! 0)"
    using encode_field_word [OF assms(2) _ enc_k [of 0, unfolded FIELDS_nth] lk] s(2) by simp
  moreover have "fixed X 32 root = Inr (bs ! 3)"
    using encode_field_word [OF assms(2) _ enc_k [of 3, unfolded FIELDS_nth] lk] s(3) by simp
  moreover have "number = be_val (bs ! 8) \<and> be_val (bs ! 8) < 2 ^ 64"
    using encode_field_uint [OF assms(2) _ enc_k [of 8, unfolded FIELDS_nth] lk] assms(5)
    by (simp add: header_number_def)
  moreover have "ts = be_val (bs ! 11) \<and> be_val (bs ! 11) < 2 ^ 64"
    using encode_field_uint [OF assms(2) _ enc_k [of 11, unfolded FIELDS_nth] lk] s(4) by simp
  ultimately have same: "summary_matches X bs summary = Inr True"
    using s fixed_lowercase [OF assms(1)] by (simp add: summary_matches_def unat_of_nat)
  have exp: "expected_ok X (keccak256 X e) expected = Inr ()"
    using assms(7) h by (auto simp: pin_header_def expected_ok_def res_simps split: option.splits)
  have "fixed X 32 (lowercase hash) = Inr (keccak256 X e)"
    using h s(1) fixed_lowercase [OF assms(1)] by simp
  then have "verify_header X enc summary expected = Inr (keccak256 X e)"
    using len bs(2) by (simp add: verify_header_def un dec decf check_fields_ok [OF bs(4)] s(5) exp same)
  with h show ?thesis by blast
qed

text \<open>
  The encoding of an RPC header that matches its hash always passes the verification of an
  encoded header: against the summary the capture builds from it, and against an expected hash
  that pinned it, provided it is within the size limit.  The result is the block hash.
\<close>

lemma header_roundtrip:
  assumes "hex_ok X" "rlp_ok X" and "encode_rpc_header X header = Inr enc"
    and "length enc \<le> 2 + 2 * 104448"
    and "header_number X header = Inr number" "header_summary X header number = Inr summary"
    and "pin_header X header expected = Inr ()"
  shows "\<exists>digest h. verify_header X enc summary expected = Inr digest \<and>
    string_field header ''hash'' = Inr h \<and> fixed X 32 h = Inr digest"
  by (rule header_verifies [OF assms])

section \<open>What a capture establishes\<close>

definition captured :: "'x evmlib_scheme \<Rightarrow> json \<Rightarrow> string \<Rightarrow> json option \<Rightarrow> bool" where
  "captured X header a entry \<longleftrightarrow>
     (\<exists>p code root proven bytecode. entry = Some (jobj [(''proof'', p), (''code'', JStr (lowercase code))]) \<and>
       string_field header ''stateRoot'' = Inr root \<and> verify_account X root a p = Inr proven \<and>
       unhex X code = Inr bytecode \<and> keccak256 X bytecode = ac_code_hash proven)"

lemma capture_account_Inr:
  assumes "capture_account X rpc header number a bundle w = (Inr bundle', w')"
  shows "\<exists>entry. captured X header a (Some entry) \<and>
    bundle' = jset bundle ''accounts'' (jset (index bundle ''accounts'') a entry)"
proof -
  obtain p proven source bytecode root where c:
    "string_field header ''stateRoot'' = Inr root" "verify_account X root a p = Inr proven"
    "unhex X source = Inr bytecode" "keccak256 X bytecode = ac_code_hash proven"
    "bundle' = jset bundle ''accounts'' (jset (index bundle ''accounts'') a
       (jobj [(''proof'', p), (''code'', JStr (lowercase source))]))"
    using assms unfolding capture_account_def bind_Inr_iff by (auto simp: bnd_Inr_iff split: if_splits)
  then show ?thesis unfolding captured_def by blast
qed

lemma capture_accounts_Inr:
  assumes "capture_accounts X rpc header number ns bundle w = (Inr bundle', w')"
  shows "(\<forall>f. f \<noteq> ''accounts'' \<longrightarrow> get bundle' f = get bundle f) \<and>
    (\<forall>a \<in> set ns. captured X header a (get (index bundle' ''accounts'') a)) \<and>
    (\<forall>a. a \<notin> set ns \<longrightarrow> get (index bundle' ''accounts'') a = get (index bundle ''accounts'') a)"
  using assms
proof (induction ns arbitrary: "bundle" w)
  case (Cons a ns)
  then obtain b u where b: "capture_account X rpc header number a bundle w = (Inr b, u)"
    "capture_accounts X rpc header number ns b u = (Inr bundle', w')"
    by (auto simp: io_simps)
  obtain entry where e: "captured X header a (Some entry)"
    "b = jset bundle ''accounts'' (jset (index bundle ''accounts'') a entry)"
    using capture_account_Inr [OF b(1)] by blast
  have i: "get (index b ''accounts'') x = (if x = a then Some entry else get (index bundle ''accounts'') x)" for x
    by (simp add: e(2) index_def get_jset)
  have "get b f = get bundle f" if "f \<noteq> ''accounts''" for f using that by (simp add: e(2) get_jset)
  with Cons.IH [OF b(2)] e(1) i show ?case by (cases "a \<in> set ns") auto
qed simp

text \<open>
  C15: a successful capture has asked for at least one account; its header carries the requested
  number, matches the pinned hash when one was given, and passes header verification against the
  summary in the bundle; and for every requested account the bundle holds a proof that verifies
  under the header's state root and bytecode that hashes to the proven code hash, whatever the
  provider answered.
\<close>

theorem capture_sound:
  assumes "capture X rpc accounts block expected w = (Inr bundle, w')"
  shows "\<exists>header names number rlp digest. account_set X accounts = Inr names \<and> names \<noteq> [] \<and>
    header_number X header = Inr number \<and> (block = None \<or> (\<exists>b. block = Some b \<and> unat b = number)) \<and>
    pin_header X header expected = Inr () \<and>
    get bundle ''header_rlp'' = Some (JStr rlp) \<and> encode_rpc_header X header = Inr rlp \<and>
    verify_header X rlp (index bundle ''header'') expected = Inr digest \<and>
    list_all (\<lambda>a. captured X header a (get (index bundle ''accounts'') a)) names"
proof -
  obtain names header number b0 chain rlp digest w1 w2 w3 w4 where
    s: "account_set X accounts = Inr names" "names \<noteq> []"
      "finalized_header X rpc block w = (Inr header, w1)" "header_number X header = Inr number"
      "pin_header X header expected = Inr ()" "capture_bundle X header number chain expected = Inr b0"
      "string_field b0 ''header_rlp'' = Inr rlp" "verify_header X rlp (index b0 ''header'') expected = Inr digest"
      "capture_accounts X rpc header number names b0 w2 = (Inr bundle, w3)"
    using assms unfolding capture_def bind_Inr_iff by (auto simp: res_simps split: if_splits)
  have num: "block = None \<or> (\<exists>b. block = Some b \<and> unat b = number)"
    using s(3,4) unfolding finalized_header_def bind_Inr_iff by (auto split: if_splits option.splits)
  have same: "get bundle f = get b0 f" if "f \<noteq> ''accounts''" for f
    using capture_accounts_Inr [OF s(9)] that by blast
  have "encode_rpc_header X header = Inr rlp"
    using s(6,7) unfolding capture_bundle_def string_field_Inr
    by (auto simp: res_simps get_jobj)
  moreover have "get bundle ''header_rlp'' = Some (JStr rlp)"
    using same [of "''header_rlp''"] s(7) by (simp add: string_field_Inr)
  moreover have "index bundle ''header'' = index b0 ''header''"
    using same [of "''header''"] by (simp add: index_def)
  moreover have "list_all (\<lambda>a. captured X header a (get (index bundle ''accounts'') a)) names"
    using capture_accounts_Inr [OF s(9)] by (simp add: list_all_iff)
  ultimately show ?thesis using s(1,2,4,5,8) num
    by (intro exI [of _ header] exI [of _ names] exI [of _ number] exI [of _ rlp] exI [of _ digest]) simp
qed

section \<open>Examples\<close>

definition ex_raw :: "bytes list" where
  "ex_raw = [replicate 32 1, replicate 32 2, replicate 20 3, replicate 32 6, replicate 32 5, replicate 32 7,
     replicate 256 0, be_bytes 2, be_bytes 1, be_bytes 2, be_bytes 1, be_bytes 2, [], replicate 32 8, replicate 8 9]"

definition ex_encoded :: bytes where
  "ex_encoded = rlp_list ex_evm (map ref_rlp_bytes ex_raw)"

definition hex_of :: "bytes \<Rightarrow> string" where
  "hex_of b = ''0x'' @ ref_encode b"

definition ex_header :: json where
  "ex_header = JObj
     [(''difficulty'', JStr ''0x2''), (''extraData'', JStr (hex_of [])), (''gasLimit'', JStr ''0x2''),
      (''gasUsed'', JStr ''0x1''), (''hash'', JStr (hex_of (ref_hash ex_encoded))),
      (''logsBloom'', JStr (hex_of (replicate 256 0))), (''miner'', JStr (hex_of (replicate 20 3))),
      (''mixHash'', JStr (hex_of (replicate 32 8))), (''nonce'', JStr (hex_of (replicate 8 9))),
      (''number'', JStr ''0x1''), (''parentHash'', JStr (hex_of (replicate 32 1))),
      (''receiptsRoot'', JStr (hex_of (replicate 32 7))), (''sha3Uncles'', JStr (hex_of (replicate 32 2))),
      (''stateRoot'', JStr (hex_of (replicate 32 6))), (''timestamp'', JStr ''0x2''),
      (''transactionsRoot'', JStr (hex_of (replicate 32 5)))]"

lemma ex_unhex_of: "unhex ex_evm (hex_of b) = Inr b"
  using unhex_enc [OF ex_evm_hex, of b] by (simp add: hex_of_def ex_evm_simps)

lemma ex_fixed_of: "length b = n \<Longrightarrow> fixed ex_evm n (hex_of b) = Inr b"
  by (simp add: fixed_def ex_unhex_of)

lemma ex_quantities:
  "quantity ex_evm ''0x1'' 64 = Inr 1" "quantity ex_evm ''0x2'' 64 = Inr 2" "quantity ex_evm ''0x2'' 256 = Inr 2"
proof -
  have "hex_val ''2'' = 2" by code_simp
  then show "quantity ex_evm ''0x2'' 64 = Inr 2"
    by (simp add: quantity_def strip_prefix_def is_hexdigit_def is_lower_hex_def is_digit_def
        less_eq_char_def ex_evm_simps ref_u256_def)
qed (rule ex_quantity)+

lemma ex_last_field: "last_field ex_header = 14"
  by (simp add: last_field_def FIELDS_def ex_header_def index_def is_null_def)

lemma ex_encode: "encode_rpc_header ex_evm ex_header = Inr (hex_of ex_encoded)"
proof -
  have specs: "take (Suc (last_field ex_header)) (enumerate 0 FIELDS) =
    [(0, ''parentHash'', Some 32, None), (1, ''sha3Uncles'', Some 32, None), (2, ''miner'', Some 20, None),
     (3, ''stateRoot'', Some 32, None), (4, ''transactionsRoot'', Some 32, None), (5, ''receiptsRoot'', Some 32, None),
     (6, ''logsBloom'', Some 256, None), (7, ''difficulty'', None, Some 256), (8, ''number'', None, Some 64),
     (9, ''gasLimit'', None, Some 64), (10, ''gasUsed'', None, Some 64), (11, ''timestamp'', None, Some 64),
     (12, ''extraData'', None, None), (13, ''mixHash'', Some 32, None), (14, ''nonce'', Some 8, None)]"
    by (simp add: ex_last_field FIELDS_def)
  have "map_res (encode_field ex_evm ex_header) (take (Suc (last_field ex_header)) (enumerate 0 FIELDS)) =
      Inr (map ref_rlp_bytes ex_raw)"
    unfolding specs
    by (simp add: encode_field_def ex_header_def index_def is_null_def string_field_def
        ex_unhex_of ex_quantities ex_evm_simps ex_raw_def)
  moreover have "string_field ex_header ''hash'' = Inr (hex_of (ref_hash ex_encoded))"
    by (simp add: string_field_def ex_header_def)
  ultimately show ?thesis
    by (simp add: encode_rpc_header_def ex_fixed_of ex_evm_simps ex_encoded_def [symmetric] hex_of_def [symmetric]
        del: append_Cons append_Nil)
qed

lemma length_ref_rlp: "length b < 256 \<or> length b = 256 \<Longrightarrow> length (ref_rlp_bytes b) \<le> length b + 9"
  by (rule ref_rlp.enc_length) auto

lemma ex_encoded_length: "length ex_encoded \<le> 104448"
proof -
  have "length (concat (map ref_rlp_bytes bs)) \<le> 265 * length bs" if "\<forall>b \<in> set bs. length b \<le> 256" for bs
    using that
  proof (induction bs)
    case (Cons b bs)
    then have "length (ref_rlp_bytes b) \<le> length b + 9" by (intro length_ref_rlp) auto
    with Cons show ?case by fastforce
  qed simp
  moreover have "length (be_bytes 1) \<le> 1" "length (be_bytes 2) \<le> 1"
    by (simp_all add: length_be_bytes_le)
  then have "\<forall>b \<in> set ex_raw. length b \<le> 256" by (simp add: ex_raw_def)
  moreover have "length ex_raw = 15" by (simp add: ex_raw_def)
  ultimately have n: "length (concat (map ref_rlp_bytes ex_raw)) \<le> 3975" by fastforce
  then have "length (concat (map ref_rlp_bytes ex_raw)) < usize_max" by simp
  then have "length (be_bytes (length (concat (map ref_rlp_bytes ex_raw)))) \<le> 8" by (rule length_be_bytes_usize)
  with n show ?thesis
    by (simp add: ex_encoded_def rlp_list_def ex_evm_simps ref_rlp_header_def length_concat o_def)
qed

definition ex_provider :: "unit provider" where
  "ex_provider method ps = (if method = ''eth_getBlockByNumber'' then ret ex_header
     else if method = ''eth_chainId'' then ret (JStr ''0x2'')
     else if method = ''eth_getProof'' then ret ex_proof else ret (JStr (hex_of [])))"

lemma ex_header_strings:
  "string_field ex_header ''hash'' = Inr (hex_of (ref_hash ex_encoded))"
  "string_field ex_header ''number'' = Inr ''0x1''" "string_field ex_header ''timestamp'' = Inr ''0x2''"
  "string_field ex_header ''parentHash'' = Inr (hex_of (replicate 32 1))"
  "string_field ex_header ''stateRoot'' = Inr (hex32 6)"
  by (simp_all add: string_field_def ex_header_def hex32_def hex_of_def)

lemma ex_header_number: "header_number ex_evm ex_header = Inr 1"
  by (simp add: header_number_def ex_header_strings ex_quantities)

lemma ex_capture_account:
  "\<exists>b. capture_account ex_evm ex_provider ex_header 1 ex_address b0 () = (Inr b, ())"
proof -
  have "ref_hash [] = replicate 32 0" by (simp add: ref_hash_def)
  then show ?thesis
    by (simp add: capture_account_def ex_provider_def ex_header_strings ex_verify_account ex_unhex_of
        ex_evm_simps ex_proven_def)
qed

lemma ex_capture:
  "\<exists>b. capture ex_evm ex_provider [ex_address] (Some 1) (Some (hex_of (ref_hash ex_encoded))) () = (Inr b, ())"
proof -
  let ?pin = "Some (hex_of (ref_hash ex_encoded))"
  have fin: "finalized_header ex_evm ex_provider (Some 1) = ret ex_header"
    by (simp add: finalized_header_def ex_provider_def ex_header_number ex_encode)
  have names: "account_set ex_evm [ex_address] = Inr [ex_address]"
    by (simp add: account_set_def ex_address_eq)
  have pin: "pin_header ex_evm ex_header ?pin = Inr ()"
    by (simp add: pin_header_def ex_header_strings ex_fixed_of)
  obtain summary where sum: "header_summary ex_evm ex_header 1 = Inr summary"
    by (simp add: header_summary_def ex_header_strings ex_quantities)
  have "length (hex_of ex_encoded) \<le> 2 + 2 * 104448"
    using ex_encoded_length by (simp add: hex_of_def ref_codec.length_enc)
  from header_verifies [OF ex_evm_hex ex_evm_rlp ex_encode this ex_header_number sum pin]
  obtain digest where ver: "verify_header ex_evm (hex_of ex_encoded) summary ?pin = Inr digest" by blast
  define b0 where "b0 = jobj [(''format_version'', JNum ''1''), (''chain_id'', JNum (u256_to_string ex_evm 2)),
    (''header'', summary), (''header_trust'', JStr ''operator-pinned-hash''), (''accounts'', JObj []),
    (''header_rlp'', JStr (hex_of ex_encoded))]"
  have b0: "capture_bundle ex_evm ex_header 1 2 ?pin = Inr b0"
    by (simp add: capture_bundle_def sum [simplified] ex_encode b0_def)
  have g: "string_field b0 ''header_rlp'' = Inr (hex_of ex_encoded)" "index b0 ''header'' = summary"
    by (simp_all add: b0_def string_field_def get_jobj index_jobj)
  obtain b where b: "capture_account ex_evm ex_provider ex_header 1 ex_address b0 () = (Inr b, ())"
    using ex_capture_account by blast
  have p: "ex_provider ''eth_chainId'' ps = ret (JStr ''0x2'')" "ex_provider ''eth_getBlockByNumber'' ps = ret ex_header" for ps
    by (simp_all add: ex_provider_def)
  have nil: "capture_accounts ex_evm ex_provider ex_header n [] = ret" for n by (rule ext) simp
  have "capture ex_evm ex_provider [ex_address] (Some 1) ?pin () =
      bind (capture_account ex_evm ex_provider ex_header 1 ex_address b0) ret ()"
    by (simp add: capture_def names fin ex_header_number pin p ex_quantities b0 [simplified] g ver ex_header_strings nil)
  with b show ?thesis by simp
qed

theorem capture_sound_witness:
  "\<exists>bundle header. capture ex_evm ex_provider [ex_address] (Some 1) (Some (hex_of (ref_hash ex_encoded))) () = (Inr bundle, ()) \<and>
     captured ex_evm header ex_address (get (index bundle ''accounts'') ex_address)"
proof -
  obtain b where b: "capture ex_evm ex_provider [ex_address] (Some 1) (Some (hex_of (ref_hash ex_encoded))) () = (Inr b, ())"
    using ex_capture by blast
  have "account_set ex_evm [ex_address] = Inr [ex_address]" by (simp add: account_set_def ex_address_eq)
  with capture_sound [OF b] b show ?thesis by auto
qed

end
