(* ===== verification/Read_Check.thy ===== *)
theory Read_Check
  imports Ingest Postgres Rpc
begin

text \<open>
  The checked reading of a pinned account, \<open>crates/evm-state/src/read_qualification.rs\<close>: every page of
  every pass is compared with the proof of the account, whatever the reader returns.  Elapsed times
  and their distribution, which only go into the report, are left out.
\<close>

section \<open>The read interface\<close>

record 'w ReadApi =
  ra_database :: string
  ra_control_path :: "('w, string) io"
  ra_pin :: "string \<Rightarrow> ('w, json) io"
  ra_manifest :: "string \<Rightarrow> ('w, json) io"
  ra_account :: "string \<Rightarrow> string \<Rightarrow> ('w, json) io"
  ra_page :: "string \<Rightarrow> string \<Rightarrow> string option \<Rightarrow> nat \<Rightarrow> ('w, json) io"
  ra_unpin :: "string \<Rightarrow> ('w, unit) io"
  ra_guard :: "string list \<Rightarrow> string \<Rightarrow> ('w, unit) io"

definition clickhouse_api :: "('w, 'x) nodelib_scheme \<Rightarrow> capcfg \<Rightarrow> ClickHouse \<Rightarrow> 'w node ReadApi" where
  "clickhouse_api L C client =
     \<lparr>ra_database = ch_database client,
      ra_control_path = bind (control_open L client) (\<lambda>owner. ret (co_path owner)),
      ra_pin = (\<lambda>s. pin L client s ''qualification-read-latency''),
      ra_manifest = manifest L client,
      ra_account = read_account L client,
      ra_page = page L client,
      ra_unpin = (\<lambda>p. bind (unpin L client p) (\<lambda>_. ret ())),
      ra_guard = capacity_ok L C client\<rparr>"

section \<open>One page\<close>

record read_state =
  rs_sorter :: StorageSort
  rs_digest :: bytes
  rs_count :: u64
  rs_previous :: "bytes option"

definition read_start :: "string option list \<Rightarrow> read_state" where
  "read_start faults = \<lparr>rs_sorter = sort_new faults, rs_digest = [], rs_count = 0, rs_previous = None\<rparr>"

definition read_row :: "'x evmlib_scheme \<Rightarrow> u64 \<Rightarrow> json \<Rightarrow> read_state \<Rightarrow> read_state res" where
  "read_row X declared row st =
     bnd (string_field row ''slot'') (\<lambda>slot.
     bnd (fixed X 32 slot) (\<lambda>key.
     bnd (string_field row ''value'') (\<lambda>v.
     bnd (fixed X 32 v) (\<lambda>word'.
     ensure (case rs_previous st of None \<Rightarrow> True | Some p \<Rightarrow> p < key) ''reader returned duplicate or unordered slots''
     (bnd (context_res (checked_add (rs_count st) 1) ''reader count overflow'') (\<lambda>n.
      ensure (n \<le> declared) ''reader returned more slots than the account declares''
      (case sort_insert X slot v (rs_sorter st) of
         (Inl e, _) \<Rightarrow> Inl e
       | (Inr _, sorter) \<Rightarrow> Inr \<lparr>rs_sorter = sorter, rs_digest = rs_digest st @ key @ word', rs_count = n, rs_previous = Some key\<rparr>)))))))"

text \<open>What a response has to repeat: the pin, the checkpoint, its header and the account.\<close>

record read_identity =
  ri_pin :: string
  ri_snapshot :: string
  ri_header :: json
  ri_account :: json
  ri_declared :: u64
  ri_page_size :: nat

definition page_call :: "('w, 'x) nodelib_scheme \<Rightarrow> nat \<Rightarrow> nat \<Rightarrow> json list \<Rightarrow> json \<Rightarrow> json" where
  "page_call L iteration number rs response =
     jobj [(''pass'', JNum (show_nat iteration)), (''page'', JNum (show_nat number)), (''rows'', JNum (show_nat (length rs))),
       (''json_bytes'', JNum (show_nat (length (spaced_json (json_text L) response))))]"

definition next_cursor :: "json list \<Rightarrow> json \<Rightarrow> string option res" where
  "next_cursor rs response =
     bnd (context_res (get response ''next_cursor'') ''reader omitted continuation cursor'') (\<lambda>v. case v of
       JNull \<Rightarrow> Inr None
     | JStr next' \<Rightarrow> ensure (rs \<noteq> [] \<and> next' \<noteq> []) ''reader returned an empty nonterminal page'' (Inr (Some next'))
     | _ \<Rightarrow> Inl ''invalid continuation cursor'')"

definition page_step :: "('w, 'x) nodelib_scheme \<Rightarrow> read_identity \<Rightarrow> json \<Rightarrow> read_state \<Rightarrow> (read_state \<times> json list \<times> string option) res" where
  "page_step L I response st =
     ensure (jstr_eq (index response ''pin_id'') (ri_pin I) \<and> jstr_eq (index response ''snapshot_id'') (ri_snapshot I) \<and>
         index response ''header'' = ri_header I \<and> index response ''account'' = ri_account I)
       ''reader changed checkpoint identity or account metadata''
     (bnd (context_res (as_array (index response ''storage'')) ''invalid storage page'') (\<lambda>rs.
      ensure (length rs \<le> ri_page_size I) ''reader exceeded requested page size''
      (bnd (fold_res (read_row (nl_evm L) (ri_declared I)) rs st) (\<lambda>st.
       bnd (next_cursor rs response) (\<lambda>next'.
       Inr (st, rs, next'))))))"

section \<open>One pass\<close>

text \<open>
  A nonterminal page has rows, every row is counted and the count never exceeds what the account
  declares: the loop ends whatever the reader returns.
\<close>

lemma read_row_Inr:
  assumes "read_row X declared row st = Inr st'"
  obtains slot key v word' sorter where "string_field row ''slot'' = Inr slot" "fixed X 32 slot = Inr key" "string_field row ''value'' = Inr v" "fixed X 32 v = Inr word'"
    "case rs_previous st of None \<Rightarrow> True | Some p \<Rightarrow> p < key" "sort_insert X slot v (rs_sorter st) = (Inr (), sorter)"
    "rs_sorter st' = sorter" "rs_digest st' = rs_digest st @ key @ word'" "rs_previous st' = Some key"
    "unat (rs_count st') = Suc (unat (rs_count st))" "rs_count st' \<le> declared"
proof -
  obtain slot key v word' n where d: "string_field row ''slot'' = Inr slot" "fixed X 32 slot = Inr key" "string_field row ''value'' = Inr v" "fixed X 32 v = Inr word'"
      "case rs_previous st of None \<Rightarrow> True | Some p \<Rightarrow> p < key" "checked_add (rs_count st) 1 = Some n" "n \<le> declared"
      "(case sort_insert X slot v (rs_sorter st) of (Inl e, _) \<Rightarrow> Inl e
         | (Inr _, sorter) \<Rightarrow> Inr \<lparr>rs_sorter = sorter, rs_digest = rs_digest st @ key @ word', rs_count = n, rs_previous = Some key\<rparr>) = Inr st'"
    using assms unfolding read_row_def bnd_Inr_iff ensure_Inr_iff context_res_Inr_iff by blast
  obtain r sorter where si: "sort_insert X slot v (rs_sorter st) = (r, sorter)" by fastforce
  with d(8) have "r = Inr ()" "st' = \<lparr>rs_sorter = sorter, rs_digest = rs_digest st @ key @ word', rs_count = n, rs_previous = Some key\<rparr>"
    by (cases r; simp)+
  with si d(1-7) show thesis by (intro that) (simp_all add: checked_add_Some_iff)
qed

lemma read_rows_count:
  "fold_res (read_row X declared) rs st = Inr st' \<Longrightarrow> unat (rs_count st') = unat (rs_count st) + length rs \<and> (rs \<noteq> [] \<longrightarrow> rs_count st' \<le> declared)"
proof (induction rs arbitrary: st)
  case (Cons r rs)
  then obtain m where m: "read_row X declared r st = Inr m" "fold_res (read_row X declared) rs m = Inr st'" by (auto simp: bnd_Inr_iff)
  from m(1) have "unat (rs_count m) = Suc (unat (rs_count st))" "rs_count m \<le> declared" by (auto elim: read_row_Inr)
  with Cons(1) [OF m(2)] m(2) show ?case by (cases rs) auto
qed simp

lemma next_cursor_rows: "next_cursor rs response = Inr (Some c) \<Longrightarrow> rs \<noteq> []"
  by (auto simp: next_cursor_def bnd_Inr_iff ensure_Inr_iff split: json.splits) (metis json.exhaust)

lemma page_step_count:
  assumes "page_step L I response st = Inr (st', rs, Some next')"
  shows "unat (ri_declared I) - unat (rs_count st') < unat (ri_declared I) - unat (rs_count st)"
proof -
  have r: "fold_res (read_row (nl_evm L) (ri_declared I)) rs st = Inr st'" "rs \<noteq> []"
    using assms next_cursor_rows unfolding page_step_def bnd_Inr_iff ensure_Inr_iff by blast+
  have "0 < length rs" "unat (rs_count st') = unat (rs_count st) + length rs" "unat (rs_count st') \<le> unat (ri_declared I)"
    using read_rows_count [OF r(1)] r(2) by (simp_all add: word_le_nat_alt)
  then show ?thesis by linarith
qed

function read_pass :: "('w, 'x) nodelib_scheme \<Rightarrow> 'w node ReadApi \<Rightarrow> read_identity \<Rightarrow> string \<Rightarrow> nat \<Rightarrow> nat \<Rightarrow> string option \<Rightarrow> read_state \<Rightarrow> json list \<Rightarrow>
    ('w node, read_state \<times> json list) io" where
  "read_pass L A I selected iteration number cursor st calls n =
     (case ra_page A (ri_pin I) selected cursor (ri_page_size I) n of
        (Inl e, n') \<Rightarrow> (Inl e, n')
      | (Inr response, n') \<Rightarrow> (case page_step L I response st of
          Inl e \<Rightarrow> (Inl e, n')
        | Inr (st', rs, next') \<Rightarrow>
            let calls = calls @ [page_call L iteration number rs response] in
            (case next' of
               None \<Rightarrow> (Inr (st', calls), n')
             | Some c \<Rightarrow> read_pass L A I selected iteration (Suc number) (Some c) st' calls n')))"
  by pat_completeness auto

termination read_pass
  by (relation "measure (\<lambda>(L, A, I, selected, iteration, number, cursor, st, calls, n). unat (ri_declared I) - unat (rs_count st))")
    (auto dest: page_step_count)

declare read_pass.simps [simp del]

section \<open>The evidence of the account\<close>

text \<open>The comparison stops at the first difference, before later fields are read.\<close>

definition same_account :: "'x evmlib_scheme \<Rightarrow> string \<Rightarrow> string \<Rightarrow> json \<Rightarrow> json \<Rightarrow> Account \<Rightarrow> json \<Rightarrow> bool res" where
  "same_account X snapshot selected header account proven evidence =
     (if jstr_eq (index account ''address'') selected \<and> jstr_eq (index account ''snapshot_id'') snapshot \<and>
         index account ''header'' = header \<and> index account ''exists'' = JBool (ac_exists proven)
      then bnd (string_field account ''storage_root'') (\<lambda>t. bnd (fixed X 32 t) (\<lambda>root.
        Inr (root = ac_storage_root proven \<and> index account ''code'' = index evidence ''code'')))
      else Inr False)"

definition check_metadata :: "'x evmlib_scheme \<Rightarrow> Account \<Rightarrow> json \<Rightarrow> unit res" where
  "check_metadata X proven account =
     bnd (uint (index account ''nonce'')) (\<lambda>nonce.
     bnd (string_field account ''code'') (\<lambda>code.
     verify_metadata X proven code (jset account ''nonce'' (jnum nonce))))"

definition expected_account :: "json \<Rightarrow> json res" where
  "expected_account account = bnd (uint (index account ''nonce'')) (\<lambda>nonce. Inr (jset account ''nonce'' (JStr (show_u64 nonce))))"

definition read_evidence :: "('w, 'x) nodelib_scheme \<Rightarrow> 'w node ReadApi \<Rightarrow> string \<Rightarrow> string \<Rightarrow> json \<Rightarrow> ('w node, json \<times> Account \<times> json) io" where
  "read_evidence L A snapshot selected pinned =
     bind (check (jstr_eq (index pinned ''snapshot_id'') snapshot) ''pin changed checkpoint identity'') (\<lambda>_.
     bind (ra_manifest A snapshot) (\<lambda>published.
     let bundle' = index published ''proof_bundle''; header = index pinned ''header'' in
     bind (check (index published ''header'' = header \<and> index bundle' ''header'' = header) ''proof bundle changed checkpoint identity'') (\<lambda>_.
     bind (lift (bnd (string_field bundle' ''header_rlp'') (\<lambda>rlp. verify_header (nl_evm L) rlp header None))) (\<lambda>_.
     let evidence = index (index bundle' ''accounts'') selected in
     bind (lift (bnd (string_field header ''state_root'') (\<lambda>root. verify_account (nl_evm L) root selected (index evidence ''proof'')))) (\<lambda>proven.
     bind (ra_account A snapshot selected) (\<lambda>account.
     bind (lift (same_account (nl_evm L) snapshot selected header account proven evidence)) (\<lambda>same.
     bind (check same ''reader metadata differs from the captured account proof'') (\<lambda>_.
     bind (lift (check_metadata (nl_evm L) proven account)) (\<lambda>_.
     ret (bundle', proven, account))))))))))"

section \<open>The measurement\<close>

text \<open>
  The passes so far: the digest every pass has to repeat, the page calls and the passes.  A pass
  has its own temporary directory and disk sort.
\<close>

record read_passes =
  rp_identity :: "string option"
  rp_calls :: "json list"
  rp_passes :: "json list"

definition pass_entry :: "nat \<Rightarrow> u64 \<Rightarrow> json" where
  "pass_entry iteration n = jobj [(''pass'', JNum (show_nat iteration)), (''nonzero_slots'', jnum n)]"

definition finish_pass :: "('w, 'x) nodelib_scheme \<Rightarrow> Account \<Rightarrow> u64 \<Rightarrow> read_state \<Rightarrow> read_passes \<Rightarrow> string res" where
  "finish_pass L proven declared st P =
     bnd (sort_finish (nl_evm L) (rs_sorter st)) (\<lambda>(root, verified).
     ensure (root = ac_storage_root proven) ''complete storage root mismatch in returned pages''
     (ensure (rs_count st = verified \<and> rs_count st = declared) ''reader returned an incomplete account''
     (let digest = hex_encode (nl_evm L) (sha256 L (bytes_text (rs_digest st))) in
      ensure (case rp_identity P of None \<Rightarrow> True | Some prior \<Rightarrow> prior = digest) ''pinned account content changed between passes''
      (Inr digest))))"

definition one_pass :: "('w, 'x) nodelib_scheme \<Rightarrow> 'w node ReadApi \<Rightarrow> (nat \<Rightarrow> string option list) \<Rightarrow> read_identity \<Rightarrow> string \<Rightarrow> Account \<Rightarrow> string list \<Rightarrow>
    nat \<Rightarrow> read_passes \<Rightarrow> ('w node, read_passes) io" where
  "one_pass L A sqlite I selected proven paths iteration P =
     bind (on_fs fs_try) (\<lambda>_.
     bind (read_pass L A I selected iteration 0 None (read_start (sqlite iteration)) (rp_calls P)) (\<lambda>(st, calls).
     bind (lift (finish_pass L proven (ri_declared I) st P)) (\<lambda>digest.
     bind (ra_guard A paths ''read-measurement-root'') (\<lambda>_.
     ret \<lparr>rp_identity = Some digest, rp_calls = calls, rp_passes = rp_passes P @ [pass_entry iteration (rs_count st)]\<rparr>))))"

definition read_report :: "('w, 'x) nodelib_scheme \<Rightarrow> 'w node ReadApi \<Rightarrow> string \<Rightarrow> string \<Rightarrow> json \<Rightarrow> json \<Rightarrow> Account \<Rightarrow> string \<Rightarrow> u64 \<Rightarrow> u64 \<Rightarrow> nat \<Rightarrow> read_passes \<Rightarrow> json" where
  "read_report L A snapshot selected pinned bundle' proven binary started finished page_size P =
     jobj [(''format_version'', JNum ''2''), (''database'', JStr (ra_database A)), (''snapshot_id'', JStr snapshot), (''runtime'', JStr ''Rust''),
       (''binary_sha256'', JStr binary), (''proof_bundle_sha256'', JStr (hex_encode (nl_evm L) (sha256 L (node_canonical L bundle')))),
       (''account'', JStr selected), (''header'', index pinned ''header''), (''started_at_unix_ns'', jnum started), (''finished_at_unix_ns'', jnum finished),
       (''page_size'', JNum (show_nat page_size)), (''passes'', JArr (rp_passes P)),
       (''verified_storage_root'', JStr (''0x'' @ hex_encode (nl_evm L) (ac_storage_root proven))), (''root_matches_captured_account_proof'', JBool True),
       (''ordered_storage_sha256'', (case rp_identity P of Some d \<Rightarrow> JStr d | None \<Rightarrow> JNull)), (''calls'', JArr (rp_calls P))]"

definition measured :: "('w, 'x) nodelib_scheme \<Rightarrow> 'w node ReadApi \<Rightarrow> (nat \<Rightarrow> string option list) \<Rightarrow> string \<Rightarrow> string \<Rightarrow> json \<Rightarrow> string \<Rightarrow> string list \<Rightarrow> nat \<Rightarrow> nat \<Rightarrow>
    string \<Rightarrow> u64 \<Rightarrow> ('w node, json) io" where
  "measured L A sqlite snapshot selected pinned pin_id paths passes_count page_size binary started =
     bind (read_evidence L A snapshot selected pinned) (\<lambda>(bundle', proven, account).
     bind (lift (uint (index account ''nonzero_slots''))) (\<lambda>declared.
     bind (lift (expected_account account)) (\<lambda>expected.
     let I = \<lparr>ri_pin = pin_id, ri_snapshot = snapshot, ri_header = index pinned ''header'', ri_account = expected, ri_declared = declared, ri_page_size = page_size\<rparr> in
     bind (fold_io (one_pass L A sqlite I selected proven paths) [0..<passes_count] \<lparr>rp_identity = None, rp_calls = [], rp_passes = []\<rparr>) (\<lambda>P.
     bind (now_ns L) (\<lambda>finished.
     ret (read_report L A snapshot selected pinned bundle' proven binary started finished page_size P))))))"

text \<open>The pin is released however the measurement ends; its error comes first.\<close>

definition releasing :: "'w ReadApi \<Rightarrow> string \<Rightarrow> ('w, 'a) io \<Rightarrow> ('w, 'a) io" where
  "releasing A pin_id m n =
     (case m n of (result, n') \<Rightarrow> (case ra_unpin A pin_id n' of (released, n'') \<Rightarrow>
        bind (lift result) (\<lambda>result. bind (lift released) (\<lambda>_. ret result)) n''))"

lemma releasing_Inr_iff:
  "releasing A pin_id m n = (Inr r, n'') \<longleftrightarrow> (\<exists>n'. m n = (Inr r, n') \<and> ra_unpin A pin_id n' = (Inr (), n''))"
  by (cases "m n"; cases "fst (m n)"; cases "ra_unpin A pin_id (snd (m n))") (auto simp: releasing_def bind_def lift_def ret_def split: sum.splits)

text \<open>The directory of a resolved path; the root has none.\<close>

definition path_parent :: "string \<Rightarrow> string option" where
  "path_parent s = (if s = ''/'' then None
     else let d = rev (tl (dropWhile (\<lambda>c. c \<noteq> CHR ''/'') (rev s))) in Some (if d = [] then ''/'' else d))"

definition read_measure :: "('w, 'x) nodelib_scheme \<Rightarrow> 'w node ReadApi \<Rightarrow> (nat \<Rightarrow> string option list) \<Rightarrow> string res \<Rightarrow> string \<Rightarrow> string \<Rightarrow> string \<Rightarrow> string \<Rightarrow>
    nat \<Rightarrow> nat \<Rightarrow> ('w node, json) io" where
  "read_measure L A sqlite current_exe snapshot selected output work passes_count page_size =
     bind (lift (resolve_path L output)) (\<lambda>output.
     bind (lift (resolve_path L work)) (\<lambda>work.
     bind (lift (address (nl_evm L) selected)) (\<lambda>selected.
     bind (on_fs (fs_exists output)) (\<lambda>there.
     bind (check (\<not> there \<and> 1 \<le> passes_count \<and> passes_count \<le> 10 \<and> 1 \<le> page_size \<and> page_size \<le> 10000)
       ''use a new output file, 1..10 passes and page size 1..10000'') (\<lambda>_.
     bind (lift (context_res (path_parent output) ''output has no parent'')) (\<lambda>directory.
     bind (ra_control_path A) (\<lambda>control.
     let paths = [directory, work, control] in
     bind (ra_guard A paths ''read-measurement-start'') (\<lambda>_.
     bind (on_fs fs_try) (\<lambda>_.
     bind (lift current_exe) (\<lambda>exe.
     bind (on_fs (file_hash L exe)) (\<lambda>binary.
     bind (now_ns L) (\<lambda>started.
     bind (ra_pin A snapshot) (\<lambda>pinned.
     bind (lift (string_field pinned ''pin_id'')) (\<lambda>pin_id.
     bind (releasing A pin_id (measured L A sqlite snapshot selected pinned pin_id paths passes_count page_size binary started)) (\<lambda>result.
     bind (ra_guard A paths ''read-measurement-finished'') (\<lambda>_.
     bind (on_fs (atomic_json (json_pretty L) (fs_temp L directory) (Some directory) output result False)) (\<lambda>_.
     ret result)))))))))))))))))"

section \<open>What a pass has read\<close>

definition word_bytes :: "nat \<Rightarrow> bytes" where
  "word_bytes n = replicate (32 - length (be_bytes n)) 0 @ be_bytes n"

lemma word_bytes_val: "length w = 32 \<Longrightarrow> word_bytes (be_val w) = w"
proof -
  assume l: "length w = 32"
  let ?z = "takeWhile (\<lambda>b. b = 0) w" and ?d = "dropWhile (\<lambda>b. b = 0) w"
  have v: "be_val ?d = be_val w" by (induction w) auto
  have "trimmed ?d" unfolding trimmed_def using hd_dropWhile [of "\<lambda>b. b = 0" w] by blast
  then have b: "be_bytes (be_val w) = ?d" using be_bytes_be_val [of ?d] v by simp
  have "?z = replicate (length ?z) 0" by (rule replicate_eqI [symmetric, THEN sym]) (auto dest: set_takeWhileD)
  moreover have "length ?z = 32 - length ?d" using l by (metis add_diff_cancel_right' length_append takeWhile_dropWhile_id)
  ultimately have "replicate (32 - length ?d) 0 = ?z" by simp
  then show ?thesis unfolding word_bytes_def b by simp
qed

text \<open>The bytes that identify complete storage: every slot and its value, in the order of the slots.\<close>

definition storage_bytes :: "(bytes \<times> nat) list \<Rightarrow> bytes" where
  "storage_bytes es = concat (map (\<lambda>(k, v). k @ word_bytes v) es)"

definition has_read :: "'x evmlib_scheme \<Rightarrow> string option list \<Rightarrow> (string \<times> string) list \<Rightarrow> read_state \<Rightarrow> bool" where
  "has_read X faults svs st \<longleftrightarrow> insert_slots X (map Inr svs) (sort_new faults) = (Inr (), rs_sorter st) \<and> unat (rs_count st) = length svs \<and>
     (\<exists>es. map_res (decode_slot X) svs = Inr es \<and> rs_digest st = storage_bytes es \<and> sorted_wrt (<) (map fst es) \<and>
       rs_previous st = (if es = [] then None else Some (fst (List.last es))))"

lemma has_read_start: "has_read X faults [] (read_start faults)"
  by (simp add: has_read_def read_start_def storage_bytes_def)

lemma insert_slots_append:
  "insert_slots X (xs @ ys) s = (case insert_slots X xs s of (Inl e, s') \<Rightarrow> (Inl e, s') | (Inr _, s') \<Rightarrow> insert_slots X ys s')"
  by (induction X xs s rule: insert_slots.induct) (auto split: prod.split sum.split)

lemma map_res_append: "map_res f xs = Inr as \<Longrightarrow> map_res f ys = Inr bs \<Longrightarrow> map_res f (xs @ ys) = Inr (as @ bs)"
  by (induction xs arbitrary: as) (auto simp: bnd_Inr_iff)

lemma sorted_snoc: "sorted_wrt (<) (map fst es) \<Longrightarrow> es = [] \<or> fst (List.last es) < k \<Longrightarrow> sorted_wrt (<) (map fst (es @ [(k, v)]))" for k :: "'a::linorder"
proof -
  assume s: "sorted_wrt (<) (map fst es)" and l: "es = [] \<or> fst (List.last es) < k"
  have "a < k" if "a \<in> set (map fst es)" for a
  proof -
    from that obtain i where i: "i < length es" "fst (es ! i) = a" by (auto simp: in_set_conv_nth)
    then have ne: "List.last es = es ! (length es - 1)" by (intro last_conv_nth) auto
    have "a \<le> fst (List.last es)"
    proof (cases "i = length es - 1")
      case True
      with i ne show ?thesis by simp
    next
      case False
      with i have "i < length es - 1" by simp
      moreover from this have "length es - 1 < length es" by linarith
      ultimately have "a < fst (List.last es)" using i sorted_wrt_nth_less [OF s, of i "length es - 1"] ne by simp
      then show ?thesis by simp
    qed
    with l that show ?thesis by auto
  qed
  with s show ?thesis by (simp add: sorted_wrt_append)
qed

lemma read_row_has_read:
  assumes "read_row X declared row st = Inr st'" "has_read X faults svs st"
  shows "\<exists>sv. has_read X faults (svs @ [sv]) st'"
proof -
  from assms(1) obtain slot key v word' where d: "fixed X 32 slot = Inr key" "fixed X 32 v = Inr word'"
    "case rs_previous st of None \<Rightarrow> True | Some p \<Rightarrow> p < key" "sort_insert X slot v (rs_sorter st) = (Inr (), rs_sorter st')"
    "rs_digest st' = rs_digest st @ key @ word'" "rs_previous st' = Some key" "unat (rs_count st') = Suc (unat (rs_count st))"
    by (auto elim: read_row_Inr)
  from assms(2) obtain es where e: "insert_slots X (map Inr svs) (sort_new faults) = (Inr (), rs_sorter st)" "unat (rs_count st) = length svs"
      "map_res (decode_slot X) svs = Inr es" "rs_digest st = storage_bytes es" "sorted_wrt (<) (map fst es)"
      "rs_previous st = (if es = [] then None else Some (fst (List.last es)))"
    unfolding has_read_def by blast
  have "insert_slots X (map Inr (svs @ [(slot, v)])) (sort_new faults) = (Inr (), rs_sorter st')"
    using e(1) d(4) by (simp add: insert_slots_append)
  moreover have "map_res (decode_slot X) (svs @ [(slot, v)]) = Inr (es @ [(key, be_val word')])"
    by (rule map_res_append [OF e(3)]) (simp add: decode_slot_def d(1,2))
  moreover have "rs_digest st' = storage_bytes (es @ [(key, be_val word')])"
    using d(5) e(4) word_bytes_val [OF fixed_length [OF d(2)]] by (simp add: storage_bytes_def)
  moreover have "sorted_wrt (<) (map fst (es @ [(key, be_val word')]))"
    by (rule sorted_snoc [OF e(5)]) (use d(3) e(6) in \<open>auto split: if_splits\<close>)
  ultimately have "has_read X faults (svs @ [(slot, v)]) st'"
    unfolding has_read_def using d(6,7) e(2) by (intro conjI exI [of _ "es @ [(key, be_val word')]"]) simp_all
  then show ?thesis by blast
qed

lemma read_rows_has_read:
  "fold_res (read_row X declared) rs st = Inr st' \<Longrightarrow> has_read X faults svs st \<Longrightarrow> \<exists>svs'. has_read X faults svs' st'"
proof (induction rs arbitrary: st svs)
  case Nil
  then show ?case by auto
next
  case (Cons r rs)
  then obtain m where m: "read_row X declared r st = Inr m" "fold_res (read_row X declared) rs m = Inr st'" by (auto simp: bnd_Inr_iff)
  from read_row_has_read [OF m(1) Cons(3)] Cons(1) [OF m(2)] show ?case by blast
qed

lemma read_pass_has_read:
  "read_pass L A I selected iteration number cursor st calls n = (Inr (st', calls'), n') \<Longrightarrow> \<exists>svs. has_read (nl_evm L) faults svs st \<Longrightarrow>
     \<exists>svs. has_read (nl_evm L) faults svs st'"
proof (induction L A I selected iteration number cursor st calls n rule: read_pass.induct)
  case (1 L A I selected iteration number cursor st calls n)
  from 1(2) obtain response n1 st1 rs next' where d: "ra_page A (ri_pin I) selected cursor (ri_page_size I) n = (Inr response, n1)"
      "page_step L I response st = Inr (st1, rs, next')"
    by (subst (asm) read_pass.simps) (auto split: prod.splits sum.splits)
  have s: "\<exists>svs. has_read (nl_evm L) faults svs st1"
    using d(2) 1(3) read_rows_has_read unfolding page_step_def bnd_Inr_iff ensure_Inr_iff by blast
  show ?case
  proof (cases next')
    case None
    with d 1(2) s show ?thesis by (subst (asm) read_pass.simps) (simp add: Let_def)
  next
    case (Some c)
    with d 1(2) have "read_pass L A I selected iteration (Suc number) (Some c) st1 (calls @ [page_call L iteration number rs response]) n1 = (Inr (st', calls'), n')"
      by (subst (asm) read_pass.simps) (simp add: Let_def)
    from 1(1) [OF d(1) [symmetric] refl d(2) refl refl refl Some this s] show ?thesis .
  qed
qed

section \<open>A measurement reads the true storage\<close>

definition truth_digest :: "('w, 'x) nodelib_scheme \<Rightarrow> (bytes \<times> nat) list \<Rightarrow> string" where
  "truth_digest L es = hex_encode (nl_evm L) (sha256 L (bytes_text (storage_bytes (sort_key fst es))))"

lemma sorted_entries_unique:
  fixes es t :: "('k::linorder \<times> 'v) list"
  assumes "sorted_wrt (<) (map fst es)" "set es = set t" "distinct (map fst t)"
  shows "es = sort_key fst t"
proof (rule map_sorted_distinct_set_unique [of fst])
  show "inj_on fst (set es \<union> set (sort_key fst t))" using assms(2,3) by (simp add: distinct_map)
  show "sorted (map fst es)" "distinct (map fst es)" using assms(1) by (simp_all add: strict_sorted_iff)
  show "sorted (map fst (sort_key fst t))" by simp
  show "distinct (map fst (sort_key fst t))" using assms(3) by (simp add: distinct_map)
  show "set es = set (sort_key fst t)" using assms(2) by simp
qed

lemma finish_pass_true:
  assumes "rlp_ok (nl_evm L)" "storage_commitment (keccak256 (nl_evm L)) (trie_root (nl_evm L))" "commits (nl_evm L) root truth"
    and "fixed (nl_evm L) 32 state_root = Inr root" "verify_account (nl_evm L) state_root selected p = Inr proven" "verify_metadata (nl_evm L) proven code metadata = Inr ()"
    and "address (nl_evm L) selected = Inr addr" "fixed (nl_evm L) 20 addr = Inr raw"
    and "has_read (nl_evm L) faults svs st" "finish_pass L proven declared st P = Inr digest"
  shows "digest = truth_digest L (truth raw)" "rs_count st = of_nat (length (truth raw))"
proof -
  let ?X = "nl_evm L"
  from assms(9) obtain es where e: "insert_slots ?X (map Inr svs) (sort_new faults) = (Inr (), rs_sorter st)"
      "map_res (decode_slot ?X) svs = Inr es" "rs_digest st = storage_bytes es" "sorted_wrt (<) (map fst es)"
    unfolding has_read_def by blast
  from assms(10) obtain verified where f: "sort_finish ?X (rs_sorter st) = Inr (ac_storage_root proven, verified)" "rs_count st = verified"
      "digest = hex_encode ?X (sha256 L (bytes_text (rs_digest st)))"
    unfolding finish_pass_def by (auto simp: bnd_Inr_iff ensure_Inr_iff Let_def)
  have "verify_complete ?X faults proven (map Inr svs) code metadata = Inr verified"
    using assms(6) e(1) f(1) by (simp add: verify_complete_def storage_root_def)
  from complete_true [OF assms(1-5) this] obtain addr' raw' svs' es' where c: "address ?X selected = Inr addr'" "fixed ?X 20 addr' = Inr raw'"
      "map (Inr :: _ \<Rightarrow> _ res) svs = map Inr svs'" "map_res (decode_slot ?X) svs' = Inr es'" "set es' = set (truth raw')" "verified = of_nat (length (truth raw'))" by blast
  have same: "raw' = raw" "es' = es" using c(1-4) assms(7,8) e(2) by (auto dest!: map_injective simp: inj_def)
  have "distinct (map fst (truth raw))" using assms(3) unfolding commits_def by blast
  then have "es = sort_key fst (truth raw)" using sorted_entries_unique [OF e(4)] c(5) same by simp
  then show "digest = truth_digest L (truth raw)" using f(3) e(3) by (simp add: truth_digest_def)
  show "rs_count st = of_nat (length (truth raw))" using f(2) c(6) same(1) by simp
qed

lemma passes_true:
  assumes "\<And>i P n P' n'. f i P n = (Inr P', n') \<Longrightarrow> rp_identity P' = Some D \<and> rp_passes P' = rp_passes P @ [pass_entry i k]"
    and "fold_io f is P n = (Inr P', n')"
  shows "rp_passes P' = rp_passes P @ map (\<lambda>i. pass_entry i k) is \<and> (is \<noteq> [] \<longrightarrow> rp_identity P' = Some D)"
  using assms(2)
proof (induction "is" arbitrary: P n)
  case (Cons i "is")
  then obtain Q m where q: "f i P n = (Inr Q, m)" "fold_io f is Q m = (Inr P', n')" by (auto simp: bind_Inr_iff)
  from Cons(1) [OF q(2)] assms(1) [OF q(1)] q(2) show ?case by (cases "is") (auto simp: ret_def)
qed (simp add: ret_def)

lemma one_pass_true:
  assumes "rlp_ok (nl_evm L)" "storage_commitment (keccak256 (nl_evm L)) (trie_root (nl_evm L))" "commits (nl_evm L) root truth"
    and "fixed (nl_evm L) 32 state_root = Inr root" "verify_account (nl_evm L) state_root selected p = Inr proven" "verify_metadata (nl_evm L) proven code metadata = Inr ()"
    and "address (nl_evm L) selected = Inr addr" "fixed (nl_evm L) 20 addr = Inr raw"
    and "one_pass L A sqlite I selected proven paths i P n = (Inr P', n')"
  shows "rp_identity P' = Some (truth_digest L (truth raw)) \<and> rp_passes P' = rp_passes P @ [pass_entry i (of_nat (length (truth raw)))]"
proof -
  obtain n1 n2 st calls digest where d: "read_pass L A I selected i 0 None (read_start (sqlite i)) (rp_calls P) n1 = (Inr (st, calls), n2)"
      "finish_pass L proven (ri_declared I) st P = Inr digest" "rp_identity P' = Some digest" "rp_passes P' = rp_passes P @ [pass_entry i (rs_count st)]"
    using assms(9) unfolding one_pass_def by (auto simp: bind_Inr_iff ret_def split: prod.splits)
  from read_pass_has_read [OF d(1), of "sqlite i"] has_read_start obtain svs where "has_read (nl_evm L) (sqlite i) svs st" by blast
  from finish_pass_true [OF assms(1-8) this d(2)] d(3,4) show ?thesis by simp
qed

text \<open>
  C13: A measurement that succeeds has read the true storage of the account, whatever the reader
  returned: if the state root of the reported header commits to the accounts' storage, then the
  reported digest is the digest of the account's true storage in the order of its slots, and every
  pass has counted exactly its slots.
\<close>

theorem read_measure_true:
  assumes "rlp_ok (nl_evm L)" "storage_commitment (keccak256 (nl_evm L)) (trie_root (nl_evm L))" "commits (nl_evm L) root truth"
    and "read_measure L A sqlite current_exe snapshot a output work passes_count page_size n = (Inr report, n')"
    and "string_field (index report ''header'') ''state_root'' = Inr state_root" "fixed (nl_evm L) 32 state_root = Inr root"
  shows "\<exists>selected addr raw. address (nl_evm L) a = Inr selected \<and> address (nl_evm L) selected = Inr addr \<and> fixed (nl_evm L) 20 addr = Inr raw \<and>
    index report ''account'' = JStr selected \<and> index report ''ordered_storage_sha256'' = JStr (truth_digest L (truth raw)) \<and>
    index report ''passes'' = JArr (map (\<lambda>i. pass_entry i (of_nat (length (truth raw)))) [0..<passes_count])"
proof -
  obtain selected pinned pin_id paths binary started m m' where d: "address (nl_evm L) a = Inr selected" "1 \<le> passes_count"
      "measured L A sqlite snapshot selected pinned pin_id paths passes_count page_size binary started m = (Inr report, m')"
    using assms(4) unfolding read_measure_def Let_def
    by (auto simp: bind_Inr_iff releasing_Inr_iff split: if_splits)
  obtain bundle' proven account k I P m1 m2 m3 m4 finished where e: "read_evidence L A snapshot selected pinned m = (Inr (bundle', proven, account), m1)"
      "fold_io (one_pass L A sqlite I selected proven paths) [0..<passes_count] \<lparr>rp_identity = None, rp_calls = [], rp_passes = []\<rparr> m2 = (Inr P, m3)"
      "report = read_report L A snapshot selected pinned bundle' proven binary started finished page_size P"
    using d(3) unfolding measured_def Let_def by (auto simp: bind_Inr_iff ret_def split: prod.splits)
  have h: "index report ''header'' = index pinned ''header''" unfolding e(3) read_report_def by (simp add: index_jobj)
  obtain p code metadata where v: "verify_account (nl_evm L) state_root selected p = Inr proven" "verify_metadata (nl_evm L) proven code metadata = Inr ()"
    using e(1) assms(5) unfolding read_evidence_def check_metadata_def h Let_def by (auto simp: bind_Inr_iff bnd_Inr_iff)
  from proven_root [OF assms(3,6) v(1)] obtain addr raw where r: "address (nl_evm L) selected = Inr addr" "fixed (nl_evm L) 20 addr = Inr raw" by blast
  from passes_true [OF one_pass_true [OF assms(1-3,6) v r] e(2)] d(2)
  have "rp_passes P = map (\<lambda>i. pass_entry i (of_nat (length (truth raw)))) [0..<passes_count]" "rp_identity P = Some (truth_digest L (truth raw))" by auto
  with d(1) r show ?thesis unfolding e(3) read_report_def by (simp add: index_jobj)
qed

section \<open>A concrete measurement\<close>

definition ex_read_lib :: "unit nodelib" where
  "ex_read_lib = ex_nodelib\<lparr>nl_evm := ex_true_evm\<rparr>"

definition ex_summary :: json where
  "ex_summary = jobj [(''number'', jnum 1), (''hash'', JStr (lowercase (hex_of (ref_hash ex_encoded)))), (''parent_hash'', JStr (lowercase (hex_of (replicate 32 1)))),
     (''state_root'', JStr (lowercase (hex32 6))), (''timestamp'', jnum 2)]"

definition ex_evidence :: json where
  "ex_evidence = JObj [(''code'', JStr ''0x''), (''proof'', ex_proof)]"

definition ex_published :: json where
  "ex_published = JObj [(''header'', ex_summary),
     (''proof_bundle'', JObj [(''accounts'', JObj [(ex_address, ex_evidence)]), (''header'', ex_summary), (''header_rlp'', JStr (hex_of ex_encoded))])]"

definition ex_read_account :: "json \<Rightarrow> json" where
  "ex_read_account nonce = JObj [(''address'', JStr ex_address), (''balance'', JStr (show_nat 2)), (''code'', JStr ''0x''), (''code_hash'', JStr (hex32 0)),
     (''exists'', JBool True), (''header'', ex_summary), (''nonce'', nonce), (''nonzero_slots'', jnum 0), (''snapshot_id'', JStr ''s''), (''storage_root'', JStr (hex32 9))]"

definition ex_pinned :: json where
  "ex_pinned = JObj [(''header'', ex_summary), (''pin_id'', JStr ''p''), (''snapshot_id'', JStr ''s'')]"

definition ex_response :: json where
  "ex_response = JObj [(''account'', ex_read_account (JStr (show_u64 1))), (''header'', ex_summary), (''next_cursor'', JNull), (''pin_id'', JStr ''p''),
     (''snapshot_id'', JStr ''s''), (''storage'', JArr [])]"

definition ex_api :: "unit node ReadApi" where
  "ex_api = \<lparr>ra_database = ''d'', ra_control_path = ret ''/c'', ra_pin = (\<lambda>_. ret ex_pinned), ra_manifest = (\<lambda>_. ret ex_published),
     ra_account = (\<lambda>_ _. ret (ex_read_account (jnum 1))), ra_page = (\<lambda>_ _ _ _. ret ex_response), ra_unpin = (\<lambda>_. ret ()), ra_guard = (\<lambda>_ _. ret ())\<rparr>"

definition ex_read_node :: "unit node" where
  "ex_read_node = \<lparr>nd_db = (), nd_fs = \<lparr>fs_files = [''/bin'' \<mapsto> ''x''], fs_plan = []\<rparr>, nd_locks = [], nd_tick = 0\<rparr>"

lemma ex_lowercase: "lowercase (hex32 6) = hex32 6"
  by (simp add: hex32_def) code_simp

lemma ex_summary_verified: "\<exists>digest. verify_header ex_true_evm (hex_of ex_encoded) ex_summary None = Inr digest"
proof -
  have q: "quantity ex_true_evm v b = quantity ex_evm v b" for v b by (simp add: quantity_def ex_true_hex ex_evm_simps)
  have f: "encode_field ex_true_evm ex_header = encode_field ex_evm ex_header" by (intro ext) (simp add: encode_field_def q ex_true_fixed ex_evm_simps split: prod.split option.split)
  have x: "fixed ex_true_evm 32 = fixed ex_evm 32" by (intro ext) (simp add: ex_true_fixed)
  have e: "encode_rpc_header ex_true_evm ex_header = Inr (hex_of ex_encoded)"
    using ex_encode by (simp add: encode_rpc_header_def f x ex_true_hex ex_evm_simps rlp_list_def)
  have l: "length (hex_of ex_encoded) \<le> 2 + 2 * 104448" using ex_encoded_length by (simp add: hex_of_def ref_codec.length_enc)
  have h: "hex_ok ex_true_evm" using ex_evm_hex by (simp add: ex_true_hex ex_evm_simps)
  have n: "header_number ex_true_evm ex_header = Inr 1" using ex_header_number by (simp add: header_number_def q)
  have s: "header_summary ex_true_evm ex_header 1 = Inr ex_summary"
    by (simp add: header_summary_def ex_header_strings q ex_quantities ex_summary_def)
  have p: "pin_header ex_true_evm ex_header None = Inr ()" by (simp add: pin_header_def)
  from header_verifies [OF h ex_true_rlp e l n s p] show ?thesis by blast
qed

lemma ex_read_get [simp]:
  "index ex_pinned ''header'' = ex_summary" "index ex_pinned ''snapshot_id'' = JStr ''s''" "string_field ex_pinned ''pin_id'' = Inr ''p''"
  "index ex_published ''header'' = ex_summary" "index (index ex_published ''proof_bundle'') ''header'' = ex_summary"
  "string_field (index ex_published ''proof_bundle'') ''header_rlp'' = Inr (hex_of ex_encoded)"
  "index (index (index ex_published ''proof_bundle'') ''accounts'') ex_address = ex_evidence"
  "index ex_evidence ''proof'' = ex_proof" "index ex_evidence ''code'' = JStr ''0x''" "string_field ex_summary ''state_root'' = Inr (hex32 6)"
  by (simp_all add: index_def string_field_def ex_pinned_def ex_published_def ex_evidence_def ex_summary_def get_jobj ex_lowercase)

lemma ex_read_account_get [simp]:
  "index (ex_read_account v) ''address'' = JStr ex_address" "index (ex_read_account v) ''snapshot_id'' = JStr ''s''" "index (ex_read_account v) ''header'' = ex_summary"
  "index (ex_read_account v) ''exists'' = JBool True" "index (ex_read_account v) ''code'' = JStr ''0x''" "index (ex_read_account v) ''nonce'' = v"
  "index (ex_read_account v) ''nonzero_slots'' = jnum 0" "string_field (ex_read_account v) ''storage_root'' = Inr (hex32 9)" "string_field (ex_read_account v) ''code'' = Inr ''0x''"
  "get (ex_read_account v) ''balance'' = Some (JStr (show_nat 2))" "get (ex_read_account v) ''code_hash'' = Some (JStr (hex32 0))"
  "jset (ex_read_account v) ''nonce'' w = ex_read_account w"
  by (simp_all add: index_def string_field_def ex_read_account_def jset_def)

lemma ex_response_get [simp]:
  "index ex_response ''pin_id'' = JStr ''p''" "index ex_response ''snapshot_id'' = JStr ''s''" "index ex_response ''header'' = ex_summary"
  "index ex_response ''account'' = ex_read_account (JStr (show_u64 1))" "index ex_response ''storage'' = JArr []" "get ex_response ''next_cursor'' = Some JNull"
  by (simp_all add: index_def ex_response_def)

lemma ex_read_lib_simps [simp]: "nl_evm ex_read_lib = ex_true_evm" "nl_clock ex_read_lib = Inr" "nl_lstat ex_read_lib = (\<lambda>_. NotLink)" "nl_cwd ex_read_lib = Inr [RootDir]"
  "fs_temp ex_read_lib d = (\<lambda>s. d @ ''/.tmp'')" "sha256 ex_read_lib = (\<lambda>_. [])"
  by (simp_all add: ex_read_lib_def ex_nodelib_def)

lemma ex_read_metadata: "check_metadata ex_true_evm ex_proven (ex_read_account (jnum 1)) = Inr ()"
proof -
  have "exact_decimal (show_nat 2)" "ref_u256 (show_nat 2) 10 = Some 2" using exact_decimal_show by (simp_all add: ref_u256_def)
  moreover have "get (ex_read_account (jnum 1)) ''nonce'' = Some (jnum 1)" "get (ex_read_account (jnum 1)) ''code'' = Some (JStr ''0x'')" by (simp_all add: ex_read_account_def)
  ultimately show ?thesis
    by (simp add: check_metadata_def verify_metadata_def string_field_def ex_true_fixed ex_fixed32 ex_no_code ex_true_hex ex_proven_def ref_hash_def)
qed

lemma ex_read_evidence: "read_evidence ex_read_lib ex_api ''s'' ex_address ex_pinned n = (Inr (index ex_published ''proof_bundle'', ex_proven, ex_read_account (jnum 1)), n)"
proof -
  obtain digest where "verify_header ex_true_evm (hex_of ex_encoded) ex_summary None = Inr digest" using ex_summary_verified by blast
  moreover have "same_account ex_true_evm ''s'' ex_address ex_summary (ex_read_account (jnum 1)) ex_proven ex_evidence = Inr True"
    by (simp add: same_account_def jstr_eq_def ex_proven_def ex_true_fixed ex_fixed32)
  ultimately show ?thesis
    by (simp add: read_evidence_def ex_api_def bind_def ret_def check_def lift_def jstr_eq_def ex_true_account ex_read_metadata Let_def)
qed

lemma ex_read_pass:
  assumes "ri_pin I = ''p''" "ri_snapshot I = ''s''" "ri_header I = ex_summary" "ri_account I = ex_read_account (JStr (show_u64 1))"
  shows "\<exists>calls'. read_pass ex_read_lib ex_api I ex_address i k c st calls n = (Inr (st, calls'), n)"
proof -
  have "page_step ex_read_lib I ex_response st = Inr (st, [], None)"
    using assms by (simp add: page_step_def jstr_eq_def as_array_def next_cursor_def)
  then show ?thesis by (subst read_pass.simps) (simp add: ex_api_def ret_def Let_def)
qed

lemma ex_measured:
  assumes "quiet n" "nd_tick n < 100"
  shows "\<exists>P. measured ex_read_lib ex_api (\<lambda>_. []) ''s'' ex_address ex_pinned ''p'' paths 1 5 b t n =
    (Inr (read_report ex_read_lib ex_api ''s'' ex_address ex_pinned (index ex_published ''proof_bundle'') ex_proven b t (of_nat (nd_tick n)) 5 P), n\<lparr>nd_tick := Suc (nd_tick n)\<rparr>)"
proof -
  define I where "I = \<lparr>ri_pin = ''p'', ri_snapshot = ''s'', ri_header = ex_summary, ri_account = ex_read_account (JStr (show_u64 1)), ri_declared = 0, ri_page_size = 5\<rparr>"
  obtain calls where r: "read_pass ex_read_lib ex_api I ex_address 0 0 None (read_start []) [] n = (Inr (read_start [], calls), n)"
    using ex_read_pass [of I 0 0 None "read_start []" "[]" n] by (auto simp: I_def)
  have f: "finish_pass ex_read_lib ex_proven 0 (read_start []) \<lparr>rp_identity = None, rp_calls = [], rp_passes = []\<rparr> = Inr (truth_digest ex_read_lib [])"
    by (simp add: finish_pass_def read_start_def sort_finish_def sort_new_def ex_root_def ex_proven_def truth_digest_def storage_bytes_def)
  have e: "expected_account (ex_read_account (jnum 1)) = Inr (ex_read_account (JStr (show_u64 1)))"
    by (simp add: expected_account_def)
  have g: "ra_guard ex_api ps ph = ret ()" for ps ph by (simp add: ex_api_def)
  have c: "now_ns ex_read_lib n = (Inr (of_nat (nd_tick n)), n\<lparr>nd_tick := Suc (nd_tick n)\<rparr>)"
    using assms(2) by (simp add: now_ns_def bind_def draw_def lift_def)
  obtain P where p: "one_pass ex_read_lib ex_api (\<lambda>_. []) I ex_address ex_proven paths 0 \<lparr>rp_identity = None, rp_calls = [], rp_passes = []\<rparr> n = (Inr P, n)"
    using r f by (simp add: one_pass_def bind_def lift_def quiet_try [OF assms(1)] g ret_def) (simp add: I_def)
  have nil: "fold_io h [] = ret" for h :: "nat \<Rightarrow> read_passes \<Rightarrow> (unit node, read_passes) io" by (rule ext) simp
  show ?thesis
    unfolding measured_def Let_def by (simp add: bind_def ex_read_evidence lift_def e c I_def [symmetric] p nil ret_def) blast
qed

lemma ex_read_measure:
  "\<exists>report n'. read_measure ex_read_lib ex_api (\<lambda>_. []) (Inr ''/bin'') ''s'' ex_address ''/o'' ''/w'' 1 5 ex_read_node = (Inr report, n') \<and>
     index report ''header'' = ex_summary"
proof -
  define n where "n = ex_read_node\<lparr>nd_tick := 1\<rparr>"
  have q: "quiet ex_read_node" "quiet n" "nd_tick n < 100" by (simp_all add: quiet_def n_def ex_read_node_def)
  obtain P where m: "measured ex_read_lib ex_api (\<lambda>_. []) ''s'' ex_address ex_pinned ''p'' [''/'', ''/w'', ''/c''] 1 5 [] 0 n =
      (Inr (read_report ex_read_lib ex_api ''s'' ex_address ex_pinned (index ex_published ''proof_bundle'') ex_proven [] 0 (of_nat (nd_tick n)) 5 P), n\<lparr>nd_tick := Suc (nd_tick n)\<rparr>)"
    using ex_measured [OF q(2,3)] by blast
  define report where "report = read_report ex_read_lib ex_api ''s'' ex_address ex_pinned (index ex_published ''proof_bundle'') ex_proven [] 0 (of_nat (nd_tick n)) 5 P"
  have r: "resolve_path ex_read_lib ''/o'' = Inr ''/o''" "resolve_path ex_read_lib ''/w'' = Inr ''/w''"
    by (simp_all add: resolve_path_def resolve_def path_components_def is_absolute_def push_def show_path_def)
  have h: "on_fs (file_hash ex_read_lib ''/bin'') ex_read_node = (Inr [], ex_read_node)"
    using quiet_read [OF q(1), of "''/bin''" "''x''"]
    by (simp add: file_hash_def on_fs_bind bind_def ex_read_node_def on_fs_def ret_def ex_true_hex ref_encode_def)
  have c: "now_ns ex_read_lib ex_read_node = (Inr 0, n)" by (simp add: now_ns_def bind_def draw_def lift_def n_def ex_read_node_def)
  have w: "\<exists>n'. on_fs (atomic_json (json_pretty ex_read_lib) (fs_temp ex_read_lib ''/'') (Some ''/'') ''/o'' v False) (n\<lparr>nd_tick := k\<rparr>) = (Inr (), n')" for v k
    by (simp add: on_fs_def atomic_json_def atomic_write_def bind_def lift_def fs_try_def fs_step_def check_def ret_def drop_temp_def write_all_def fs_set_def fs_get_def
        hard_link_def n_def ex_read_node_def)
  have x: "on_fs (fs_exists ''/o'') ex_read_node = (Inr False, ex_read_node)"
    using quiet_exists [OF q(1), of "''/o''"] by (simp add: ex_read_node_def)
  have a: "ra_control_path ex_api = ret ''/c''" "ra_pin ex_api s = ret ex_pinned" "ra_unpin ex_api s = ret ()" "ra_guard ex_api ps s = ret ()" for s ps
    by (simp_all add: ex_api_def)
  have p: "path_parent ''/o'' = Some ''/''" by (simp add: path_parent_def)
  obtain n' where "on_fs (atomic_json (json_pretty ex_read_lib) (fs_temp ex_read_lib ''/'') (Some ''/'') ''/o'' report False) (n\<lparr>nd_tick := Suc (nd_tick n)\<rparr>) = (Inr (), n')"
    using w by blast
  then have "read_measure ex_read_lib ex_api (\<lambda>_. []) (Inr ''/bin'') ''s'' ex_address ''/o'' ''/w'' 1 5 ex_read_node = (Inr report, n')"
    using m by (simp add: read_measure_def bind_def lift_def r x check_def ex_true_fixed ex_address_eq p a ret_def Let_def quiet_try [OF q(1)] h c releasing_def report_def [symmetric]
        del: fold_io.simps)
  moreover have "index report ''header'' = ex_summary" by (simp add: report_def read_report_def index_jobj)
  ultimately show ?thesis by blast
qed

theorem read_measure_true_witness:
  "\<exists>report n'. read_measure ex_read_lib ex_api (\<lambda>_. []) (Inr ''/bin'') ''s'' ex_address ''/o'' ''/w'' 1 5 ex_read_node = (Inr report, n') \<and>
     index report ''ordered_storage_sha256'' = JStr (truth_digest ex_read_lib []) \<and> index report ''passes'' = JArr [pass_entry 0 0]"
proof -
  obtain report n' where r: "read_measure ex_read_lib ex_api (\<lambda>_. []) (Inr ''/bin'') ''s'' ex_address ''/o'' ''/w'' 1 5 ex_read_node = (Inr report, n')"
      "index report ''header'' = ex_summary" using ex_read_measure by blast
  have c: "rlp_ok (nl_evm ex_read_lib)" "storage_commitment (keccak256 (nl_evm ex_read_lib)) (trie_root (nl_evm ex_read_lib))"
    "commits (nl_evm ex_read_lib) (replicate 32 6) (\<lambda>_. [])" "string_field (index report ''header'') ''state_root'' = Inr (hex32 6)"
    "fixed (nl_evm ex_read_lib) 32 (hex32 6) = Inr (replicate 32 6)"
    using ex_true_rlp ex_true_commitment ex_commits r(2) by (simp_all add: ex_true_fixed ex_fixed32)
  from read_measure_true [OF c(1-3) r(1) c(4,5)] r(1) show ?thesis by auto
qed

end
