(* ===== verification/Installer.thy ===== *)
theory Installer
  imports Export
begin

text \<open>
  The installer of the pinned native program, \<open>crates/evm-state/src/installer.rs\<close>: the archive is
  installed only after its checksum, its layout and its sizes have been checked.  The tar format, the
  download and the decoder of gzip streams are parameters.
\<close>

section \<open>Platforms and pinned checksums\<close>

definition VERSION :: string where
  "VERSION = ''1.22.0''"

definition checksum :: "string \<Rightarrow> string res" where
  "checksum target =
     (if target = ''darwin_arm64'' then Inr ''80ec00a9a89d18402420f8ae9f79575ab4696107c38169e2e81408d51e346d17''
      else if target = ''darwin_x86_64'' then Inr ''2b91ff37978c7f0179ade469d0f4cad5cc2454580ed480255793f27bbad2fdcf''
      else if target = ''linux_arm64'' then Inr ''385ac239bf792e09936f19e08ac419c4bab64d79415c06a423f29ed8fd4c278b''
      else if target = ''linux_x86_64'' then Inr ''6eef6182d8d9e3c0147a3d03f38fc2b9c0f96900d040132294a0b540e691ae67''
      else Inl ''supported platforms are Linux/WSL or macOS on ARM64 or x86-64'')"

definition platform :: "string \<Rightarrow> string \<Rightarrow> string res" where
  "platform os cpu =
     bnd (if os = ''macos'' then Inr ''darwin'' else if os = ''linux'' then Inr ''linux'' else Inl ''unsupported operating system'') (\<lambda>system.
     bnd (if cpu = ''aarch64'' then Inr ''arm64'' else if cpu = ''x86_64'' then Inr ''x86_64'' else Inl ''unsupported CPU architecture'') (\<lambda>arch.
     Inr (system @ ''_'' @ arch)))"

section \<open>Bounded reading\<close>

text \<open>
  A reader returns at most as many bytes as it is asked for, and none only at the end of its input.
  Its content is what it will still return, and whether an error comes after that.
\<close>

locale stream_reader =
  fixes rd :: "nat \<Rightarrow> 's \<Rightarrow> string res \<times> 's" and content :: "'s \<Rightarrow> string \<times> bool"
  assumes read_some: "0 < n \<Longrightarrow> rd n s = (Inr b, s') \<Longrightarrow> length b \<le> n \<and> content s = (b @ fst (content s'), snd (content s'))"
    and read_end: "0 < n \<Longrightarrow> rd n s = (Inr [], s') \<Longrightarrow> content s = ([], False)"
    and read_error: "0 < n \<Longrightarrow> rd n s = (Inl e, s') \<Longrightarrow> snd (content s)"

record 's Limited =
  li_inner :: 's
  li_remaining :: u64

definition limited_read :: "(nat \<Rightarrow> 's \<Rightarrow> string res \<times> 's) \<Rightarrow> nat \<Rightarrow> 's Limited \<Rightarrow> string res \<times> 's Limited" where
  "limited_read rd n l =
     (if n = 0 then (Inr [], l)
      else if li_remaining l = 0 then
        (case rd 1 (li_inner l) of (r, s) \<Rightarrow>
           (bnd r (\<lambda>b. if b = [] then Inr [] else Inl ''release archive exceeds size limit''), l\<lparr>li_inner := s\<rparr>))
      else (case rd (min n (min (unat (li_remaining l)) usize_max)) (li_inner l) of
           (Inl e, s) \<Rightarrow> (Inl e, l\<lparr>li_inner := s\<rparr>)
         | (Inr b, s) \<Rightarrow> (Inr b, \<lparr>li_inner = s, li_remaining = li_remaining l - of_nat (length b)\<rparr>)))"

text \<open>What a bounded reader returns of a content.\<close>

definition limited :: "nat \<Rightarrow> string \<times> bool \<Rightarrow> string \<times> bool" where
  "limited k c = (take k (fst c), snd c \<or> k < length (fst c))"

definition limited_content :: "('s \<Rightarrow> string \<times> bool) \<Rightarrow> 's Limited \<Rightarrow> string \<times> bool" where
  "limited_content content l = limited (unat (li_remaining l)) (content (li_inner l))"

text \<open>Reading to the end, with any sizes of buffers.\<close>

inductive drain :: "(nat \<Rightarrow> 's \<Rightarrow> string res \<times> 's) \<Rightarrow> 's \<Rightarrow> string \<Rightarrow> unit res \<Rightarrow> bool" for rd where
  drain_end: "0 < n \<Longrightarrow> rd n s = (Inr [], s') \<Longrightarrow> drain rd s [] (Inr ())"
| drain_error: "0 < n \<Longrightarrow> rd n s = (Inl e, s') \<Longrightarrow> drain rd s [] (Inl e)"
| drain_more: "0 < n \<Longrightarrow> rd n s = (Inr b, s') \<Longrightarrow> b \<noteq> [] \<Longrightarrow> drain rd s' bs r \<Longrightarrow> drain rd s (b @ bs) r"

context stream_reader
begin

lemma drain_exact: "drain rd s bs r \<Longrightarrow> (r = Inr () \<longrightarrow> content s = (bs, False)) \<and> (r \<noteq> Inr () \<longrightarrow> snd (content s)) \<and> prefix bs (fst (content s))"
proof (induction rule: drain.induct)
  case (drain_end n s s')
  with read_end show ?case by force
next
  case (drain_error n s e s')
  with read_error show ?case by force
next
  case (drain_more n s b s' bs r)
  from read_some [OF drain_more(1,2)] drain_more(5) show ?case by (auto simp: prod_eq_iff)
qed

text \<open>The bounded reader is a reader again, of the bounded content.\<close>

lemma limited_reader: "stream_reader (limited_read rd) (limited_content content)"
proof
  show "length b \<le> n \<and> limited_content content l = (b @ fst (limited_content content l'), snd (limited_content content l'))"
    if n: "0 < n" and r: "limited_read rd n l = (Inr b, l')" for n l b l'
  proof (cases "li_remaining l = 0")
    case True
    with n r obtain s where s: "rd 1 (li_inner l) = (Inr [], s)" "b = []" "l' = l\<lparr>li_inner := s\<rparr>"
      by (auto simp: limited_read_def split: prod.splits if_splits sum.splits simp: bnd_Inr_iff)
    have "content (li_inner l) = ([], False)" "content s = ([], False)" using read_end [OF _ s(1)] read_some [OF _ s(1)] by (auto simp: prod_eq_iff)
    with s True show ?thesis by (simp add: limited_content_def limited_def)
  next
    case False
    let ?k = "min n (min (unat (li_remaining l)) usize_max)"
    obtain s where s: "rd ?k (li_inner l) = (Inr b, s)" "l' = \<lparr>li_inner = s, li_remaining = li_remaining l - of_nat (length b)\<rparr>"
      using n r False by (auto simp: limited_read_def split: prod.splits if_splits sum.splits)
    have "0 < ?k" using n False by (simp add: unat_gt_0)
    note c = read_some [OF this s(1)]
    have m: "unat (li_remaining l - of_nat (length b)) = unat (li_remaining l) - length b"
    proof -
      have b: "length b \<le> unat (li_remaining l)" using c by simp
      have "unat (of_nat (length b) :: u64) = length b" using b u64_bound [of "li_remaining l"] by (simp add: unat_of_nat)
      with b show ?thesis by (simp add: unat_sub word_le_nat_alt)
    qed
    show ?thesis using c s(2) m by (auto simp: limited_content_def limited_def)
  qed
  show "limited_content content l = ([], False)" if n: "0 < n" and r: "limited_read rd n l = (Inr [], l')" for n l l'
  proof (cases "li_remaining l = 0")
    case True
    with n r obtain s where "rd 1 (li_inner l) = (Inr [], s)"
      by (auto simp: limited_read_def split: prod.splits if_splits sum.splits simp: bnd_Inr_iff)
    from read_end [OF _ this] show ?thesis by (simp add: limited_content_def limited_def)
  next
    case False
    let ?k = "min n (min (unat (li_remaining l)) usize_max)"
    obtain s where s: "rd ?k (li_inner l) = (Inr [], s)"
      using n r False by (auto simp: limited_read_def split: prod.splits if_splits sum.splits)
    have "0 < ?k" using n False by (simp add: unat_gt_0)
    from read_end [OF this s] show ?thesis by (simp add: limited_content_def limited_def)
  qed
  show "snd (limited_content content l)" if n: "0 < n" and r: "limited_read rd n l = (Inl e, l')" for n l e l'
  proof (cases "li_remaining l = 0")
    case True
    obtain q s where q: "rd 1 (li_inner l) = (q, s)" by fastforce
    show ?thesis
    proof (cases q)
      case (Inl e')
      from read_error [OF _ q [unfolded Inl]] show ?thesis by (simp add: limited_content_def limited_def)
    next
      case (Inr b)
      then have "b \<noteq> []" using n r True q by (auto simp: limited_read_def)
      with read_some [OF _ q [unfolded Inr]] True show ?thesis by (simp add: limited_content_def limited_def)
    qed
  next
    case False
    let ?k = "min n (min (unat (li_remaining l)) usize_max)"
    obtain s where s: "rd ?k (li_inner l) = (Inl e, s)"
      using n r False by (auto simp: limited_read_def split: prod.splits if_splits sum.splits)
    have "0 < ?k" using n False by (simp add: unat_gt_0)
    from read_error [OF this s] show ?thesis by (simp add: limited_content_def limited_def)
  qed
qed

end

section \<open>The archive\<close>

text \<open>The decoded archive as a reader.\<close>

definition unpacked_read :: "nat \<Rightarrow> string \<times> bool \<Rightarrow> string res \<times> (string \<times> bool)" where
  "unpacked_read n c =
     (if n = 0 then (Inr [], c)
      else if fst c = [] then (if snd c then Inl ''corrupt deflate stream'' else Inr [], c)
      else (Inr (take n (fst c)), drop n (fst c), snd c))"

interpretation unpacked: stream_reader unpacked_read "\<lambda>c. c"
  by unfold_locales (auto simp: unpacked_read_def split: if_splits)

interpretation bounded: stream_reader "limited_read unpacked_read" "limited_content (\<lambda>c. c)"
  by (rule unpacked.limited_reader)

text \<open>
  However the archive is read through the bound, a reading that ends without an error has returned the
  whole content and the content is within the bound; no reading returns more.
\<close>

lemma bounded_reading:
  assumes "drain (limited_read unpacked_read) \<lparr>li_inner = c, li_remaining = k\<rparr> bs r"
  shows "length bs \<le> unat k" "r = Inr () \<Longrightarrow> c = (bs, False)" "snd c \<or> unat k < length (fst c) \<Longrightarrow> r \<noteq> Inr ()"
  using bounded.drain_exact [OF assms]
  by (auto simp: limited_content_def limited_def prod_eq_iff dest: prefix_length_le)

record tar_entry =
  te_path :: string
  te_is_file :: bool
  te_size :: u64
  te_data :: "string res"  \<comment> \<open>what reading the entry to its end returns\<close>

definition ARCHIVE_BYTES :: nat where
  "ARCHIVE_BYTES = 256 * 1024 * 1024"

definition UNPACKED_BYTES :: nat where
  "UNPACKED_BYTES = 512 * 1024 * 1024"

definition take_entry :: "tar_entry res \<Rightarrow> string option \<Rightarrow> string option res" where
  "take_entry entry binary =
     bnd entry (\<lambda>entry.
     if te_path entry \<noteq> ''substreams'' then Inr binary
     else ensure (te_is_file entry \<and> binary = None) ''unexpected release archive layout''
       (ensure (0 < te_size entry \<and> unat (te_size entry) \<le> ARCHIVE_BYTES) ''invalid release binary size''
       (bnd (te_data entry) (\<lambda>content.
        ensure (length content = unat (te_size entry)) ''truncated release binary'' (Inr (Some content))))))"

definition release_binary :: "(string \<times> bool \<Rightarrow> tar_entry res list res) \<Rightarrow> string \<times> bool \<Rightarrow> string res" where
  "release_binary tar stream =
     bnd (tar stream) (\<lambda>entries.
     bnd (fold_res take_entry entries None) (\<lambda>binary.
     ensure (\<not> snd stream) ''release archive exceeds size limit''
     (context_res binary ''unexpected release archive layout'')))"

section \<open>Installation\<close>

definition install_archive :: "('w, 'x) nodelib_scheme \<Rightarrow> portlib \<Rightarrow> (string \<times> bool \<Rightarrow> tar_entry res list res) \<Rightarrow> string \<Rightarrow> string \<Rightarrow> string \<Rightarrow> (fsys, string) io" where
  "install_archive L G tar archive expected destination =
     bind (check (length expected = 64 \<and> list_all is_hexdigit expected) ''invalid pinned archive checksum'') (\<lambda>_.
     bind (fs_read archive) (\<lambda>c.
     bind (check (length c \<le> ARCHIVE_BYTES) ''release archive exceeds size limit'') (\<lambda>_.
     bind (check (hex_encode (nl_evm L) (sha256 L c) = expected) ''Substreams archive checksum mismatch'') (\<lambda>_.
     bind fs_try (\<lambda>_.
     bind (lift (release_binary tar (limited UNPACKED_BYTES (gz_unpack G c)))) (\<lambda>binary.
     let path = path_join destination ''substreams'' in
     bind (atomic_write (fs_temp L destination) (Some destination) path binary True) (\<lambda>_.
     lift (resolve_path L path))))))))"

text \<open>What the download returned: the status, the bytes of the body and whether the body breaks off.\<close>

record download =
  dl_status :: nat
  dl_body :: string
  dl_broken :: bool

definition release_url :: "string \<Rightarrow> string" where
  "release_url target = ''https://github.com/streamingfast/substreams/releases/download/v'' @ VERSION @ ''/substreams_'' @ target @ ''.tar.gz''"

text \<open>The part of an installation that works on the downloaded file.\<close>

definition downloaded :: "('w, 'x) nodelib_scheme \<Rightarrow> portlib \<Rightarrow> (string \<times> bool \<Rightarrow> tar_entry res list res) \<Rightarrow> string \<Rightarrow> download \<Rightarrow> string \<Rightarrow> string \<Rightarrow> (fsys, string) io" where
  "downloaded L G tar expected response destination t =
     (let got = take (ARCHIVE_BYTES + 1) (dl_body response) in
      bind (write_all t got) (\<lambda>_.
      bind (check (\<not> (dl_broken response \<and> length (dl_body response) \<le> ARCHIVE_BYTES)) ''error decoding response body'') (\<lambda>_.
      bind (check (length got \<le> ARCHIVE_BYTES) ''release archive exceeds size limit'') (\<lambda>_.
      bind fs_try (\<lambda>_.
      install_archive L G tar t expected destination)))))"

definition install :: "('w, 'x) nodelib_scheme \<Rightarrow> portlib \<Rightarrow> (string \<times> bool \<Rightarrow> tar_entry res list res) \<Rightarrow> (string \<Rightarrow> download res) \<Rightarrow> (fsys \<Rightarrow> string) \<Rightarrow> string \<Rightarrow> string \<Rightarrow>
    string \<Rightarrow> (fsys, string) io" where
  "install L G tar http temp os cpu destination =
     bind (lift (platform os cpu)) (\<lambda>target.
     bind (lift (checksum target)) (\<lambda>expected.
     bind (lift (map_err (\<lambda>_. ''Substreams archive download failed'') (http (release_url target)))) (\<lambda>response.
     bind (check (200 \<le> dl_status response \<and> dl_status response < 300) (''Substreams archive download failed (HTTP '' @ show_nat (dl_status response) @ '')'')) (\<lambda>_.
     bind fs_try (\<lambda>_ s. let t = temp s in
       bind (check (fs_files s t = None) ''File exists'') (\<lambda>_.
       bind (fs_set t (Some [])) (\<lambda>_.
       drop_temp t (downloaded L G tar expected response destination t))) s)))))"

section \<open>What is installed\<close>

text \<open>
  A release: the archive decodes completely and within the bound, and one entry has the name of the
  program, a regular file of an admissible size.
\<close>

definition released :: "portlib \<Rightarrow> (string \<times> bool \<Rightarrow> tar_entry res list res) \<Rightarrow> string \<Rightarrow> string \<Rightarrow> bool" where
  "released G tar c binary \<longleftrightarrow> \<not> snd (gz_unpack G c) \<and> length (fst (gz_unpack G c)) \<le> UNPACKED_BYTES \<and>
     (\<exists>entries e. tar (gz_unpack G c) = Inr (map Inr entries) \<and> filter (\<lambda>e. te_path e = ''substreams'') entries = [e] \<and> te_is_file e \<and>
       te_data e = Inr binary \<and> length binary = unat (te_size e) \<and> 0 < length binary \<and> length binary \<le> ARCHIVE_BYTES)"

lemma take_entries:
  assumes "fold_res take_entry es x = Inr y"
  shows "\<exists>entries. es = map Inr entries \<and> (let found = filter (\<lambda>e. te_path e = ''substreams'') entries in
    found = [] \<and> y = x \<or> (\<exists>e b. x = None \<and> y = Some b \<and> found = [e] \<and> te_is_file e \<and> te_data e = Inr b \<and> length b = unat (te_size e) \<and>
      0 < length b \<and> length b \<le> ARCHIVE_BYTES))"
  using assms
proof (induction es arbitrary: x)
  case (Cons r es)
  then obtain z where z: "take_entry r x = Inr z" "fold_res take_entry es z = Inr y" by (auto simp: bnd_Inr_iff)
  from z(1) obtain t where t: "r = Inr t" by (auto simp: take_entry_def bnd_Inr_iff)
  from Cons(1) [OF z(2)] obtain entries where i: "es = map Inr entries"
      "let found = filter (\<lambda>e. te_path e = ''substreams'') entries in
        found = [] \<and> y = z \<or> (\<exists>e b. z = None \<and> y = Some b \<and> found = [e] \<and> te_is_file e \<and> te_data e = Inr b \<and> length b = unat (te_size e) \<and>
          0 < length b \<and> length b \<le> ARCHIVE_BYTES)" by blast
  show ?case
  proof (cases "te_path t = ''substreams''")
    case False
    with z(1) t have "z = x" by (simp add: take_entry_def)
    with i t False show ?thesis by (intro exI [of _ "t # entries"]) simp
  next
    case True
    with z(1) t obtain b where b: "te_is_file t" "x = None" "z = Some b" "te_data t = Inr b" "length b = unat (te_size t)" "0 < te_size t" "unat (te_size t) \<le> ARCHIVE_BYTES"
      by (auto simp: take_entry_def bnd_Inr_iff ensure_Inr_iff)
    with i t True show ?thesis by (intro exI [of _ "t # entries"]) (auto simp: Let_def word_less_nat_alt)
  qed
qed simp

lemma release_binary_released:
  assumes "release_binary tar (limited UNPACKED_BYTES (gz_unpack G c)) = Inr b"
  shows "released G tar c b"
proof -
  from assms obtain es where e: "tar (limited UNPACKED_BYTES (gz_unpack G c)) = Inr es" "fold_res take_entry es None = Inr (Some b)"
      "\<not> snd (limited UNPACKED_BYTES (gz_unpack G c))"
    by (auto simp: release_binary_def bnd_Inr_iff ensure_Inr_iff context_res_Inr_iff)
  from e(3) have l: "\<not> snd (gz_unpack G c)" "length (fst (gz_unpack G c)) \<le> UNPACKED_BYTES" by (simp_all add: limited_def)
  then have "limited UNPACKED_BYTES (gz_unpack G c) = gz_unpack G c" by (simp add: limited_def prod_eq_iff)
  with take_entries [OF e(2)] e(1) l show ?thesis by (auto simp: released_def Let_def)
qed

lemma files_bind:
  assumes "fs_files (snd (m s)) = fs_files s" "\<And>e. Q (Inl e) (fs_files s)"
    and "\<And>v s'. m s = (Inr v, s') \<Longrightarrow> fs_files s' = fs_files s \<Longrightarrow> Q (fst (f v s')) (fs_files (snd (f v s')))"
  shows "Q (fst (bind m f s)) (fs_files (snd (bind m f s)))"
  using assms by (cases "m s"; cases "fst (m s)") (auto simp: bind_def)

text \<open>The program of a destination after a run: unchanged, or from an archive with the pinned checksum.\<close>

definition pinned_only :: "('w, 'x) nodelib_scheme \<Rightarrow> portlib \<Rightarrow> (string \<times> bool \<Rightarrow> tar_entry res list res) \<Rightarrow> string \<Rightarrow> string option \<Rightarrow> (string \<rightharpoonup> string) \<Rightarrow> string \<Rightarrow>
    'a res \<Rightarrow> (string \<rightharpoonup> string) \<Rightarrow> bool" where
  "pinned_only L G tar expected archive old path r new \<longleftrightarrow> (\<forall>q. q \<noteq> path \<longrightarrow> new q = old q) \<and>
     (let installed = (\<exists>c b. archive = Some c \<and> hex_encode (nl_evm L) (sha256 L c) = expected \<and> length c \<le> ARCHIVE_BYTES \<and> released G tar c b \<and> new path = Some b) in
      (new path = old path \<or> installed) \<and> (is_ok r \<longrightarrow> installed))"

lemma pinned_only_Inl [simp]: "pinned_only L G tar expected archive old path (Inl e) old"
  by (simp add: pinned_only_def is_ok_def)

lemma install_archive_effect:
  assumes "\<forall>x. fs_temp L destination x \<noteq> path_join destination ''substreams''"
  shows "pinned_only L G tar expected (fs_files s archive) (fs_files s) (path_join destination ''substreams'')
    (fst (install_archive L G tar archive expected destination s)) (fs_files (snd (install_archive L G tar archive expected destination s)))"
  (is "?Q (fst (?m s)) (fs_files (snd (?m s)))")
proof -
  define tail where "tail b = bind (atomic_write (fs_temp L destination) (Some destination) (path_join destination ''substreams'') b True)
    (\<lambda>_. lift (resolve_path L (path_join destination ''substreams'')))" for b
  have written: "?Q (fst (tail b x)) (fs_files (snd (tail b x)))"
    if c: "fs_files s archive = Some c" "hex_encode (nl_evm L) (sha256 L c) = expected" "length c \<le> ARCHIVE_BYTES" "released G tar c b" "fs_files x = fs_files s" for c b x
    using atomic_write_effect [OF assms, of "Some destination" b True x] c unfolding tail_def
    by (cases "atomic_write (fs_temp L destination) (Some destination) (path_join destination ''substreams'') b True x";
        cases "fst (atomic_write (fs_temp L destination) (Some destination) (path_join destination ''substreams'') b True x)")
      (auto simp: pinned_only_def Let_def bind_def lift_def is_ok_def)
  show ?thesis
    unfolding install_archive_def Let_def tail_def [symmetric]
  proof (intro files_bind [where Q = ?Q] fs_read_files fs_try_files)
    fix s1 s2 s3 s4 s5 s6 :: fsys and c b u3 u4
    assume s1: "fs_files s1 = fs_files s" and r: "fs_read archive s1 = (Inr c, s2)" and l: "check (length c \<le> ARCHIVE_BYTES) ''release archive exceeds size limit'' s2 = (Inr u3, s3)"
      and h: "check (hex_encode (nl_evm L) (sha256 L c) = expected) ''Substreams archive checksum mismatch'' s3 = (Inr u4, s4)"
      and b: "lift (release_binary tar (limited UNPACKED_BYTES (gz_unpack G c))) s5 = (Inr b, s6)"
      and f: "fs_files s2 = fs_files s1" "fs_files s3 = fs_files s2" "fs_files s4 = fs_files s3" "fs_files s5 = fs_files s4" "fs_files s6 = fs_files s5"
    have c: "fs_files s archive = Some c" using fs_read_Inr [OF r] s1 by simp
    have h': "hex_encode (nl_evm L) (sha256 L c) = expected" "length c \<le> ARCHIVE_BYTES" using h l by (simp_all add: check_def split: if_splits)
    have b': "released G tar c b" using b by (intro release_binary_released) (simp add: lift_def)
    have s6: "fs_files s6 = fs_files s" using s1 f by simp
    show "?Q (fst (tail b s6)) (fs_files (snd (tail b s6)))" by (rule written [OF c h' b' s6])
  qed (simp_all add: check_def lift_def)
qed

lemma downloaded_effect:
  assumes "\<forall>x. fs_temp L destination x \<noteq> path_join destination ''substreams''" "t \<noteq> path_join destination ''substreams''" "fs_files s t = None"
  shows "pinned_only L G tar expected (Some (dl_body response)) (fs_files s) (path_join destination ''substreams'')
    (fst (drop_temp t (downloaded L G tar expected response destination t) (s\<lparr>fs_files := (fs_files s)(t := Some [])\<rparr>)))
    (fs_files (snd (drop_temp t (downloaded L G tar expected response destination t) (s\<lparr>fs_files := (fs_files s)(t := Some [])\<rparr>))))"
proof -
  let ?path = "path_join destination ''substreams''" and ?got = "take (ARCHIVE_BYTES + 1) (dl_body response)" and ?s = "s\<lparr>fs_files := (fs_files s)(t := Some [])\<rparr>"
  let ?Q = "\<lambda>r new. pinned_only L G tar expected (Some (dl_body response)) (fs_files s) ?path r (new(t := None))"
  have clean: "?Q (Inl e) f" if "\<forall>q. q \<noteq> t \<longrightarrow> f q = fs_files s q" for e :: string and f
    using that assms(3) by (simp add: pinned_only_def is_ok_def fun_upd_def)
  obtain r s1 where w: "write_all t ?got ?s = (r, s1)" by fastforce
  have s1: "\<forall>q. q \<noteq> t \<longrightarrow> fs_files s1 q = fs_files s q" using write_all_files [of _ t ?got ?s] w by simp
  have rest: "?Q (fst (m s1)) (fs_files (snd (m s1)))"
    if u: "r = Inr u" and m: "m = bind (check (\<not> (dl_broken response \<and> length (dl_body response) \<le> ARCHIVE_BYTES)) ''error decoding response body'') (\<lambda>_.
      bind (check (length ?got \<le> ARCHIVE_BYTES) ''release archive exceeds size limit'') (\<lambda>_. bind fs_try (\<lambda>_. install_archive L G tar t expected destination)))" for u m
    unfolding m
  proof (intro files_bind [where Q = "\<lambda>r f. ?Q r f"] fs_try_files)
    fix s2 s3 s4 :: fsys and v
    assume f: "fs_files s2 = fs_files s1" "fs_files s3 = fs_files s2" "fs_files s4 = fs_files s3" and c: "check (length ?got \<le> ARCHIVE_BYTES) ''release archive exceeds size limit'' s2 = (Inr v, s3)"
    have "?got = dl_body response" using c by (auto simp: check_def split: if_splits)
    moreover have "fs_files s1 t = Some ?got" using write_all_Inr [of t ?got ?s] w u by simp
    ultimately have "fs_files s4 t = Some (dl_body response)" using f by simp
    with install_archive_effect [OF assms(1), of G tar expected s4 t] f s1 assms(2,3)
    show "?Q (fst (install_archive L G tar t expected destination s4)) (fs_files (snd (install_archive L G tar t expected destination s4)))"
      by (auto simp: pinned_only_def Let_def)
  qed (use clean s1 in \<open>simp_all add: check_def\<close>)
  have "?Q (fst (downloaded L G tar expected response destination t ?s)) (fs_files (snd (downloaded L G tar expected response destination t ?s)))"
  proof (cases r)
    case (Inl e)
    with w clean s1 show ?thesis by (simp add: downloaded_def Let_def bind_def)
  next
    case (Inr u)
    with w rest [OF Inr refl] show ?thesis by (simp add: downloaded_def Let_def bind_def)
  qed
  then show ?thesis by (simp add: drop_temp_def case_prod_unfold)
qed

text \<open>
  C34: Whatever the network and the archive hold and wherever file-system calls fail, an installation
  changes no file but the program of its destination, and that only into the single program entry of
  an archive of admissible size whose SHA-256 is the checksum pinned for the platform and which decodes
  completely within its bound; on success the program has been installed.
\<close>

theorem install_pinned:
  assumes "\<forall>x. fs_temp L destination x \<noteq> path_join destination ''substreams''" "\<forall>x. temp x \<noteq> path_join destination ''substreams''"
    and "install L G tar http temp os cpu destination s = (r, s')"
  shows "(\<forall>q. q \<noteq> path_join destination ''substreams'' \<longrightarrow> fs_files s' q = fs_files s q) \<and>
    (fs_files s' (path_join destination ''substreams'') = fs_files s (path_join destination ''substreams'') \<and> \<not> is_ok r \<or>
     (\<exists>target expected response b. platform os cpu = Inr target \<and> checksum target = Inr expected \<and> http (release_url target) = Inr response \<and>
        hex_encode (nl_evm L) (sha256 L (dl_body response)) = expected \<and> length (dl_body response) \<le> ARCHIVE_BYTES \<and> released G tar (dl_body response) b \<and>
        fs_files s' (path_join destination ''substreams'') = Some b))"
proof -
  let ?path = "path_join destination ''substreams''"
  let ?Q = "\<lambda>r new. (\<forall>q. q \<noteq> ?path \<longrightarrow> new q = fs_files s q) \<and> (new ?path = fs_files s ?path \<and> \<not> is_ok r \<or>
     (\<exists>target expected response b. platform os cpu = Inr target \<and> checksum target = Inr expected \<and> http (release_url target) = Inr response \<and>
        hex_encode (nl_evm L) (sha256 L (dl_body response)) = expected \<and> length (dl_body response) \<le> ARCHIVE_BYTES \<and> released G tar (dl_body response) b \<and> new ?path = Some b))"
  define go where "go expected response x = (let t = temp x in bind (check (fs_files x t = None) ''File exists'') (\<lambda>_. bind (fs_set t (Some [])) (\<lambda>_.
    drop_temp t (downloaded L G tar expected response destination t))) x)" for expected response x
  have go: "?Q (fst (go expected response x)) (fs_files (snd (go expected response x)))"
    if p: "platform os cpu = Inr target" "checksum target = Inr expected" "http (release_url target) = Inr response" "fs_files x = fs_files s" for target expected response x
  proof (cases "fs_files x (temp x) = None")
    case True
    let ?y = "x\<lparr>fs_files := (fs_files x)(temp x := Some [])\<rparr>"
    have "go expected response x = drop_temp (temp x) (downloaded L G tar expected response destination (temp x)) ?y"
      using True by (simp add: go_def Let_def bind_def check_def fs_set_def)
    with downloaded_effect [OF assms(1) _ True, of G tar expected response] assms(2) p show ?thesis
      by (auto simp: pinned_only_def Let_def)
  qed (use p(4) in \<open>auto simp: go_def Let_def bind_def check_def is_ok_def\<close>)
  have "?Q (fst (install L G tar http temp os cpu destination s)) (fs_files (snd (install L G tar http temp os cpu destination s)))"
    unfolding install_def go_def [symmetric]
  proof (intro files_bind [where Q = ?Q] fs_try_files)
    fix s1 s2 s3 s4 s5 :: fsys and target expected response
    assume p: "lift (platform os cpu) s = (Inr target, s1)" and c: "lift (checksum target) s1 = (Inr expected, s2)"
      and h: "lift (map_err (\<lambda>_. ''Substreams archive download failed'') (http (release_url target))) s2 = (Inr response, s3)"
      and f: "fs_files s1 = fs_files s" "fs_files s2 = fs_files s1" "fs_files s3 = fs_files s2" "fs_files s4 = fs_files s3" "fs_files s5 = fs_files s4"
    have "http (release_url target) = Inr response" using h by (simp add: lift_def map_err_def split: sum.splits)
    moreover have "platform os cpu = Inr target" "checksum target = Inr expected" using p c by (simp_all add: lift_def)
    moreover have "fs_files s5 = fs_files s" using f by simp
    ultimately show "?Q (fst (go expected response s5)) (fs_files (snd (go expected response s5)))" using go by blast
  qed (simp_all add: check_def lift_def is_ok_def)
  with assms(3) show ?thesis by simp
qed

definition ex_release_lib :: "unit nodelib" where
  "ex_release_lib = ex_nodelib\<lparr>nl_evm := ex_evm\<lparr>hex_encode := (\<lambda>_. ''6eef6182d8d9e3c0147a3d03f38fc2b9c0f96900d040132294a0b540e691ae67'')\<rparr>\<rparr>"

definition ex_release :: portlib where
  "ex_release = \<lparr>gz_pack = (\<lambda>s. s), gz_unpack = (\<lambda>s. (s, False)), dir_there = (\<lambda>_ _. True)\<rparr>"

definition ex_tar :: "string \<times> bool \<Rightarrow> tar_entry res list res" where
  "ex_tar c = Inr [Inr \<lparr>te_path = ''LICENSE'', te_is_file = True, te_size = 0, te_data = Inr []\<rparr>,
     Inr \<lparr>te_path = ''substreams'', te_is_file = True, te_size = 1, te_data = Inr (fst c)\<rparr>]"

definition ex_download :: "string \<Rightarrow> download res" where
  "ex_download url = Inr \<lparr>dl_status = 200, dl_body = ''x'', dl_broken = False\<rparr>"

lemma clean_steps:
  assumes "fs_plan s = []"
  shows "fs_try s = (Inr (), s)" "write_all t b s = (Inr (), s\<lparr>fs_files := (fs_files s)(t := Some b)\<rparr>)"
    "fs_files s t = Some c \<Longrightarrow> fs_read t s = (Inr c, s)"
  using assms by (simp_all add: fs_try_def fs_step_def bind_def ret_def write_all_def fs_set_def fs_read_clean)

lemma clean_atomic_write:
  assumes "fs_plan s = []" "fs_files s (temp s) = None" "temp s \<noteq> path"
  shows "\<exists>s'. atomic_write temp (Some d) path b True s = (Inr (), s')"
  using assms by (simp add: atomic_write_def bind_def lift_def clean_steps check_def fs_set_def drop_temp_def rename_def fs_get_def Let_def)

lemma ex_install_ok:
  "is_ok (fst (install ex_release_lib ex_release ex_tar ex_download (\<lambda>_. ''/t'') ''linux'' ''x86_64'' ''/b'' (ex_fs [])))"
proof -
  let ?h = "''6eef6182d8d9e3c0147a3d03f38fc2b9c0f96900d040132294a0b540e691ae67''"
  define s where "s = (ex_fs [])\<lparr>fs_files := (fs_files (ex_fs []))(''/t'' := Some ''x'')\<rparr>"
  have s: "fs_plan s = []" "fs_files s ''/t'' = Some ''x''" "fs_files s (fs_temp ex_release_lib ''/b'' s) = None"
    by (simp_all add: s_def ex_fs_def ex_release_lib_def ex_nodelib_def)
  have h: "length ?h = 64" "list_all is_hexdigit ?h" by code_simp+
  have e: "hex_encode (nl_evm ex_release_lib) b = ?h" for b by (simp add: ex_release_lib_def)
  have b: "release_binary ex_tar (limited UNPACKED_BYTES (gz_unpack ex_release ''x'')) = Inr ''x''"
    by (simp add: release_binary_def limited_def ex_tar_def ex_release_def UNPACKED_BYTES_def take_entry_def ARCHIVE_BYTES_def)
  have r: "resolve_path ex_release_lib ''/b/substreams'' = Inr ''/b/substreams''"
    by (simp add: resolve_path_def ex_release_lib_def ex_nodelib_def resolve_def path_components_def is_absolute_def push_def show_path_def)
  obtain s' where w: "atomic_write (fs_temp ex_release_lib ''/b'') (Some ''/b'') ''/b/substreams'' ''x'' True s = (Inr (), s')"
    using clean_atomic_write [of s "fs_temp ex_release_lib ''/b''" "''/b/substreams''" "''/b''" "''x''"] s by (force simp: ex_release_lib_def ex_nodelib_def)
  have "is_ok (fst (install_archive ex_release_lib ex_release ex_tar ''/t'' ?h ''/b'' s))"
    using h e b r w s by (simp add: install_archive_def bind_def check_def clean_steps lift_def path_join_def ARCHIVE_BYTES_def is_ok_def Let_def)
  then have "is_ok (fst (downloaded ex_release_lib ex_release ex_tar ?h \<lparr>dl_status = 200, dl_body = ''x'', dl_broken = False\<rparr> ''/b'' ''/t''
      ((ex_fs [])\<lparr>fs_files := (fs_files (ex_fs []))(''/t'' := Some [])\<rparr>)))"
    using s(1) by (simp add: downloaded_def bind_def clean_steps ex_fs_def check_def ARCHIVE_BYTES_def s_def)
  moreover have "platform ''linux'' ''x86_64'' = Inr ''linux_x86_64''" "checksum ''linux_x86_64'' = Inr ?h" "fs_plan (ex_fs []) = []" "fs_files (ex_fs []) ''/t'' = None"
    by (simp_all add: platform_def checksum_def ex_fs_def)
  ultimately show ?thesis
    by (simp add: install_def ex_download_def map_err_def bind_def lift_def check_def clean_steps Let_def fs_set_def drop_temp_def case_prod_unfold)
qed

theorem install_pinned_witness:
  "fs_files (snd (install ex_release_lib ex_release ex_tar ex_download (\<lambda>_. ''/t'') ''linux'' ''x86_64'' ''/b'' (ex_fs []))) ''/b/substreams'' = Some ''x''"
proof -
  let ?m = "install ex_release_lib ex_release ex_tar ex_download (\<lambda>_. ''/t'') ''linux'' ''x86_64'' ''/b'' (ex_fs [])"
  have t: "\<forall>x. fs_temp ex_release_lib ''/b'' x \<noteq> path_join ''/b'' ''substreams''" "\<forall>x. (\<lambda>_. ''/t'') x \<noteq> path_join ''/b'' ''substreams''"
    by (simp_all add: path_join_def ex_release_lib_def ex_nodelib_def)
  from install_pinned [OF t, of ex_release ex_tar ex_download "''linux''" "''x86_64''" "ex_fs []" "fst ?m" "snd ?m"] ex_install_ok
  show ?thesis by (auto simp: path_join_def released_def ex_download_def ex_release_def ex_tar_def)
qed

end
