(* ===== verification/Capacity_Host.thy ===== *)
theory Capacity_Host
  imports Capacity
begin

text \<open>
  Measuring container data on the host, \<open>crates/evm-state/src/capacity_host.rs\<close>: which host
  directories hold the data disks of a container, the probe files that show the container sees these
  very directories, and the measurement between two verifications.
\<close>

section \<open>Host directories of the data disks\<close>

definition absolute :: "string \<Rightarrow> path res" where
  "absolute v = ensure (is_absolute (path_components v) \<and> ParentDir \<notin> set (path_components v)) ''invalid host-bind path'' (Inr (normal_path v))"

definition mount_destination :: "json \<Rightarrow> path res" where
  "mount_destination mount = bnd (string_field mount ''Destination'') absolute"

definition new_destination :: "json \<Rightarrow> path list \<Rightarrow> path list res" where
  "new_destination mount destinations =
     bnd (mount_destination mount) (\<lambda>d. ensure (d \<notin> set destinations) ''ambiguous container mount destination'' (Inr (d # destinations)))"

definition host_path :: "capenv \<Rightarrow> path \<Rightarrow> path res" where
  "host_path E p = (case ce_canonical E p of Inl _ \<Rightarrow> Inl ''input/output error'' | Inr host \<Rightarrow> Inr host)"

definition add_binding :: "capenv \<Rightarrow> path \<Rightarrow> json \<Rightarrow> (path, path) btree \<Rightarrow> (path, path) btree res" where
  "add_binding E p mount mapped =
     ensure (jstr_eq (index mount ''Type'') ''bind'') ''host_bind scanning requires directory bind mounts for every data path and nested mount''
     (bnd (mount_destination mount) (\<lambda>destination.
      bnd (bnd (string_field mount ''Source'') absolute) (\<lambda>source.
      ensure (starts_with p destination) ''prefix not found''
      (bnd (host_path E (source @ drop (length destination) p)) (\<lambda>host.
       ensure (ce_is_dir E host) ''host_bind scanning requires readable host directories''
       (ensure (case map_of mapped p of None \<Rightarrow> True | Some previous \<Rightarrow> previous = host) ''ambiguous host-bind mapping''
        (Inr (bt_insert p host mapped))))))))"

definition scan_mount :: "capenv \<Rightarrow> path \<Rightarrow> json \<Rightarrow> (nat \<times> json) list \<times> (path, path) btree \<Rightarrow> ((nat \<times> json) list \<times> (path, path) btree) res" where
  "scan_mount E disk mount s = (case s of (covering, mapped) \<Rightarrow>
     bnd (mount_destination mount) (\<lambda>destination.
     if starts_with disk destination then Inr (covering @ [(Suc (length destination), mount)], mapped)
     else if starts_with destination disk then bnd (add_binding E destination mount mapped) (\<lambda>mapped. Inr (covering, mapped))
     else Inr (covering, mapped)))"

text \<open>Of several equally deep elements the last one is taken.\<close>

definition deepest :: "(nat \<times> 'a) list \<Rightarrow> 'a option" where
  "deepest xs = (case xs of [] \<Rightarrow> None | x # xs \<Rightarrow> Some (snd (fold (\<lambda>y best. if fst best \<le> fst y then y else best) xs x)))"

definition bind_disk :: "capenv \<Rightarrow> json list \<Rightarrow> path \<Rightarrow> (path, path) btree \<Rightarrow> (path, path) btree res" where
  "bind_disk E mounts disk mapped =
     bnd (fold_res (scan_mount E disk) mounts ([], mapped)) (\<lambda>(covering, mapped).
     bnd (context_res (deepest covering) ''data disk has no host bind mount'') (\<lambda>mount.
     add_binding E disk mount mapped))"

definition bindings :: "capenv \<Rightarrow> json \<Rightarrow> path list \<Rightarrow> (path, path) btree res" where
  "bindings E info disks =
     bnd (context_res (as_array (index info ''Mounts'')) ''invalid container mounts'') (\<lambda>mounts.
     bnd (fold_res new_destination mounts []) (\<lambda>_.
     ensure (disks \<noteq> []) ''host_bind scanning requires data disks''
     (fold_res (bind_disk E mounts) disks [])))"

section \<open>The host\<close>

text \<open>
  Files have an identity, the numbers of their device and inode.  Each call may fail; what a new file
  gets as identity and the new random names are functions of the number of the call.
\<close>

record hostenv =
  he_fault :: "nat \<Rightarrow> io_error option"
  he_inode :: "nat \<Rightarrow> u64 \<times> u64"
  he_id :: "nat \<Rightarrow> string"

record hnode =
  hn_id :: "u64 \<times> u64"
  hn_dir :: bool
  hn_data :: string

record host =
  ho_tree :: "path \<rightharpoonup> hnode"
  ho_tick :: nat

definition h_draw :: "(nat \<Rightarrow> 'a) \<Rightarrow> (host, 'a) cio" where
  "h_draw f h = (Inr (f (ho_tick h)), h\<lparr>ho_tick := Suc (ho_tick h)\<rparr>)"

definition h_try :: "hostenv \<Rightarrow> (host, unit) cio" where
  "h_try H = cbind (h_draw (he_fault H)) (\<lambda>x. case x of None \<Rightarrow> cret () | Some e \<Rightarrow> craise (IoError e))"

definition h_get :: "path \<Rightarrow> (host, hnode option) cio" where
  "h_get p h = (Inr (ho_tree h p), h)"

definition h_set :: "path \<Rightarrow> hnode option \<Rightarrow> (host, unit) cio" where
  "h_set p v h = (Inr (), h\<lparr>ho_tree := (ho_tree h)(p := v)\<rparr>)"

definition h_stat :: "hostenv \<Rightarrow> path \<Rightarrow> (host, hnode) cio" where
  "h_stat H p = cbind (h_try H) (\<lambda>_. cbind (h_get p) (\<lambda>v. case v of None \<Rightarrow> craise (IoError NotFound) | Some x \<Rightarrow> cret x))"

section \<open>Probes\<close>

record Probe =
  pr_path :: path
  pr_container :: path
  pr_value :: string
  pr_root :: path
  pr_dir_id :: "u64 \<times> u64"
  pr_file_id :: "u64 \<times> u64"

definition probe_drop :: "hostenv \<Rightarrow> Probe \<Rightarrow> host \<Rightarrow> host" where
  "probe_drop H p h = (case h_stat H (pr_path p) h of
     (Inl _, h') \<Rightarrow> h'
   | (Inr x, h') \<Rightarrow> if hn_id x = pr_file_id p then snd (cbind (h_try H) (\<lambda>_. h_set (pr_path p) None) h') else h')"

definition dropping :: "hostenv \<Rightarrow> Probe list \<Rightarrow> (host, 'a) cio \<Rightarrow> (host, 'a) cio" where
  "dropping H ps m h = (case m h of (r, h') \<Rightarrow> (r, fold (probe_drop H) ps h'))"

definition dropping_failed :: "hostenv \<Rightarrow> Probe list \<Rightarrow> (host, 'a) cio \<Rightarrow> (host, 'a) cio" where
  "dropping_failed H ps m h = (case m h of (Inl e, h') \<Rightarrow> (Inl e, fold (probe_drop H) ps h') | (Inr v, h') \<Rightarrow> (Inr v, h'))"

definition probe_write :: "hostenv \<Rightarrow> Probe \<Rightarrow> (host, Probe) cio" where
  "probe_write H probe =
     cbind (h_try H) (\<lambda>_.
     cbind (h_set (pr_path probe) (Some \<lparr>hn_id = pr_file_id probe, hn_dir = False, hn_data = pr_value probe\<rparr>)) (\<lambda>_.
     cbind (h_try H) (\<lambda>_. cret probe)))"

definition probe_create :: "hostenv \<Rightarrow> path \<times> path \<Rightarrow> (host, Probe) cio" where
  "probe_create H b = (case b of (container, host) \<Rightarrow>
     cbind (h_draw (\<lambda>t. ''.evm-capacity-probe-'' @ he_id H t)) (\<lambda>name.
     cbind (h_stat H host) (\<lambda>metadata.
     let path = host @ [name] in
     cbind (h_try H) (\<lambda>_.
     cbind (h_get path) (\<lambda>old.
     if old \<noteq> None then craise (IoError (OtherIo 17)) else
     cbind (h_draw (he_inode H)) (\<lambda>id'.
     cbind (h_set path (Some \<lparr>hn_id = id', hn_dir = False, hn_data = []\<rparr>)) (\<lambda>_.
     cbind (h_try H) (\<lambda>_.
     cbind (h_draw (he_id H)) (\<lambda>v.
     let probe = \<lparr>pr_path = path, pr_container = container @ [name], pr_value = v, pr_root = host, pr_dir_id = hn_id metadata, pr_file_id = id'\<rparr> in
     dropping_failed H [probe] (probe_write H probe))))))))))"

fun create_probes :: "hostenv \<Rightarrow> Probe list \<Rightarrow> (path \<times> path) list \<Rightarrow> (host, Probe list) cio" where
  "create_probes H probes [] h = cret probes h"
| "create_probes H probes (b # bs) h = (case dropping_failed H probes (probe_create H b) h of
     (Inl e, h') \<Rightarrow> (Inl e, h')
   | (Inr p, h') \<Rightarrow> create_probes H (probes @ [p]) bs h')"

definition probe_verify :: "hostenv \<Rightarrow> (path \<Rightarrow> (host, string) cio) \<Rightarrow> Probe \<Rightarrow> (host, unit) cio" where
  "probe_verify H read p =
     cbind (h_stat H (pr_root p)) (\<lambda>metadata.
     if \<not> (hn_dir metadata \<and> hn_id metadata = pr_dir_id p) then craise (Refused ''host data directory was replaced during measurement'')
     else cbind (read (pr_container p)) (\<lambda>v.
       if v = pr_value p then cret () else craise (Refused ''host directory is not the container's current data mount'')))"

fun verify_probes :: "hostenv \<Rightarrow> (path \<Rightarrow> (host, string) cio) \<Rightarrow> string \<Rightarrow> Probe list \<Rightarrow> (host, unit) cio" where
  "verify_probes H read stage [] h = cret () h"
| "verify_probes H read stage (p # ps) h = cbind (at_stage stage (probe_verify H read p)) (\<lambda>_. verify_probes H read stage ps) h"

section \<open>The measurement\<close>

fun host_free :: "capenv \<Rightarrow> path list \<Rightarrow> u64 \<Rightarrow> (host, u64 \<times> json list) cio" where
  "host_free E [] available = cret (available, [])"
| "host_free E (p # ps) available =
     cbind (at_stage ''host filesystem free space'' (cbind (h_draw (\<lambda>t. ce_free E t p))
       (\<lambda>r. cok (case r of Inl e \<Rightarrow> Inl (IoError e) | Inr v \<Rightarrow> Inr v)))) (\<lambda>free.
     cbind (host_free E ps (min available free)) (\<lambda>(available, ds).
     cret (available, jobj [(''path'', JStr (show_path p)), (''available_bytes'', jnum free)] # ds)))"

definition host_report :: "json \<Rightarrow> u64 \<Rightarrow> path list \<Rightarrow> json list \<Rightarrow> (path \<times> path) list \<Rightarrow> json" where
  "host_report used available rs filesystems bs =
     jobj [(''allocated_bytes'', index used ''allocated_bytes''), (''logical_bytes'', index used ''logical_bytes''), (''files'', index used ''files''),
       (''available_bytes'', jnum available), (''roots'', paths_json rs), (''filesystems'', JArr filesystems),
       (''bindings'', JArr (map (\<lambda>(c, h). jobj [(''container'', JStr (show_path c)), (''host'', JStr (show_path h))]) bs)),
       (''fresh_probes_verified_before_and_after'', JBool True),
       (''scope'', JStr ''Allocated host inode blocks for the complete data roots; symlinks are counted without following and hard links deduplicated. Includes temporary identity-probe files.'')]"

definition host_measure :: "capenv \<Rightarrow> hostenv \<Rightarrow> (path \<Rightarrow> (host, string) cio) \<Rightarrow> (path \<times> path) list \<Rightarrow> Probe list \<Rightarrow> (host, json) cio" where
  "host_measure E H read bs probes =
     cbind (verify_probes H read ''host-bind verification before scan'' probes) (\<lambda>_.
     let all_roots = sorted_list_of_set (set (map snd bs)); rs = roots all_roots in
     cbind (at_stage ''host data-directory scan'' (retry_local (cbind (h_draw (\<lambda>t. usage E t rs True)) cok))) (\<lambda>used.
     cbind (host_free E all_roots u64_max) (\<lambda>(available, filesystems).
     cbind (verify_probes H read ''host-bind verification after scan'' probes) (\<lambda>_.
     cret (host_report used available rs filesystems bs)))))"

definition host_sample :: "capenv \<Rightarrow> hostenv \<Rightarrow> (path \<Rightarrow> (host, string) cio) \<Rightarrow> json \<Rightarrow> path list \<Rightarrow> (host, json) cio" where
  "host_sample E H read info disks =
     cbind (at_stage ''host-bind mapping'' (plain (lift (bindings E info disks)))) (\<lambda>bs.
     cbind (at_stage ''host-bind probe creation'' (create_probes H [] bs)) (\<lambda>probes.
     dropping H probes (host_measure E H read bs probes)))"

section \<open>Every disk and every nested mount is bound\<close>

definition bound :: "capenv \<Rightarrow> path \<Rightarrow> json \<Rightarrow> path \<Rightarrow> bool" where
  "bound E p mount host \<longleftrightarrow> index mount ''Type'' = JStr ''bind'' \<and> ce_is_dir E host \<and>
     (\<exists>d source. mount_destination mount = Inr d \<and> bnd (string_field mount ''Source'') absolute = Inr source \<and> starts_with p d \<and>
        ce_canonical E (source @ drop (length d) p) = Inr host)"

lemma host_path_Inr_iff: "host_path E p = Inr host \<longleftrightarrow> ce_canonical E p = Inr host"
  by (simp add: host_path_def split: sum.split)

lemma add_binding_Inr:
  assumes "add_binding E p mount mapped = Inr mapped'"
  shows "\<exists>host. bound E p mount host \<and> map_of mapped' p = Some host" "map_of mapped \<subseteq>\<^sub>m map_of mapped'" "bt_ok mapped \<Longrightarrow> bt_ok mapped'"
proof -
  from assms obtain d source host where d: "index mount ''Type'' = JStr ''bind''" "mount_destination mount = Inr d" "bnd (string_field mount ''Source'') absolute = Inr source"
      "starts_with p d" "ce_canonical E (source @ drop (length d) p) = Inr host" "ce_is_dir E host" "case map_of mapped p of None \<Rightarrow> True | Some previous \<Rightarrow> previous = host"
      "mapped' = bt_insert p host mapped"
    unfolding add_binding_def bnd_Inr_iff ensure_Inr_iff jstr_eq_def host_path_Inr_iff by blast
  then show "\<exists>host. bound E p mount host \<and> map_of mapped' p = Some host" unfolding bound_def by auto
  show "map_of mapped \<subseteq>\<^sub>m map_of mapped'" using d(7,8) by (auto simp: map_le_def split: option.splits)
  show "bt_ok mapped'" if "bt_ok mapped" using d(8) that by simp
qed

lemma map_le_Some: "M \<subseteq>\<^sub>m M' \<Longrightarrow> M k = Some v \<Longrightarrow> M' k = Some v"
  by (metis domI map_le_def)

lemma bind_nested:
  assumes "fold_res (scan_mount E disk) ms (covering, mapped) = Inr (covering', mapped')"
  shows "map_of mapped \<subseteq>\<^sub>m map_of mapped' \<and> (bt_ok mapped \<longrightarrow> bt_ok mapped') \<and>
    set covering' = set covering \<union> {(Suc (length d), m) | d m. m \<in> set ms \<and> mount_destination m = Inr d \<and> starts_with disk d} \<and>
    (\<forall>m \<in> set ms. \<forall>d. mount_destination m = Inr d \<longrightarrow> \<not> starts_with disk d \<longrightarrow> starts_with d disk \<longrightarrow> (\<exists>host. bound E d m host \<and> map_of mapped' d = Some host))"
  using assms
proof (induction ms arbitrary: covering mapped)
  case (Cons m ms)
  then obtain c1 m1 where s: "scan_mount E disk m (covering, mapped) = Inr (c1, m1)" "fold_res (scan_mount E disk) ms (c1, m1) = Inr (covering', mapped')"
    by (auto simp: bnd_Inr_iff)
  from s(1) obtain d where d: "mount_destination m = Inr d"
      "if starts_with disk d then c1 = covering @ [(Suc (length d), m)] \<and> m1 = mapped
       else c1 = covering \<and> (if starts_with d disk then add_binding E d m mapped = Inr m1 else m1 = mapped)"
    by (auto simp: scan_mount_def bnd_Inr_iff split: if_splits)
  have first: "map_of mapped \<subseteq>\<^sub>m map_of m1 \<and> (bt_ok mapped \<longrightarrow> bt_ok m1) \<and> (\<not> starts_with disk d \<longrightarrow> starts_with d disk \<longrightarrow> (\<exists>host. bound E d m host \<and> map_of m1 d = Some host))"
    using d(2) add_binding_Inr [of E d m mapped m1] by (auto split: if_splits)
  note rest = Cons(1) [OF s(2)]
  have "set c1 = set covering \<union> {(Suc (length d), m) | d'. starts_with disk d}" using d(2) by (auto split: if_splits)
  then have cov: "set covering' = set covering \<union> {(Suc (length d'), m') | d' m'. m' \<in> set (m # ms) \<and> mount_destination m' = Inr d' \<and> starts_with disk d'}"
    using rest d(1) by auto
  have later: "map_of mapped' d = Some host" if "map_of m1 d = Some host" for host
    by (rule map_le_Some [OF conjunct1 [OF rest] that])
  have "map_of mapped \<subseteq>\<^sub>m map_of mapped'" using first rest map_le_trans by blast
  moreover have "\<forall>m' \<in> set (m # ms). \<forall>d'. mount_destination m' = Inr d' \<longrightarrow> \<not> starts_with disk d' \<longrightarrow> starts_with d' disk \<longrightarrow>
      (\<exists>host. bound E d' m' host \<and> map_of mapped' d' = Some host)"
  proof (intro ballI allI impI)
    fix m' d' assume a: "m' \<in> set (m # ms)" "mount_destination m' = Inr d'" "\<not> starts_with disk d'" "starts_with d' disk"
    show "\<exists>host. bound E d' m' host \<and> map_of mapped' d' = Some host"
    proof (cases "m' = m")
      case True
      with a d(1) have "d' = d" by simp
      with first a True later show ?thesis by blast
    next
      case False
      with a rest show ?thesis by simp
    qed
  qed
  ultimately show ?case using cov first rest by blast
qed simp

lemma deepest_Some: "deepest xs = Some m \<Longrightarrow> \<exists>k. (k, m) \<in> set xs \<and> (\<forall>y \<in> set xs. fst y \<le> k)"
proof -
  assume "deepest xs = Some m"
  then obtain x ys where x: "xs = x # ys" "m = snd (fold (\<lambda>y best. if fst best \<le> fst y then y else best) ys x)"
    by (auto simp: deepest_def split: list.splits)
  have "let b = fold (\<lambda>y best. if fst best \<le> fst y then y else best) ys x in b \<in> set (x # ys) \<and> (\<forall>y \<in> set (x # ys). fst y \<le> fst b)"
  proof (induction ys arbitrary: x)
    case (Cons y ys)
    from Cons [of "if fst x \<le> fst y then y else x"] show ?case by (auto simp: Let_def split: if_splits)
  qed simp
  then have "(fst b, m) \<in> set xs \<and> (\<forall>y \<in> set xs. fst y \<le> fst b)" if "b = fold (\<lambda>y best. if fst best \<le> fst y then y else best) ys x" for b
    using x that unfolding Let_def by (cases b) simp
  then show ?thesis by blast
qed

text \<open>How one disk is bound: by the deepest mount that holds it, with every mount nested below it.\<close>

definition disk_bound :: "capenv \<Rightarrow> json list \<Rightarrow> (path, path) btree \<Rightarrow> path \<Rightarrow> bool" where
  "disk_bound E mounts bs disk \<longleftrightarrow>
     (\<exists>m \<in> set mounts. \<exists>d host. mount_destination m = Inr d \<and> bound E disk m host \<and> map_of bs disk = Some host \<and>
        (\<forall>m' \<in> set mounts. \<forall>d'. mount_destination m' = Inr d' \<longrightarrow> starts_with disk d' \<longrightarrow> length d' \<le> length d)) \<and>
     (\<forall>m \<in> set mounts. \<forall>d. mount_destination m = Inr d \<longrightarrow> \<not> starts_with disk d \<longrightarrow> starts_with d disk \<longrightarrow> (\<exists>host. bound E d m host \<and> map_of bs d = Some host))"

lemma disk_bound_mono: "disk_bound E mounts bs disk \<Longrightarrow> map_of bs \<subseteq>\<^sub>m map_of bs' \<Longrightarrow> disk_bound E mounts bs' disk"
  unfolding disk_bound_def using map_le_Some [of "map_of bs" "map_of bs'"] by blast

lemma bind_disk_Inr:
  assumes "bind_disk E mounts disk mapped = Inr mapped'"
  shows "map_of mapped \<subseteq>\<^sub>m map_of mapped'" "bt_ok mapped \<Longrightarrow> bt_ok mapped'" "disk_bound E mounts mapped' disk"
proof -
  from assms obtain covering m1 m where s: "fold_res (scan_mount E disk) mounts ([], mapped) = Inr (covering, m1)" "deepest covering = Some m" "add_binding E disk m m1 = Inr mapped'"
    by (auto simp: bind_disk_def bnd_Inr_iff context_res_Inr_iff)
  note n = bind_nested [OF s(1)] and a = add_binding_Inr [OF s(3)]
  show "map_of mapped \<subseteq>\<^sub>m map_of mapped'" using n a(2) map_le_trans by blast
  show "bt_ok mapped'" if "bt_ok mapped" using n a(3) that by blast
  from n have c: "set covering = {(Suc (length d), m) | d m. m \<in> set mounts \<and> mount_destination m = Inr d \<and> starts_with disk d}" by simp
  from deepest_Some [OF s(2)] obtain k where k: "(k, m) \<in> set covering" "\<forall>y \<in> set covering. fst y \<le> k" by blast
  from k(1) obtain d where d: "k = Suc (length d)" "m \<in> set mounts" "mount_destination m = Inr d" unfolding c by blast
  have "length d' \<le> length d" if "m' \<in> set mounts" "mount_destination m' = Inr d'" "starts_with disk d'" for m' d'
    using k(2) that d(1) unfolding c by fastforce
  then have "\<forall>m' \<in> set mounts. \<forall>d'. mount_destination m' = Inr d' \<longrightarrow> starts_with disk d' \<longrightarrow> length d' \<le> length d" by blast
  moreover have "map_of mapped' p = Some host" if "map_of m1 p = Some host" for p host by (rule map_le_Some [OF a(2) that])
  moreover have "\<forall>m \<in> set mounts. \<forall>d. mount_destination m = Inr d \<longrightarrow> \<not> starts_with disk d \<longrightarrow> starts_with d disk \<longrightarrow> (\<exists>host. bound E d m host \<and> map_of m1 d = Some host)"
    using n by simp
  ultimately show "disk_bound E mounts mapped' disk" using a(1) d(2,3) unfolding disk_bound_def by meson
qed

lemma bindings_bound:
  assumes "bindings E info disks = Inr bs"
  obtains mounts where "as_array (index info ''Mounts'') = Some mounts" "bt_ok bs" "\<forall>disk \<in> set disks. disk_bound E mounts bs disk" "disks \<noteq> []"
proof -
  from assms obtain mounts where m: "as_array (index info ''Mounts'') = Some mounts" "disks \<noteq> []" "fold_res (bind_disk E mounts) disks [] = Inr bs"
    by (auto simp: bindings_def bnd_Inr_iff ensure_Inr_iff context_res_Inr_iff)
  have "map_of M \<subseteq>\<^sub>m map_of M' \<and> (bt_ok M \<longrightarrow> bt_ok M') \<and> (\<forall>disk \<in> set ds. disk_bound E mounts M' disk)"
    if "fold_res (bind_disk E mounts) ds M = Inr M'" for ds M M'
    using that
  proof (induction ds arbitrary: M)
    case (Cons d ds)
    then obtain N where n: "bind_disk E mounts d M = Inr N" "fold_res (bind_disk E mounts) ds N = Inr M'" by (auto simp: bnd_Inr_iff)
    note b = bind_disk_Inr [OF n(1)] and r = Cons(1) [OF n(2)]
    have "disk_bound E mounts M' d" using disk_bound_mono [OF b(3)] r by simp
    with b(1,2) r map_le_trans [of "map_of M" "map_of N" "map_of M'"] show ?case by simp
  qed simp
  from this [OF m(3)] m that show thesis by simp
qed

section \<open>Files of others stay\<close>

definition stays :: "(host \<Rightarrow> bool) \<Rightarrow> (host, 'a) cio \<Rightarrow> bool" where
  "stays P m \<longleftrightarrow> (\<forall>h. P h \<longrightarrow> P (snd (m h)))"

named_theorems staying

lemma stays_cbind [staying]: "stays P m \<Longrightarrow> (\<And>v. stays P (f v)) \<Longrightarrow> stays P (cbind m f)"
  unfolding stays_def cbind_def by (auto split: prod.splits sum.splits)

lemma stays_simple [staying]: "stays P (cret v)" "stays P (craise e)" "stays P (cok r)" "stays P (plain (lift q))" "stays P m \<Longrightarrow> stays P (at_stage st m)"
  by (auto simp: stays_def cret_def craise_def cok_def plain_def lift_def at_stage_def split: sum.splits prod.splits)

lemma stays_retry [staying]: "stays P m \<Longrightarrow> stays P (retry_local m)"
proof -
  assume m: "stays P m"
  have "stays P (retry f m k)" for f k
  proof (induction k)
    case (Suc k)
    with m show ?case by (auto simp: stays_def split: sum.splits prod.splits)
  qed (use m in \<open>simp add: stays_def\<close>)
  then show ?thesis by (simp add: retry_local_def)
qed

abbreviation has :: "path \<Rightarrow> hnode \<Rightarrow> host \<Rightarrow> bool" where
  "has q x h \<equiv> ho_tree h q = Some x"

lemma stays_reads [staying]: "stays (has q x) (h_draw f)" "stays (has q x) (h_try H)" "stays (has q x) (h_get p)" "stays (has q x) (h_stat H p)"
  by (auto simp: stays_def h_draw_def h_try_def h_get_def h_stat_def cbind_def craise_def cret_def split: option.splits)

lemma probe_drop_has: "pr_file_id p \<noteq> hn_id x \<Longrightarrow> has q x h \<Longrightarrow> has q x (probe_drop H p h)"
proof -
  assume i: "pr_file_id p \<noteq> hn_id x" and h: "has q x h"
  obtain r g where s: "h_stat H (pr_path p) h = (r, g)" by fastforce
  have g: "has q x g" using stays_reads(4) [of q x H "pr_path p"] h s by (force simp: stays_def)
  show ?thesis
  proof (cases r)
    case (Inr y)
    have y: "ho_tree g (pr_path p) = Some y" using s Inr by (auto simp: h_stat_def cio_simps h_get_def craise_def split: option.splits)
    have "stays (has q x) (cbind (h_try H) (\<lambda>_. h_set (pr_path p) None))" if "pr_path p \<noteq> q"
      using that by (intro staying) (simp add: stays_def h_set_def)
    moreover have "pr_path p \<noteq> q" if "hn_id y = pr_file_id p" using that i y g by auto
    ultimately have "has q x (snd (cbind (h_try H) (\<lambda>_. h_set (pr_path p) None) g))" if "hn_id y = pr_file_id p" using that g by (auto simp: stays_def)
    with g s Inr show ?thesis by (simp add: probe_drop_def)
  qed (use g s in \<open>simp add: probe_drop_def\<close>)
qed

lemma probes_drop_has: "\<forall>p \<in> set ps. pr_file_id p \<noteq> hn_id x \<Longrightarrow> has q x h \<Longrightarrow> has q x (fold (probe_drop H) ps h)"
  by (induction ps arbitrary: h) (simp_all add: probe_drop_has)

lemma probe_write_has:
  assumes "pr_path p \<noteq> q" "pr_file_id p \<noteq> hn_id x" "has q x h"
  shows "has q x (snd (dropping_failed H [p] (probe_write H p) h))"
proof -
  have "stays (has q x) (probe_write H p)" unfolding probe_write_def using assms(1) by (intro staying) (simp add: stays_def h_set_def)
  with assms(3) have "has q x (snd (probe_write H p h))" by (simp add: stays_def)
  with probe_drop_has [OF assms(2)] show ?thesis by (cases "probe_write H p h"; cases "fst (probe_write H p h)") (auto simp: dropping_failed_def)
qed

lemma cbind_has:
  assumes "stays (has q x) m" "has q x h" "\<And>v h'. m h = (Inr v, h') \<Longrightarrow> has q x h' \<Longrightarrow> has q x (snd (f v h'))"
  shows "has q x (snd (cbind m f h))"
  using assms by (cases "m h"; cases "fst (m h)") (auto simp: cbind_def stays_def)

lemma probe_create_has:
  assumes "\<forall>t. he_inode H t \<noteq> hn_id x" "has q x h"
  shows "has q x (snd (probe_create H b h))"
proof -
  obtain container host where b: "b = (container, host)" by fastforce
  show ?thesis
    unfolding probe_create_def b prod.case Let_def
  proof (intro cbind_has stays_reads assms(2))
    fix name m h1 h2 h3 h4 u old
    assume h: "has q x h4" and g: "h_get (host @ [name]) h3 = (Inr old, h4)"
    let ?path = "host @ [name]"
    show "has q x (snd ((if old \<noteq> None then craise (IoError (OtherIo 17)) else
       cbind (h_draw (he_inode H)) (\<lambda>id'. cbind (h_set ?path (Some \<lparr>hn_id = id', hn_dir = False, hn_data = []\<rparr>)) (\<lambda>_.
       cbind (h_try H) (\<lambda>_. cbind (h_draw (he_id H)) (\<lambda>v.
       dropping_failed H [\<lparr>pr_path = ?path, pr_container = container @ [name], pr_value = v, pr_root = host, pr_dir_id = hn_id m, pr_file_id = id'\<rparr>]
         (probe_write H \<lparr>pr_path = ?path, pr_container = container @ [name], pr_value = v, pr_root = host, pr_dir_id = hn_id m, pr_file_id = id'\<rparr>)))))) h4))"
    proof (cases "old = None")
      case True
      then have n: "?path \<noteq> q" using g h by (auto simp: h_get_def)
      have s: "stays (has q x) (h_set ?path (Some y))" for y using n by (simp add: stays_def h_set_def)
      show ?thesis
        using True apply simp
        apply (rule cbind_has [OF stays_reads(1) h])
        apply (rule cbind_has [OF s], assumption)
        apply (rule cbind_has [OF stays_reads(2)], assumption)
        apply (rule cbind_has [OF stays_reads(1)], assumption)
        apply (rule probe_write_has)
          apply (use n assms(1) in \<open>auto simp: h_draw_def\<close>)
        done
    qed (use h in \<open>simp add: craise_def\<close>)
  qed
qed

lemma probe_create_id:
  assumes "\<forall>t. he_inode H t \<noteq> hn_id x" "probe_create H b h = (Inr p, h')"
  shows "pr_file_id p \<noteq> hn_id x"
proof -
  have w: "q = p'" if "dropping_failed H [q] (probe_write H q) g = (Inr p', g')" for q p' g g'
    using that by (auto simp: dropping_failed_def probe_write_def cio_simps split: prod.splits sum.splits)
  show ?thesis using assms
    by (auto simp: probe_create_def cio_simps Let_def craise_def h_draw_def split: prod.splits if_splits dest!: w)
qed

lemma create_probes_id:
  assumes "\<forall>t. he_inode H t \<noteq> hn_id x"
  shows "\<forall>p \<in> set ps. pr_file_id p \<noteq> hn_id x \<Longrightarrow> create_probes H ps bs h = (Inr probes, h') \<Longrightarrow> \<forall>p \<in> set probes. pr_file_id p \<noteq> hn_id x"
proof (induction bs arbitrary: ps h)
  case (Cons b bs)
  from Cons(3) obtain p g where p: "probe_create H b h = (Inr p, g)" "create_probes H (ps @ [p]) bs g = (Inr probes, h')"
    by (cases "probe_create H b h"; cases "fst (probe_create H b h)") (auto simp: dropping_failed_def)
  from Cons(1) [OF _ p(2)] probe_create_id [OF assms p(1)] Cons(2) show ?case by simp
qed (simp add: cret_def)

lemma create_probes_has:
  assumes "\<forall>t. he_inode H t \<noteq> hn_id x"
  shows "has q x h \<Longrightarrow> \<forall>p \<in> set ps. pr_file_id p \<noteq> hn_id x \<Longrightarrow> has q x (snd (create_probes H ps bs h))"
proof (induction bs arbitrary: ps h)
  case (Cons b bs)
  obtain c g where c: "probe_create H b h = (c, g)" by fastforce
  have g: "has q x g" using probe_create_has [OF assms Cons(2), of b] c by simp
  show ?case
  proof (cases c)
    case (Inl e)
    with c probes_drop_has [OF Cons(3) g] show ?thesis by (simp add: dropping_failed_def)
  next
    case (Inr p)
    with Cons(1) [OF g, of "ps @ [p]"] probe_create_id [OF assms c [unfolded Inr]] Cons(3) c show ?thesis by (simp add: dropping_failed_def)
  qed
qed (simp add: cret_def)

lemma stays_verify:
  assumes "\<forall>p g. has q x g \<longrightarrow> has q x (snd (read p g))"
  shows "stays (has q x) (verify_probes H read st ps)"
proof -
  have r: "stays (has q x) (read p)" for p using assms by (simp add: stays_def)
  have v: "stays (has q x) (probe_verify H read p)" for p
    unfolding probe_verify_def by (intro stays_cbind stays_reads) (auto intro!: staying r)
  show ?thesis
  proof (induction ps)
    case (Cons p ps)
    have "verify_probes H read st (p # ps) = cbind (at_stage st (probe_verify H read p)) (\<lambda>_. verify_probes H read st ps)" by (rule ext) simp
    with Cons v show ?case by (auto intro: staying)
  qed (simp add: stays_def cret_def)
qed

lemma stays_free: "stays (has q x) (host_free E ps available)"
  by (induction ps arbitrary: available) (auto intro!: staying split: prod.split)

lemma stays_measure:
  assumes "\<forall>p g. has q x g \<longrightarrow> has q x (snd (read p g))"
  shows "stays (has q x) (host_measure E H read bs probes)"
  unfolding host_measure_def Let_def by (intro staying stays_verify [OF assms] stays_free) (auto intro!: staying stays_verify [OF assms] split: prod.split)

lemma retry_Inr: "retry f m k h = (Inr v, h') \<Longrightarrow> \<exists>g. m g = (Inr v, h')"
  by (induction f m k h rule: retry.induct) (auto split: prod.splits sum.splits if_splits)

lemma host_measure_Inr:
  assumes "host_measure E H read bs probes h = (Inr v, h')"
  shows "\<exists>t used. usage E t (roots (sorted_list_of_set (set (map snd bs)))) True = Inr used \<and> index v ''allocated_bytes'' = index used ''allocated_bytes''"
proof -
  let ?rs = "roots (sorted_list_of_set (set (map snd bs)))"
  obtain used g g' a fs where u: "retry_local (cbind (h_draw (\<lambda>t. usage E t ?rs True)) cok) g = (Inr used, g')" "v = host_report used a ?rs fs bs"
    using assms unfolding host_measure_def Let_def by (auto simp: cio_simps)
  from retry_Inr [OF u(1) [unfolded retry_local_def]] obtain g1 where "cbind (h_draw (\<lambda>t. usage E t ?rs True)) cok g1 = (Inr used, g')" by blast
  then have "usage E (ho_tick g1) ?rs True = Inr used" by (simp add: cio_simps h_draw_def)
  moreover have "index v ''allocated_bytes'' = index used ''allocated_bytes''" by (simp add: u(2) host_report_def index_jobj)
  ultimately show ?thesis by blast
qed

lemma dropping_Inr: "dropping H ps m h = (Inr v, h') \<longleftrightarrow> (\<exists>g. m h = (Inr v, g) \<and> h' = fold (probe_drop H) ps g)"
  by (cases "m h") (auto simp: dropping_def)

text \<open>The states between the probes and their removal.\<close>

definition measured_on :: "capenv \<Rightarrow> hostenv \<Rightarrow> (path \<Rightarrow> (host, string) cio) \<Rightarrow> json \<Rightarrow> path list \<Rightarrow> host \<Rightarrow> host \<Rightarrow> bool" where
  "measured_on E H read info disks h g \<longleftrightarrow> (\<exists>bs probes h1. bindings E info disks = Inr bs \<and> create_probes H [] bs h = (Inr probes, h1) \<and>
     g = snd (host_measure E H read bs probes h1))"

lemma host_sample_stages:
  assumes "host_sample E H read info disks h = (r, h')"
  obtains (mapping) e where "bindings E info disks = Inl e" "h' = h"
  | (creating) bs where "bindings E info disks = Inr bs" "h' = snd (create_probes H [] bs h)" "\<forall>probes. fst (create_probes H [] bs h) \<noteq> Inr probes"
  | (measuring) bs probes h1 g where "bindings E info disks = Inr bs" "create_probes H [] bs h = (Inr probes, h1)" "host_measure E H read bs probes h1 = (r, g)" "h' = fold (probe_drop H) probes g"
proof (cases "bindings E info disks")
  case (Inl e)
  with assms mapping [of e] show ?thesis by (auto simp: host_sample_def cbind_def at_stage_def plain_def lift_def)
next
  case b: (Inr bs)
  obtain c h1 where c: "create_probes H [] bs h = (c, h1)" by fastforce
  show ?thesis
  proof (cases c)
    case (Inl e)
    with b c assms have "h' = h1" by (auto simp: host_sample_def cbind_def at_stage_def plain_def lift_def split: prod.splits)
    with b c Inl creating [of bs] show ?thesis by simp
  next
    case (Inr probes)
    with b c assms have "dropping H probes (host_measure E H read bs probes) h1 = (r, h')" by (simp add: host_sample_def cbind_def at_stage_def plain_def lift_def)
    with b c Inr measuring [of bs probes h1] show ?thesis by (auto simp: dropping_def split: prod.splits)
  qed
qed

text \<open>
  C36: However a measurement on the host ends, a file that was there before it stays as it is, unless the
  container changes it, and so does a file that has come to be there during the measurement, also at the
  name of a probe: only the probes are removed, by their identity.  When the measurement succeeds,
  every data disk is bound to the host directory of the deepest mount that holds it and so is every
  mount nested below a disk, all of them directory bind mounts, each of these directories lies below
  one of the measured roots, and the reported bytes are those of these roots.
\<close>

theorem host_sample_safe:
  assumes "\<forall>t. he_inode H t \<noteq> hn_id x" "ho_tree h q = Some x \<or> (\<exists>g. measured_on E H read info disks h g \<and> ho_tree g q = Some x)"
    and "\<forall>p g. ho_tree g q = Some x \<longrightarrow> ho_tree (snd (read p g)) q = Some x"
    and "host_sample E H read info disks h = (r, h')"
  shows "ho_tree h' q = Some x \<and>
    (\<forall>v. r = Inr v \<longrightarrow> (\<exists>mounts bs t used. as_array (index info ''Mounts'') = Some mounts \<and> bindings E info disks = Inr bs \<and>
       (\<forall>disk \<in> set disks. disk_bound E mounts bs disk) \<and>
       (\<forall>b \<in> set bs. \<exists>root \<in> set (roots (sorted_list_of_set (set (map snd bs)))). starts_with (snd b) root) \<and>
       usage E t (roots (sorted_list_of_set (set (map snd bs)))) True = Inr used \<and> index v ''allocated_bytes'' = index used ''allocated_bytes''))"
proof
  show "ho_tree h' q = Some x"
    using assms(4)
  proof (cases rule: host_sample_stages)
    case mapping
    with assms(2) show ?thesis by (auto simp: measured_on_def)
  next
    case (creating bs)
    with assms(2) have "has q x h" by (auto simp: measured_on_def)
    with create_probes_has [OF assms(1), where q = q and h = h and ps = "[]" and bs = bs] creating(2) show ?thesis by simp
  next
    case (measuring bs probes h1 g)
    have "has q x g"
    proof (cases "has q x h")
      case True
      from create_probes_has [OF assms(1) True, of "[]" bs] measuring(2) have "has q x h1" by simp
      then have "has q x (snd (host_measure E H read bs probes h1))" using stays_measure [OF assms(3)] by (simp add: stays_def)
      with measuring(3) show ?thesis by simp
    next
      case False
      with assms(2) measuring show ?thesis by (auto simp: measured_on_def)
    qed
    with probes_drop_has create_probes_id [OF assms(1) _ measuring(2)] measuring(4) show ?thesis by fastforce
  qed
  show "\<forall>v. r = Inr v \<longrightarrow> (\<exists>mounts bs t used. as_array (index info ''Mounts'') = Some mounts \<and> bindings E info disks = Inr bs \<and>
       (\<forall>disk \<in> set disks. disk_bound E mounts bs disk) \<and>
       (\<forall>b \<in> set bs. \<exists>root \<in> set (roots (sorted_list_of_set (set (map snd bs)))). starts_with (snd b) root) \<and>
       usage E t (roots (sorted_list_of_set (set (map snd bs)))) True = Inr used \<and> index v ''allocated_bytes'' = index used ''allocated_bytes'')"
  proof (intro allI impI)
    fix v assume "r = Inr v"
    with assms(4) obtain bs probes g g' where d: "bindings E info disks = Inr bs" "host_measure E H read bs probes g = (Inr v, g')"
      by (auto simp: host_sample_def cio_simps dropping_Inr)
    from bindings_bound [OF d(1)] obtain mounts where m: "as_array (index info ''Mounts'') = Some mounts" "\<forall>disk \<in> set disks. disk_bound E mounts bs disk" by blast
    let ?all = "sorted_list_of_set (set (map snd bs))"
    have "\<forall>b \<in> set bs. \<exists>root \<in> set (roots ?all). starts_with (snd b) root"
    proof
      fix b assume "b \<in> set bs"
      then have "snd b \<in> set ?all" by simp
      with roots_partition [of ?all] show "\<exists>root \<in> set (roots ?all). starts_with (snd b) root" by blast
    qed
    with m d(1) host_measure_Inr [OF d(2)] show "\<exists>mounts bs t used. as_array (index info ''Mounts'') = Some mounts \<and> bindings E info disks = Inr bs \<and>
       (\<forall>disk \<in> set disks. disk_bound E mounts bs disk) \<and>
       (\<forall>b \<in> set bs. \<exists>root \<in> set (roots (sorted_list_of_set (set (map snd bs)))). starts_with (snd b) root) \<and>
       usage E t (roots (sorted_list_of_set (set (map snd bs)))) True = Inr used \<and> index v ''allocated_bytes'' = index used ''allocated_bytes''" by blast
  qed
qed

section \<open>A concrete measurement\<close>

definition ex_info :: json where
  "ex_info = JObj [(''Mounts'', JArr [JObj [(''Destination'', JStr ''/c''), (''Source'', JStr ''/h''), (''Type'', JStr ''bind'')]])]"

definition ex_host_cap :: capenv where
  "ex_host_cap = ex_capenv\<lparr>ce_free := \<lambda>_ _. Inr 7\<rparr>"

definition ex_hostenv :: hostenv where
  "ex_hostenv = \<lparr>he_fault = \<lambda>_. None, he_inode = \<lambda>_. (1, 9), he_id = \<lambda>_. ''i''\<rparr>"

definition ex_host :: host where
  "ex_host = \<lparr>ho_tree = [[''h''] \<mapsto> \<lparr>hn_id = (1, 2), hn_dir = True, hn_data = []\<rparr>, [''h'', ''f''] \<mapsto> \<lparr>hn_id = (1, 3), hn_dir = False, hn_data = ''x''\<rparr>], ho_tick = 0\<rparr>"

text \<open>The container sees the host directory.\<close>

definition ex_container_read :: "path \<Rightarrow> (host, string) cio" where
  "ex_container_read p h = (case ho_tree h (''h'' # tl p) of None \<Rightarrow> craise (Refused ''no such file'') h | Some y \<Rightarrow> cret (hn_data y) h)"

lemma ex_bindings: "bindings ex_host_cap ex_info [[''c'']] = Inr [([''c''], [''h''])]"
proof -
  let ?m = "JObj [(''Destination'', JStr ''/c''), (''Source'', JStr ''/h''), (''Type'', JStr ''bind'')]"
  have a: "absolute ''/c'' = Inr [''c'']" "absolute ''/h'' = Inr [''h'']" by (simp_all add: absolute_def path_components_def is_absolute_def normal_path_def)
  have d: "mount_destination ?m = Inr [''c'']" "bnd (string_field ?m ''Source'') absolute = Inr [''h'']" by (simp_all add: mount_destination_def string_field_def a)
  have b: "add_binding ex_host_cap [''c''] ?m [] = Inr [([''c''], [''h''])]"
    by (simp add: add_binding_def d [simplified] jstr_eq_def index_def starts_with_def host_path_def ex_host_cap_def ex_capenv_def)
  show ?thesis
    by (simp add: bindings_def ex_info_def index_def as_array_def new_destination_def d [simplified] bind_disk_def scan_mount_def starts_with_def deepest_def b [simplified])
qed

lemma ex_host_usage: "\<exists>used. usage ex_host_cap t [[''h'']] True = Inr used"
  by (simp add: usage_def ex_host_cap_def ex_capenv_def roots_def sort_key_def visit_def ex_dir_def ex_file_def no_stats_def checked_mul_def checked_add_def)

lemma ex_try: "h_try ex_hostenv h = (Inr (), h\<lparr>ho_tick := Suc (ho_tick h)\<rparr>)"
  by (simp add: h_try_def cbind_def h_draw_def ex_hostenv_def cret_def)

lemma ex_stat: "ho_tree h p = Some y \<Longrightarrow> h_stat ex_hostenv p h = (Inr y, h\<lparr>ho_tick := Suc (ho_tick h)\<rparr>)"
  by (simp add: h_stat_def cbind_def ex_try h_get_def cret_def)

definition ex_probe :: Probe where
  "ex_probe = \<lparr>pr_path = [''h'', ''.evm-capacity-probe-i''], pr_container = [''c'', ''.evm-capacity-probe-i''], pr_value = ''i'', pr_root = [''h''], pr_dir_id = (1, 2), pr_file_id = (1, 9)\<rparr>"

definition probed :: "host \<Rightarrow> bool" where
  "probed h \<longleftrightarrow> ho_tree h = (ho_tree ex_host)(pr_path ex_probe \<mapsto> \<lparr>hn_id = (1, 9), hn_dir = False, hn_data = ''i''\<rparr>)"

lemma ex_create: "\<exists>h. create_probes ex_hostenv [] [([''c''], [''h''])] ex_host = (Inr [ex_probe], h) \<and> probed h"
proof -
  let ?m = "\<lparr>hn_id = (1, 2), hn_dir = True, hn_data = []\<rparr>"
  have "ho_tree (ex_host\<lparr>ho_tick := k\<rparr>) [''h''] = Some ?m" for k by (simp add: ex_host_def)
  from ex_stat [OF this] have st: "h_stat ex_hostenv [''h''] (ex_host\<lparr>ho_tick := k\<rparr>) = (Inr ?m, ex_host\<lparr>ho_tick := Suc k\<rparr>)" for k by simp
  have e: "he_inode ex_hostenv t = (1, 9)" "he_id ex_hostenv t = ''i''" for t by (simp_all add: ex_hostenv_def)
  have f: "ho_tree ex_host [''h'', ''.evm-capacity-probe-i''] = None" by (simp add: ex_host_def)
  show ?thesis
    by (simp add: dropping_failed_def probe_create_def cbind_def h_draw_def e st ex_try h_get_def f h_set_def probe_write_def Let_def cret_def ex_probe_def probed_def)
qed

lemma ex_verify: "probed h \<Longrightarrow> \<exists>h'. verify_probes ex_hostenv ex_container_read st [ex_probe] h = (Inr (), h') \<and> probed h'"
proof -
  assume p: "probed h"
  have "ho_tree h [''h''] = Some \<lparr>hn_id = (1, 2), hn_dir = True, hn_data = []\<rparr>" using p by (simp add: probed_def ex_host_def ex_probe_def)
  from ex_stat [OF this] p show ?thesis
    by (simp add: probe_verify_def cbind_def at_stage_def ex_probe_def ex_container_read_def probed_def cret_def)
qed

lemma ex_measure: "probed h \<Longrightarrow> \<exists>v h'. host_measure ex_host_cap ex_hostenv ex_container_read [([''c''], [''h''])] [ex_probe] h = (Inr v, h')"
proof -
  assume p: "probed h"
  have t: "probed (g\<lparr>ho_tick := k\<rparr>) = probed g" for g k by (simp add: probed_def)
  have r: "roots [[''h'']] = [[''h'']]" by (simp add: roots_def sort_key_def)
  obtain h1 where h1: "verify_probes ex_hostenv ex_container_read ''host-bind verification before scan'' [ex_probe] h = (Inr (), h1)" "probed h1" using ex_verify [OF p] by blast
  obtain used where u: "usage ex_host_cap (ho_tick h1) [[''h'']] True = Inr used" using ex_host_usage by blast
  have s: "retry_local (cbind (h_draw (\<lambda>t. usage ex_host_cap t [[''h'']] True)) cok) h1 = (Inr used, h1\<lparr>ho_tick := Suc (ho_tick h1)\<rparr>)"
    by (simp add: retry_local_def numeral_eq_Suc cbind_def h_draw_def u cok_def)
  obtain a fs where f: "host_free ex_host_cap [[''h'']] u64_max (h1\<lparr>ho_tick := Suc (ho_tick h1)\<rparr>) = (Inr (a, fs), h1\<lparr>ho_tick := Suc (Suc (ho_tick h1))\<rparr>)"
    by (simp add: cbind_def h_draw_def at_stage_def cok_def cret_def ex_host_cap_def)
  obtain h2 where h2: "verify_probes ex_hostenv ex_container_read ''host-bind verification after scan'' [ex_probe] (h1\<lparr>ho_tick := Suc (Suc (ho_tick h1))\<rparr>) = (Inr (), h2)"
    using ex_verify t h1(2) by blast
  show ?thesis
    by (simp add: host_measure_def cbind_def h1(1) r Let_def at_stage_def s f h2 cret_def del: host_free.simps verify_probes.simps)
qed

theorem host_sample_safe_witness:
  "\<exists>v h' used. host_sample ex_host_cap ex_hostenv ex_container_read ex_info [[''c'']] ex_host = (Inr v, h') \<and>
     ho_tree h' [''h'', ''f''] = Some \<lparr>hn_id = (1, 3), hn_dir = False, hn_data = ''x''\<rparr> \<and>
     usage ex_host_cap 0 [[''h'']] True = Inr used \<and> index v ''allocated_bytes'' = index used ''allocated_bytes''"
proof -
  let ?x = "\<lparr>hn_id = (1, 3), hn_dir = False, hn_data = ''x''\<rparr>"
  obtain h where h: "create_probes ex_hostenv [] [([''c''], [''h''])] ex_host = (Inr [ex_probe], h)" "probed h" using ex_create by blast
  obtain v h2 where m: "host_measure ex_host_cap ex_hostenv ex_container_read [([''c''], [''h''])] [ex_probe] h = (Inr v, h2)" using ex_measure [OF h(2)] by blast
  have run: "\<exists>h'. host_sample ex_host_cap ex_hostenv ex_container_read ex_info [[''c'']] ex_host = (Inr v, h')"
    by (simp add: host_sample_def cbind_def at_stage_def plain_def lift_def ex_bindings h(1) dropping_def m del: create_probes.simps)
  then obtain h' where r: "host_sample ex_host_cap ex_hostenv ex_container_read ex_info [[''c'']] ex_host = (Inr v, h')" by blast
  have a: "\<forall>t. he_inode ex_hostenv t \<noteq> hn_id ?x"
    "ho_tree ex_host [''h'', ''f''] = Some ?x \<or> (\<exists>g. measured_on ex_host_cap ex_hostenv ex_container_read ex_info [[''c'']] ex_host g \<and> ho_tree g [''h'', ''f''] = Some ?x)"
    "\<forall>p g. ho_tree g [''h'', ''f''] = Some ?x \<longrightarrow> ho_tree (snd (ex_container_read p g)) [''h'', ''f''] = Some ?x"
    by (simp_all add: ex_hostenv_def ex_host_def ex_container_read_def craise_def cret_def split: option.split)
  have rs: "roots [[''h'']] = [[''h'']]" by (simp add: roots_def sort_key_def)
  from host_sample_safe [OF a r] obtain t used where "ho_tree h' [''h'', ''f''] = Some ?x" "usage ex_host_cap t [[''h'']] True = Inr used" "index v ''allocated_bytes'' = index used ''allocated_bytes''"
    by (auto simp: ex_bindings rs)
  moreover from this(2) have "usage ex_host_cap 0 [[''h'']] True = Inr used" by (simp add: usage_def ex_host_cap_def ex_capenv_def)
  ultimately show ?thesis using r by blast
qed

end
