(* ===== verification/Synthetic.thy ===== *)
theory Synthetic
  imports Rpc Cursor
begin

text \<open>
  Fabricated qualification inputs, \<open>crates/evm-state/src/synthetic.rs\<close>: bundles with a header and
  account proofs of given accounts, rows of a native source and their insertion.  They show that the
  verification accepts what it should: every fabricated bundle passes it.  The trie builder's proof
  nodes are a parameter.
\<close>

section \<open>Accounts\<close>

record SynthAccount =
  sy_slots :: "(bytes, nat) btree"
  sy_nonce :: u64
  sy_balance :: nat
  sy_code :: bytes
  sy_exists :: bool

definition synth_default :: SynthAccount where
  "synth_default = \<lparr>sy_slots = [], sy_nonce = 1, sy_balance = 25, sy_code = [0x60, 0, 0x60, 0], sy_exists = True\<rparr>"

definition synth_word :: "u64 \<Rightarrow> bytes" where
  "synth_word n = replicate (32 - length (be_bytes (unat n))) 0 @ be_bytes (unat n)"

definition synth_storage_root :: "'x evmlib_scheme \<Rightarrow> (bytes, nat) btree \<Rightarrow> bytes" where
  "synth_storage_root X slots =
     (let ordered = bt_of_list (map (\<lambda>(slot, v). (keccak256 X slot, v)) (filter (\<lambda>(_, v). v \<noteq> 0) slots)) in
      trie_root X (map (\<lambda>(k, v). (k, rlp_uint X v)) ordered))"

section \<open>Bundles\<close>

record synth_parts =
  sp_metadata :: "(string, json) btree"
  sp_leaves :: "(bytes, bytes) btree"
  sp_targets :: "bytes list"

definition synth_fields :: "'x evmlib_scheme \<Rightarrow> SynthAccount \<Rightarrow> json" where
  "synth_fields X data =
     jobj [(''nonce'', JStr (''0x'' @ show_hex (unat (sy_nonce data)))), (''balance'', JStr (''0x'' @ show_hex (sy_balance data))),
       (''storageHash'', JStr (b256_lower_hex X (synth_storage_root X (sy_slots data)))), (''codeHash'', JStr (b256_lower_hex X (keccak256 X (sy_code data))))]"

definition synth_leaf :: "'x evmlib_scheme \<Rightarrow> SynthAccount \<Rightarrow> bytes" where
  "synth_leaf X data = account_rlp X (unat (sy_nonce data)) (sy_balance data) (synth_storage_root X (sy_slots data)) (keccak256 X (sy_code data))"

definition synth_account :: "'x evmlib_scheme \<Rightarrow> string \<times> SynthAccount \<Rightarrow> synth_parts \<Rightarrow> synth_parts res" where
  "synth_account X ad s = (case ad of (a, data) \<Rightarrow>
     bnd (address X a) (\<lambda>normalized.
     ensure (normalized = a) ''synthetic account keys must be canonical''
     (bnd (fixed X 20 normalized) (\<lambda>raw.
      let key = keccak256 X raw in
      ensure (sy_exists data \<or> sy_nonce data = 0 \<and> sy_balance data = 0 \<and> sy_code data = [] \<and> sy_slots data = []) ''absent synthetic account has nonempty state''
      (Inr \<lparr>sp_metadata = bt_insert normalized (synth_fields X data) (sp_metadata s),
        sp_leaves = (if sy_exists data then bt_insert key (synth_leaf X data) (sp_leaves s) else sp_leaves s),
        sp_targets = sp_targets s @ [key]\<rparr>)))))"

definition synth_header :: "'x evmlib_scheme \<Rightarrow> bytes \<Rightarrow> bytes \<Rightarrow> u64 \<Rightarrow> u64 \<Rightarrow> bytes" where
  "synth_header X parent state_root number timestamp =
     rlp_list X [rlp_bytes X parent, rlp_bytes X (keccak256 X [0xc0]), rlp_bytes X (replicate 20 0), rlp_bytes X state_root,
       rlp_bytes X (EMPTY_ROOT_HASH X), rlp_bytes X (EMPTY_ROOT_HASH X), rlp_bytes X (replicate 256 0), rlp_uint X 0, rlp_uint X (unat number),
       rlp_uint X 30000000, rlp_uint X 0, rlp_uint X (unat timestamp), rlp_bytes X [], rlp_bytes X (replicate 32 0), rlp_bytes X (replicate 8 0)]"

definition synth_entry :: "'x evmlib_scheme \<Rightarrow> (bytes \<Rightarrow> bytes list) \<Rightarrow> synth_parts \<Rightarrow> string \<times> SynthAccount \<Rightarrow> json \<Rightarrow> json res" where
  "synth_entry X nodes s ad result = (case ad of (a, data) \<Rightarrow>
     let fields = jset (case map_of (sp_metadata s) a of Some v \<Rightarrow> v | None \<Rightarrow> JNull) ''address'' (JStr a) in
     bnd (fixed X 20 a) (\<lambda>raw.
     let fields = jset fields ''accountProof'' (JArr (map (\<lambda>node. JStr (''0x'' @ hex_encode X node)) (nodes (keccak256 X raw)))) in
     Inr (jset result ''accounts'' (jset (index result ''accounts'') a
       (jobj [(''code'', JStr (''0x'' @ hex_encode X (sy_code data))), (''proof'', fields)])))))"

definition synth_bundle :: "'x evmlib_scheme \<Rightarrow> ((bytes \<times> bytes) list \<Rightarrow> bytes list \<Rightarrow> bytes \<Rightarrow> bytes list) \<Rightarrow> u64 \<Rightarrow> (string, SynthAccount) btree \<Rightarrow> string option \<Rightarrow> json res" where
  "synth_bundle X nodes number accounts parent =
     ensure (accounts \<noteq> []) ''synthetic bundle needs accounts''
     (bnd (fold_res (synth_account X) accounts \<lparr>sp_metadata = [], sp_leaves = [], sp_targets = []\<rparr>) (\<lambda>s.
      let state_root = trie_root X (sp_leaves s) in
      bnd (case parent of None \<Rightarrow> Inr (synth_word (saturating_sub number 1)) | Some p \<Rightarrow> fixed X 32 p) (\<lambda>parent.
      bnd (context_res (checked_add 1700000000 number) ''synthetic timestamp overflow'') (\<lambda>timestamp.
      let encoded = synth_header X parent state_root number timestamp; hash = keccak256 X encoded in
      fold_res (synth_entry X (nodes (sp_leaves s) (sp_targets s)) s) accounts
        (jobj [(''format_version'', JNum ''1''), (''chain_id'', JNum ''56''),
          (''header'', jobj [(''number'', jnum number), (''hash'', JStr (b256_lower_hex X hash)), (''parent_hash'', JStr (''0x'' @ hex_encode X parent)),
            (''state_root'', JStr (b256_lower_hex X state_root)), (''timestamp'', jnum timestamp)]),
          (''header_rlp'', JStr (''0x'' @ hex_encode X encoded)), (''header_trust'', JStr ''operator-pinned-hash''), (''accounts'', JObj [])])))))"

section \<open>Rows of a native source\<close>

definition synth_groups :: "(string \<times> string list) list" where
  "synth_groups = [(''storage'', [''address'', ''slot'', ''value'', ''ordinal'']), (''balances'', [''address'', ''value'', ''ordinal'']),
     (''nonces'', [''address'', ''value'', ''ordinal'']), (''codes'', [''address'', ''hash'', ''code'', ''ordinal'']), (''lifecycle'', [''address'', ''kind'', ''ordinal''])]"

definition push_value :: "string \<times> json \<Rightarrow> json \<Rightarrow> json res" where
  "push_value fv row = (case as_array (index row (fst fv)) of None \<Rightarrow> Inl ''panic'' | Some vs \<Rightarrow> Inr (jset row (fst fv) (JArr (vs @ [snd fv]))))"

definition synth_patch :: "'x evmlib_scheme \<Rightarrow> (string, json) btree \<Rightarrow> nat \<times> string \<times> bytes \<times> nat \<Rightarrow> json \<Rightarrow> json res" where
  "synth_patch X accounts patch row = (case patch of (i, a, slot, v) \<Rightarrow>
     ensure (map_of accounts a \<noteq> None) ''synthetic patch outside account filter''
     (fold_res push_value [(''storage.address'', JStr a), (''storage.slot'', JStr (b256_lower_hex X slot)),
       (''storage.value'', JStr (''0x'' @ hex_encode X (replicate (32 - length (be_bytes v)) 0 @ be_bytes v))), (''storage.ordinal'', JNum (show_nat (Suc i)))] row))"

definition synth_metadata :: "'x evmlib_scheme \<Rightarrow> string \<times> json \<Rightarrow> json \<Rightarrow> json res" where
  "synth_metadata X ad row = (case ad of (a, data) \<Rightarrow>
     let p = index data ''proof'' in
     bnd (bnd (string_field p ''balance'') (\<lambda>t. quantity X t 256)) (\<lambda>balance.
     bnd (bnd (string_field p ''nonce'') (\<lambda>t. quantity X t 64)) (\<lambda>nonce.
     fold_res push_value [(''balances.address'', JStr a), (''balances.value'', JStr (u256_to_string X balance)), (''balances.ordinal'', JNum ''10''),
       (''nonces.address'', JStr a), (''nonces.value'', jnum (of_nat nonce)), (''nonces.ordinal'', JNum ''10''),
       (''codes.address'', JStr a), (''codes.hash'', index p ''codeHash''), (''codes.code'', index data ''code''), (''codes.ordinal'', JNum ''20'')] row)))"

definition synth_block :: "'x evmlib_scheme \<Rightarrow> json \<Rightarrow> (string \<times> bytes \<times> nat) list \<Rightarrow> bool \<Rightarrow> json res" where
  "synth_block X b patches with_metadata =
     (let number = index (index b ''header'') ''number'' in
      bnd (context_res (as_object (index b ''accounts'')) ''invalid synthetic accounts'') (\<lambda>accounts.
      let row = fold (\<lambda>(f, v) row. jset row f v)
            ([(''accounts'', JStr (join '','' (map fst accounts))), (''schema_version'', JNum ''1''), (''producer_version'', JNum ''5''),
              (''_block_number_'', number), (''_block_timestamp_'', index (index b ''header'') ''timestamp''), (''_version_'', number), (''_deleted_'', JBool False)] @
             concat (map (\<lambda>(g, fs). map (\<lambda>f. (g @ ''.'' @ f, JArr [])) fs) synth_groups)) (index b ''header'') in
      bnd (fold_res (synth_patch X accounts) (enumerate 0 patches) row) (\<lambda>row.
      if with_metadata then fold_res (synth_metadata X) accounts row else Inr row)))"

section \<open>Insertion\<close>

fun trim_0x :: "string \<Rightarrow> string" where
  "trim_0x (a # b # s) = (if a = CHR ''0'' \<and> b = CHR ''x'' then trim_0x s else a # b # s)"
| "trim_0x s = s"

definition synth_marker :: "json \<Rightarrow> json res" where
  "synth_marker r = (case as_str (index r ''hash'') of None \<Rightarrow> Inl ''panic'' | Some h \<Rightarrow>
     Inr (jobj [(''number'', index r ''number''), (''hash'', JStr (trim_0x h)), (''timestamp'', index r ''timestamp''), (''version'', index r ''number''), (''deleted'', JBool False)]))"

definition synth_insert :: "('w, 'x) nodelib_scheme \<Rightarrow> ClickHouse \<Rightarrow> string \<Rightarrow> json list \<Rightarrow> ('w node, unit) io" where
  "synth_insert L client directory rs =
     bind (check (rs \<noteq> []) ''synthetic insertion needs rows'') (\<lambda>_.
     holding L (path_join directory ''run.lock'') True
      (bind (on_fs (read_json L (path_join directory ''run.json''))) (\<lambda>run.
       bind (check (jstr_eq (index (index run ''identity'') ''database'') (ch_database client)) ''synthetic source identity differs'') (\<lambda>_.
       bind (on_db (insert_values L client ''state_blocks'' rs)) (\<lambda>_.
       bind (on_db (ch_insert L client ''_blocks_'' (map synth_marker rs) 1000)) (\<lambda>_.
       bind (lift (uint (index (List.last rs) ''number''))) (\<lambda>n.
       bind (lift (string_field (List.last rs) ''hash'')) (\<lambda>h.
       let hash = trim_0x h; t = show_u64 n in
       bind (lift (encode_public L (''c2:1:'' @ t @ '':'' @ hash @ '':'' @ t @ '':'' @ hash))) (\<lambda>token.
       bind (on_fs (atomic_write (fs_temp L directory) (Some directory) (path_join directory ''cursor.txt'') token True)) (\<lambda>_.
       bind (save_progress L client run directory token) (\<lambda>_. ret ())))))))))))"

section \<open>Hexadecimal numbers\<close>

lemma show_hex_digits: "show_hex n \<noteq> []" "list_all is_hexdigit (show_hex n)"
proof (induction n rule: show_hex.induct)
  case (1 n)
  have "is_hexdigit (hex_digit (n mod 16))" using is_lower_hex_hex_digit [of "n mod 16"] by (simp add: is_hexdigit_def)
  moreover have "n < 16 \<Longrightarrow> n mod 16 = n" by simp
  ultimately show "show_hex n \<noteq> []" "list_all is_hexdigit (show_hex n)" using 1 by (subst show_hex.simps, cases "n < 16", simp_all)+
qed

lemma hex_val_snoc: "d < 16 \<Longrightarrow> hex_val (s @ [hex_digit d]) = 16 * hex_val s + d"
proof -
  assume d: "d < 16"
  have "to_ascii_lowercase (hex_digit d) = hex_digit d" using is_lower_hex_hex_digit [OF d] by (rule to_lower_id)
  then have "ref_nibble (hex_digit d) = Some d" using d by (simp add: ref_nibble_iff)
  then show ?thesis by (simp add: hex_val_def)
qed

lemma hex_val_show: "hex_val (show_hex n) = n"
proof (induction n rule: show_hex.induct)
  case (1 n)
  show ?case
  proof (cases "n < 16")
    case True
    then show ?thesis using hex_val_snoc [of n "[]"] by (subst show_hex.simps) (simp add: hex_val_def)
  next
    case False
    then show ?thesis using 1 hex_val_snoc [of "n mod 16" "show_hex (n div 16)"] by (subst show_hex.simps) simp
  qed
qed

locale u256_hex =
  fixes parse :: "string \<Rightarrow> nat \<Rightarrow> nat option"
  assumes parse_hex: "s \<noteq> [] \<Longrightarrow> list_all is_hexdigit s \<Longrightarrow> parse s 16 = (if hex_val s < 2 ^ 256 then Some (hex_val s) else None)"
begin

lemma parse_shown: "n < 2 ^ 256 \<Longrightarrow> parse (show_hex n) 16 = Some n"
  using parse_hex [OF show_hex_digits] by (simp add: hex_val_show)

end

interpretation ref_hex: u256_hex ref_u256
  by unfold_locales (simp add: ref_u256_def Let_def)

lemma quantity_shown:
  assumes "u256_hex (u256_from_str_radix X)" "n < 2 ^ bits" "n < 2 ^ 256"
  shows "quantity X (''0x'' @ show_hex n) bits = Inr n"
  using u256_hex.parse_shown [OF assms(1,3)] assms(2) show_hex_digits [of n] by (simp add: quantity_def strip_prefix_def)

section \<open>The header verifies\<close>

text \<open>What the fabricated inputs rely on: hashes and roots are words, encodings and texts are as documented.\<close>

definition synth_ok :: "'x evmlib_scheme \<Rightarrow> bool" where
  "synth_ok X \<longleftrightarrow> hex_ok X \<and> rlp_ok X \<and> u256_hex (u256_from_str_radix X) \<and> (\<forall>b. b256_lower_hex X b = ''0x'' @ hex_encode X b) \<and>
     (\<forall>b. length (keccak256 X b) = 32) \<and> (\<forall>ls. length (trie_root X ls) = 32) \<and> trie_root X [] = EMPTY_ROOT_HASH X \<and> (\<forall>n. n < usize_max \<longrightarrow> length (rlp_list_header X n) \<le> 9)"

definition header_items :: "'x evmlib_scheme \<Rightarrow> bytes \<Rightarrow> bytes \<Rightarrow> u64 \<Rightarrow> u64 \<Rightarrow> bytes list" where
  "header_items X parent state_root number timestamp =
     [parent, keccak256 X [0xc0], replicate 20 0, state_root, EMPTY_ROOT_HASH X, EMPTY_ROOT_HASH X, replicate 256 0, be_bytes 0, be_bytes (unat number),
      be_bytes 30000000, be_bytes 0, be_bytes (unat timestamp), [], replicate 32 0, replicate 8 0]"

lemma synth_header_items:
  assumes "rlp_ok X"
  shows "synth_header X parent state_root number timestamp = rlp_list X (map (rlp_bytes X) (header_items X parent state_root number timestamp))"
proof -
  have c: "rlp_codec (rlp_uint X) (rlp_bytes X) (rlp_list_header X) (rlp_decode X)" using assms by (simp add: rlp_ok_def)
  show ?thesis by (simp add: synth_header_def header_items_def rlp_codec.enc_uint [OF c])
qed

lemma length_be_bytes_u64: "length (be_bytes (unat (n :: u64))) \<le> 8"
  using u64_bound [of n] by (intro length_be_bytes_le) simp

lemma header_items_check:
  assumes "synth_ok X" "length parent = 32" "length state_root = 32"
  shows "\<forall>p \<in> set (zip (header_items X parent state_root number timestamp) (enumerate 0 FIELDS)). check_field p = Inr ()"
    "\<forall>b \<in> set (header_items X parent state_root number timestamp). length b \<le> 256"
proof -
  have e: "length (EMPTY_ROOT_HASH X) = 32" "length (keccak256 X b) = 32" for b using assms(1) unfolding synth_ok_def by metis+
  have t: "\<not> prefix [0] (be_bytes n)" for n using trimmed_be_bytes [of n] by (cases "be_bytes n") (auto simp: trimmed_def)
  have l: "length (be_bytes 0) \<le> 8" "length (be_bytes 30000000) \<le> 8" by (rule length_be_bytes_le, simp)+
  then have "length (be_bytes 0) \<le> 32" by simp
  with l show "\<forall>p \<in> set (zip (header_items X parent state_root number timestamp) (enumerate 0 FIELDS)). check_field p = Inr ()"
    using e t assms(2,3) length_be_bytes_u64 [of number] length_be_bytes_u64 [of timestamp]
    by (simp add: header_items_def FIELDS_def check_field_def)
  show "\<forall>b \<in> set (header_items X parent state_root number timestamp). length b \<le> 256"
    using e l assms(2,3) length_be_bytes_u64 [of number] length_be_bytes_u64 [of timestamp] by (simp add: header_items_def)
qed

lemma synth_header_verifies:
  assumes "synth_ok X" "length parent = 32" "length state_root = 32"
    and "string_field summary ''hash'' = Inr (''0x'' @ hex_encode X (keccak256 X (synth_header X parent state_root number timestamp)))"
    and "string_field summary ''parent_hash'' = Inr (''0x'' @ hex_encode X parent)" "string_field summary ''state_root'' = Inr (''0x'' @ hex_encode X state_root)"
    and "index summary ''number'' = jnum number" "index summary ''timestamp'' = jnum timestamp"
  shows "verify_header X (''0x'' @ hex_encode X (synth_header X parent state_root number timestamp)) summary None =
    Inr (keccak256 X (synth_header X parent state_root number timestamp))"
proof -
  let ?bs = "header_items X parent state_root number timestamp" and ?e = "synth_header X parent state_root number timestamp"
  define p where "p = concat (map (rlp_bytes X) ?bs)"
  have ok: "hex_ok X" "rlp_ok X" "length (keccak256 X ?e) = 32" "\<forall>n. n < usize_max \<longrightarrow> length (rlp_list_header X n) \<le> 9" using assms(1) by (simp_all add: synth_ok_def)
  have c: "rlp_codec (rlp_uint X) (rlp_bytes X) (rlp_list_header X) (rlp_decode X)" using ok(2) by (simp add: rlp_ok_def)
  note items = header_items_check [OF assms(1-3), of number timestamp]
  have n: "length ?bs = 15" by (simp add: header_items_def)
  have e: "?e = rlp_list_header X (length p) @ p" by (simp add: synth_header_items [OF ok(2)] rlp_list_def p_def length_concat o_def)
  have "length (concat (map (rlp_bytes X) bs)) \<le> 265 * length bs" if "\<forall>b \<in> set bs. length b \<le> 256" for bs
    using that
  proof (induction bs)
    case (Cons b bs)
    then have "length (rlp_bytes X b) \<le> length b + 9" by (intro rlp_codec.enc_length [OF c]) simp
    with Cons show ?case by fastforce
  qed simp
  from this [OF items(2)] n have lp: "length p \<le> 3975" by (simp add: p_def)
  moreover have "length (rlp_list_header X (length p)) \<le> 9" using ok(4) lp by simp
  ultimately have le: "length ?e \<le> 104448" unfolding e by simp
  have "rlp_decode X True ?e = Some (p, [])" using rlp_codec.dec_list [OF c, of p "[]"] lp e by simp
  moreover have "decode_fields X p [] = Inr ?bs"
  proof -
    have "\<forall>b \<in> set ?bs. length b < usize_max" using items(2) by fastforce
    from decode_fields_items [OF ok(2) this, of "[]"] n show ?thesis by (simp add: p_def)
  qed
  moreover have "summary_matches X ?bs summary = Inr True"
    using assms(5-8) ok(1) assms(2,3) by (simp add: summary_matches_def header_items_def del: append_Cons append_Nil)
  ultimately show ?thesis
    using le n ok assms(4) by (simp add: verify_header_def expected_ok_def check_fields_ok [OF items(1)] del: append_Cons append_Nil)
qed

section \<open>The leaves of a bundle\<close>

definition account_parts :: "'x evmlib_scheme \<Rightarrow> synth_parts \<Rightarrow> string \<times> SynthAccount \<Rightarrow> bool" where
  "account_parts X s ad \<longleftrightarrow> (\<exists>raw. address X (fst ad) = Inr (fst ad) \<and> fixed X 20 (fst ad) = Inr raw \<and>
     map_of (sp_metadata s) (fst ad) = Some (synth_fields X (snd ad)) \<and> keccak256 X raw \<in> set (sp_targets s) \<and>
     map_of (sp_leaves s) (keccak256 X raw) = (if sy_exists (snd ad) then Some (synth_leaf X (snd ad)) else None) \<and>
     (sy_exists (snd ad) \<or> sy_nonce (snd ad) = 0 \<and> sy_balance (snd ad) = 0 \<and> sy_code (snd ad) = [] \<and> sy_slots (snd ad) = []))"

lemma synth_account_parts:
  assumes inj: "\<And>a b. length a = 20 \<Longrightarrow> length b = 20 \<Longrightarrow> keccak256 X a = keccak256 X b \<Longrightarrow> a = b"
    and "fold_res (synth_account X) accounts \<lparr>sp_metadata = [], sp_leaves = [], sp_targets = []\<rparr> = Inr s" "distinct (map fst accounts)"
  shows "bt_ok (sp_leaves s) \<and> (\<forall>ad \<in> set accounts. account_parts X s ad) \<and>
    (\<forall>k. map_of (sp_leaves s) k \<noteq> None \<longrightarrow> (\<exists>ad \<in> set accounts. \<exists>raw. fixed X 20 (fst ad) = Inr raw \<and> k = keccak256 X raw))"
  using assms(2,3)
proof (induction accounts arbitrary: s rule: rev_induct)
  case (snoc ad accounts)
  obtain a data where ad: "ad = (a, data)" by fastforce
  from snoc.prems(1) obtain u where u: "fold_res (synth_account X) accounts \<lparr>sp_metadata = [], sp_leaves = [], sp_targets = []\<rparr> = Inr u" "synth_account X ad u = Inr s"
    by (auto simp: fold_res_append bnd_Inr_iff)
  from u(2) obtain raw where r: "address X a = Inr a" "fixed X 20 a = Inr raw"
      "sy_exists data \<or> sy_nonce data = 0 \<and> sy_balance data = 0 \<and> sy_code data = [] \<and> sy_slots data = []"
      "s = \<lparr>sp_metadata = bt_insert a (synth_fields X data) (sp_metadata u),
        sp_leaves = (if sy_exists data then bt_insert (keccak256 X raw) (synth_leaf X data) (sp_leaves u) else sp_leaves u), sp_targets = sp_targets u @ [keccak256 X raw]\<rparr>"
    by (auto simp: synth_account_def ad bnd_Inr_iff ensure_Inr_iff Let_def)
  note IH = snoc.IH [OF u(1)]
  have d: "distinct (map fst accounts)" "a \<notin> fst ` set accounts" using snoc.prems(2) by (simp_all add: ad)
  have new: "keccak256 X raw \<noteq> keccak256 X raw'" if m: "b \<in> set accounts" "address X (fst b) = Inr (fst b)" "fixed X 20 (fst b) = Inr raw'" for b raw'
  proof
    assume "keccak256 X raw = keccak256 X raw'"
    then have "raw = raw'" using inj fixed_length [OF r(2)] fixed_length [OF m(3)] by blast
    then have "fst b = a" using r(1,2) m(2,3) by (simp add: address_def)
    with m(1) d(2) show False by auto
  qed
  have old: "account_parts X s b" if b: "b \<in> set accounts" for b
  proof -
    from IH d(1) b obtain raw' where o: "address X (fst b) = Inr (fst b)" "fixed X 20 (fst b) = Inr raw'"
        "map_of (sp_metadata u) (fst b) = Some (synth_fields X (snd b))" "keccak256 X raw' \<in> set (sp_targets u)"
        "map_of (sp_leaves u) (keccak256 X raw') = (if sy_exists (snd b) then Some (synth_leaf X (snd b)) else None)"
        "sy_exists (snd b) \<or> sy_nonce (snd b) = 0 \<and> sy_balance (snd b) = 0 \<and> sy_code (snd b) = [] \<and> sy_slots (snd b) = []"
      unfolding account_parts_def by blast
    have "fst b \<noteq> a" using b d(2) by auto
    with o new [OF b o(1,2)] show ?thesis unfolding account_parts_def by (intro exI [of _ raw']) (simp add: r(4))
  qed
  have absent: "map_of (sp_leaves u) (keccak256 X raw) = None"
  proof (rule ccontr)
    assume "map_of (sp_leaves u) (keccak256 X raw) \<noteq> None"
    with IH d(1) obtain b raw' where b: "b \<in> set accounts" "fixed X 20 (fst b) = Inr raw'" "keccak256 X raw = keccak256 X raw'" by blast
    moreover have "address X (fst b) = Inr (fst b)" using IH d(1) b(1) unfolding account_parts_def by blast
    ultimately show False using new by blast
  qed
  have "account_parts X s ad" unfolding account_parts_def using r absent by (intro exI [of _ raw]) (simp add: ad)
  moreover have "bt_ok (sp_leaves s)" using IH d(1) by (simp add: r(4))
  moreover have "\<exists>b \<in> set (accounts @ [ad]). \<exists>raw. fixed X 20 (fst b) = Inr raw \<and> k = keccak256 X raw" if "map_of (sp_leaves s) k \<noteq> None" for k
    using that IH d(1) r(2) by (auto simp: r(4) ad split: if_splits)
  ultimately show ?case using old by auto
qed simp

section \<open>The entries of a bundle\<close>

lemma synth_entries:
  assumes "fold_res (synth_entry X nodes s) accounts result = Inr b" "distinct (map fst accounts)"
  shows "(\<forall>f. f \<noteq> ''accounts'' \<longrightarrow> get b f = get result f) \<and>
    (\<forall>a. a \<notin> fst ` set accounts \<longrightarrow> get (index b ''accounts'') a = get (index result ''accounts'') a) \<and>
    (\<forall>ad \<in> set accounts. \<exists>raw. fixed X 20 (fst ad) = Inr raw \<and> get (index b ''accounts'') (fst ad) =
      Some (jobj [(''code'', JStr (''0x'' @ hex_encode X (sy_code (snd ad)))), (''proof'',
        jset (jset (case map_of (sp_metadata s) (fst ad) of Some v \<Rightarrow> v | None \<Rightarrow> JNull) ''address'' (JStr (fst ad)))
          ''accountProof'' (JArr (map (\<lambda>node. JStr (''0x'' @ hex_encode X node)) (nodes (keccak256 X raw)))))]))"
  using assms
proof (induction accounts arbitrary: b rule: rev_induct)
  case (snoc ad accounts)
  obtain a data where ad: "ad = (a, data)" by fastforce
  from snoc.prems(1) obtain m where m: "fold_res (synth_entry X nodes s) accounts result = Inr m" "synth_entry X nodes s ad m = Inr b"
    by (auto simp: fold_res_append bnd_Inr_iff)
  from m(2) obtain raw where r: "fixed X 20 a = Inr raw" "b = jset m ''accounts'' (jset (index m ''accounts'') a
      (jobj [(''code'', JStr (''0x'' @ hex_encode X (sy_code data))), (''proof'',
        jset (jset (case map_of (sp_metadata s) a of Some v \<Rightarrow> v | None \<Rightarrow> JNull) ''address'' (JStr a))
          ''accountProof'' (JArr (map (\<lambda>node. JStr (''0x'' @ hex_encode X node)) (nodes (keccak256 X raw)))))]))"
    by (auto simp: synth_entry_def ad bnd_Inr_iff Let_def)
  have i: "index b ''accounts'' = jset (index m ''accounts'') a
      (jobj [(''code'', JStr (''0x'' @ hex_encode X (sy_code data))), (''proof'',
        jset (jset (case map_of (sp_metadata s) a of Some v \<Rightarrow> v | None \<Rightarrow> JNull) ''address'' (JStr a))
          ''accountProof'' (JArr (map (\<lambda>node. JStr (''0x'' @ hex_encode X node)) (nodes (keccak256 X raw)))))])"
    unfolding r(2) by (simp add: index_def get_jset)
  have d: "distinct (map fst accounts)" "a \<notin> fst ` set accounts" using snoc.prems(2) by (simp_all add: ad)
  note IH = snoc.IH [OF m(1) d(1)]
  have "\<forall>f. f \<noteq> ''accounts'' \<longrightarrow> get b f = get result f" using IH by (simp add: r(2) get_jset)
  moreover have "\<forall>c. c \<notin> fst ` set (accounts @ [ad]) \<longrightarrow> get (index b ''accounts'') c = get (index result ''accounts'') c" using IH by (simp add: i get_jset ad)
  moreover have "get (index b ''accounts'') (fst c) = get (index m ''accounts'') (fst c)" if "c \<in> set accounts" for c using that d(2) by (auto simp: i get_jset)
  ultimately show ?case using IH r(1) by (simp add: ad) (simp add: i get_jset)
qed simp

section \<open>Fabricated accounts verify\<close>

text \<open>The proof nodes of the trie builder prove exactly the value of a leaf, or its absence.\<close>

definition proves :: "'x evmlib_scheme \<Rightarrow> ((bytes \<times> bytes) list \<Rightarrow> bytes list \<Rightarrow> bytes \<Rightarrow> bytes list) \<Rightarrow> bool" where
  "proves X nodes \<longleftrightarrow> (\<forall>leaves targets k v. bt_ok leaves \<and> k \<in> set targets \<longrightarrow>
     verify_proof X (trie_root X leaves) k v (nodes leaves targets k) = (v = map_of leaves k))"

definition synth_proven :: "'x evmlib_scheme \<Rightarrow> string \<times> SynthAccount \<Rightarrow> Account" where
  "synth_proven X ad = \<lparr>ac_address = fst ad, ac_exists = sy_exists (snd ad), ac_nonce = sy_nonce (snd ad), ac_balance = sy_balance (snd ad),
     ac_storage_root = synth_storage_root X (sy_slots (snd ad)), ac_code_hash = keccak256 X (sy_code (snd ad))\<rparr>"

lemma proof_nodes_shown:
  assumes "hex_ok X" "get p ''accountProof'' = Some (JArr (map (\<lambda>node. JStr (''0x'' @ hex_encode X node)) ns))"
  shows "proof_nodes X p = Inr ns"
proof -
  have "map_res (\<lambda>node. bnd (context_res (as_str node) ''invalid account proof node'') (unhex X)) (map (\<lambda>node. JStr (''0x'' @ hex_encode X node)) ns) = Inr ns"
    using assms(1) by (induction ns) (simp_all del: append_Cons append_Nil)
  then show ?thesis using assms(2) by (simp add: proof_nodes_def as_array_def)
qed

lemma synth_account_verifies:
  assumes "synth_ok X" "proves X nodes" "account_parts X s ad" "bt_ok (sp_leaves s)" "sy_balance (snd ad) < 2 ^ 256" "fixed X 20 (fst ad) = Inr raw"
  shows "verify_account X (''0x'' @ hex_encode X (trie_root X (sp_leaves s))) (fst ad)
    (jset (jset (synth_fields X (snd ad)) ''address'' (JStr (fst ad))) ''accountProof''
      (JArr (map (\<lambda>node. JStr (''0x'' @ hex_encode X node)) (nodes (sp_leaves s) (sp_targets s) (keccak256 X raw))))) = Inr (synth_proven X ad)"
    (is "verify_account X ?root ?a ?p = _")
proof -
  have ok: "hex_ok X" "u256_hex (u256_from_str_radix X)" "length (trie_root X ls) = 32" "length (keccak256 X b) = 32" "b256_lower_hex X b = ''0x'' @ hex_encode X b" "trie_root X [] = EMPTY_ROOT_HASH X" for ls b
    using assms(1) by (simp_all add: synth_ok_def)
  from assms(3,6) have a: "address X ?a = Inr ?a" "keccak256 X raw \<in> set (sp_targets s)"
      "map_of (sp_leaves s) (keccak256 X raw) = (if sy_exists (snd ad) then Some (synth_leaf X (snd ad)) else None)"
      "sy_exists (snd ad) \<or> sy_nonce (snd ad) = 0 \<and> sy_balance (snd ad) = 0 \<and> sy_code (snd ad) = [] \<and> sy_slots (snd ad) = []"
    unfolding account_parts_def by auto
  let ?ns = "nodes (sp_leaves s) (sp_targets s) (keccak256 X raw)"
  have v: "verify_proof X (trie_root X (sp_leaves s)) (keccak256 X raw) w ?ns = (w = map_of (sp_leaves s) (keccak256 X raw))" for w
    using assms(2,4) a(2) unfolding proves_def by blast
  have n: "proof_nodes X ?p = Inr ?ns" by (rule proof_nodes_shown [OF ok(1)]) (simp add: get_jset)
  have f: "string_field ?p ''nonce'' = Inr (''0x'' @ show_hex (unat (sy_nonce (snd ad))))" "string_field ?p ''balance'' = Inr (''0x'' @ show_hex (sy_balance (snd ad)))"
    "string_field ?p ''storageHash'' = Inr (''0x'' @ hex_encode X (synth_storage_root X (sy_slots (snd ad))))" "string_field ?p ''codeHash'' = Inr (''0x'' @ hex_encode X (keccak256 X (sy_code (snd ad))))"
    by (simp_all add: string_field_def get_jset synth_fields_def get_jobj ok(5) del: append_Cons append_Nil)
  have q: "quantity X (''0x'' @ show_hex (unat (sy_nonce (snd ad)))) 64 = Inr (unat (sy_nonce (snd ad)))" "quantity X (''0x'' @ show_hex (sy_balance (snd ad))) 256 = Inr (sy_balance (snd ad))"
    using quantity_shown [OF ok(2)] u64_bound [of "sy_nonce (snd ad)"] assms(5) by (simp_all del: append_Cons append_Nil)
  have r: "fixed X 32 (''0x'' @ hex_encode X (synth_storage_root X (sy_slots (snd ad)))) = Inr (synth_storage_root X (sy_slots (snd ad)))"
    "fixed X 32 (''0x'' @ hex_encode X (keccak256 X (sy_code (snd ad)))) = Inr (keccak256 X (sy_code (snd ad)))" "fixed X 32 ?root = Inr (trie_root X (sp_leaves s))"
    using ok(1,3,4) by (simp_all add: synth_storage_root_def Let_def del: append_Cons append_Nil)
  have o: "proof_address_ok X ?a ?p = Inr ()" using a(1) by (simp add: proof_address_ok_def get_jset as_str_def)
  let ?account = "\<lambda>e. (synth_proven X ad)\<lparr>ac_exists := e\<rparr>"
  have run: "verify_account X ?root ?a ?p = (if Some (synth_leaf X (snd ad)) = map_of (sp_leaves s) (keccak256 X raw) then Inr (?account True)
      else ensure (None = map_of (sp_leaves s) (keccak256 X raw)) ''invalid or incomplete account proof''
        (ensure (unat (sy_nonce (snd ad)) = 0 \<and> sy_balance (snd ad) = 0 \<and> synth_storage_root X (sy_slots (snd ad)) = EMPTY_ROOT_HASH X \<and> keccak256 X (sy_code (snd ad)) = keccak256 X [])
          ''RPC account metadata does not match proven absence'' (Inr (?account False))))"
    unfolding verify_account_def by (simp add: r a(1) o f q n assms(6) v synth_leaf_def synth_proven_def del: append_Cons append_Nil)
  have e: "synth_storage_root X [] = EMPTY_ROOT_HASH X" by (simp add: synth_storage_root_def bt_of_list_def ok(6))
  show ?thesis
  proof (cases "sy_exists (snd ad)")
    case True
    with a(3) show ?thesis unfolding run by (simp add: synth_proven_def)
  next
    case False
    with a(3,4) e show ?thesis unfolding run by (simp add: synth_proven_def)
  qed
qed

section \<open>The reference storage root\<close>

text \<open>A complete storage as text, in any order.\<close>

lemma reference_leaves:
  assumes "distinct (map (\<lambda>e. keccak256 X (fst e)) es)" "mset es = mset (filter (\<lambda>(_, v). v \<noteq> 0) slots)"
  shows "map (\<lambda>(k, v). (k, rlp_uint X v)) (bt_of_list (map (\<lambda>(slot, v). (keccak256 X slot, v)) (filter (\<lambda>(_, v). v \<noteq> 0) slots))) = sort_key fst (map (leaf X) es)"
    (is "map ?enc (bt_of_list ?kvs) = _")
proof -
  let ?fs = "filter (\<lambda>(_, v). v \<noteq> 0) slots"
  have k: "map fst ?kvs = map (\<lambda>e. keccak256 X (fst e)) ?fs" by (simp add: case_prod_unfold)
  have dk: "distinct (map fst ?kvs)"
    unfolding k using assms by (metis distinct_map mset_eq_imp_distinct_iff mset_map)
  then have b: "bt_of_list ?kvs = sort_key fst ?kvs"
    using fold_bt_insert_sorted [OF dk] by (simp add: bt_of_list_def case_prod_unfold)
  have l: "leaf X = (\<lambda>e. ?enc (keccak256 X (fst e), snd e))" by (rule ext) (simp add: leaf_def)
  show ?thesis
  proof (rule map_sorted_distinct_set_unique [of fst])
    have s: "set (map ?enc (bt_of_list ?kvs)) = set (map (leaf X) es)"
      using assms(2) [THEN mset_eq_setD] unfolding b l by (force simp: case_prod_unfold image_iff)
    have d: "distinct (map fst (map (leaf X) es))" using assms(1) by (simp add: leaf_def o_def)
    show "set (map ?enc (bt_of_list ?kvs)) = set (sort_key fst (map (leaf X) es))" using s by simp
    have f: "map fst (map ?enc (bt_of_list ?kvs)) = map fst (sort_key fst ?kvs)" unfolding b by (simp add: case_prod_unfold)
    show "sorted (map fst (map ?enc (bt_of_list ?kvs)))" unfolding f by simp
    show "distinct (map fst (map ?enc (bt_of_list ?kvs)))" unfolding f by (rule iffD2 [OF mset_eq_imp_distinct_iff [of _ "map fst ?kvs"] dk]) (simp only: mset_map mset_sort)
    show "sorted (map fst (sort_key fst (map (leaf X) es)))" by simp
    show "distinct (map fst (sort_key fst (map (leaf X) es)))" by (rule iffD2 [OF mset_eq_imp_distinct_iff [of _ "map fst (map (leaf X) es)"] d]) (simp only: mset_map mset_sort)
    show "inj_on fst (set (map ?enc (bt_of_list ?kvs)) \<union> set (sort_key fst (map (leaf X) es)))" using s d unfolding distinct_map by simp
  qed
qed

lemma parse_slots_decoded:
  "map_res (decode_slot X) svs = Inr es \<Longrightarrow> \<forall>e \<in> set es. snd e \<noteq> 0 \<Longrightarrow> map_res (parse_slot X) svs = Inr (map (leaf X) es)"
proof (induction svs arbitrary: es)
  case (Cons sv svs)
  then obtain e fs where e: "decode_slot X sv = Inr e" "map_res (decode_slot X) svs = Inr fs" "es = e # fs" by (auto simp: bnd_Inr_iff)
  then have "parse_slot X sv = Inr (leaf X e)" using Cons(3) by (auto simp: decode_slot_def parse_slot_def leaf_def bnd_Inr_iff)
  with Cons(1) [OF e(2)] Cons(3) e(3) show ?case by simp
qed simp

text \<open>
  C16: The disk sort computes the storage root of the in-memory reference: for the nonzero slots of an
  account given as text in any order, it returns the root that the reference builds from the map of
  all slots, and their number.
\<close>

theorem disk_sort_reference:
  assumes "\<forall>b. length (keccak256 X b) = 32" "inj_on (keccak256 X) {b. length b = 32}"
    and "bt_ok slots" "map_res (decode_slot X) svs = Inr es" "mset es = mset (filter (\<lambda>(_, v). v \<noteq> 0) slots)"
  shows "storage_root X [] (map Inr svs) = Inr (synth_storage_root X slots, of_nat (length (filter (\<lambda>(_, v). v \<noteq> 0) slots)))"
proof -
  have nz: "\<forall>e \<in> set es. snd e \<noteq> 0" using assms(5) [THEN mset_eq_setD] by auto
  have len: "\<forall>e \<in> set es. length (fst e) = 32"
    using assms(4) by (auto simp: map_res_set decode_slot_def bnd_Inr_iff dest: fixed_length)
  have "distinct (map fst (filter (\<lambda>(_, v). v \<noteq> 0) slots))" using bt_ok_distinct [OF assms(3)] by (rule distinct_map_filter)
  then have "distinct (map fst es)" using assms(5) by (metis mset_eq_imp_distinct_iff mset_map)
  then have d: "distinct (map (\<lambda>e. keccak256 X (fst e)) es)"
    using assms(2) len by (auto simp: distinct_map inj_on_def)
  then have "distinct (map fst (map (leaf X) es))" by (simp add: leaf_def o_def)
  moreover have "synth_storage_root X slots = trie_root X (sort_key fst (map (leaf X) es))"
    unfolding synth_storage_root_def Let_def reference_leaves [OF d assms(5)] ..
  moreover have "length es = length (filter (\<lambda>(_, v). v \<noteq> 0) slots)" using assms(5) by (rule mset_eq_length)
  ultimately show ?thesis
    using storage_root_exact [OF assms(1), of "map Inr svs"] parse_slots_decoded [OF assms(4) nz] by fastforce
qed

theorem disk_sort_reference_witness:
  "storage_root ex_evm [] (map Inr [(hex32 7, hex32 2), (hex32 1, hex32 3)]) =
     Inr (synth_storage_root ex_evm [(replicate 32 1, be_val (replicate 32 3)), (replicate 32 5, 0), (replicate 32 7, be_val (replicate 32 2))], 2)"
proof -
  let ?slots = "[(replicate 32 1, be_val (replicate 32 3)), (replicate 32 5, 0), (replicate 32 7, be_val (replicate 32 2))] :: (bytes, nat) btree"
  have h: "\<forall>b. length (keccak256 ex_evm b) = 32" "inj_on (keccak256 ex_evm) {b. length b = 32}" by (auto simp: ex_evm_simps ref_hash_word inj_on_def)
  have r: "replicate 32 a < replicate 32 b" if "a < b" for a b :: byte
  proof -
    have "replicate 32 c = c # replicate 31 c" for c :: byte by (simp add: numeral_eq_Suc)
    with that show ?thesis by simp
  qed
  have o: "bt_ok ?slots" using r [of 1 5] r [of 1 7] r [of 5 7] by simp
  have d: "map_res (decode_slot ex_evm) [(hex32 7, hex32 2), (hex32 1, hex32 3)] = Inr [(replicate 32 7, be_val (replicate 32 2)), (replicate 32 1, be_val (replicate 32 3))]"
    by (simp add: decode_slot_def ex_fixed32)
  have z: "be_val (replicate 32 3) \<noteq> 0" "be_val (replicate 32 2) \<noteq> 0" using ex_word_nonzero by simp_all
  from disk_sort_reference [OF h o d] z show ?thesis by (simp add: add_mset_commute)
qed

section \<open>Fabricated bundles verify\<close>

text \<open>
  C17: A fabricated bundle passes the verification it is made for: its encoded header verifies against its
  summary, and under the state root of that summary the proof of every account verifies and gives the
  account's existence, nonce, balance, storage root and code hash.
\<close>

theorem synth_bundle_verifies:
  assumes "synth_ok X" "proves X nodes" "inj_on (keccak256 X) {b. length b = 20}" "bt_ok accounts"
    and "\<forall>ad \<in> set accounts. sy_balance (snd ad) < 2 ^ 256" "synth_bundle X nodes number accounts parent = Inr b"
  shows "\<exists>rlp root digest. string_field b ''header_rlp'' = Inr rlp \<and> string_field (index b ''header'') ''state_root'' = Inr root \<and>
    verify_header X rlp (index b ''header'') None = Inr digest \<and>
    (\<forall>ad \<in> set accounts. verify_account X root (fst ad) (index (index (index b ''accounts'') (fst ad)) ''proof'') = Inr (synth_proven X ad))"
proof -
  have ok: "b256_lower_hex X v = ''0x'' @ hex_encode X v" "length (trie_root X ls) = 32" for v ls using assms(1) by (simp_all add: synth_ok_def)
  define head where "head parent s timestamp = jobj [(''number'', jnum number), (''hash'', JStr (b256_lower_hex X (keccak256 X (synth_header X parent (trie_root X (sp_leaves s)) number timestamp)))),
      (''parent_hash'', JStr (''0x'' @ hex_encode X parent)), (''state_root'', JStr (b256_lower_hex X (trie_root X (sp_leaves s)))), (''timestamp'', jnum timestamp)]" for parent timestamp and s :: synth_parts
  define start where "start parent s timestamp = jobj [(''format_version'', JNum ''1''), (''chain_id'', JNum ''56''), (''header'', head parent s timestamp),
      (''header_rlp'', JStr (''0x'' @ hex_encode X (synth_header X parent (trie_root X (sp_leaves s)) number timestamp))), (''header_trust'', JStr ''operator-pinned-hash''), (''accounts'', JObj [])]"
    for parent timestamp and s :: synth_parts
  from assms(6) obtain s p t where d: "fold_res (synth_account X) accounts \<lparr>sp_metadata = [], sp_leaves = [], sp_targets = []\<rparr> = Inr s"
      "(case parent of None \<Rightarrow> Inr (synth_word (saturating_sub number 1)) | Some p \<Rightarrow> fixed X 32 p) = Inr p"
      "fold_res (synth_entry X (nodes (sp_leaves s) (sp_targets s)) s) accounts (start p s t) = Inr b"
    unfolding synth_bundle_def Let_def bnd_Inr_iff ensure_Inr_iff context_res_Inr_iff start_def head_def by blast
  have lp: "length p = 32"
    using d(2) length_be_bytes_u64 [of "saturating_sub number 1"] by (auto simp: synth_word_def dest: fixed_length split: option.splits)
  have dist: "distinct (map fst accounts)" by (rule bt_ok_distinct [OF assms(4)])
  note parts = synth_account_parts [OF _ d(1) dist] and ents = synth_entries [OF d(3) dist]
  have h: "index b ''header'' = head p s t" "string_field b ''header_rlp'' = Inr (''0x'' @ hex_encode X (synth_header X p (trie_root X (sp_leaves s)) number t))"
    using ents by (simp_all add: index_def string_field_def start_def get_jobj del: append_Cons append_Nil)
  let ?root = "''0x'' @ hex_encode X (trie_root X (sp_leaves s))"
  have r: "string_field (head p s t) ''state_root'' = Inr ?root" by (simp add: head_def string_field_def get_jobj ok(1) del: append_Cons append_Nil)
  have "verify_header X (''0x'' @ hex_encode X (synth_header X p (trie_root X (sp_leaves s)) number t)) (head p s t) None =
      Inr (keccak256 X (synth_header X p (trie_root X (sp_leaves s)) number t))"
    by (rule synth_header_verifies [OF assms(1) lp ok(2)])
      (simp_all add: head_def string_field_def get_jobj index_jobj ok(1) del: append_Cons append_Nil)
  moreover have "verify_account X ?root (fst ad) (index (index (index b ''accounts'') (fst ad)) ''proof'') = Inr (synth_proven X ad)" if ad: "ad \<in> set accounts" for ad
  proof -
    have inj: "length x = 20 \<Longrightarrow> length y = 20 \<Longrightarrow> keccak256 X x = keccak256 X y \<Longrightarrow> x = y" for x y using assms(3) by (auto simp: inj_on_def)
    have a: "account_parts X s ad" "bt_ok (sp_leaves s)" using parts [OF inj] ad by blast+
    from ents ad obtain raw where e: "fixed X 20 (fst ad) = Inr raw" "get (index b ''accounts'') (fst ad) =
        Some (jobj [(''code'', JStr (''0x'' @ hex_encode X (sy_code (snd ad)))), (''proof'',
          jset (jset (case map_of (sp_metadata s) (fst ad) of Some v \<Rightarrow> v | None \<Rightarrow> JNull) ''address'' (JStr (fst ad)))
            ''accountProof'' (JArr (map (\<lambda>node. JStr (''0x'' @ hex_encode X node)) (nodes (sp_leaves s) (sp_targets s) (keccak256 X raw)))))])" by blast
    have m: "map_of (sp_metadata s) (fst ad) = Some (synth_fields X (snd ad))" using a(1) unfolding account_parts_def by blast
    have "index (index (index b ''accounts'') (fst ad)) ''proof'' = jset (jset (synth_fields X (snd ad)) ''address'' (JStr (fst ad)))
        ''accountProof'' (JArr (map (\<lambda>node. JStr (''0x'' @ hex_encode X node)) (nodes (sp_leaves s) (sp_targets s) (keccak256 X raw))))"
      using e(2) m by (simp add: index_def get_jobj del: append_Cons append_Nil)
    with synth_account_verifies [OF assms(1,2) a _ e(1)] assms(5) ad show ?thesis by (simp del: append_Cons append_Nil)
  qed
  ultimately show ?thesis unfolding h using h(2) r by blast
qed

definition ex_synth_evm :: evmlib where
  "ex_synth_evm = ex_evm\<lparr>trie_root := \<lambda>_. replicate 32 9, verify_proof := \<lambda>r k v ns. ns = (case v of None \<Rightarrow> [] | Some w \<Rightarrow> [w])\<rparr>"

definition ex_nodes :: "(bytes \<times> bytes) list \<Rightarrow> bytes list \<Rightarrow> bytes \<Rightarrow> bytes list" where
  "ex_nodes leaves targets k = (case map_of leaves k of None \<Rightarrow> [] | Some w \<Rightarrow> [w])"

lemma ex_synth_ok: "synth_ok ex_synth_evm" "proves ex_synth_evm ex_nodes" "inj_on (keccak256 ex_synth_evm) {b. length b = 20}"
proof -
  have r: "hex_ok ex_synth_evm" "rlp_ok ex_synth_evm" using ex_evm_hex ex_evm_rlp by (simp_all add: ex_synth_evm_def rlp_ok_def)
  have l: "length (rlp_list_header ex_synth_evm n) \<le> 9" if "n < usize_max" for n
    using length_be_bytes_usize [OF that] by (simp add: ex_synth_evm_def ex_evm_def ref_rlp_header_def)
  show "synth_ok ex_synth_evm"
    unfolding synth_ok_def using r l ref_hex.u256_hex_axioms by (simp add: ex_synth_evm_def ex_evm_def)
  show "proves ex_synth_evm ex_nodes" by (auto simp: proves_def ex_synth_evm_def ex_nodes_def split: option.splits)
  show "inj_on (keccak256 ex_synth_evm) {b. length b = 20}" by (auto simp: inj_on_def ex_synth_evm_def ex_evm_def ref_hash_def)
qed

lemma ex_synth_bundle: "\<exists>b. synth_bundle ex_synth_evm ex_nodes 7 [(ex_address, synth_default)] None = Inr b"
proof -
  have f: "fixed ex_synth_evm 20 ex_address = Inr (replicate 20 4)" "address ex_synth_evm ex_address = Inr ex_address"
    using ex_fixed20 ex_address_eq by (simp_all add: fixed_def address_def unhex_def ex_synth_evm_def)
  have "\<exists>t. checked_add 1700000000 (7 :: u64) = Some t" by (simp add: checked_add_def)
  then show ?thesis by (auto simp: synth_bundle_def synth_account_def synth_entry_def f synth_default_def Let_def)
qed

theorem synth_bundle_verifies_witness:
  "\<exists>b root. synth_bundle ex_synth_evm ex_nodes 7 [(ex_address, synth_default)] None = Inr b \<and>
     verify_account ex_synth_evm root ex_address (index (index (index b ''accounts'') ex_address) ''proof'') = Inr (synth_proven ex_synth_evm (ex_address, synth_default))"
proof -
  obtain b where b: "synth_bundle ex_synth_evm ex_nodes 7 [(ex_address, synth_default)] None = Inr b" using ex_synth_bundle by blast
  have "bt_ok [(ex_address, synth_default)]" "\<forall>ad \<in> set [(ex_address, synth_default)]. sy_balance (snd ad) < 2 ^ 256" by (simp_all add: synth_default_def)
  from synth_bundle_verifies [OF ex_synth_ok this b] b show ?thesis by auto
qed

end
