(* ===== verification/Spec2Isabelle.thy ===== *)
theory Spec2Isabelle
  imports Db_Out Retention Build Import Replay Recovery Postgres Read_Check Installer Capacity_Host Synthetic
begin

text \<open>
  Verification of \<open>substreams-evm-state\<close>: a Substreams package that turns the blocks of BNB Smart Chain
  into the state changes of selected accounts, and the native tools that ingest its output into
  ClickHouse and publish, read, move and remove checkpoints of complete account state.

  \<^bold>\<open>The program.\<close>  The package (\<open>src/\<close>) parses an account filter (\<open>params.rs\<close>), decides which recorded
  changes of a block persist (\<open>persist.rs\<close>), collects them (\<open>lib.rs\<close>), finds the accounts a block
  deletes (\<open>lifecycle.rs\<close>) and writes one complete row per block (\<open>block_state.rs\<close>) or the upserts of a
  PostgreSQL projection (\<open>db_out.rs\<close>).  The tools (\<open>crates/evm-state/src/\<close>) run the native sink under
  guards (\<open>ingest.rs\<close>, \<open>cursor.rs\<close>, \<open>capacity.rs\<close>), compact replayed history (\<open>bootstrap.rs\<close>,
  \<open>history.rs\<close>), capture proofs from an untrusted RPC provider (\<open>rpc.rs\<close>, \<open>header.rs\<close>, \<open>proof.rs\<close>),
  build and publish checkpoints (\<open>checkpoint.rs\<close>, \<open>source.rs\<close>), serve pinned pages (\<open>reader.rs\<close>), remove
  generations (\<open>retention.rs\<close>) and move checkpoints as files (\<open>export.rs\<close>, \<open>importer.rs\<close>).  One
  controller per database (\<open>control.rs\<close>, \<open>host.rs\<close>, \<open>host_recovery.rs\<close>, \<open>files.rs\<close>) serializes them.

  \<^bold>\<open>Shared theories.\<close>
  \<^item> \<open>Prelude\<close>: 64-bit integers with checked and saturating operations, results (\<open>'a res\<close> is an error
    message or a value), sorted association lists for \<open>BTreeMap\<close>, decimal and ASCII text, and the
    simplification rules of results.
  \<^item> \<open>Hex_Codec\<close>, \<open>Big_Endian\<close>, \<open>Rlp\<close>, \<open>Json\<close>: contracts of the codecs as locales with a reference
    interpretation, and JSON values as \<open>serde_json\<close> has them (a number is its text).
  \<^item> \<open>Effects\<close>: computations \<open>('w, 'a) io\<close> that change a world and return a result; an error keeps the
    changes made before it, as in the source.
  \<^item> \<open>Eth_Model\<close>: the block, transaction and call messages and the messages of the package.
  \<^item> \<open>Node\<close>: the world of the tools, a record of the database server, the local files with a schedule of
    file-system faults, the advisory locks of all processes and a counter of drawn identifiers.
  \<^item> \<open>Server\<close>, \<open>Footprint\<close>: which statements and steps leave an observation of the database or the files
    unchanged (\<open>keeps\<close>), and \<open>only_after\<close>: a change or a success happens only in worlds with a property.
  \<^item> \<open>Example_Run\<close>: a scripted server and directory on which whole operations are evaluated.

  \<^bold>\<open>The package.\<close>
  \<^item> \<open>Params\<close> (\<open>params.rs\<close>): parsing, canonical text, matching; the canonical text parses back.
  \<^item> \<open>Persist\<close> (\<open>persist.rs\<close>): the persistence rules over an abstract sink, the locale \<open>change_sink\<close>;
    no-op detection agrees with the numbers, failed transactions keep only gas, nonces and authorities.
  \<^item> \<open>Collect\<close> (\<open>lib.rs\<close>): the collector interprets \<open>change_sink\<close>; collecting a block refines the
    specification of persisted changes.
  \<^item> \<open>Lifecycle\<close> (\<open>lifecycle.rs\<close>): the account in whose context a call executes, as a loop and as an
    inductive relation, and the deletions of a block before and after Cancun.
  \<^item> \<open>Block_State\<close> (\<open>block_state.rs\<close>): rows are produced only for consistent blocks and hold exactly the
    last persisted value of every slot, balance, nonce and code after deletions.
  \<^item> \<open>Db_Out\<close> (\<open>db_out.rs\<close>): rows have distinct keys and hold the latest change; keys of two widths for one
    slot break this, which is a finding.

  \<^bold>\<open>Evidence.\<close>
  \<^item> \<open>Clickhouse\<close> (\<open>ch.rs\<close>): statements, parameters, streamed rows and batched inserts over HTTP.
  \<^item> \<open>Proof\<close> (\<open>proof.rs\<close>): account proofs, metadata, the disk sort and complete storage; acceptance
    determines the account and its complete storage.
  \<^item> \<open>Header\<close> (\<open>header.rs\<close>), \<open>Rpc\<close> (\<open>rpc.rs\<close>): encoded headers and the capture of proofs; a capture is
    bound to one header whatever the provider answers.
  \<^item> \<open>Files\<close> (\<open>files.rs\<close>), \<open>Host\<close> (\<open>host.rs\<close>), \<open>Control\<close> (\<open>control.rs\<close>): atomic replacement under every fault, path
    resolution that always returns, machine identity, ownership of a database, and the locks as a step
    relation over all processes with its invariant.

  \<^bold>\<open>Ingestion.\<close>
  \<^item> \<open>Cursor\<close> (\<open>cursor.rs\<close>): decoding of stream cursors, durable progress that never goes back.
  \<^item> \<open>Capacity\<close> (\<open>capacity.rs\<close>): measured usage counts every inode once; a guard admits only below budget.
  \<^item> \<open>Capacity_Host\<close> (\<open>capacity_host.rs\<close>): host measurements bind every disk and nested mount and leave the files of others alone.
  \<^item> \<open>Ingest\<close> (\<open>ingest.rs\<close>): the identity of a run is never replaced; a supervised run returns and success
    means its stop was reached.
  \<^item> \<open>Bootstrap\<close>, \<open>Compaction\<close> (\<open>bootstrap.rs\<close>): history is discarded only after a covering prefix is committed.
  \<^item> \<open>Source\<close> (\<open>source.rs\<close>), \<open>History\<close> (\<open>history.rs\<close>): qualified inputs and bounds of history cleanup.
  \<^item> \<open>Installer\<close> (\<open>installer.rs\<close>): bounded reading, and that only a program from an archive with the pinned checksum is installed.
  \<^item> \<open>Replay\<close> (\<open>bootstrap.rs\<close>): chunks of ingestion, each compacted; a replay returns after as many chunks as
    its range needs.

  \<^bold>\<open>Checkpoints.\<close>
  \<^item> \<open>Manifest\<close>, \<open>Build\<close> (\<open>checkpoint.rs\<close>): reading, input ranges, and the build; publication happens only
    after every account has been verified against the stored rows.
  \<^item> \<open>Reader\<close> (\<open>reader.rs\<close>): pins and keyset pages; following the cursors reads every row once.
  \<^item> \<open>Retention\<close> (\<open>retention.rs\<close>): what may be removed, and that an interrupted removal leaves no
    published checkpoint without its data.
  \<^item> \<open>Export\<close>, \<open>Export_Order\<close> (\<open>export.rs\<close>), \<open>Import\<close> (\<open>importer.rs\<close>), \<open>Recovery\<close> (\<open>host_recovery.rs\<close>).
  \<^item> \<open>Commitment\<close>: what a state root commits to, and that complete verification then shows the true storage.
  \<^item> \<open>Postgres\<close> (\<open>postgres.rs\<close>): diagnostics of legacy tables; validated snapshots are well formed and a complete
    verification shows the true storage.
  \<^item> \<open>Synthetic\<close> (\<open>synthetic.rs\<close>): fabricated inputs; every fabricated bundle passes verification, and the disk sort
    computes the root of the in-memory reference.
  \<^item> \<open>Read_Check\<close> (\<open>read_qualification.rs\<close>): checked reads of a pinned account; the reading loop ends whatever the
    reader returns, and a measurement that succeeds has read the true storage.
  \<^item> This theory: the storage a published checkpoint holds is the true storage of the accounts.

  \<^bold>\<open>Parameters.\<close>  Code outside the repository is a field of a record that the definitions take:
  \<open>evmlib\<close> (Keccak, RLP, Merkle proofs, the trie builder, hexadecimal and 256-bit text), \<open>chlib\<close> (the HTTP
  client and JSON text), \<open>nodelib\<close> (SHA-256, base64, the cursor cipher, UUIDs, the clock, directory
  listings and machine identity), \<open>portlib\<close> (gzip), \<open>sinklib\<close> (the \<open>substreams\<close> program, URL parsing,
  signals), the environment of \<open>capacity.rs\<close> (Docker, the file tree, free space), \<open>hostenv\<close> (file identities
  and faults on the host), and the tar reader, the download and the trie builder's proof nodes as arguments.  What a result relies
  on is a named hypothesis: the codec locales; \<open>storage_commitment\<close> and \<open>commits\<close> (collision freedom of hashed
  slots, sorted leaf lists and account leaves); \<open>publishing_server\<close>, \<open>history_server\<close> and \<open>observed\<close> (only
  the named statements change the observed tables); \<open>temp_ok\<close>, \<open>ids_plain\<close>, \<open>reparses\<close> (temporary names,
  identifiers and printed JSON are as documented); \<open>sink_spares\<close> (the native program leaves a metadata
  file alone); \<open>synth_ok\<close> and \<open>proves\<close> (words, texts and proof nodes of the fabricated inputs).  Each has a witness on a concrete instance.

  \<^bold>\<open>Bounds and fuel.\<close>  Loops over data are structural.  Path resolution follows at most the number of
  links the source allows.  The supervision of a child process is driven by the list of what its polls
  find; it has no result while the list does not end it, and the results about it show that one ending
  poll is enough.  File-system faults are a finite schedule that is arbitrary in every result; SQLite
  faults are a schedule of the disk sort.  Machine integers keep their 64-bit width.

  \<^bold>\<open>Not modelled.\<close>  Apart from the checked reads, the qualification programs and their fixtures
  (\<open>*_qualification.rs\<close>, \<open>qualification.rs\<close>, \<open>native_stream.rs\<close>, \<open>evm-state-qualify.rs\<close>)
  measure deployments: wall-clock timings, resident memory, gRPC servers and Docker, whose outcome is data
  and not a contract of this code.  \<open>main.rs\<close> maps command lines to the modelled operations and prints
  their results; \<open>process.rs\<close> owns operating-system processes and threads, and appears as the
  result of a captured command.
\<close>

section \<open>What a published checkpoint holds\<close>

text \<open>
  The rows that the database returned for an account of a generation, decoded, are the account's
  true storage: every slot once, with its value, and nothing else.
\<close>

definition holds_truth :: "('w, 'x) nodelib_scheme \<Rightarrow> ClickHouse \<Rightarrow> string \<Rightarrow> (bytes \<Rightarrow> (bytes \<times> nat) list) \<Rightarrow> string \<Rightarrow> u64 \<Rightarrow> bool" where
  "holds_truth L client snapshot_id truth a n \<longleftrightarrow> (\<exists>addr raw query rs w w' svs es.
     address (nl_evm L) a = Inr addr \<and> fixed (nl_evm L) 20 addr = Inr raw \<and>
     map_of query ''id'' = Some (JStr snapshot_id) \<and> map_of query ''address'' = Some (JStr a) \<and> rows L client slots_sql query w = (Inr rs, w') \<and>
     map slot_row (collect_rows L rs) = map Inr svs \<and> map_res (decode_slot (nl_evm L)) svs = Inr es \<and>
     distinct (map fst es) \<and> set es = set (truth raw) \<and> n = of_nat (length (truth raw)))"

lemma verified_holds_truth:
  assumes "rlp_ok (nl_evm L)" "storage_commitment (keccak256 (nl_evm L)) (trie_root (nl_evm L))" "commits (nl_evm L) root truth"
    and "string_field (index bundle' ''header'') ''state_root'' = Inr state_root" "fixed (nl_evm L) 32 state_root = Inr root"
    and "verified_account L sqlite client bundle' known snapshot_id a n"
  shows "holds_truth L client snapshot_id truth a n"
proof -
  from assms(6) obtain proven metadata code query rs w w' where d:
      "account_evidence L bundle' known a = Inr (proven, metadata, code)"
      "map_of query ''id'' = Some (JStr snapshot_id)" "map_of query ''address'' = Some (JStr a)"
      "rows L client slots_sql query w = (Inr rs, w')"
      "verify_complete (nl_evm L) (sqlite a) proven (map slot_row (collect_rows L rs)) code metadata = Inr n"
    unfolding verified_account_def by blast
  from d(1) assms(4) have "verify_account (nl_evm L) state_root a (index (index (index bundle' ''accounts'') a) ''proof'') = Inr proven"
    by (auto simp: account_evidence_def Let_def bnd_Inr_iff)
  from complete_true [OF assms(1-3,5) this d(5)] obtain addr raw svs es where e: "address (nl_evm L) a = Inr addr" "fixed (nl_evm L) 20 addr = Inr raw"
      "map slot_row (collect_rows L rs) = map Inr svs" "map_res (decode_slot (nl_evm L)) svs = Inr es"
      "distinct (map fst es)" "set es = set (truth raw)" "n = of_nat (length (truth raw))" by blast
  show ?thesis
    unfolding holds_truth_def by (intro exI conjI) (rule d(2-4) e)+
qed


section \<open>A concrete commitment\<close>

definition ex_true_lib :: "string list nodelib" where
  "ex_true_lib = ex_publish_lib\<lparr>nl_evm := ex_true_evm\<rparr>"

lemma ex_true_lib_evm [simp]: "nl_evm ex_true_lib = ex_true_evm"
  by (simp add: ex_true_lib_def)

lemma ex_true_publishing: "publishing_server ex_true_lib (\<lambda>w. w)"
  using ex_publishing by (simp add: publishing_server_def observed_def ex_true_lib_def)

definition ex_bundle :: json where
  "ex_bundle = JObj [(''header'', JObj [(''state_root'', JStr (hex32 6))])]"


end
